(* ===== verification/Prelude.thy ===== *)
theory Prelude
  imports Main "HOL-Library.Word" "HOL-Library.Monad_Syntax"
begin

text \<open>
  The shared ground of the development: the machine types of the kernel (bytes, 16-bit and
  32-bit words), the byte-addressed memory the C code works on, little-endian access to it,
  memory regions with the wrap-around of 32-bit addresses written out, NUL-terminated strings,
  and the reference memory transformers (\<open>fill\<close>, \<open>blit\<close>, \<open>poke\<close>) against which the
  optimised routines of \<^verbatim>\<open>lib.c\<close> are proved.

  Memory is a total function from 32-bit linear addresses to bytes.  A read-only C pointer
  argument (\<^verbatim>\<open>const int8_t*\<close>) is the function from index to byte that the pointer gives
  (type \<open>cptr\<close>); \<open>ptr m p\<close> is that function for the address \<open>p\<close> in the memory \<open>m\<close>.
  A C operation that may never come back is a function into \<open>option\<close>: \<open>None\<close> says that
  control does not return to the caller, because a loop of the code runs for ever or because the
  CPU takes an exception, whose handlers (\<^verbatim>\<open>idt.c\<close>) all end in \<^verbatim>\<open>while(1)\<close>.
\<close>

unbundle bit_operations_syntax

section \<open>Types and memory access\<close>

type_synonym byte = "8 word"
type_synonym u16 = "16 word"
type_synonym u32 = "32 word"
type_synonym mem = "u32 \<Rightarrow> byte"
type_synonym cptr = "u32 \<Rightarrow> byte"

text \<open>Facts that read a field or a byte of an updated memory; the component theories add to it.\<close>

named_theorems mem_simps

definition ptr :: "mem \<Rightarrow> u32 \<Rightarrow> cptr" where
  "ptr m p = (\<lambda>i. m (p + i))"

definition byte_of :: "nat \<Rightarrow> u32 \<Rightarrow> byte" where
  "byte_of k v = ucast (drop_bit (8 * k) v)"

definition join32 :: "byte \<Rightarrow> byte \<Rightarrow> byte \<Rightarrow> byte \<Rightarrow> u32" where
  "join32 b0 b1 b2 b3 = ucast b0 OR push_bit 8 (ucast b1) OR push_bit 16 (ucast b2) OR push_bit 24 (ucast b3)"

definition load32 :: "mem \<Rightarrow> u32 \<Rightarrow> u32" where
  "load32 m a = join32 (m a) (m (a + 1)) (m (a + 2)) (m (a + 3))"

definition store32 :: "mem \<Rightarrow> u32 \<Rightarrow> u32 \<Rightarrow> mem" where
  "store32 m a v = m(a := byte_of 0 v, a + 1 := byte_of 1 v, a + 2 := byte_of 2 v, a + 3 := byte_of 3 v)"

definition within :: "u32 \<Rightarrow> nat \<Rightarrow> u32 \<Rightarrow> bool" where
  "within p n a \<longleftrightarrow> unat (a - p) < n"

definition separate :: "u32 \<Rightarrow> nat \<Rightarrow> u32 \<Rightarrow> nat \<Rightarrow> bool" where
  "separate p n q k \<longleftrightarrow> n \<le> unat (q - p) \<and> k \<le> unat (p - q)"

definition bytes_at :: "cptr \<Rightarrow> nat \<Rightarrow> byte list" where
  "bytes_at s n = map (\<lambda>i. s (of_nat i)) [0..<n]"

definition cstr :: "cptr \<Rightarrow> byte list \<Rightarrow> bool" where
  "cstr s xs \<longleftrightarrow> length xs < 4294967296 \<and> bytes_at s (length xs) = xs \<and> 0 \<notin> set xs \<and> s (of_nat (length xs)) = 0"

definition fill :: "mem \<Rightarrow> u32 \<Rightarrow> nat \<Rightarrow> byte \<Rightarrow> mem" where
  "fill m p n b = (\<lambda>a. if within p n a then b else m a)"

definition blit :: "mem \<Rightarrow> u32 \<Rightarrow> u32 \<Rightarrow> nat \<Rightarrow> mem" where
  "blit m dest src n = (\<lambda>a. if within dest n a then m (src + (a - dest)) else m a)"

definition forward_safe :: "u32 \<Rightarrow> u32 \<Rightarrow> nat \<Rightarrow> bool" where
  "forward_safe dest src n \<longleftrightarrow> dest = src \<or> n \<le> unat (dest - src)"

definition poke :: "mem \<Rightarrow> u32 \<Rightarrow> byte list \<Rightarrow> mem" where
  "poke m p bs = (\<lambda>a. if within p (length bs) a then bs ! unat (a - p) else m a)"

text \<open>The bytes of a C string literal, without the terminating NUL.\<close>

definition lit :: "string \<Rightarrow> byte list" where
  "lit s = map of_char s"

section \<open>Words\<close>

lemma unat_of_nat_u32 [simp]: "i < 4294967296 \<Longrightarrow> unat (of_nat i :: u32) = i"
  by (simp add: unat_of_nat take_bit_nat_eq_self)

lemma unat_lt_u32 [simp]: "unat (a :: u32) < 4294967296"
  using unsigned_less [of a] by simp

lemma unat_le_u32 [simp]: "unat (a :: u32) \<le> 4294967296" "unat (a :: u32) \<le> 4294967295"
  using unat_lt_u32 [of a] by linarith+

lemma of_nat_u32_inj: "i < 4294967296 \<Longrightarrow> j < 4294967296 \<Longrightarrow> (of_nat i :: u32) = of_nat j \<longleftrightarrow> i = j"
  by (metis unat_of_nat_u32)

lemma add_of_nat_u32_inj:
  "i < 4294967296 \<Longrightarrow> j < 4294967296 \<Longrightarrow> (p :: u32) + of_nat i = p + of_nat j \<longleftrightarrow> i = j"
  by (simp add: of_nat_u32_inj)

lemma unat_succ_less: "(i :: u32) < n \<Longrightarrow> unat (i + 1) = Suc (unat i)"
proof -
  assume "i < n"
  then have "unat i < unat n" by (simp add: word_less_nat_alt)
  then have "unat i + 1 < 4294967296" using unat_lt_u32 [of n] by linarith
  then show ?thesis by (simp add: unat_plus_if')
qed

lemma unat_minus_one_u32: "(n :: u32) \<noteq> 0 \<Longrightarrow> unat (n - 1) = unat n - 1"
  by (simp add: unat_minus_one)

lemma unat_Suc_pred: "(n :: u32) \<noteq> 0 \<Longrightarrow> unat n = Suc (unat (n - 1))"
  by (simp add: unat_minus_one_u32 unat_gt_0)

lemma unat_minus_of_nat_u32:
  assumes "n < 4294967296"
  shows "unat (d - of_nat n :: u32) = (if n \<le> unat d then unat d - n else unat d + 4294967296 - n)"
  using assms by (simp add: unat_sub_if')

lemma and_3_u32: "(n :: u32) AND 3 = n mod 4"
  using take_bit_eq_mask [of 2 n] by (simp add: take_bit_eq_mod mask_eq_exp_minus_1)

lemma add_of_int_u32_inj:
  assumes "0 \<le> x" "x < 4294967296" "0 \<le> y" "y < 4294967296"
  shows "(s :: u32) + of_int x = s + of_int y \<longleftrightarrow> x = y"
proof -
  have "uint (of_int x :: u32) = x" "uint (of_int y :: u32) = y"
    using assms by (simp_all add: uint_word_of_int)
  then show ?thesis by (metis add_left_cancel)
qed

lemma unat_drop_bit_2: "unat (drop_bit 2 (n :: u32)) = unat n div 4"
  by (simp add: unat_drop_bit_eq drop_bit_eq_div unat_div_distrib)

lemma unat_and_3: "unat ((n :: u32) AND 3) = unat n mod 4"
  by (simp add: and_3_u32 unat_mod_distrib)

lemma quad_bound: "4 * unat (drop_bit 2 (n :: u32)) < 4294967296"
  using unat_lt_u32 [of n] unfolding unat_drop_bit_2 by linarith

lemma quad_advance: "(p :: u32) + 4 * drop_bit 2 n = p + of_nat (4 * (unat n div 4))"
  by (simp flip: unat_drop_bit_2)

lemma sint_diff_0: "sint (a :: byte) - sint b = 0 \<longleftrightarrow> a = b"
  by (metis eq_iff_diff_eq_0 signed_word_eqI)

lemma sint_len_minus_1:
  assumes "L < 2147483648"
  shows "sint (of_nat L - 1 :: u32) = int L - 1"
proof -
  have "sint (of_int (int L - 1) :: u32) = int L - 1"
    using assms by (subst sint_sbintrunc') (simp add: signed_take_bit_int_eq_self)
  then show ?thesis by simp
qed

section \<open>Regions\<close>

lemma within_iff: "within p n a \<longleftrightarrow> (\<exists>i < n. i < 4294967296 \<and> a = p + of_nat i)"
proof
  assume w: "within p n a"
  show "\<exists>i < n. i < 4294967296 \<and> a = p + of_nat i"
    by (rule exI [of _ "unat (a - p)"]) (use w in \<open>simp add: within_def\<close>)
qed (auto simp: within_def)

lemma within_offset [simp]: "i < 4294967296 \<Longrightarrow> within p n (p + of_nat i) \<longleftrightarrow> i < n"
  by (simp add: within_def)

lemma within_add:
  assumes "n + k \<le> 4294967296"
  shows "within p (n + k) a \<longleftrightarrow> within p n a \<or> within (p + of_nat n) k a"
proof (cases "k = 0")
  case True
  then show ?thesis by (simp add: within_def)
next
  case False
  then have n: "n < 4294967296" using assms by simp
  have "a - (p + of_nat n) = (a - p) - of_nat n" by simp
  then have "unat (a - (p + of_nat n)) = (if n \<le> unat (a - p) then unat (a - p) - n else unat (a - p) + 4294967296 - n)"
    using unat_minus_of_nat_u32 [OF n] by metis
  then show ?thesis using assms unfolding within_def by auto
qed

lemma within_add_disjoint:
  assumes "n + k \<le> 4294967296" and "within (p + of_nat n) k a"
  shows "n \<le> unat (a - p)"
proof -
  obtain j where "j < k" "a = p + of_nat n + of_nat j" using assms(2) by (auto simp: within_iff)
  then have "a - p = of_nat (n + j)" and "n + j < 4294967296" using assms(1) by simp_all
  then show ?thesis by (simp del: of_nat_add)
qed

lemma within_Suc: "n < 4294967296 \<Longrightarrow> within p (Suc n) a \<longleftrightarrow> a = p \<or> within (p + 1) n a"
  using within_add [of 1 n p a] by (simp add: within_def unat_eq_zero)

lemma within_0 [simp]: "\<not> within p 0 a"
  by (simp add: within_def)

lemma within_1 [simp]: "within p (Suc 0) a \<longleftrightarrow> a = p"
  using within_Suc [of 0 p a] by simp

lemma within_2: "within p 2 a \<longleftrightarrow> a = p \<or> a = p + 1"
  using within_Suc [of "Suc 0" p a] by (simp add: numeral_2_eq_2)

lemma within_4: "within p 4 a \<longleftrightarrow> a = p \<or> a = p + 1 \<or> a = p + 2 \<or> a = p + 3"
  using within_add [of 2 2 p a] by (simp add: within_2 add.assoc)

lemma separate_neq:
  assumes "separate p n q k" and "i < n" and "j < k" and "i < 4294967296" and "j < 4294967296"
  shows "p + of_nat i \<noteq> q + of_nat j"
proof
  assume eq: "p + of_nat i = q + of_nat j"
  show False
  proof (cases "j \<le> i")
    case True
    from eq have "q - p = of_nat i - of_nat j" by (simp add: algebra_simps)
    then have "q - p = of_nat (i - j)" using True by simp
    then have "unat (q - p) = i - j" using assms by simp
    then show False using assms unfolding separate_def by linarith
  next
    case False
    from eq have "p - q = of_nat j - of_nat i" by (simp add: algebra_simps)
    then have "p - q = of_nat (j - i)" using False by simp
    then have "unat (p - q) = j - i" using assms by simp
    then show False using assms unfolding separate_def by linarith
  qed
qed

lemma separate_sym: "separate p n q k \<longleftrightarrow> separate q k p n"
  by (auto simp: separate_def)

lemma separate_within:
  assumes "separate p n q k" and "within p n a"
  shows "\<not> within q k a"
proof
  assume "within q k a"
  then obtain j where "j < k" "j < 4294967296" "a = q + of_nat j" by (auto simp: within_iff)
  moreover obtain i where "i < n" "i < 4294967296" "a = p + of_nat i"
    using assms(2) by (auto simp: within_iff)
  ultimately show False using separate_neq [OF assms(1)] by metis
qed

section \<open>Little-endian access\<close>

lemma join32_bytes [simp]: "join32 (byte_of 0 v) (byte_of (Suc 0) v) (byte_of 2 v) (byte_of 3 v) = v"
proof (rule bit_word_eqI)
  fix n assume "n < LENGTH(32)"
  then have "n < 8 \<or> (8 \<le> n \<and> n < 16) \<or> (16 \<le> n \<and> n < 24) \<or> (24 \<le> n \<and> n < 32)" by auto
  then show "bit (join32 (byte_of 0 v) (byte_of (Suc 0) v) (byte_of 2 v) (byte_of 3 v)) n = bit v n"
    by (auto simp: join32_def byte_of_def bit_simps)
qed

lemma byte_of_join32 [simp]:
  "byte_of 0 (join32 b0 b1 b2 b3) = b0" "byte_of (Suc 0) (join32 b0 b1 b2 b3) = b1"
  "byte_of 2 (join32 b0 b1 b2 b3) = b2" "byte_of 3 (join32 b0 b1 b2 b3) = b3"
  by (rule bit_word_eqI; auto simp: join32_def byte_of_def bit_simps dest: bit_imp_le_length)+

lemma load32_store32_same [simp]: "load32 (store32 m a v) a = v"
  by (simp add: load32_def store32_def)

lemma store32_other: "\<not> within a 4 b \<Longrightarrow> store32 m a v b = m b"
proof -
  assume *: "\<not> within a 4 b"
  then show ?thesis by (simp add: store32_def within_4)
qed

lemma load32_cong: "(\<And>i. i < 4 \<Longrightarrow> m (a + of_nat i) = m' (a + of_nat i)) \<Longrightarrow> load32 m a = load32 m' a"
proof -
  assume *: "\<And>i. i < 4 \<Longrightarrow> m (a + of_nat i) = m' (a + of_nat i)"
  show ?thesis using *[of 0] *[of 1] *[of 2] *[of 3] by (simp add: load32_def)
qed

lemma load32_store32_other: "separate a 4 b 4 \<Longrightarrow> load32 (store32 m a v) b = load32 m b"
proof (rule load32_cong, rule store32_other)
  fix i :: nat assume "separate a 4 b 4" and "i < 4"
  then show "\<not> within a 4 (b + of_nat i)"
    using separate_within [of b 4 a 4 "b + of_nat i"] separate_sym [of a 4 b 4] by simp
qed

section \<open>Strings\<close>

lemma length_bytes_at [simp]: "length (bytes_at s n) = n"
  by (simp add: bytes_at_def)

lemma nth_bytes_at [simp]: "i < n \<Longrightarrow> bytes_at s n ! i = s (of_nat i)"
  by (simp add: bytes_at_def)

lemma bytes_at_cong: "(\<And>i. i < n \<Longrightarrow> s (of_nat i) = t (of_nat i)) \<Longrightarrow> bytes_at s n = bytes_at t n"
  by (simp add: bytes_at_def)

lemma ptr_apply [simp]: "ptr m p i = m (p + i)"
  by (simp add: ptr_def)

lemma cstr_nth: "cstr s xs \<Longrightarrow> i < length xs \<Longrightarrow> s (of_nat i) = xs ! i"
  unfolding cstr_def by (metis nth_bytes_at)

lemma cstr_nonzero: "cstr s xs \<Longrightarrow> i < length xs \<Longrightarrow> s (of_nat i) \<noteq> 0"
  unfolding cstr_def by (metis nth_bytes_at nth_mem)

lemma cstr_end: "cstr s xs \<Longrightarrow> s (of_nat (length xs)) = 0"
  by (simp add: cstr_def)

lemma cstrI:
  assumes "length xs < 4294967296" and "\<And>i. i < length xs \<Longrightarrow> s (of_nat i) = xs ! i"
    and "0 \<notin> set xs" and "s (of_nat (length xs)) = 0"
  shows "cstr s xs"
  using assms by (auto simp: cstr_def intro: nth_equalityI)

lemma cstr_length_unique:
  assumes "cstr s xs" and "cstr s ys"
  shows "\<not> length xs < length ys"
  using cstr_nonzero [OF assms(2), of "length xs"] cstr_end [OF assms(1)] by auto

lemma cstr_unique:
  assumes "cstr s xs" and "cstr s ys"
  shows "xs = ys"
proof -
  have "length xs = length ys"
    using cstr_length_unique [OF assms] cstr_length_unique [OF assms(2,1)] by simp
  moreover have "bytes_at s (length xs) = xs" "bytes_at s (length ys) = ys"
    using assms by (simp_all add: cstr_def)
  ultimately show ?thesis by metis
qed

lemma first_zero_cstr:
  assumes "s i = 0"
  obtains xs where "cstr s xs"
proof -
  let ?n = "LEAST n. s (of_nat n) = 0"
  have i: "s (of_nat (unat i)) = 0" using assms by simp
  then have z: "s (of_nat ?n) = 0" by (rule LeastI)
  have le: "?n \<le> unat i" using i by (rule Least_le)
  have nz: "s (of_nat k) \<noteq> 0" if "k < ?n" for k using not_less_Least [OF that] .
  have "?n < 4294967296" using le unat_lt_u32 [of i] by linarith
  then have "cstr s (bytes_at s ?n)"
    using z nz by (auto simp: cstr_def in_set_conv_nth)
  then show ?thesis using that by blast
qed

section \<open>Reference memory transformers\<close>

lemma fill_0 [simp]: "fill m p 0 b = m"
  by (simp add: fill_def)

lemma fill_add: "n + k \<le> 4294967296 \<Longrightarrow> fill (fill m p n b) (p + of_nat n) k b = fill m p (n + k) b"
  by (auto simp: fill_def within_add fun_eq_iff)

lemma fill_Suc: "n < 4294967296 \<Longrightarrow> fill (m(p := b)) (p + 1) n b = fill m p (Suc n) b"
  by (auto simp: fill_def within_Suc fun_eq_iff)

lemma store32_fill:
  assumes "\<And>k. k < 4 \<Longrightarrow> byte_of k v = b"
  shows "store32 m p v = fill m p 4 b"
  using assms [of 0] assms [of 1] assms [of 2] assms [of 3]
  by (auto simp: fill_def within_4 store32_def fun_eq_iff)

lemma forward_safe_mono: "forward_safe d s n \<Longrightarrow> k \<le> n \<Longrightarrow> forward_safe d s k"
  by (auto simp: forward_safe_def)

lemma forward_safe_shift [simp]: "forward_safe (d + x) (s + x) n \<longleftrightarrow> forward_safe d s n"
  by (simp add: forward_safe_def)

lemma blit_0 [simp]: "blit m d s 0 = m"
  by (simp add: blit_def)

lemma blit_offset:
  assumes "i < n" and "i < 4294967296"
  shows "blit m d s n (d + of_nat i) = m (s + of_nat i)"
  using assms by (simp add: blit_def)

lemma blit_read_ahead:
  assumes "forward_safe d s (n + k)" and "n + k \<le> 4294967296" and "j < k"
  shows "blit m d s n (s + of_nat (n + j)) = m (s + of_nat (n + j))"
proof (cases "d = s \<or> \<not> within d n (s + of_nat (n + j))")
  case True
  then show ?thesis by (auto simp: blit_def)
next
  case False
  then obtain i where i: "i < n" "s + of_nat (n + j) = d + of_nat i"
    by (auto simp: within_iff)
  then have "d - s = of_nat (n + j) - of_nat i" by (simp add: algebra_simps)
  also have "\<dots> = of_nat (n + j - i)" using i(1) by simp
  finally have "unat (d - s) = n + j - i"
    using assms(2,3) i(1) by (simp del: of_nat_diff)
  then show ?thesis using False assms unfolding forward_safe_def by simp
qed

lemma blit_add:
  assumes "forward_safe d s (n + k)" and "n + k \<le> 4294967296"
  shows "blit (blit m d s n) (d + of_nat n) (s + of_nat n) k = blit m d s (n + k)"
proof
  fix a
  show "blit (blit m d s n) (d + of_nat n) (s + of_nat n) k a = blit m d s (n + k) a"
  proof (cases "within (d + of_nat n) k a")
    case True
    then obtain j where j: "j < k" "a = d + of_nat n + of_nat j"
      by (auto simp: within_iff)
    then have a: "a = d + of_nat (n + j)" by simp
    have "blit (blit m d s n) (d + of_nat n) (s + of_nat n) k a = blit m d s n (s + of_nat (n + j))"
      using True j by (simp add: blit_def [of _ "d + of_nat n"] add.assoc)
    also have "\<dots> = m (s + of_nat (n + j))"
      using blit_read_ahead [OF assms j(1)] .
    also have "\<dots> = blit m d s (n + k) a"
      unfolding a using j assms by (subst blit_offset) auto
    finally show ?thesis .
  next
    case False
    then show ?thesis using assms by (auto simp: blit_def within_add)
  qed
qed

lemma blit_1: "blit m d s (Suc 0) = m(d := m s)"
  by (auto simp: blit_def)

lemma blit_Suc:
  assumes "forward_safe d s (Suc n)" and "Suc n \<le> 4294967296"
  shows "blit (m(d := m s)) (d + 1) (s + 1) n = blit m d s (Suc n)"
  using blit_add [of d s "Suc 0" n m] assms by (simp add: blit_1)

lemma store32_load32_blit: "store32 m d (load32 m s) = blit m d s 4"
  by (auto simp: blit_def within_4 store32_def load32_def fun_eq_iff)

lemma blit_snoc:
  assumes "forward_safe src dest (Suc k)" and "k < 4294967296"
  shows "blit (m(dest + of_nat k := m (src + of_nat k))) dest src k = blit m dest src (Suc k)"
proof
  fix a
  have split: "within dest (Suc k) a \<longleftrightarrow> within dest k a \<or> a = dest + of_nat k"
    using within_add [of k 1 dest a] assms(2) by simp
  show "blit (m(dest + of_nat k := m (src + of_nat k))) dest src k a = blit m dest src (Suc k) a"
  proof (cases "within dest k a")
    case True
    then obtain i where i: "i < k" "a = dest + of_nat i" by (auto simp: within_iff)
    have "src + of_nat i \<noteq> dest + of_nat k \<or> src = dest"
    proof (rule ccontr)
      assume h: "\<not> ?thesis"
      then have "src - dest = of_nat k - of_nat i" by (simp add: algebra_simps)
      also have "\<dots> = of_nat (k - i)" using i(1) by simp
      finally have "unat (src - dest) = k - i" using assms(2) i(1) by (simp del: of_nat_diff)
      then show False using h assms(1) by (simp add: forward_safe_def)
    qed
    then show ?thesis using True i split by (auto simp: blit_def)
  next
    case False
    then show ?thesis using split by (auto simp: blit_def)
  qed
qed

lemma poke_Nil [simp]: "poke m p [] = m"
  by (simp add: poke_def)

lemma poke_append:
  assumes "length xs + length ys \<le> 4294967296"
  shows "poke (poke m p xs) (p + of_nat (length xs)) ys = poke m p (xs @ ys)"
proof
  fix a
  show "poke (poke m p xs) (p + of_nat (length xs)) ys a = poke m p (xs @ ys) a"
  proof (cases "within (p + of_nat (length xs)) (length ys) a")
    case True
    then obtain j where j: "j < length ys" "a = p + of_nat (length xs) + of_nat j"
      by (auto simp: within_iff)
    have "unat (a - p) = length xs + j"
    proof -
      have "a - p = of_nat (length xs + j)" using j by simp
      then show ?thesis using j assms by (simp del: of_nat_add)
    qed
    then show ?thesis using True j assms
      by (simp add: poke_def within_add nth_append)
  next
    case False
    then have "within p (length xs + length ys) a \<longleftrightarrow> within p (length xs) a"
      using assms by (simp add: within_add)
    then show ?thesis using False by (auto simp: poke_def nth_append within_def)
  qed
qed

lemma poke_single: "poke m p [b] = m(p := b)"
  by (auto simp: poke_def)

lemma poke_Cons: "length bs < 4294967296 \<Longrightarrow> poke (m(p := b)) (p + 1) bs = poke m p (b # bs)"
  using poke_append [of "[b]" bs m p] by (simp add: poke_single)

lemma bytes_at_poke [simp]:
  "length bs \<le> 4294967296 \<Longrightarrow> bytes_at (ptr (poke m p bs) p) (length bs) = bs"
  by (rule nth_equalityI) (auto simp: poke_def)

lemma poke_at:
  "i < 4294967296 \<Longrightarrow> poke m p bs (p + of_nat i) = (if i < length bs then bs ! i else m (p + of_nat i))"
  by (simp add: poke_def)

lemma mem_eqI: "(\<And>i. i < 4294967296 \<Longrightarrow> m (p + of_nat i) = m' (p + of_nat i)) \<Longrightarrow> m = (m' :: mem)"
proof
  fix a assume *: "\<And>i. i < 4294967296 \<Longrightarrow> m (p + of_nat i) = m' (p + of_nat i)"
  show "m a = m' a" using * [of "unat (a - p)"] by simp
qed

lemma poke_other: "\<not> within p (length bs) a \<Longrightarrow> poke m p bs a = m a"
  by (simp add: poke_def)

lemma poke_poke_same: "length bs = length cs \<Longrightarrow> poke (poke m p bs) p cs = poke m p cs"
  by (auto simp: poke_def)

lemma cstr_poke: "0 \<notin> set xs \<Longrightarrow> length xs < 4294967296 \<Longrightarrow> cstr (ptr (poke m s (xs @ [0])) s) xs"
  by (rule cstrI) (auto simp: poke_at nth_append)

end
