(* ===== verification/LibMem.thy ===== *)
theory LibMem
  imports Prelude
begin

text \<open>
  The memory routines of \<^verbatim>\<open>student-distrib/lib.c\<close>: \<open>memset\<close>, \<open>memset_word\<close>,
  \<open>memset_dword\<close>, \<open>memcpy\<close> and \<open>memmove\<close>.  They are inline assembly, so the model follows
  the instructions: one function per label or \<^verbatim>\<open>rep\<close> instruction, over the registers the code
  uses (\<open>edi\<close>, \<open>esi\<close>, \<open>ecx\<close>, \<open>edx\<close>, \<open>eax\<close>) and the direction flag.  Registers are 32-bit
  words and the addresses wrap.  The lemmas prove the assembly equal to the one-line reference
  transformers of the prelude, the direction flag's final value included.
\<close>

unbundle bit_operations_syntax

section \<open>memset\<close>

text \<open>\<^verbatim>\<open>rep stosl\<close> with the direction flag clear: returns the memory and the final \<open>edi\<close>.\<close>

function rep_stosl :: "mem \<Rightarrow> u32 \<Rightarrow> u32 \<Rightarrow> u32 \<Rightarrow> mem \<times> u32" where
  "rep_stosl m edi ecx eax =
     (if ecx = 0 then (m, edi)
      else rep_stosl (store32 m edi eax) (edi + 4) (ecx - 1) eax)"
  by pat_completeness auto
termination
  by (relation "measure (\<lambda>(m, edi, ecx, eax). unat ecx)") (auto simp: measure_unat)

declare rep_stosl.simps [simp del]

text \<open>The labels \<^verbatim>\<open>.memset_bottom\<close>, \<^verbatim>\<open>.memset_aligned\<close> and \<^verbatim>\<open>.memset_top\<close>.\<close>

function memset_bottom :: "mem \<Rightarrow> u32 \<Rightarrow> u32 \<Rightarrow> u32 \<Rightarrow> mem" where
  "memset_bottom m edi edx eax =
     (if edx = 0 then m
      else memset_bottom (m(edi := ucast eax)) (edi + 1) (edx - 1) eax)"
  by pat_completeness auto
termination
  by (relation "measure (\<lambda>(m, edi, edx, eax). unat edx)") (auto simp: measure_unat)

declare memset_bottom.simps [simp del]

definition memset_aligned :: "mem \<Rightarrow> u32 \<Rightarrow> u32 \<Rightarrow> u32 \<Rightarrow> mem" where
  "memset_aligned m edi ecx eax =
     (let edx = ecx AND 3; (m1, edi1) = rep_stosl m edi (drop_bit 2 ecx) eax
      in memset_bottom m1 edi1 edx eax)"

function memset_top :: "mem \<Rightarrow> u32 \<Rightarrow> u32 \<Rightarrow> u32 \<Rightarrow> mem" where
  "memset_top m edi ecx eax =
     (if ecx = 0 then m
      else if edi AND 3 = 0 then memset_aligned m edi ecx eax
      else memset_top (m(edi := ucast eax)) (edi + 1) (ecx - 1) eax)"
  by pat_completeness auto
termination
  by (relation "measure (\<lambda>(m, edi, ecx, eax). unat ecx)") (auto simp: measure_unat)

declare memset_top.simps [simp del]

definition memset :: "mem \<Rightarrow> u32 \<Rightarrow> u32 \<Rightarrow> u32 \<Rightarrow> mem" where
  "memset m s c n =
     (let c' = c AND 0xFF
      in memset_top m s n (push_bit 24 c' OR push_bit 16 c' OR push_bit 8 c' OR c'))"

section \<open>memset\_word and memset\_dword\<close>

definition store16 :: "mem \<Rightarrow> u32 \<Rightarrow> u32 \<Rightarrow> mem" where
  "store16 m a v = m(a := byte_of 0 v, a + 1 := byte_of 1 v)"

function rep_stosw :: "mem \<Rightarrow> u32 \<Rightarrow> u32 \<Rightarrow> u32 \<Rightarrow> mem" where
  "rep_stosw m edi ecx eax =
     (if ecx = 0 then m
      else rep_stosw (store16 m edi eax) (edi + 2) (ecx - 1) eax)"
  by pat_completeness auto
termination
  by (relation "measure (\<lambda>(m, edi, ecx, eax). unat ecx)") (auto simp: measure_unat)

declare rep_stosw.simps [simp del]

definition memset_word :: "mem \<Rightarrow> u32 \<Rightarrow> u32 \<Rightarrow> u32 \<Rightarrow> mem" where
  "memset_word m s c n = rep_stosw m s n c"

definition memset_dword :: "mem \<Rightarrow> u32 \<Rightarrow> u32 \<Rightarrow> u32 \<Rightarrow> mem" where
  "memset_dword m s c n = fst (rep_stosl m s n c)"

section \<open>memcpy\<close>

function rep_movsl :: "mem \<Rightarrow> u32 \<Rightarrow> u32 \<Rightarrow> u32 \<Rightarrow> mem \<times> u32 \<times> u32" where
  "rep_movsl m edi esi ecx =
     (if ecx = 0 then (m, edi, esi)
      else rep_movsl (store32 m edi (load32 m esi)) (edi + 4) (esi + 4) (ecx - 1))"
  by pat_completeness auto
termination
  by (relation "measure (\<lambda>(m, edi, esi, ecx). unat ecx)") (auto simp: measure_unat)

declare rep_movsl.simps [simp del]

function memcpy_bottom :: "mem \<Rightarrow> u32 \<Rightarrow> u32 \<Rightarrow> u32 \<Rightarrow> mem" where
  "memcpy_bottom m edi esi edx =
     (if edx = 0 then m
      else memcpy_bottom (m(edi := m esi)) (edi + 1) (esi + 1) (edx - 1))"
  by pat_completeness auto
termination
  by (relation "measure (\<lambda>(m, edi, esi, edx). unat edx)") (auto simp: measure_unat)

declare memcpy_bottom.simps [simp del]

definition memcpy_aligned :: "mem \<Rightarrow> u32 \<Rightarrow> u32 \<Rightarrow> u32 \<Rightarrow> mem" where
  "memcpy_aligned m edi esi ecx =
     (let edx = ecx AND 3; (m1, edi1, esi1) = rep_movsl m edi esi (drop_bit 2 ecx)
      in memcpy_bottom m1 edi1 esi1 edx)"

function memcpy_top :: "mem \<Rightarrow> u32 \<Rightarrow> u32 \<Rightarrow> u32 \<Rightarrow> mem" where
  "memcpy_top m edi esi ecx =
     (if ecx = 0 then m
      else if edi AND 3 = 0 then memcpy_aligned m edi esi ecx
      else memcpy_top (m(edi := m esi)) (edi + 1) (esi + 1) (ecx - 1))"
  by pat_completeness auto
termination
  by (relation "measure (\<lambda>(m, edi, esi, ecx). unat ecx)") (auto simp: measure_unat)

declare memcpy_top.simps [simp del]

definition memcpy :: "mem \<Rightarrow> u32 \<Rightarrow> u32 \<Rightarrow> u32 \<Rightarrow> mem" where
  "memcpy m dest src n = memcpy_top m dest src n"

section \<open>memmove\<close>

text \<open>The second component of the result is the direction flag on return.\<close>

function rep_movsb :: "bool \<Rightarrow> mem \<Rightarrow> u32 \<Rightarrow> u32 \<Rightarrow> u32 \<Rightarrow> mem" where
  "rep_movsb df m edi esi ecx =
     (if ecx = 0 then m
      else rep_movsb df (m(edi := m esi)) (if df then edi - 1 else edi + 1)
             (if df then esi - 1 else esi + 1) (ecx - 1))"
  by pat_completeness auto
termination
  by (relation "measure (\<lambda>(df, m, edi, esi, ecx). unat ecx)") (auto simp: measure_unat)

declare rep_movsb.simps [simp del]

definition memmove :: "mem \<Rightarrow> u32 \<Rightarrow> u32 \<Rightarrow> u32 \<Rightarrow> mem \<times> bool" where
  "memmove m dest src n =
     (if dest \<le> src then (rep_movsb False m dest src n, False)
      else (rep_movsb True m (dest + n - 1) (src + n - 1) n, True))"

section \<open>The assembly computes the reference transformers\<close>

lemma memset_bottom_fill: "memset_bottom m edi edx eax = fill m edi (unat edx) (ucast eax)"
proof (induction "unat edx" arbitrary: m edi edx)
  case 0
  then show ?case by (simp add: memset_bottom.simps unat_eq_zero)
next
  case (Suc k)
  then have "edx \<noteq> 0" by auto
  with Suc unat_Suc_pred [of edx] show ?case
    by (simp add: memset_bottom.simps [of m edi] fill_Suc)
qed

lemma rep_stosl_fill:
  assumes b: "\<And>k. k < 4 \<Longrightarrow> byte_of k eax = b" and "4 * unat ecx < 4294967296"
  shows "rep_stosl m edi ecx eax = (fill m edi (4 * unat ecx) b, edi + 4 * ecx)"
  using assms(2)
proof (induction "unat ecx" arbitrary: m edi ecx)
  case 0
  then show ?case by (simp add: rep_stosl.simps unat_eq_zero)
next
  case (Suc k)
  then have nz: "ecx \<noteq> 0" by auto
  then have u: "unat (ecx - 1) = k" using Suc.hyps(2) unat_Suc_pred by simp
  have "rep_stosl m edi ecx eax = rep_stosl (fill m edi 4 b) (edi + 4) (ecx - 1) eax"
    using nz by (simp add: rep_stosl.simps [of m edi] store32_fill [OF b])
  also have "\<dots> = (fill (fill m edi 4 b) (edi + 4) (4 * k) b, edi + 4 + 4 * (ecx - 1))"
    using Suc u by simp
  also have "fill (fill m edi 4 b) (edi + 4) (4 * k) b = fill m edi (4 + 4 * k) b"
    using fill_add [of 4 "4 * k" m edi b] Suc.prems Suc.hyps(2) by simp
  finally show ?case using Suc.hyps(2) [symmetric] by (simp add: algebra_simps)
qed

lemma memset_aligned_fill:
  assumes b: "\<And>k. k < 4 \<Longrightarrow> byte_of k eax = b"
  shows "memset_aligned m edi ecx eax = fill m edi (unat ecx) b"
proof -
  have b0: "ucast eax = b" using b [of 0] by (simp add: byte_of_def)
  show ?thesis
    using fill_add [of "4 * (unat ecx div 4)" "unat ecx mod 4" m edi b]
    by (simp add: memset_aligned_def rep_stosl_fill [OF b quad_bound] unat_drop_bit_2 unat_and_3
        b0 memset_bottom_fill quad_advance)
qed

lemma memset_top_fill:
  assumes b: "\<And>k. k < 4 \<Longrightarrow> byte_of k eax = b"
  shows "memset_top m edi ecx eax = fill m edi (unat ecx) b"
proof (induction "unat ecx" arbitrary: m edi ecx)
  case 0
  then show ?case by (simp add: memset_top.simps unat_eq_zero)
next
  case (Suc k)
  have b0: "ucast eax = b" using b [of 0] by (simp add: byte_of_def)
  from Suc have "ecx \<noteq> 0" by auto
  with Suc unat_Suc_pred [of ecx] show ?case
    by (simp add: memset_top.simps [of m edi] fill_Suc b0 memset_aligned_fill [OF b])
qed

text \<open>\<open>splat c\<close> is the register \<^verbatim>\<open>c << 24 | c << 16 | c << 8 | c\<close> that \<open>memset\<close> loads.\<close>

definition splat :: "u32 \<Rightarrow> u32" where
  "splat c = push_bit 24 c OR push_bit 16 c OR push_bit 8 c OR c"

lemma byte_of_splat:
  assumes "k < 4"
  shows "byte_of k (splat (c AND 0xFF)) = ucast c"
proof -
  have c: "c AND 0xFF = take_bit 8 c"
    using take_bit_eq_mask [of 8 c] by (simp add: mask_eq_exp_minus_1)
  from assms consider "k = 0" | "k = 1" | "k = 2" | "k = 3" by linarith
  then show ?thesis unfolding c
    by cases (rule bit_word_eqI; auto simp: byte_of_def splat_def bit_simps)+
qed

lemma memset_fill: "memset m s c n = fill m s (unat n) (ucast c)"
proof -
  have "memset m s c n = memset_top m s n (splat (c AND 0xFF))"
    by (simp add: memset_def splat_def Let_def)
  then show ?thesis using memset_top_fill [OF byte_of_splat] by simp
qed

definition bytes32 :: "u32 \<Rightarrow> byte list" where
  "bytes32 v = [byte_of 0 v, byte_of 1 v, byte_of 2 v, byte_of 3 v]"

definition bytes16 :: "u32 \<Rightarrow> byte list" where
  "bytes16 v = [byte_of 0 v, byte_of 1 v]"

lemma length_bytes32 [simp]: "length (bytes32 v) = 4"
  by (simp add: bytes32_def)

lemma length_bytes16 [simp]: "length (bytes16 v) = 2"
  by (simp add: bytes16_def)

lemma store32_poke: "store32 m p v = poke m p (bytes32 v)"
  by (auto simp: poke_def within_4 store32_def fun_eq_iff) (auto simp: bytes32_def)

lemma store16_poke: "store16 m p v = poke m p (bytes16 v)"
  by (auto simp: poke_def within_2 store16_def fun_eq_iff) (auto simp: bytes16_def)

lemma length_concat_replicate [simp]: "length (concat (replicate n xs)) = n * length xs"
  by (induction n) simp_all

lemma rep_stosl_poke:
  "4 * unat ecx \<le> 4294967296 \<Longrightarrow>
   fst (rep_stosl m edi ecx eax) = poke m edi (concat (replicate (unat ecx) (bytes32 eax)))"
proof (induction "unat ecx" arbitrary: m edi ecx)
  case 0
  then show ?case by (simp add: rep_stosl.simps unat_eq_zero)
next
  case (Suc k)
  then have nz: "ecx \<noteq> 0" by auto
  then have u: "unat (ecx - 1) = k" using Suc.hyps(2) unat_Suc_pred by simp
  have "fst (rep_stosl m edi ecx eax)
      = poke (poke m edi (bytes32 eax)) (edi + 4) (concat (replicate k (bytes32 eax)))"
    using nz u Suc by (simp add: rep_stosl.simps [of m edi] store32_poke)
  also have "\<dots> = poke m edi (concat (replicate (Suc k) (bytes32 eax)))"
    using poke_append [of "bytes32 eax" "concat (replicate k (bytes32 eax))" m edi]
      Suc.prems Suc.hyps(2) [symmetric] by simp
  finally show ?case unfolding Suc.hyps(2) .
qed

lemma rep_stosw_poke:
  "2 * unat ecx \<le> 4294967296 \<Longrightarrow>
   rep_stosw m edi ecx eax = poke m edi (concat (replicate (unat ecx) (bytes16 eax)))"
proof (induction "unat ecx" arbitrary: m edi ecx)
  case 0
  then show ?case by (simp add: rep_stosw.simps unat_eq_zero)
next
  case (Suc k)
  then have nz: "ecx \<noteq> 0" by auto
  then have u: "unat (ecx - 1) = k" using Suc.hyps(2) unat_Suc_pred by simp
  have "rep_stosw m edi ecx eax
      = poke (poke m edi (bytes16 eax)) (edi + 2) (concat (replicate k (bytes16 eax)))"
    using nz u Suc by (simp add: rep_stosw.simps [of m edi] store16_poke)
  also have "\<dots> = poke m edi (concat (replicate (Suc k) (bytes16 eax)))"
    using poke_append [of "bytes16 eax" "concat (replicate k (bytes16 eax))" m edi]
      Suc.prems Suc.hyps(2) [symmetric] by simp
  finally show ?case using Suc.hyps(2) by simp
qed

lemma memcpy_bottom_blit:
  "forward_safe edi esi (unat edx) \<Longrightarrow> memcpy_bottom m edi esi edx = blit m edi esi (unat edx)"
proof (induction "unat edx" arbitrary: m edi esi edx)
  case 0
  then show ?case by (simp add: memcpy_bottom.simps unat_eq_zero)
next
  case (Suc k)
  then have "edx \<noteq> 0" by auto
  with Suc unat_Suc_pred [of edx] unat_lt_u32 [of edx] show ?case
    by (simp add: memcpy_bottom.simps [of m edi] blit_Suc forward_safe_mono)
qed

lemma rep_movsl_blit:
  assumes "forward_safe edi esi (4 * unat ecx)" and "4 * unat ecx < 4294967296"
  shows "rep_movsl m edi esi ecx = (blit m edi esi (4 * unat ecx), edi + 4 * ecx, esi + 4 * ecx)"
  using assms
proof (induction "unat ecx" arbitrary: m edi esi ecx)
  case 0
  then show ?case by (simp add: rep_movsl.simps unat_eq_zero)
next
  case (Suc k)
  then have nz: "ecx \<noteq> 0" by auto
  then have u: "unat (ecx - 1) = k" using Suc.hyps(2) unat_Suc_pred by simp
  have safe: "forward_safe edi esi (4 + 4 * k)"
    using Suc.prems(1) Suc.hyps(2) [symmetric] by simp
  have "rep_movsl m edi esi ecx = rep_movsl (blit m edi esi 4) (edi + 4) (esi + 4) (ecx - 1)"
    using nz by (simp add: rep_movsl.simps [of m edi] store32_load32_blit)
  also have "\<dots> = (blit (blit m edi esi 4) (edi + 4) (esi + 4) (4 * k),
      edi + 4 + 4 * (ecx - 1), esi + 4 + 4 * (ecx - 1))"
    using Suc u forward_safe_mono [OF safe, of "4 * k"] by simp
  also have "blit (blit m edi esi 4) (edi + 4) (esi + 4) (4 * k) = blit m edi esi (4 + 4 * k)"
    using blit_add [OF safe, of m] Suc.prems Suc.hyps(2) by simp
  finally show ?case using Suc.hyps(2) [symmetric] by (simp add: algebra_simps)
qed

lemma memcpy_aligned_blit:
  assumes "forward_safe edi esi (unat ecx)"
  shows "memcpy_aligned m edi esi ecx = blit m edi esi (unat ecx)"
proof -
  let ?q = "4 * (unat ecx div 4)" and ?r = "unat ecx mod 4"
  have safe: "forward_safe edi esi (?q + ?r)" using assms by simp
  have "?q + ?r \<le> 4294967296" using unat_lt_u32 [of ecx] unfolding mult_div_mod_eq by linarith
  then show ?thesis
    using blit_add [OF safe, of m] forward_safe_mono [OF safe, of ?q] forward_safe_mono [OF safe, of ?r]
      rep_movsl_blit [of edi esi "drop_bit 2 ecx" m] quad_bound [of ecx]
    by (simp add: memcpy_aligned_def unat_drop_bit_2 unat_and_3 memcpy_bottom_blit quad_advance)
qed

lemma memcpy_top_blit:
  "forward_safe edi esi (unat ecx) \<Longrightarrow> memcpy_top m edi esi ecx = blit m edi esi (unat ecx)"
proof (induction "unat ecx" arbitrary: m edi esi ecx)
  case 0
  then show ?case by (simp add: memcpy_top.simps unat_eq_zero)
next
  case (Suc k)
  then have "ecx \<noteq> 0" by auto
  with Suc unat_Suc_pred [of ecx] unat_lt_u32 [of ecx] show ?case
    by (simp add: memcpy_top.simps [of m edi] blit_Suc forward_safe_mono memcpy_aligned_blit)
qed

lemma memcpy_blit:
  "forward_safe dest src (unat n) \<Longrightarrow> memcpy m dest src n = blit m dest src (unat n)"
  by (simp add: memcpy_def memcpy_top_blit)

lemma rep_movsb_forward:
  "forward_safe edi esi (unat ecx) \<Longrightarrow> rep_movsb False m edi esi ecx = blit m edi esi (unat ecx)"
proof (induction "unat ecx" arbitrary: m edi esi ecx)
  case 0
  then show ?case by (simp add: rep_movsb.simps unat_eq_zero)
next
  case (Suc k)
  then have "ecx \<noteq> 0" by auto
  with Suc unat_Suc_pred [of ecx] unat_lt_u32 [of ecx] show ?case
    by (simp add: rep_movsb.simps [of False m edi] blit_Suc forward_safe_mono)
qed

lemma rep_movsb_backward:
  assumes "forward_safe src dest (unat ecx)"
  shows "rep_movsb True m (dest + ecx - 1) (src + ecx - 1) ecx = blit m dest src (unat ecx)"
  using assms
proof (induction "unat ecx" arbitrary: m ecx)
  case 0
  then show ?case by (simp add: rep_movsb.simps unat_eq_zero)
next
  case (Suc k)
  then have nz: "ecx \<noteq> 0" by auto
  then have k: "unat (ecx - 1) = k" using Suc.hyps(2) unat_Suc_pred by simp
  then have e: "ecx - 1 = of_nat k" by (simp flip: k)
  have lt: "k < 4294967296" using k unat_lt_u32 by blast
  let ?m = "m(dest + of_nat k := m (src + of_nat k))"
  have "rep_movsb True m (dest + ecx - 1) (src + ecx - 1) ecx
      = rep_movsb True ?m (dest + (ecx - 1) - 1) (src + (ecx - 1) - 1) (ecx - 1)"
    using nz by (subst rep_movsb.simps) (simp add: algebra_simps flip: e)
  also have "\<dots> = blit ?m dest src k"
    using Suc.hyps(1) [of "ecx - 1" ?m] k Suc.prems forward_safe_mono [of src dest "unat ecx" k] Suc.hyps(2)
    by simp
  also have "\<dots> = blit m dest src (unat ecx)"
    using blit_snoc [of src dest k m] Suc.prems Suc.hyps(2) lt by simp
  finally show ?case .
qed

lemma no_wrap_forward_safe:
  assumes "unat dest + n \<le> 4294967296" and "unat src + n \<le> 4294967296"
  shows "if dest \<le> src then forward_safe dest src n else forward_safe src dest n"
  using assms by (auto simp: forward_safe_def unat_sub_if' word_le_nat_alt word_unat_eq_iff)

lemma memmove_blit:
  assumes "unat dest + unat n \<le> 4294967296" and "unat src + unat n \<le> 4294967296"
  shows "memmove m dest src n = (blit m dest src (unat n), src < dest)"
  using no_wrap_forward_safe [OF assms]
  by (auto simp: memmove_def rep_movsb_forward rep_movsb_backward not_le split: if_splits)

section \<open>Properties\<close>

text \<open>C33: for every address, value and length, \<open>memset\<close> sets exactly the \<open>n\<close> bytes from \<open>s\<close> on
  (addresses taken modulo $2^{32}$) to the low byte of \<open>c\<close> and leaves every other byte alone: the
  alignment prologue, the \<^verbatim>\<open>rep stosl\<close> of dwords and the byte epilogue together behave as the
  one-line reference.\<close>

theorem memset_correct:
  "memset m s c n = (\<lambda>a. if within s (unat n) a then ucast c else m a)"
  by (simp add: memset_fill fill_def)

text \<open>C34: \<open>memcpy\<close> copies the original \<open>n\<close> source bytes to the destination and changes nothing
  else, whenever the destination does not start inside the source block above its first byte.\<close>

theorem memcpy_correct:
  assumes "dest = src \<or> unat n \<le> unat (dest - src)"
  shows "memcpy m dest src n = (\<lambda>a. if within dest (unat n) a then m (src + (a - dest)) else m a)"
  using assms memcpy_blit [of dest src n m] by (simp add: blit_def forward_safe_def)

theorem memcpy_correct_witness:
  "bytes_at (ptr (memcpy (\<lambda>a. ucast a) 0x103 0x200 7) 0x103) 7 = [0, 1, 2, 3, 4, 5, 6]"
  using memcpy_correct [of "0x103" "0x200" 7 "\<lambda>a. ucast a"]
  by (simp add: bytes_at_def within_def upt_conv_Cons)

text \<open>C35: \<open>memmove\<close> copies the original source bytes for every overlap of the two blocks, as long
  as neither block wraps past the end of the address space; it returns with the direction flag
  set exactly when it copied backwards, that is when the source lies below the destination.\<close>

theorem memmove_correct:
  assumes "unat dest + unat n \<le> 2 ^ 32" and "unat src + unat n \<le> 2 ^ 32"
  shows "memmove m dest src n =
    (\<lambda>a. if within dest (unat n) a then m (src + (a - dest)) else m a, src < dest)"
  using assms memmove_blit [of dest n src m] by (simp add: blit_def)

theorem memmove_correct_witness:
  "snd (memmove (\<lambda>a. ucast a) 0x102 0x100 4) \<and>
   bytes_at (ptr (fst (memmove (\<lambda>a. ucast a) 0x102 0x100 4)) 0x102) 4 = [0, 1, 2, 3]"
  using memmove_correct [of "0x102" 4 "0x100" "\<lambda>a. ucast a"]
  by (simp add: bytes_at_def within_def upt_conv_Cons)

text \<open>\<open>memset_dword\<close> (and its sibling \<open>memset_word\<close>) store exactly \<open>n\<close> consecutive
  little-endian copies of the dword (of the low word) and nothing else, as long as the block is
  not longer than the address space.\<close>

theorem memset_dword_word_correct:
  assumes "4 * unat n \<le> 2 ^ 32"
  shows "memset_dword m s c n = poke m s (concat (replicate (unat n) (bytes32 c))) \<and>
     memset_word m s c n = poke m s (concat (replicate (unat n) (bytes16 c)))"
  using assms by (simp add: memset_dword_def memset_word_def rep_stosl_poke rep_stosw_poke)

theorem memset_dword_word_correct_witness:
  "memset_dword (\<lambda>_. 0) 0x20 0x01020304 2 = poke (\<lambda>_. 0) 0x20 [4, 3, 2, 1, 4, 3, 2, 1] \<and>
   memset_word (\<lambda>_. 0) 0x20 0x01020304 2 = poke (\<lambda>_. 0) 0x20 [4, 3, 4, 3]"
proof -
  have "bytes32 0x01020304 = [4, 3, 2, 1]" "bytes16 0x01020304 = [4, 3]" by code_simp+
  moreover have "replicate 2 x = [x, x]" for x :: "byte list" by (simp add: numeral_2_eq_2)
  ultimately show ?thesis
    using memset_dword_word_correct [of 2 "\<lambda>_. 0" "0x20" "0x01020304"] by simp
qed

end
