(* ===== verification/LibString.thy ===== *)
theory LibString
  imports LibMem
begin

text \<open>
  The string routines of \<^verbatim>\<open>student-distrib/lib.c\<close>: \<open>strlen\<close>, \<open>strncmp\<close>, \<open>strcpy\<close>,
  \<open>strncpy\<close>, \<open>strrev\<close> and \<open>itoa\<close>.  Every C loop is a recursive function over the loop
  variables.  A loop with a bound is total (\<^theory_text>\<open>function\<close> with a measure); a scan for the
  terminating NUL has none, so \<open>strlen\<close> and \<open>strcpy\<close> are partial functions into \<open>option\<close>
  and the lemmas say exactly when they return.  \<open>int8_t\<close> is signed, so the difference that
  \<open>strncmp\<close> returns is taken with \<open>sint\<close>.
\<close>

unbundle bit_operations_syntax

section \<open>The routines\<close>

partial_function (option) strlen_from :: "cptr \<Rightarrow> u32 \<Rightarrow> u32 option" where
  "strlen_from s len = (if s len \<noteq> 0 then strlen_from s (len + 1) else Some len)"

definition strlen :: "cptr \<Rightarrow> u32 option" where
  "strlen s = strlen_from s 0"

function strncmp_from :: "cptr \<Rightarrow> cptr \<Rightarrow> u32 \<Rightarrow> u32 \<Rightarrow> int" where
  "strncmp_from s1 s2 n i =
     (if i < n then
        (if s1 i \<noteq> s2 i \<or> s1 i = 0 then sint (s1 i) - sint (s2 i)
         else strncmp_from s1 s2 n (i + 1))
      else 0)"
  by pat_completeness auto
termination
  by (relation "measure (\<lambda>(s1, s2, n, i). unat n - unat i)")
     (auto simp: unat_succ_less word_less_nat_alt)

declare strncmp_from.simps [simp del]

definition strncmp :: "cptr \<Rightarrow> cptr \<Rightarrow> u32 \<Rightarrow> int" where
  "strncmp s1 s2 n = strncmp_from s1 s2 n 0"

partial_function (option) strcpy_from :: "mem \<Rightarrow> u32 \<Rightarrow> u32 \<Rightarrow> u32 \<Rightarrow> mem option" where
  "strcpy_from m dest src i =
     (if m (src + i) \<noteq> 0 then strcpy_from (m(dest + i := m (src + i))) dest src (i + 1)
      else Some (m(dest + i := 0)))"

definition strcpy :: "mem \<Rightarrow> u32 \<Rightarrow> u32 \<Rightarrow> mem option" where
  "strcpy m dest src = strcpy_from m dest src 0"

function strncpy_copy :: "mem \<Rightarrow> u32 \<Rightarrow> u32 \<Rightarrow> u32 \<Rightarrow> u32 \<Rightarrow> mem \<times> u32" where
  "strncpy_copy m dest src n i =
     (if m (src + i) \<noteq> 0 \<and> i < n
      then strncpy_copy (m(dest + i := m (src + i))) dest src n (i + 1)
      else (m, i))"
  by pat_completeness auto
termination
  by (relation "measure (\<lambda>(m, dest, src, n, i). unat n - unat i)")
     (auto simp: unat_succ_less word_less_nat_alt)

declare strncpy_copy.simps [simp del]

function strncpy_pad :: "mem \<Rightarrow> u32 \<Rightarrow> u32 \<Rightarrow> u32 \<Rightarrow> mem" where
  "strncpy_pad m dest n i =
     (if i < n then strncpy_pad (m(dest + i := 0)) dest n (i + 1) else m)"
  by pat_completeness auto
termination
  by (relation "measure (\<lambda>(m, dest, n, i). unat n - unat i)")
     (auto simp: unat_succ_less word_less_nat_alt)

declare strncpy_pad.simps [simp del]

definition strncpy :: "mem \<Rightarrow> u32 \<Rightarrow> u32 \<Rightarrow> u32 \<Rightarrow> mem" where
  "strncpy m dest src n =
     (let (m1, i) = strncpy_copy m dest src n 0 in strncpy_pad m1 dest n i)"

function strrev_loop :: "mem \<Rightarrow> u32 \<Rightarrow> int \<Rightarrow> int \<Rightarrow> mem" where
  "strrev_loop m s beg fin =
     (if beg < fin then
        (let tmp = m (s + of_int fin);
             m1 = m(s + of_int fin := m (s + of_int beg));
             m2 = m1(s + of_int beg := tmp)
         in strrev_loop m2 s (beg + 1) (fin - 1))
      else m)"
  by pat_completeness auto
termination
  by (relation "measure (\<lambda>(m, s, beg, fin). nat (fin - beg))") auto

declare strrev_loop.simps [simp del]

definition strrev :: "mem \<Rightarrow> u32 \<Rightarrow> mem option" where
  "strrev m s = do { len \<leftarrow> strlen (ptr m s); Some (strrev_loop m s 0 (sint (len - 1))) }"

text \<open>
  The static table of \<open>itoa\<close>, its terminating NUL included.  A zero radix is a divide error, a
  digit beyond the table an out-of-bounds read: neither returns a value.
\<close>

definition lookup_digits :: "byte list" where
  "lookup_digits = map of_char ''0123456789ABCDEFGHIJKLMNOPQRSTUVWXYZ'' @ [0]"

partial_function (option) itoa_loop :: "mem \<Rightarrow> u32 \<Rightarrow> u32 \<Rightarrow> u32 \<Rightarrow> (mem \<times> u32) option" where
  "itoa_loop m newbuf newval radix =
     (if 0 < newval then
        (if radix = 0 \<or> length lookup_digits \<le> unat (newval mod radix) then None
         else itoa_loop (m(newbuf := lookup_digits ! unat (newval mod radix))) (newbuf + 1)
                (newval div radix) radix)
      else Some (m, newbuf))"

definition itoa :: "mem \<Rightarrow> u32 \<Rightarrow> u32 \<Rightarrow> u32 \<Rightarrow> mem option" where
  "itoa m value buf radix =
     (if value = 0 then Some (m(buf := 48, buf + 1 := 0))
      else do {
        (m1, newbuf) \<leftarrow> itoa_loop m buf value radix;
        strrev (m1(newbuf := 0)) buf
      })"


text \<open>The reference numeral: the digits of \<open>v\<close> in radix \<open>r\<close>, lowest first, and its text.\<close>

fun digits :: "nat \<Rightarrow> nat \<Rightarrow> nat list" where
  "digits r v = (if r < 2 \<or> v = 0 then [] else v mod r # digits r (v div r))"

declare digits.simps [simp del]

definition numeral_bytes :: "nat \<Rightarrow> nat \<Rightarrow> byte list" where
  "numeral_bytes r v = (if v = 0 then [48] else rev (map (\<lambda>d. lookup_digits ! d) (digits r v)))"

section \<open>Scanning and comparing\<close>

lemma strlen_from_scan:
  assumes "k \<le> n" and "n < 4294967296" and "\<And>i. k \<le> i \<Longrightarrow> i < n \<Longrightarrow> s (of_nat i) \<noteq> 0"
    and "s (of_nat n) = 0"
  shows "strlen_from s (of_nat k) = Some (of_nat n)"
  using assms
proof (induction "n - k" arbitrary: k)
  case 0
  then show ?case by (simp add: strlen_from.simps)
next
  case (Suc d)
  then have "strlen_from s (of_nat (Suc k)) = Some (of_nat n)"
    by (intro Suc.hyps(1)) auto
  moreover have "s (of_nat k) \<noteq> 0" using Suc by simp
  ultimately show ?case by (subst strlen_from.simps) (simp add: add.commute)
qed

lemma strlen_from_zero:
  assumes ret: "strlen_from s len = Some r"
  shows "s r = 0"
proof (rule strlen_from.raw_induct [where P = "\<lambda>s len r. s r = 0", OF _ ret])
  fix f :: "cptr \<Rightarrow> u32 \<Rightarrow> u32 option" and s len r
  assume "\<And>s len r. f s len = Some r \<Longrightarrow> s r = 0"
    and "(if s len \<noteq> 0 then f s (len + 1) else Some len) = Some r"
  then show "s r = 0" by (auto split: if_splits)
qed

lemma strlen_cstr: "cstr s xs \<Longrightarrow> strlen s = Some (of_nat (length xs))"
  unfolding strlen_def
  using strlen_from_scan [of 0 "length xs" s] cstr_nonzero [of s xs]
  by (simp add: cstr_def)

lemma strlen_None_iff: "strlen s = None \<longleftrightarrow> (\<forall>i. s i \<noteq> 0)"
proof
  assume "strlen s = None"
  then show "\<forall>i. s i \<noteq> 0"
    using first_zero_cstr strlen_cstr by (metis option.distinct(1))
next
  assume "\<forall>i. s i \<noteq> 0"
  then show "strlen s = None"
    unfolding strlen_def using strlen_from_zero by (metis not_Some_eq)
qed

lemma strlen_Some_iff: "strlen s = Some n \<longleftrightarrow> cstr s (bytes_at s (unat n))"
proof
  assume n: "strlen s = Some n"
  then obtain i where "s i = 0" using strlen_None_iff [of s] by auto
  then obtain xs where xs: "cstr s xs" by (rule first_zero_cstr)
  then have "unat n = length xs" using n strlen_cstr [OF xs] by (auto simp: cstr_def)
  then show "cstr s (bytes_at s (unat n))" using xs by (simp add: cstr_def)
next
  assume "cstr s (bytes_at s (unat n))"
  from strlen_cstr [OF this] show "strlen s = Some n" by simp
qed

lemma strncmp_from_eq_0:
  assumes "cstr s1 xs" and "cstr s2 ys" and "n < 4294967296"
    and "i \<le> n" and "i \<le> length xs" and "i \<le> length ys"
  shows "strncmp_from s1 s2 (of_nat n) (of_nat i) = 0
     \<longleftrightarrow> take (n - i) (drop i xs) = take (n - i) (drop i ys)"
  using assms(4-6)
proof (induction "n - i" arbitrary: i)
  case 0
  then show ?case by (simp add: strncmp_from.simps)
next
  case (Suc d)
  have lt: "(of_nat i :: u32) < of_nat n" using Suc assms(3) by (simp add: word_less_nat_alt)
  have step: "strncmp_from s1 s2 (of_nat n) (of_nat i) =
      (if s1 (of_nat i) \<noteq> s2 (of_nat i) \<or> s1 (of_nat i) = 0
       then sint (s1 (of_nat i)) - sint (s2 (of_nat i))
       else strncmp_from s1 s2 (of_nat n) (of_nat (Suc i)))"
    using lt by (subst strncmp_from.simps) (simp add: add.commute)
  have sn: "Suc i \<le> n" using Suc.hyps(2) by simp
  then have di: "n - i = Suc (n - Suc i)" by simp
  show ?case
  proof (cases "i < length xs \<and> i < length ys")
    case True
    then have x: "drop i xs = xs ! i # drop (Suc i) xs" and y: "drop i ys = ys ! i # drop (Suc i) ys"
      by (simp_all add: Cons_nth_drop_Suc)
    have "s1 (of_nat i) = xs ! i" "s2 (of_nat i) = ys ! i" "xs ! i \<noteq> 0"
      using True assms(1,2) cstr_nth cstr_nonzero by metis+
    then show ?thesis
      using Suc.hyps(1) [of "Suc i"] Suc.hyps(2) sn True sint_diff_0 [of "xs ! i" "ys ! i"]
      by (simp add: step x y di)
  next
    case False
    show ?thesis
    proof (cases "length xs = length ys")
      case True
      with False Suc have "i = length xs" "i = length ys" by auto
      then show ?thesis using cstr_end [OF assms(1)] cstr_end [OF assms(2)] step by simp
    next
      case ne: False
      then have "(s1 (of_nat i) = 0) \<noteq> (s2 (of_nat i) = 0)"
        using False Suc.prems cstr_end [OF assms(1)] cstr_end [OF assms(2)]
          cstr_nonzero [OF assms(1), of i] cstr_nonzero [OF assms(2), of i]
        by (metis le_neq_implies_less)
      moreover have "take (n - i) (drop i xs) \<noteq> take (n - i) (drop i ys)"
        using False ne Suc.prems di by auto
      ultimately show ?thesis using sint_diff_0 by (auto simp: step)
    qed
  qed
qed

lemma strncmp_eq_0:
  assumes "cstr s1 xs" and "cstr s2 ys"
  shows "strncmp s1 s2 n = 0 \<longleftrightarrow> take (unat n) xs = take (unat n) ys"
  using strncmp_from_eq_0 [OF assms, of "unat n" 0] by (simp add: strncmp_def)

section \<open>Copying\<close>

lemma strcpy_from_blit:
  assumes "cstr (ptr m src) xs" and "forward_safe dest src (Suc (length xs))" and "i \<le> length xs"
  shows "strcpy_from (blit m dest src i) dest src (of_nat i) = Some (blit m dest src (Suc (length xs)))"
  using assms(3)
proof (induction "length xs - i" arbitrary: i)
  case 0
  have "Suc (length xs) \<le> 4294967296" using assms(1) by (simp add: cstr_def)
  then have "blit m dest src (length xs) (src + of_nat (length xs)) = 0"
    using blit_read_ahead [of dest src "length xs" 1 0 m] assms(2) cstr_end [OF assms(1)] by simp
  moreover have "blit m dest src (Suc (length xs)) = (blit m dest src (length xs))(dest + of_nat (length xs) := 0)"
    using blit_add [of dest src "length xs" 1 m] \<open>Suc (length xs) \<le> _\<close> assms(2) calculation
    by (simp add: blit_1)
  moreover have "i = length xs" using 0 by simp
  ultimately show ?case by (subst strcpy_from.simps) simp
next
  case (Suc d)
  then have i: "i < length xs" by simp
  have len: "i + (Suc (length xs) - i) \<le> 4294967296" "Suc i \<le> 4294967296"
    using assms(1) i by (simp_all add: cstr_def)
  have rd: "blit m dest src i (src + of_nat i) = m (src + of_nat i)"
    using blit_read_ahead [of dest src i "Suc (length xs) - i" 0 m] assms(2) i len by simp
  have nz: "m (src + of_nat i) \<noteq> 0" using cstr_nonzero [OF assms(1) i] by simp
  have up: "(blit m dest src i)(dest + of_nat i := m (src + of_nat i)) = blit m dest src (Suc i)"
    using blit_add [of dest src i 1 m] forward_safe_mono [OF assms(2), of "Suc i"] i len rd
    by (simp add: blit_1)
  have "strcpy_from (blit m dest src (Suc i)) dest src (of_nat (Suc i)) = Some (blit m dest src (Suc (length xs)))"
    using Suc i by (intro Suc.hyps(1)) auto
  then show ?case
    by (subst strcpy_from.simps) (simp add: rd nz up add.commute)
qed

lemma strcpy_blit:
  assumes "cstr (ptr m src) xs" and "forward_safe dest src (Suc (length xs))"
  shows "strcpy m dest src = Some (blit m dest src (Suc (length xs)))"
  using strcpy_from_blit [OF assms, of 0] by (simp add: strcpy_def)


lemma strncpy_copy_blit:
  fixes n :: u32
  defines "k \<equiv> \<lambda>xs :: byte list. min (unat n) (length xs)"
  assumes "cstr (ptr m src) xs" and "forward_safe dest src (min (unat n) (Suc (length xs)))"
    and "i \<le> k xs"
  shows "strncpy_copy (blit m dest src i) dest src n (of_nat i) = (blit m dest src (k xs), of_nat (k xs))"
  using assms(4)
proof (induction "k xs - i" arbitrary: i)
  case 0
  then have i: "i = k xs" by simp
  have "\<not> (blit m dest src i (src + of_nat i) \<noteq> 0 \<and> of_nat i < n)"
  proof (cases "unat n \<le> length xs")
    case True
    then show ?thesis using i by (simp add: k_def)
  next
    case False
    then have "i = length xs" using i by (simp add: k_def)
    moreover have "length xs + 1 \<le> 4294967296" using assms(2) by (simp add: cstr_def)
    moreover have "min (unat n) (Suc (length xs)) = length xs + 1" using False by simp
    ultimately show ?thesis
      using blit_read_ahead [of dest src "length xs" 1 0 m] assms(3) cstr_end [OF assms(2)]
      by simp
  qed
  then show ?case using i by (subst strncpy_copy.simps) auto
next
  case (Suc d)
  then have i: "i < length xs" "i < unat n" by (simp_all add: k_def)
  let ?M = "min (unat n) (Suc (length xs))"
  have M: "i + (?M - i) = ?M" "Suc i \<le> ?M" using i by simp_all
  have len: "?M \<le> 4294967296" by (rule le_trans [OF min.cobounded1]) simp
  have len2: "Suc i \<le> 4294967296" "i < 4294967296" using assms(2) i by (simp_all add: cstr_def)
  have rd: "blit m dest src i (src + of_nat i) = m (src + of_nat i)"
    using blit_read_ahead [of dest src i "?M - i" 0 m] assms(3) M len i by simp
  have nz: "m (src + of_nat i) \<noteq> 0" using cstr_nonzero [OF assms(2) i(1)] by simp
  have lt: "of_nat i < n" using i len2 by (simp add: word_less_nat_alt)
  have up: "(blit m dest src i)(dest + of_nat i := m (src + of_nat i)) = blit m dest src (Suc i)"
    using blit_add [of dest src i 1 m] forward_safe_mono [OF assms(3) M(2)] len2 rd
    by (simp add: blit_1)
  have "strncpy_copy (blit m dest src (Suc i)) dest src n (of_nat (Suc i)) = (blit m dest src (k xs), of_nat (k xs))"
    using Suc by (intro Suc.hyps(1)) auto
  then show ?case
    by (subst strncpy_copy.simps) (simp add: rd nz lt up add.commute)
qed

lemma strncpy_pad_fill:
  assumes "i \<le> unat n"
  shows "strncpy_pad m dest n (of_nat i) = fill m (dest + of_nat i) (unat n - i) 0"
  using assms
proof (induction "unat n - i" arbitrary: i m)
  case 0
  then have "i = unat n" by simp
  then show ?case by (subst strncpy_pad.simps) simp
next
  case (Suc d)
  have i: "i < 4294967296" using Suc unat_lt_u32 [of n] by linarith
  then have lt: "of_nat i < n" using Suc by (simp add: word_less_nat_alt)
  have lt2: "unat n - Suc i < 4294967296" using unat_lt_u32 [of n] by linarith
  have "strncpy_pad (m(dest + of_nat i := 0)) dest n (of_nat (Suc i))
     = fill (m(dest + of_nat i := 0)) (dest + of_nat (Suc i)) (unat n - Suc i) 0"
    using Suc by (intro Suc.hyps(1)) auto
  also have "\<dots> = fill m (dest + of_nat i) (Suc (unat n - Suc i)) 0"
    using fill_Suc [of "unat n - Suc i" m "dest + of_nat i" 0] lt2
    by (simp add: algebra_simps)
  finally show ?case using lt Suc
    by (subst strncpy_pad.simps) (simp add: Suc_diff_Suc add.commute)
qed

lemma strncpy_spec:
  assumes "cstr (ptr m src) xs" and "forward_safe dest src (min (unat n) (Suc (length xs)))"
  shows "strncpy m dest src n = (\<lambda>a. if within dest (unat n) a
     then (if unat (a - dest) < length xs then m (src + (a - dest)) else 0) else m a)"
proof -
  let ?k = "min (unat n) (length xs)"
  have le: "?k + (unat n - ?k) \<le> 4294967296" by simp
  then have w: "within dest (unat n) a \<longleftrightarrow> within dest ?k a \<or> within (dest + of_nat ?k) (unat n - ?k) a" for a
    using within_add [of ?k "unat n - ?k" dest a] by simp
  have "strncpy m dest src n = fill (blit m dest src ?k) (dest + of_nat ?k) (unat n - ?k) 0"
    using strncpy_copy_blit [OF assms, of 0] by (simp add: strncpy_def strncpy_pad_fill)
  also have "\<dots> = (\<lambda>a. if within dest (unat n) a
     then (if unat (a - dest) < length xs then m (src + (a - dest)) else 0) else m a)"
    using w within_add_disjoint [OF le, of dest] by (fastforce simp: fill_def blit_def fun_eq_iff within_def)
  finally show ?thesis .
qed


section \<open>Reversal and numerals\<close>

lemma strrev_loop_eq:
  assumes "0 \<le> beg" and "fin < 4294967296" and "0 \<le> i" and "i < 4294967296"
  shows "strrev_loop m s beg fin (s + of_int i) =
     m (s + of_int (if beg \<le> i \<and> i \<le> fin then beg + fin - i else i))"
  using assms(1,2)
proof (induction "nat (fin - beg)" arbitrary: m beg fin rule: less_induct)
  case less
  show ?case
  proof (cases "beg < fin")
    case False
    then have "(if beg \<le> i \<and> i \<le> fin then beg + fin - i else i) = i" by auto
    then show ?thesis using False by (subst strrev_loop.simps) simp
  next
    case True
    define m' where "m' = m(s + of_int fin := m (s + of_int beg), s + of_int beg := m (s + of_int fin))"
    have m': "m' (s + of_int k) = m (s + of_int (if k = beg then fin else if k = fin then beg else k))"
      if "0 \<le> k" "k < 4294967296" for k
      using that True less.prems add_of_int_u32_inj [of k beg s] add_of_int_u32_inj [of k fin s]
      by (auto simp: m'_def)
    have "strrev_loop m s beg fin (s + of_int i) = strrev_loop m' s (beg + 1) (fin - 1) (s + of_int i)"
      using True by (subst strrev_loop.simps) (simp add: Let_def m'_def)
    also have "\<dots> =
        m' (s + of_int (if beg + 1 \<le> i \<and> i \<le> fin - 1 then beg + 1 + (fin - 1) - i else i))"
      using True less.prems by (intro less.hyps) auto
    also have "\<dots> = m (s + of_int (if beg \<le> i \<and> i \<le> fin then beg + fin - i else i))"
      using m' [of i] m' [of "beg + fin - i"] True less.prems assms(3,4) by auto
    finally show ?thesis .
  qed
qed

lemma strrev_loop_nat:
  assumes "L < 4294967296" and "i < 4294967296"
  shows "strrev_loop m s 0 (int L - 1) (s + of_nat i) = m (s + of_nat (if i < L then L - 1 - i else i))"
proof (cases "i < L")
  case True
  have "int L - 1 - int i = int (L - 1 - i)" using True by simp
  then have "(of_int (int L - 1 - int i) :: u32) = of_nat (L - 1 - i)" by (metis of_int_of_nat_eq)
  then show ?thesis using strrev_loop_eq [of 0 "int L - 1" "int i" m s] assms True
    by (simp add: algebra_simps)
next
  case False
  then show ?thesis using strrev_loop_eq [of 0 "int L - 1" "int i" m s] assms by simp
qed

lemma strrev_poke:
  assumes "0 \<notin> set xs" and "length xs < 2147483648"
  shows "strrev (poke m s (xs @ [0])) s = Some (poke m s (rev xs @ [0]))"
proof -
  let ?m = "poke m s (xs @ [0])" and ?L = "int (length xs)"
  have "strlen (ptr ?m s) = Some (of_nat (length xs))"
    using assms by (intro strlen_cstr cstr_poke) auto
  moreover have "strrev_loop ?m s 0 (?L - 1) = poke m s (rev xs @ [0])"
    using assms by (intro mem_eqI [of _ s]) (auto simp: strrev_loop_nat poke_at nth_append rev_nth simp del: of_nat_diff)
  ultimately show ?thesis using assms by (simp add: strrev_def sint_len_minus_1)
qed


lemma digits_0 [simp]: "digits r 0 = []"
  by (simp add: digits.simps)

lemma digits_lt: "2 \<le> r \<Longrightarrow> d \<in> set (digits r v) \<Longrightarrow> d < r"
  by (induction r v rule: digits.induct) (subst (asm) digits.simps, auto split: if_splits)

lemma digits_bound: "2 \<le> r \<Longrightarrow> v < r ^ k \<Longrightarrow> length (digits r v) \<le> k"
proof (induction k arbitrary: v)
  case 0
  then show ?case by simp
next
  case (Suc k)
  then have "v div r < r ^ k" by (simp add: less_mult_imp_div_less mult.commute)
  then have "length (digits r (v div r)) \<le> k" using Suc by simp
  then show ?case by (subst digits.simps) simp
qed

lemma digits_value: "2 \<le> r \<Longrightarrow> foldr (\<lambda>d acc. d + r * acc) (digits r v) 0 = v"
proof (induction r v rule: digits.induct)
  case (1 r v)
  then show ?case by (subst digits.simps) auto
qed

lemma length_lookup_digits [simp]: "length lookup_digits = 37"
  by (simp add: lookup_digits_def)

lemma lookup_digits_nonzero:
  assumes "d < 36"
  shows "lookup_digits ! d \<noteq> 0"
proof -
  have "list_all (\<lambda>b. b \<noteq> 0) (take 36 lookup_digits)" by (simp add: lookup_digits_def)
  then show ?thesis using assms by (simp add: list_all_length)
qed

lemma digits_length_u32: "2 \<le> r \<Longrightarrow> length (digits r (unat (v :: u32))) \<le> 32"
proof (rule digits_bound)
  assume r: "2 \<le> r"
  have "unat v < 2 ^ 32" using unat_lt_u32 [of v] by simp
  also have "(2::nat) ^ 32 \<le> r ^ 32" using r by (rule power_mono) simp
  finally show "unat v < r ^ 32" .
qed

lemma itoa_loop_poke:
  assumes r: "2 \<le> unat radix" "unat radix \<le> 36" 
  shows "itoa_loop m p v radix =
    Some (poke m p (map (\<lambda>d. lookup_digits ! d) (digits (unat radix) (unat v))),
          p + of_nat (length (digits (unat radix) (unat v))))"
proof (induction "unat v" arbitrary: m p v rule: less_induct)
  case less
  show ?case
  proof (cases "v = 0")
    case True
    then show ?thesis by (simp add: itoa_loop.simps)
  next
    case False
    let ?r = "unat radix"
    have vm: "unat (v mod radix) = unat v mod ?r" and vd: "unat (v div radix) = unat v div ?r"
      by (simp_all add: unat_mod_distrib unat_div_distrib)
    have lt: "unat v div ?r < unat v" using r False by (simp add: unat_gt_0)
    have d: "digits ?r (unat v) = unat v mod ?r # digits ?r (unat v div ?r)"
      using r False by (subst digits.simps) (simp add: unat_eq_zero)
    have "unat v mod ?r < ?r" using r by (intro mod_less_divisor) linarith
    with r have "unat v mod ?r < 37" by linarith
    then have ok: "\<not> (radix = 0 \<or> length lookup_digits \<le> unat (v mod radix))"
      using r vm by auto
    have len: "length (digits ?r (unat v div ?r)) < 4294967296"
      using digits_length_u32 [of ?r "v div radix"] r vd by simp
    have "itoa_loop m p v radix =
        itoa_loop (m(p := lookup_digits ! (unat v mod ?r))) (p + 1) (v div radix) radix"
      using False ok vm by (subst itoa_loop.simps) (simp add: word_gt_0)
    also have "\<dots> = Some (poke m p (map (\<lambda>d. lookup_digits ! d) (digits ?r (unat v))),
        p + of_nat (length (digits ?r (unat v))))"
      using less [of "v div radix" "m(p := lookup_digits ! (unat v mod ?r))" "p + 1"] lt len
      by (simp add: vd d poke_Cons)
    finally show ?thesis .
  qed
qed


lemma itoa_numeral:
  assumes "2 \<le> unat radix" and "unat radix \<le> 36"
  shows "itoa m v buf radix = Some (poke m buf (numeral_bytes (unat radix) (unat v) @ [0]))"
proof (cases "v = 0")
  case True
  then show ?thesis
    using poke_append [of "[48]" "[0]" m buf] by (simp add: itoa_def numeral_bytes_def poke_single)
next
  case False
  let ?ds = "map (\<lambda>d. lookup_digits ! d) (digits (unat radix) (unat v))"
  have nz: "0 \<notin> set ?ds"
    using lookup_digits_nonzero digits_lt [OF assms(1)] assms(2) by fastforce
  have len: "length ?ds \<le> 32" using digits_length_u32 [OF assms(1)] by simp
  have "itoa m v buf radix = strrev (poke (poke m buf ?ds) (buf + of_nat (length ?ds)) [0]) buf"
    using False itoa_loop_poke [OF assms, of m buf v] by (simp add: itoa_def poke_single)
  also have "\<dots> = strrev (poke m buf (?ds @ [0])) buf"
    using poke_append [of ?ds "[0]" m buf] len by simp
  also have "\<dots> = Some (poke m buf (rev ?ds @ [0]))"
    using strrev_poke [OF nz] len by simp
  finally show ?thesis using False by (simp add: numeral_bytes_def unat_eq_zero)
qed


section \<open>Properties\<close>

text \<open>C36: \<open>strlen\<close> returns \<open>n\<close> exactly when the string has its first NUL at index \<open>n\<close>, and
  never returns exactly when there is no NUL anywhere in the address space.\<close>

theorem strlen_exact:
  "(strlen s = Some n \<longleftrightarrow> cstr s (bytes_at s (unat n))) \<and> (strlen s = None \<longleftrightarrow> (\<forall>i. s i \<noteq> 0))"
  using strlen_Some_iff strlen_None_iff by blast

text \<open>On two C strings, \<open>strncmp\<close> returns 0 exactly when their first \<open>n\<close> characters agree
  (the shorter string counting as ended).\<close>

theorem strncmp_zero_iff_prefix:
  assumes "cstr s1 xs" and "cstr s2 ys"
  shows "strncmp s1 s2 n = 0 \<longleftrightarrow> take (unat n) xs = take (unat n) ys"
  using strncmp_eq_0 [OF assms] .

theorem strncmp_zero_iff_prefix_witness:
  "strncmp (ptr (poke (\<lambda>_. 0) 0x10 (lit ''stdin'')) 0x10) (ptr (poke (\<lambda>_. 0) 0x40 (lit ''stdio'')) 0x40) 4 = 0"
proof -
  have "cstr (ptr (poke (\<lambda>_. 0) 0x10 (lit ''stdin'')) 0x10) (lit ''stdin'')"
    and "cstr (ptr (poke (\<lambda>_. 0) 0x40 (lit ''stdio'')) 0x40) (lit ''stdio'')"
    by (simp_all add: cstr_def lit_def poke_def bytes_at_def within_def upt_conv_Cons)
  from strncmp_zero_iff_prefix [OF this, of 4] show ?thesis by (simp add: lit_def)
qed

text \<open>C37: \<open>strcpy\<close> returns and copies the whole string with its NUL, and \<open>strncpy\<close> fills exactly
  \<open>n\<close> bytes with the string cut to \<open>n\<close> and padded with zeros, provided the destination does not
  start inside the string above its first byte; no other byte changes.\<close>

theorem strcpy_strncpy_correct:
  assumes "cstr (ptr m src) xs" and "dest = src \<or> Suc (length xs) \<le> unat (dest - src)"
  shows "strcpy m dest src = Some (\<lambda>a. if within dest (Suc (length xs)) a then m (src + (a - dest)) else m a) \<and>
    strncpy m dest src n = (\<lambda>a. if within dest (unat n) a
       then (if unat (a - dest) < length xs then m (src + (a - dest)) else 0) else m a)"
proof -
  have safe: "forward_safe dest src (Suc (length xs))" using assms(2) by (simp add: forward_safe_def)
  then have "forward_safe dest src (min (unat n) (Suc (length xs)))" by (rule forward_safe_mono) simp
  from strncpy_spec [OF assms(1) this] strcpy_blit [OF assms(1) safe]
  show ?thesis by (simp add: blit_def)
qed

theorem strcpy_strncpy_correct_witness:
  "bytes_at (ptr (strncpy (poke (\<lambda>_. 1) 0x10 (lit ''rtc'' @ [0])) 0x40 0x10 5) 0x40) 6 = lit ''rtc'' @ [0, 0, 1]"
proof -
  have "cstr (ptr (poke (\<lambda>_. 1) 0x10 (lit ''rtc'' @ [0])) 0x10) (lit ''rtc'')"
    by (rule cstr_poke) (simp_all add: lit_def)
  from strcpy_strncpy_correct [OF this, of "0x40" 5] show ?thesis
    by (simp add: lit_def bytes_at_def poke_def within_def upt_conv_Cons)
qed

text \<open>C38: for every value and every radix from 2 to 36, \<open>itoa\<close> returns, and it writes exactly the
  numeral of the value in that radix, most significant digit first, followed by a NUL; reading
  the digits back gives the value, no digit reaches the radix, and the text of a 32-bit value has
  at most 32 characters (10 in decimal, 8 in hexadecimal).\<close>

theorem itoa_correct:
  assumes "2 \<le> unat radix" and "unat radix \<le> 36"
  shows "itoa m v buf radix = Some (poke m buf (numeral_bytes (unat radix) (unat v) @ [0])) \<and>
    foldr (\<lambda>d acc. d + unat radix * acc) (digits (unat radix) (unat v)) 0 = unat v \<and>
    (\<forall>d \<in> set (digits (unat radix) (unat v)). d < unat radix) \<and>
    length (digits (unat radix) (unat v)) \<le> 32 \<and>
    (unat radix = 10 \<longrightarrow> length (digits (unat radix) (unat v)) \<le> 10) \<and>
    (unat radix = 16 \<longrightarrow> length (digits (unat radix) (unat v)) \<le> 8)"
  using itoa_numeral [OF assms, of m v buf] digits_value [OF assms(1)] digits_lt [OF assms(1)]
    digits_length_u32 [OF assms(1)] digits_bound [of 10 "unat v" 10] digits_bound [of 16 "unat v" 8]
    unat_lt_u32 [of v]
  by auto

theorem itoa_correct_witness:
  "itoa (\<lambda>_. 0) 391 0x100 10 = Some (poke (\<lambda>_. 0) 0x100 (lit ''391'' @ [0]))"
proof -
  have "digits 10 391 = [1, 9, 3]" by (simp add: digits.simps)
  then have "numeral_bytes 10 391 = lit ''391''"
    by (simp add: numeral_bytes_def lookup_digits_def lit_def)
  then show ?thesis using itoa_correct [of 10 "\<lambda>_. 0" 391 "0x100"] by simp
qed

end
