(* ===== verification/Machine.thy ===== *)
theory Machine
  imports Prelude
begin

text \<open>
  The processor state every kernel component works on: the linear memory, the port traffic and
  the interrupt flag.  \<^verbatim>\<open>outb\<close> and \<^verbatim>\<open>inb\<close> of \<^verbatim>\<open>lib.h\<close> append to the port history; what a
  device answers to a read is not code of the repository, so a device is a parameter \<open>dev\<close>: a
  function from the port history and the port to the byte read.

  The components extend this record one after the other (\<open>machine\<close>, \<open>console\<close>, \<open>pic\<close>, ...), and
  their operations are polymorphic in the rest of the record, so that an operation of one
  component visibly leaves the globals of the others alone.
\<close>

datatype port_event = Out u16 byte | In u16

record machine =
  mem :: mem
  io :: "port_event list"
  intr :: bool

type_synonym device = "port_event list \<Rightarrow> u16 \<Rightarrow> byte"

definition outb :: "byte \<Rightarrow> u16 \<Rightarrow> 'a machine_scheme \<Rightarrow> 'a machine_scheme" where
  "outb data port s = s\<lparr>io := io s @ [Out port data]\<rparr>"

definition inb :: "device \<Rightarrow> u16 \<Rightarrow> 'a machine_scheme \<Rightarrow> byte \<times> 'a machine_scheme" where
  "inb dev port s = (dev (io s) port, s\<lparr>io := io s @ [In port]\<rparr>)"

definition cli :: "'a machine_scheme \<Rightarrow> 'a machine_scheme" where
  "cli s = s\<lparr>intr := False\<rparr>"

definition sti :: "'a machine_scheme \<Rightarrow> 'a machine_scheme" where
  "sti s = s\<lparr>intr := True\<rparr>"

text \<open>
  Busy waiting, \<^verbatim>\<open>while (cond) ;\<close> on a \<^verbatim>\<open>volatile\<close> flag.  Only an interrupt can end it, so the
  wait is run against the schedule of the interrupt handlers the CPU enters meanwhile; each is a
  state transformer (\<open>None\<close> if it does not return).  An interrupt is taken only while the interrupt
  flag is set.  The result is \<open>None\<close> when the loop is still waiting at the end of the schedule.
\<close>

type_synonym 's handler = "'s \<Rightarrow> 's option"

fun spin :: "('a machine_scheme \<Rightarrow> bool) \<Rightarrow> 'a machine_scheme handler list \<Rightarrow> 'a machine_scheme
    \<Rightarrow> ('a machine_scheme handler list \<times> 'a machine_scheme) option" where
  "spin waiting irqs s =
     (if \<not> waiting s then Some (irqs, s)
      else if \<not> intr s then None
      else case irqs of
        [] \<Rightarrow> None
      | h # irqs' \<Rightarrow> (case h s of None \<Rightarrow> None | Some s' \<Rightarrow> spin waiting irqs' s'))"

declare spin.simps [simp del]

lemma outb_fields [simp]:
  "mem (outb d p s) = mem s" "io (outb d p s) = io s @ [Out p d]" "intr (outb d p s) = intr s"
  by (simp_all add: outb_def)

lemma inb_fields [simp]:
  "fst (inb dev p s) = dev (io s) p" "mem (snd (inb dev p s)) = mem s"
  "io (snd (inb dev p s)) = io s @ [In p]" "intr (snd (inb dev p s)) = intr s"
  by (simp_all add: inb_def)

lemma cli_fields [simp]: "mem (cli s) = mem s" "io (cli s) = io s" "intr (cli s) = False"
  by (simp_all add: cli_def)

lemma sti_fields [simp]: "mem (sti s) = mem s" "io (sti s) = io s" "intr (sti s) = True"
  by (simp_all add: sti_def)

lemma spin_done: "\<not> waiting s \<Longrightarrow> spin waiting irqs s = Some (irqs, s)"
  by (simp add: spin.simps)

lemma spin_step: "waiting s \<Longrightarrow> intr s \<Longrightarrow> h s = Some s' \<Longrightarrow> spin waiting (h # irqs) s = spin waiting irqs s'"
  by (subst spin.simps) simp

lemma spin_masked: "waiting s \<Longrightarrow> \<not> intr s \<Longrightarrow> spin waiting irqs s = None"
  by (simp add: spin.simps)

lemma spin_exit: "spin waiting irqs s = Some (rest, s') \<Longrightarrow> \<not> waiting s'"
  by (induction waiting irqs s rule: spin.induct)
     (subst (asm) spin.simps, auto split: if_splits list.splits option.splits)

end
