(* ===== verification/Console.thy ===== *)
theory Console
  imports LibString Machine "HOL-Library.Signed_Division"
begin

text \<open>
  The text console of \<^verbatim>\<open>student-distrib/lib.c\<close>: the 80 by 25 VGA text page at \<open>0xB8000\<close>, the
  cursor globals \<open>screen_x\<close> and \<open>screen_y\<close>, and \<open>terminal_scroll_down\<close>,
  \<open>update_terminal_cursor\<close>, \<open>back_space\<close>, \<open>init_screen_x_and_y\<close>, \<open>clear\<close>, \<open>clear_screen\<close>,
  \<open>putc\<close>, \<open>puts\<close>, \<open>printf\<close> and \<open>test_interrupts\<close>.  The operations work on video memory byte by
  byte, as the code does.

  The abstract specification is a terminal: 2000 cells and a cursor.  The abstraction function
  \<open>term_of\<close> reads it from memory, and every operation is proved to refine its abstract
  counterpart and to leave the rest of memory alone.  The locale \<open>char_sink\<close> is the interface
  between \<open>putc\<close> and everything that prints; it is interpreted on \<open>putc\<close>.
\<close>

unbundle bit_operations_syntax

section \<open>State and operations\<close>

record console = machine +
  screen_x :: int
  screen_y :: int

abbreviation VIDEO :: u32 where "VIDEO \<equiv> 0xB8000"
abbreviation NUM_COLS :: int where "NUM_COLS \<equiv> 80"
abbreviation NUM_ROWS :: int where "NUM_ROWS \<equiv> 25"
abbreviation ATTRIB :: byte where "ATTRIB \<equiv> 0x7"

text \<open>\<^verbatim>\<open>video_mem + (i << 1)\<close>.\<close>

definition video_at :: "int \<Rightarrow> u32" where
  "video_at i = VIDEO + of_int (i * 2)"

text \<open>The two byte stores with which the code writes character \<open>c\<close> into cell \<open>i\<close>.\<close>

definition set_cell :: "mem \<Rightarrow> int \<Rightarrow> byte \<Rightarrow> mem" where
  "set_cell m i c = m(video_at i := c, video_at i + 1 := ATTRIB)"

text \<open>The body of the row-shifting loop, and the loop.\<close>

definition scroll_cell :: "mem \<Rightarrow> int \<Rightarrow> mem" where
  "scroll_cell m i =
     (let m1 = m(video_at i := m (video_at (i + NUM_COLS)))
      in m1(video_at i + 1 := m1 (video_at (i + NUM_COLS) + 1)))"

function scroll_rows :: "mem \<Rightarrow> int \<Rightarrow> mem" where
  "scroll_rows m i =
     (if i < (NUM_ROWS - 1) * NUM_COLS then scroll_rows (scroll_cell m i) (i + 1) else m)"
  by pat_completeness auto
termination
  by (relation "measure (\<lambda>(m, i). nat ((NUM_ROWS - 1) * NUM_COLS - i))") auto

function blank_from :: "mem \<Rightarrow> int \<Rightarrow> int \<Rightarrow> mem" where
  "blank_from m i n = (if i < n then blank_from (set_cell m i 32) (i + 1) n else m)"
  by pat_completeness auto
termination
  by (relation "measure (\<lambda>(m, i, n). nat (n - i))") auto

declare scroll_rows.simps [simp del] blank_from.simps [simp del]

definition terminal_scroll_down :: "'a console_scheme \<Rightarrow> 'a console_scheme" where
  "terminal_scroll_down s =
     (let s1 = s\<lparr>mem := blank_from (scroll_rows (mem s) 0) ((NUM_ROWS - 1) * NUM_COLS) (NUM_ROWS * NUM_COLS)\<rparr>
      in if screen_y s1 > 0 then s1\<lparr>screen_y := screen_y s1 - 1\<rparr> else s1)"

text \<open>The cursor position as the 16-bit \<^verbatim>\<open>unsigned short\<close> the VGA registers receive.\<close>

definition cursor_pos :: "'a console_scheme \<Rightarrow> u16" where
  "cursor_pos s = of_int (screen_y s * NUM_COLS + screen_x s)"

definition update_terminal_cursor :: "'a console_scheme \<Rightarrow> 'a console_scheme" where
  "update_terminal_cursor s =
     (let pos = cursor_pos s;
          s = outb 0x0F 0x3D4 s;
          s = outb (ucast (pos AND 0xFF)) 0x3D5 s;
          s = outb 0x0E 0x3D4 s
      in outb (ucast (drop_bit 8 pos AND 0xFF)) 0x3D5 s)"

definition back_space :: "'a console_scheme \<Rightarrow> 'a console_scheme" where
  "back_space s =
     (if screen_x s = 0 \<and> screen_y s = 0 then s
      else (let s1 = (if screen_x s = 0
                      then s\<lparr>screen_y := screen_y s - 1, screen_x := NUM_COLS - 1\<rparr>
                      else s\<lparr>screen_x := screen_x s - 1\<rparr>)
            in s1\<lparr>mem := set_cell (mem s1) (NUM_COLS * screen_y s1 + screen_x s1) 32\<rparr>))"

definition init_screen_x_and_y :: "'a console_scheme \<Rightarrow> 'a console_scheme" where
  "init_screen_x_and_y s = s\<lparr>screen_x := 0, screen_y := 0\<rparr>"

definition clear :: "'a console_scheme \<Rightarrow> 'a console_scheme" where
  "clear s = s\<lparr>mem := blank_from (mem s) 0 (NUM_ROWS * NUM_COLS), screen_x := 0, screen_y := 0\<rparr>"

definition clear_screen :: "'a console_scheme \<Rightarrow> 'a console_scheme" where
  "clear_screen s = clear (s\<lparr>screen_x := 0, screen_y := 0\<rparr>)"

definition putc :: "byte \<Rightarrow> 'a console_scheme \<Rightarrow> 'a console_scheme" where
  "putc c s =
     (if c = 10 \<or> c = 13 then
        (let s1 = s\<lparr>screen_y := screen_y s + 1, screen_x := 0\<rparr>
         in if screen_y s1 \<ge> NUM_ROWS then terminal_scroll_down s1 else s1)
      else
        (let s1 = s\<lparr>mem := set_cell (mem s) (NUM_COLS * screen_y s + screen_x s) c,
                    screen_x := screen_x s + 1\<rparr>;
             s2 = s1\<lparr>screen_y := screen_y s1 + screen_x s1 sdiv NUM_COLS\<rparr>;
             s3 = s2\<lparr>screen_x := screen_x s2 smod NUM_COLS\<rparr>
         in if screen_y s3 \<ge> NUM_ROWS then terminal_scroll_down s3 else s3))"

text \<open>\<open>puts\<close> reads its string from memory while it prints; it returns the number of characters.\<close>

partial_function (option) puts_from :: "u32 \<Rightarrow> u32 \<Rightarrow> 'a console_scheme \<Rightarrow> (u32 \<times> 'a console_scheme) option" where
  "puts_from str index s =
     (if mem s (str + index) \<noteq> 0 then puts_from str (index + 1) (putc (mem s (str + index)) s)
      else Some (index, s))"

definition puts :: "u32 \<Rightarrow> 'a console_scheme \<Rightarrow> (u32 \<times> 'a console_scheme) option" where
  "puts str s = puts_from str 0 s"


text \<open>
  \<open>printf\<close>.  The format is read through a read-only pointer (every caller passes a literal), the
  stacked arguments are the list of words after \<open>format\<close>, and \<open>cb\<close> is the stack address of the
  local \<open>conv_buf\<close>.  \<open>printf_conv\<close> is the inner \<^verbatim>\<open>switch\<close> after a \<^verbatim>\<open>%\<close>, \<open>alternate\<close> its flag;
  reading an argument that was not passed is undefined, \<open>None\<close>.  \<open>printf_loop\<close> is the outer loop:
  mode \<open>None\<close> at an ordinary character, mode \<open>Some alternate\<close> at the label
  \<^verbatim>\<open>format_char_switch\<close>.
\<close>

function pad_zero :: "mem \<Rightarrow> u32 \<Rightarrow> int \<Rightarrow> mem" where
  "pad_zero m cb i = (if i < 8 then pad_zero (m(cb + of_int i := 48)) cb (i + 1) else m)"
  by pat_completeness auto
termination
  by (relation "measure (\<lambda>(m, cb, i). nat (8 - i))") auto

declare pad_zero.simps [simp del]

definition print_hex :: "u32 \<Rightarrow> bool \<Rightarrow> u32 \<Rightarrow> 'a console_scheme \<Rightarrow> 'a console_scheme option" where
  "print_hex cb alternate v s =
     (if \<not> alternate then do {
        m \<leftarrow> itoa (mem s) v cb 16;
        map_option snd (puts cb (s\<lparr>mem := m\<rparr>))
      } else do {
        m \<leftarrow> itoa (mem s) v (cb + 8) 16;
        starting_index \<leftarrow> strlen (ptr m (cb + 8));
        let m' = pad_zero m cb (sint starting_index);
        map_option snd (puts (cb + starting_index) (s\<lparr>mem := m'\<rparr>))
      })"

definition print_unsigned :: "u32 \<Rightarrow> u32 \<Rightarrow> 'a console_scheme \<Rightarrow> 'a console_scheme option" where
  "print_unsigned cb v s = do {
     m \<leftarrow> itoa (mem s) v cb 10;
     map_option snd (puts cb (s\<lparr>mem := m\<rparr>))
   }"

definition print_signed :: "u32 \<Rightarrow> u32 \<Rightarrow> 'a console_scheme \<Rightarrow> 'a console_scheme option" where
  "print_signed cb v s = do {
     m \<leftarrow> (if sint v < 0 then itoa ((mem s)(cb := 45)) (- v) (cb + 1) 10 else itoa (mem s) v cb 10);
     map_option snd (puts cb (s\<lparr>mem := m\<rparr>))
   }"

definition takes_arg :: "byte \<Rightarrow> bool" where
  "takes_arg c \<longleftrightarrow> c \<in> {120, 117, 100, 99, 115}"

definition printf_conv :: "u32 \<Rightarrow> byte \<Rightarrow> bool \<Rightarrow> u32 list \<Rightarrow> 'a console_scheme \<Rightarrow> (u32 list \<times> 'a console_scheme) option" where
  "printf_conv cb ch alternate esp s =
     (if ch = 37 then Some (esp, putc 37 s)
      else if \<not> takes_arg ch then Some (esp, s)
      else case esp of
        [] \<Rightarrow> None
      | v # esp' \<Rightarrow> map_option (Pair esp')
          (if ch = 120 then print_hex cb alternate v s
           else if ch = 117 then print_unsigned cb v s
           else if ch = 100 then print_signed cb v s
           else if ch = 99 then Some (putc (ucast v) s)
           else map_option snd (puts v s)))"

partial_function (option) printf_loop ::
    "u32 \<Rightarrow> cptr \<Rightarrow> u32 \<Rightarrow> bool option \<Rightarrow> u32 list \<Rightarrow> 'a console_scheme \<Rightarrow> (u32 \<times> 'a console_scheme) option" where
  "printf_loop cb fmt buf mode esp s =
     (case mode of
        None \<Rightarrow>
          (if fmt buf = 0 then Some (buf, s)
           else if fmt buf = 37 then printf_loop cb fmt (buf + 1) (Some False) esp s
           else printf_loop cb fmt (buf + 1) None esp (putc (fmt buf) s))
      | Some alternate \<Rightarrow>
          (if fmt buf = 35 then printf_loop cb fmt (buf + 1) (Some True) esp s
           else do {
             (esp', s') \<leftarrow> printf_conv cb (fmt buf) alternate esp s;
             printf_loop cb fmt (buf + 1) None esp' s'
           }))"

definition printf :: "u32 \<Rightarrow> cptr \<Rightarrow> u32 list \<Rightarrow> 'a console_scheme \<Rightarrow> (u32 \<times> 'a console_scheme) option" where
  "printf cb fmt args s = printf_loop cb fmt 0 None args s"

text \<open>The test hook the RTC interrupt used: every video byte at an even offset is incremented.\<close>

function bump_cells :: "mem \<Rightarrow> int \<Rightarrow> mem" where
  "bump_cells m i =
     (if i < NUM_ROWS * NUM_COLS then bump_cells (m(video_at i := m (video_at i) + 1)) (i + 1) else m)"
  by pat_completeness auto
termination
  by (relation "measure (\<lambda>(m, i). nat (NUM_ROWS * NUM_COLS - i))") auto

declare bump_cells.simps [simp del]

definition test_interrupts :: "'a console_scheme \<Rightarrow> 'a console_scheme" where
  "test_interrupts s = s\<lparr>mem := bump_cells (mem s) 0\<rparr>"

section \<open>The abstract terminal\<close>

record terminal =
  cells :: "(byte \<times> byte) list"
  col :: int
  row :: int

abbreviation blank :: "byte \<times> byte" where "blank \<equiv> (32, ATTRIB)"

definition t_advance :: "terminal \<Rightarrow> terminal" where
  "t_advance t =
     (if row t < 24 then t\<lparr>col := 0, row := row t + 1\<rparr>
      else t\<lparr>col := 0, row := 24, cells := drop 80 (cells t) @ replicate 80 blank\<rparr>)"

definition t_putc :: "byte \<Rightarrow> terminal \<Rightarrow> terminal" where
  "t_putc c t =
     (if c = 10 \<or> c = 13 then t_advance t
      else (let t1 = t\<lparr>cells := (cells t)[nat (80 * row t + col t) := (c, ATTRIB)]\<rparr>
            in if col t < 79 then t1\<lparr>col := col t + 1\<rparr> else t_advance t1))"

definition t_back_space :: "terminal \<Rightarrow> terminal" where
  "t_back_space t =
     (let p = 80 * row t + col t - 1
      in if p < 0 then t
         else t\<lparr>col := p mod 80, row := p div 80, cells := (cells t)[nat p := blank]\<rparr>)"

definition t_clear :: "terminal \<Rightarrow> terminal" where
  "t_clear t = \<lparr>cells = replicate 2000 blank, col = 0, row = 0\<rparr>"

definition cell :: "mem \<Rightarrow> nat \<Rightarrow> byte \<times> byte" where
  "cell m i = (m (video_at (int i)), m (video_at (int i) + 1))"

definition term_of :: "'a console_scheme \<Rightarrow> terminal" where
  "term_of s = \<lparr>cells = map (cell (mem s)) [0..<2000], col = screen_x s, row = screen_y s\<rparr>"

definition on_screen :: "'a console_scheme \<Rightarrow> bool" where
  "on_screen s \<longleftrightarrow> 0 \<le> screen_x s \<and> screen_x s < NUM_COLS \<and> 0 \<le> screen_y s \<and> screen_y s < NUM_ROWS"

definition vram :: "u32 \<Rightarrow> bool" where
  "vram a \<longleftrightarrow> within VIDEO 4000 a"

text \<open>Everything of the state a console operation must leave alone: all but video memory and the
  cursor.\<close>

definition hide_vram :: "mem \<Rightarrow> mem" where
  "hide_vram m = (\<lambda>a. if vram a then 0 else m a)"

definition off_screen :: "'a console_scheme \<Rightarrow> 'a console_scheme" where
  "off_screen s = s\<lparr>mem := hide_vram (mem s), screen_x := 0, screen_y := 0\<rparr>"

section \<open>Cells of video memory\<close>

lemma video_at_nat: "video_at (int i) = VIDEO + of_nat (2 * i)"
  by (simp add: video_at_def mult.commute)

lemma video_at_Suc: "video_at (int i) + 1 = VIDEO + of_nat (2 * i + 1)"
  by (simp add: video_at_nat)

lemma video_at_inj:
  assumes "i < 2000" and "j < 2000"
  shows "video_at (int i) = video_at (int j) \<longleftrightarrow> i = j"
    and "video_at (int i) \<noteq> video_at (int j) + 1"
proof -
  have "2 * i < 4294967296" "2 * j < 4294967296" "2 * j + 1 < 4294967296" using assms by simp_all
  note inj = add_of_nat_u32_inj [OF this(1,2), of VIDEO] add_of_nat_u32_inj [OF this(1,3), of VIDEO]
  show "video_at (int i) = video_at (int j) \<longleftrightarrow> i = j"
    unfolding video_at_nat inj(1) by simp
  show "video_at (int i) \<noteq> video_at (int j) + 1"
    unfolding video_at_Suc unfolding video_at_nat inj(2) by presburger
qed

lemma vram_video_at:
  assumes "i < 2000"
  shows "vram (video_at (int i))" "vram (video_at (int i) + 1)"
  using assms unfolding vram_def video_at_Suc unfolding video_at_nat by (subst within_offset; simp)+

lemma cell_set_cell:
  assumes "i < 2000" and "j < 2000"
  shows "cell (set_cell m (int i) c) j = (if j = i then (c, ATTRIB) else cell m j)"
  using video_at_inj [OF assms] video_at_inj [OF assms(2,1)] by (auto simp: cell_def set_cell_def)

lemma set_cell_outside: "i < 2000 \<Longrightarrow> \<not> vram a \<Longrightarrow> set_cell m (int i) c a = m a"
  using vram_video_at [of i] by (auto simp: set_cell_def)

lemma cells_set_cell:
  assumes "0 \<le> i" and "i < 2000"
  shows "map (cell (set_cell m i c)) [0..<2000] = (map (cell m) [0..<2000])[nat i := (c, ATTRIB)]"
proof (rule nth_equalityI)
  fix j assume "j < length (map (cell (set_cell m i c)) [0..<2000])"
  then show "map (cell (set_cell m i c)) [0..<2000] ! j = (map (cell m) [0..<2000])[nat i := (c, ATTRIB)] ! j"
    using cell_set_cell [of "nat i" j m c] assms by (auto simp: nth_list_update)
qed simp

lemma blank_from_cells:
  assumes "i + k \<le> 2000"
  shows "(\<forall>j < 2000. cell (blank_from m (int i) (int (i + k))) j = (if i \<le> j \<and> j < i + k then blank else cell m j)) \<and>
    (\<forall>a. \<not> vram a \<longrightarrow> blank_from m (int i) (int (i + k)) a = m a)"
  using assms
proof (induction k arbitrary: i m)
  case 0
  then show ?case by (auto simp: blank_from.simps)
next
  case (Suc k)
  have "blank_from m (int i) (int (i + Suc k)) = blank_from (set_cell m (int i) 32) (int (Suc i)) (int (Suc i + k))"
    by (subst blank_from.simps) (simp add: add.commute)
  then show ?case
    using Suc.IH [of "Suc i" "set_cell m (int i) 32"] Suc.prems by (auto simp: cell_set_cell set_cell_outside)
qed

lemma cell_scroll_cell:
  assumes "i < 1920" and "j < 2000"
  shows "cell (scroll_cell m (int i)) j = (if j = i then cell m (i + 80) else cell m j)"
proof -
  have i80: "int i + NUM_COLS = int (i + 80)" by simp
  show ?thesis
    using assms video_at_inj [of i j] video_at_inj [of j i] video_at_inj [of i "i + 80"] video_at_inj [of "i + 80" i]
    unfolding scroll_cell_def i80 cell_def Let_def by auto
qed

lemma scroll_cell_outside: "i < 1920 \<Longrightarrow> \<not> vram a \<Longrightarrow> scroll_cell m (int i) a = m a"
  using vram_video_at [of i] by (auto simp: scroll_cell_def Let_def)

lemma scroll_rows_cells:
  assumes "i + k = 1920"
  shows "(\<forall>j < 2000. cell (scroll_rows m (int i)) j = (if i \<le> j \<and> j < 1920 then cell m (j + 80) else cell m j)) \<and>
    (\<forall>a. \<not> vram a \<longrightarrow> scroll_rows m (int i) a = m a)"
  using assms
proof (induction k arbitrary: i m)
  case 0
  then show ?case by (auto simp: scroll_rows.simps)
next
  case (Suc k)
  then have i: "i < 1920" by simp
  have "scroll_rows m (int i) = scroll_rows (scroll_cell m (int i)) (int (Suc i))"
    using i by (subst scroll_rows.simps) (simp add: add.commute)
  then show ?case
    using Suc.IH [of "Suc i" "scroll_cell m (int i)"] Suc.prems i
    by (auto simp: cell_scroll_cell scroll_cell_outside le_antisym not_less_eq_eq)
qed


section \<open>Refinement of the abstract terminal\<close>

lemma scroll_down_cursor [simp]:
  "screen_x (terminal_scroll_down s) = screen_x s"
  "screen_y (terminal_scroll_down s) = (if screen_y s > 0 then screen_y s - 1 else screen_y s)"
  by (simp_all add: terminal_scroll_down_def Let_def)

lemma mem_scroll_down:
  "mem (terminal_scroll_down s) = blank_from (scroll_rows (mem s) (int 0)) (int 1920) (int (1920 + 80))"
  by (simp add: terminal_scroll_down_def Let_def)

lemma scroll_down_cells:
  "map (cell (mem (terminal_scroll_down s))) [0..<2000] =
     drop 80 (map (cell (mem s)) [0..<2000]) @ replicate 80 blank"
proof (rule nth_equalityI)
  fix j assume "j < length (map (cell (mem (terminal_scroll_down s))) [0..<2000])"
  then have j: "j < 2000" by simp
  then have "cell (mem (terminal_scroll_down s)) j = (if j < 1920 then cell (mem s) (j + 80) else blank)"
    using blank_from_cells [of 1920 80 "scroll_rows (mem s) (int 0)"] scroll_rows_cells [of 0 1920 "mem s"]
    unfolding mem_scroll_down by auto
  with j show "map (cell (mem (terminal_scroll_down s))) [0..<2000] ! j =
      (drop 80 (map (cell (mem s)) [0..<2000]) @ replicate 80 blank) ! j"
    by (auto simp: nth_append add.commute)
qed simp

lemma scroll_down_outside: "\<not> vram a \<Longrightarrow> mem (terminal_scroll_down s) a = mem s a"
  using blank_from_cells [of 1920 80 "scroll_rows (mem s) (int 0)"] scroll_rows_cells [of 0 1920 "mem s"]
  unfolding mem_scroll_down by auto

lemma hide_vram_eqI: "(\<And>a. \<not> vram a \<Longrightarrow> m a = m' a) \<Longrightarrow> hide_vram m = hide_vram m'"
  by (auto simp: hide_vram_def)

lemma hide_vram_eqD: "hide_vram m = hide_vram m' \<Longrightarrow> \<not> vram a \<Longrightarrow> m a = m' a"
  unfolding hide_vram_def by (metis (full_types))

lemma off_screen_scroll_down [simp]: "off_screen (terminal_scroll_down s) = off_screen s"
proof -
  have "hide_vram (mem (terminal_scroll_down s)) = hide_vram (mem s)"
    by (rule hide_vram_eqI) (rule scroll_down_outside)
  then show ?thesis by (auto simp: off_screen_def terminal_scroll_down_def Let_def)
qed

lemma off_screen_cursor [simp]:
  "off_screen (s\<lparr>screen_x := x\<rparr>) = off_screen s" "off_screen (s\<lparr>screen_y := y\<rparr>) = off_screen s"
  by (simp_all add: off_screen_def)

lemma hide_vram_set_cell [simp]: "0 \<le> i \<Longrightarrow> i < 2000 \<Longrightarrow> hide_vram (set_cell m i c) = hide_vram m"
  by (rule hide_vram_eqI) (use set_cell_outside [of "nat i"] in simp)

lemma off_screen_set_cell [simp]:
  "0 \<le> i \<Longrightarrow> i < 2000 \<Longrightarrow> off_screen (s\<lparr>mem := set_cell (mem s) i c\<rparr>) = off_screen s"
  by (simp add: off_screen_def)

lemma off_screen_mem: "off_screen s = off_screen s' \<Longrightarrow> hide_vram (mem s) = hide_vram (mem s')"
  unfolding off_screen_def by (drule arg_cong [where f = mem]) simp

lemma term_of_simps [simp]:
  "col (term_of s) = screen_x s" "row (term_of s) = screen_y s"
  "cells (term_of s) = map (cell (mem s)) [0..<2000]"
  by (simp_all add: term_of_def)

lemma cell_index:
  "on_screen s \<Longrightarrow> 0 \<le> NUM_COLS * screen_y s + screen_x s \<and> NUM_COLS * screen_y s + screen_x s < 2000"
  by (auto simp: on_screen_def)

lemma sdiv_smod_col:
  assumes "0 \<le> x" and "x < NUM_COLS"
  shows "(x + 1) sdiv NUM_COLS = (if x = 79 then 1 else 0)" "(x + 1) smod NUM_COLS = (if x = 79 then 0 else x + 1)"
  using assms by (auto simp: signed_divide_int_def signed_modulo_int_def sgn_if)

lemma term_of_scroll:
  "screen_y s = 25 \<Longrightarrow> term_of (terminal_scroll_down s) =
     \<lparr>cells = drop 80 (map (cell (mem s)) [0..<2000]) @ replicate 80 blank, col = screen_x s, row = 24\<rparr>"
  using scroll_down_cells [of s] by (simp add: term_of_def del: drop_map)

lemma putc_newline:
  assumes "on_screen s" and "c = 10 \<or> c = 13"
  shows "term_of (putc c s) = t_putc c (term_of s)"
proof (cases "screen_y s < 24")
  case True
  then show ?thesis using assms by (simp add: putc_def t_putc_def t_advance_def term_of_def)
next
  case False
  then have y: "screen_y s = 24" using assms by (simp add: on_screen_def)
  then show ?thesis using assms(2)
    by (auto simp: putc_def t_putc_def t_advance_def term_of_scroll)
qed

lemma putc_printable:
  assumes "on_screen s" and "\<not> (c = 10 \<or> c = 13)"
  shows "term_of (putc c s) = t_putc c (term_of s)"
proof -
  note cells_set_cell [of "NUM_COLS * screen_y s + screen_x s" "mem s" c] cell_index [OF assms(1)]
  moreover have "0 \<le> screen_x s" "screen_x s < 80" "screen_y s < 25" using assms(1) by (simp_all add: on_screen_def)
  ultimately show ?thesis using assms(2)
    by (auto simp: putc_def t_putc_def t_advance_def Let_def sdiv_smod_col term_of_scroll)
qed

lemma putc_refines: "on_screen s \<Longrightarrow> term_of (putc c s) = t_putc c (term_of s)"
  using putc_newline putc_printable by blast

lemma putc_on_screen: "on_screen s \<Longrightarrow> on_screen (putc c s)"
  by (auto simp: putc_def on_screen_def Let_def sdiv_smod_col)

lemma off_screen_putc: "on_screen s \<Longrightarrow> off_screen (putc c s) = off_screen s"
  using cell_index [of s] by (simp add: putc_def Let_def)

lemma back_space_refines:
  assumes "on_screen s"
  shows "term_of (back_space s) = t_back_space (term_of s)"
proof -
  have xy: "0 \<le> screen_x s" "screen_x s < 80" "0 \<le> screen_y s" "screen_y s < 25"
    using assms by (simp_all add: on_screen_def)
  consider (home) "screen_x s = 0" "screen_y s = 0" | (wrap) "screen_x s = 0" "screen_y s > 0" | (mid) "screen_x s > 0"
    using xy by linarith
  then show ?thesis
  proof cases
    case home
    then show ?thesis by (simp add: back_space_def t_back_space_def)
  next
    case wrap
    have eq: "80 * screen_y s - 1 = 79 + 80 * (screen_y s - 1)" by simp
    have "(80 * screen_y s - 1) div 80 = screen_y s - 1" unfolding eq by (subst div_mult_self2) simp_all
    moreover have "(80 * screen_y s - 1) mod 80 = 79" unfolding eq by (subst mod_mult_self2) simp
    moreover have "80 * (screen_y s - 1) + 79 = 80 * screen_y s - 1" by simp
    ultimately show ?thesis using wrap xy cells_set_cell [of "80 * screen_y s - 1" "mem s" 32]
      by (simp add: back_space_def t_back_space_def Let_def term_of_def)
  next
    case mid
    have eq: "80 * screen_y s + screen_x s - 1 = (screen_x s - 1) + 80 * screen_y s" by simp
    have "(80 * screen_y s + screen_x s - 1) div 80 = screen_y s"
      unfolding eq using xy mid by (subst div_mult_self2) simp_all
    moreover have "(80 * screen_y s + screen_x s - 1) mod 80 = screen_x s - 1"
      unfolding eq using xy mid by (subst mod_mult_self2) simp
    ultimately show ?thesis using mid xy cells_set_cell [of "80 * screen_y s + screen_x s - 1" "mem s" 32]
      by (simp add: back_space_def t_back_space_def Let_def term_of_def add_diff_eq)
  qed
qed

lemma back_space_on_screen: "on_screen s \<Longrightarrow> on_screen (back_space s)"
  by (auto simp: back_space_def on_screen_def Let_def)

lemma off_screen_back_space: "on_screen s \<Longrightarrow> off_screen (back_space s) = off_screen s"
  by (auto simp: back_space_def off_screen_def on_screen_def Let_def)

lemma clear_refines: "term_of (clear s) = t_clear (term_of s)"
proof -
  have "map (cell (blank_from (mem s) 0 2000)) [0..<2000] = replicate 2000 blank"
    by (rule nth_equalityI) (use blank_from_cells [of 0 2000 "mem s"] in auto)
  then show ?thesis by (simp add: clear_def t_clear_def term_of_def)
qed

lemma off_screen_clear: "off_screen (clear s) = off_screen s"
proof -
  have "hide_vram (blank_from (mem s) 0 2000) = hide_vram (mem s)"
    by (rule hide_vram_eqI) (use blank_from_cells [of 0 2000 "mem s"] in auto)
  then show ?thesis by (simp add: off_screen_def clear_def)
qed

lemma clear_screen_clear: "clear_screen s = clear s"
  by (simp add: clear_screen_def clear_def)

lemma on_screen_clear: "on_screen (clear s)"
  by (simp add: clear_def on_screen_def)

section \<open>The character sink interface\<close>

locale char_sink =
  fixes put :: "byte \<Rightarrow> 's \<Rightarrow> 's" and ok :: "'s \<Rightarrow> bool" and view :: "'s \<Rightarrow> terminal" and rest :: "'s \<Rightarrow> 'k"
  assumes ok_put: "ok s \<Longrightarrow> ok (put c s)"
    and view_put: "ok s \<Longrightarrow> view (put c s) = t_putc c (view s)"
    and rest_put: "ok s \<Longrightarrow> rest (put c s) = rest s"
begin

lemma ok_fold: "ok s \<Longrightarrow> ok (fold put cs s)"
  by (induction cs arbitrary: s) (simp_all add: ok_put)

lemma view_fold: "ok s \<Longrightarrow> view (fold put cs s) = fold t_putc cs (view s)"
  by (induction cs arbitrary: s) (simp_all add: ok_put view_put)

lemma rest_fold: "ok s \<Longrightarrow> rest (fold put cs s) = rest s"
  by (induction cs arbitrary: s) (simp_all add: ok_put rest_put)

lemmas fold_laws = ok_fold view_fold rest_fold

end

interpretation con: char_sink putc on_screen term_of off_screen
  by unfold_locales (simp_all add: putc_on_screen putc_refines off_screen_putc)

definition off_vram :: "u32 \<Rightarrow> nat \<Rightarrow> bool" where
  "off_vram p n \<longleftrightarrow> separate p n VIDEO 4000"

lemma off_vram_at: "off_vram p n \<Longrightarrow> i < n \<Longrightarrow> i < 4294967296 \<Longrightarrow> \<not> vram (p + of_nat i)"
  using separate_within [of p n VIDEO 4000 "p + of_nat i"] by (simp add: off_vram_def vram_def)

lemma puts_from_fold:
  assumes "on_screen s" and "\<forall>k \<le> length xs. mem s (str + of_nat (i + k)) = (xs @ [0]) ! k"
    and "0 \<notin> set xs" and "\<forall>k < length xs. \<not> vram (str + of_nat (i + k))"
    and "\<not> vram (str + of_nat (i + length xs))"
  shows "puts_from str (of_nat i) s = Some (of_nat (i + length xs), fold putc xs s)"
  using assms
proof (induction xs arbitrary: i s)
  case Nil
  then show ?case by (simp add: puts_from.simps)
next
  case (Cons x xs)
  let ?s = "putc x s"
  have keep: "mem ?s a = mem s a" if "\<not> vram a" for a
    using hide_vram_eqD [OF off_screen_mem [OF off_screen_putc [OF Cons.prems(1)]] that] .
  have x: "mem s (str + of_nat i) = x" "x \<noteq> 0"
    using Cons.prems(2,3) by (auto dest: spec [where x = 0])
  have IH: "puts_from str (of_nat (Suc i)) ?s = Some (of_nat (Suc i + length xs), fold putc xs ?s)"
  proof (rule Cons.IH)
    show "on_screen ?s" using putc_on_screen [OF Cons.prems(1)] .
    show "0 \<notin> set xs" using Cons.prems(3) by simp
    show off: "\<forall>k < length xs. \<not> vram (str + of_nat (Suc i + k))"
    proof (intro allI impI)
      fix k assume "k < length xs"
      then have "\<not> vram (str + of_nat (i + Suc k))"
        using Cons.prems(4) by (metis Suc_less_eq length_Cons)
      then show "\<not> vram (str + of_nat (Suc i + k))" by simp
    qed
    show last: "\<not> vram (str + of_nat (Suc i + length xs))" using Cons.prems(5) by simp
    show "\<forall>k \<le> length xs. mem ?s (str + of_nat (Suc i + k)) = (xs @ [0]) ! k"
    proof (intro allI impI)
      fix k assume "k \<le> length xs"
      then have "\<not> vram (str + of_nat (Suc i + k))" using off last by (cases "k = length xs") auto
      moreover have "mem s (str + of_nat (i + Suc k)) = ((x # xs) @ [0]) ! Suc k"
        using Cons.prems(2) \<open>k \<le> length xs\<close> by (metis Suc_le_mono length_Cons)
      ultimately show "mem ?s (str + of_nat (Suc i + k)) = (xs @ [0]) ! k" using keep by simp
    qed
  qed
  then show ?case using x by (subst puts_from.simps) (simp add: add.commute)
qed

lemma puts_fold:
  assumes "on_screen s" and "cstr (ptr (mem s) str) xs" and "off_vram str (Suc (length xs))"
  shows "puts str s = Some (of_nat (length xs), fold putc xs s)"
proof -
  have len: "length xs < 4294967296" and nz: "0 \<notin> set xs" using assms(2) by (simp_all add: cstr_def)
  have "\<forall>k \<le> length xs. mem s (str + of_nat (0 + k)) = (xs @ [0]) ! k"
    using cstr_nth [OF assms(2)] cstr_end [OF assms(2)] by (auto simp: nth_append le_less)
  moreover have "\<forall>k < length xs. \<not> vram (str + of_nat (0 + k))" "\<not> vram (str + of_nat (0 + length xs))"
    using off_vram_at [OF assms(3)] len by auto
  ultimately show ?thesis using puts_from_fold [OF assms(1), of xs str 0] nz by (simp add: puts_def)
qed


section \<open>printf against a rendering specification\<close>

text \<open>The text of one conversion, and of a whole format; \<open>str\<close> gives the string behind a pointer.\<close>

definition signed_text :: "u32 \<Rightarrow> byte list" where
  "signed_text v = (if sint v < 0 then 45 # numeral_bytes 10 (unat (- v)) else numeral_bytes 10 (unat v))"

definition hex8_text :: "u32 \<Rightarrow> byte list" where
  "hex8_text v = replicate (8 - length (numeral_bytes 16 (unat v))) 48 @ numeral_bytes 16 (unat v)"

definition conv_text :: "(u32 \<Rightarrow> byte list) \<Rightarrow> bool \<Rightarrow> byte \<Rightarrow> u32 list \<Rightarrow> byte list" where
  "conv_text str alternate c args =
     (if c = 37 then [37]
      else if c = 120 then (if alternate then hex8_text (hd args) else numeral_bytes 16 (unat (hd args)))
      else if c = 117 then numeral_bytes 10 (unat (hd args))
      else if c = 100 then signed_text (hd args)
      else if c = 99 then [ucast (hd args)]
      else if c = 115 then str (hd args)
      else [])"

fun render :: "(u32 \<Rightarrow> byte list) \<Rightarrow> bool option \<Rightarrow> byte list \<Rightarrow> u32 list \<Rightarrow> byte list" where
  "render str mode [] args = []"
| "render str None (c # cs) args =
     (if c = 37 then render str (Some False) cs args else c # render str None cs args)"
| "render str (Some alternate) (c # cs) args =
     (if c = 35 then render str (Some True) cs args
      else conv_text str alternate c args @ render str None cs (if takes_arg c then tl args else args))"

text \<open>A format is complete when no \<^verbatim>\<open>%\<close> ends it and every conversion has its argument; the
  argument of a \<^verbatim>\<open>%s\<close> must be one of the string pointers \<open>P\<close>.\<close>

fun complete :: "u32 set \<Rightarrow> bool option \<Rightarrow> byte list \<Rightarrow> u32 list \<Rightarrow> bool" where
  "complete P mode [] args = (mode = None)"
| "complete P None (c # cs) args =
     (if c = 37 then complete P (Some False) cs args else complete P None cs args)"
| "complete P (Some alternate) (c # cs) args =
     (if c = 35 then complete P (Some True) cs args
      else if takes_arg c then args \<noteq> [] \<and> (c = 115 \<longrightarrow> hd args \<in> P) \<and> complete P None cs (tl args)
      else complete P None cs args)"

text \<open>\<open>prints cb out s s'\<close>: from \<open>s\<close> to \<open>s'\<close> the terminal has shown \<open>out\<close>, and besides the console
  only the conversion buffer at \<open>cb\<close> may have changed.\<close>

definition others :: "'a console_scheme \<Rightarrow> 'a console_scheme" where
  "others s = s\<lparr>mem := (\<lambda>_. 0), screen_x := 0, screen_y := 0\<rparr>"

definition prints :: "u32 \<Rightarrow> byte list \<Rightarrow> 'a console_scheme \<Rightarrow> 'a console_scheme \<Rightarrow> bool" where
  "prints cb out s s' \<longleftrightarrow> on_screen s' \<and> term_of s' = fold t_putc out (term_of s) \<and>
     (\<forall>a. \<not> vram a \<longrightarrow> \<not> within cb 64 a \<longrightarrow> mem s' a = mem s a) \<and>
     others s' = others s"

lemma prints_refl: "on_screen s \<Longrightarrow> prints cb [] s s"
  by (simp add: prints_def)

lemma prints_trans: "prints cb xs s s1 \<Longrightarrow> prints cb ys s1 s2 \<Longrightarrow> prints cb (xs @ ys) s s2"
  by (simp add: prints_def)

lemma prints_on_screen: "prints cb xs s s' \<Longrightarrow> on_screen s'"
  by (simp add: prints_def)

lemma others_off_screen: "off_screen s = off_screen s' \<Longrightarrow> others s = others s'"
proof -
  assume "off_screen s = off_screen s'"
  then have "others (off_screen s) = others (off_screen s')" by simp
  then show ?thesis by (simp add: others_def off_screen_def)
qed

lemma prints_fold:
  assumes "on_screen s"
  shows "prints cb xs s (fold putc xs s)"
  using con.fold_laws [OF assms, of xs] others_off_screen [of "fold putc xs s" s]
    hide_vram_eqD [OF off_screen_mem] unfolding prints_def by metis

lemma prints_putc: "on_screen s \<Longrightarrow> prints cb [c] s (putc c s)"
  using prints_fold [of s cb "[c]"] by simp

text \<open>Printing a string that stands in memory after the conversion buffer has been written.\<close>

lemma puts_prints:
  assumes "on_screen s" and buf: "\<And>a. \<not> within cb 64 a \<Longrightarrow> m a = mem s a" and "off_vram cb 64"
    and "cstr (ptr m p) xs" and "off_vram p (Suc (length xs))"
  shows "\<exists>s'. map_option snd (puts p (s\<lparr>mem := m\<rparr>)) = Some s' \<and> prints cb xs s s'"
proof -
  let ?s = "s\<lparr>mem := m\<rparr>"
  have on: "on_screen ?s" using assms(1) by (simp add: on_screen_def)
  have vr: "m a = mem s a" if "vram a" for a
    using buf [of a] separate_within [of VIDEO 4000 cb 64 a] assms(3) that
    by (auto simp: off_vram_def vram_def separate_sym [of cb])
  have "term_of ?s = term_of s"
    using vr vram_video_at by (auto simp: term_of_def cell_def)
  moreover have "prints cb xs ?s (fold putc xs ?s)" using prints_fold [OF on] .
  ultimately have "prints cb xs s (fold putc xs ?s)"
    using buf by (auto simp: prints_def others_def)
  moreover have "puts p ?s = Some (of_nat (length xs), fold putc xs ?s)"
    using puts_fold [OF on] assms(4,5) by simp
  ultimately show ?thesis by simp
qed

lemma numeral_bytes_nonzero: "2 \<le> r \<Longrightarrow> r \<le> 36 \<Longrightarrow> 0 \<notin> set (numeral_bytes r v)"
  using digits_lt [of r _ v]
  by (auto simp: numeral_bytes_def dest!: lookup_digits_nonzero [OF less_le_trans] sym [of 0])

lemma numeral_bytes_length: "2 \<le> r \<Longrightarrow> v < r ^ k \<Longrightarrow> 0 < k \<Longrightarrow> length (numeral_bytes r v) \<le> k"
  using digits_bound [of r v k] by (simp add: numeral_bytes_def)

lemmas numeral_bytes_u32 =
  numeral_bytes_length [of 16 "unat (v :: u32)" 8 for v, simplified]
  numeral_bytes_length [of 10 "unat (v :: u32)" 10 for v]

lemma separate_sub:
  assumes "separate p n q j" and "i + k \<le> n" and "0 < k"
  shows "separate (p + of_nat i) k q j"
proof -
  define d where "d = q - p"
  have d: "n \<le> unat d" "j \<le> unat (- d)" using assms(1) by (simp_all add: separate_def d_def)
  then have i: "i < unat d" "i < 4294967296" using assms(2,3) unat_lt_u32 [of d] by linarith+
  have eqs: "q - (p + of_nat i) = d - of_nat i" "p + of_nat i - q = of_nat i - d" by (simp_all add: d_def)
  have "unat (d - of_nat i) = unat d - i" using unat_minus_of_nat_u32 [OF i(2), of d] i by simp
  moreover have "unat (of_nat i - d) = 4294967296 + i - unat d" "unat (- d) = 4294967296 - unat d"
    using i unat_sub_if' [of "of_nat i" d] unat_sub_if' [of 0 d] by simp_all
  ultimately show ?thesis unfolding separate_def eqs using d assms(2) by linarith
qed

lemma off_vram_sub: "off_vram p n \<Longrightarrow> i + k \<le> n \<Longrightarrow> 0 < k \<Longrightarrow> off_vram (p + of_nat i) k"
  using separate_sub by (simp add: off_vram_def)

lemma poke_in_buffer:
  "i + length xs \<le> 64 \<Longrightarrow> \<not> within cb 64 a \<Longrightarrow> poke m (cb + of_nat i) xs a = m a"
  using within_add [of i "length xs" cb a] by (auto simp: poke_def within_def)

lemma itoa_puts_prints:
  assumes "on_screen s" and "off_vram cb 64" and "2 \<le> unat r" "unat r \<le> 36"
    and "length (numeral_bytes (unat r) (unat v)) < 64"
  shows "\<exists>s'. (do { m \<leftarrow> itoa (mem s) v cb r; map_option snd (puts cb (s\<lparr>mem := m\<rparr>)) }) = Some s' \<and>
    prints cb (numeral_bytes (unat r) (unat v)) s s'"
proof -
  let ?xs = "numeral_bytes (unat r) (unat v)"
  have nz: "0 \<notin> set ?xs" using numeral_bytes_nonzero assms(3,4) by simp
  have "\<exists>s'. map_option snd (puts cb (s\<lparr>mem := poke (mem s) cb (?xs @ [0])\<rparr>)) = Some s' \<and> prints cb ?xs s s'"
  proof (rule puts_prints [OF assms(1) _ assms(2)])
    show "\<And>a. \<not> within cb 64 a \<Longrightarrow> poke (mem s) cb (?xs @ [0]) a = mem s a"
      using poke_in_buffer [of 0 "?xs @ [0]" cb] assms(5) by simp
    show "cstr (ptr (poke (mem s) cb (?xs @ [0])) cb) ?xs" using cstr_poke [OF nz] assms(5) by simp
    show "off_vram cb (Suc (length ?xs))" using off_vram_sub [OF assms(2), of 0] assms(5) by simp
  qed
  then show ?thesis using itoa_numeral [OF assms(3,4)] by simp
qed

lemma pad_zero_poke:
  assumes "i + k = 8"
  shows "pad_zero m cb (int i) = poke m (cb + of_nat i) (replicate k 48)"
  using assms
proof (induction k arbitrary: i m)
  case 0
  then show ?case by (simp add: pad_zero.simps)
next
  case (Suc k)
  have "pad_zero m cb (int i) = pad_zero (m(cb + of_nat i := 48)) cb (int (Suc i))"
    using Suc.prems by (subst pad_zero.simps) (simp add: add.commute)
  also have "\<dots> = poke (m(cb + of_nat i := 48)) (cb + of_nat i + 1) (replicate k 48)"
    using Suc.IH [of "Suc i"] Suc.prems by (simp add: ac_simps)
  also have "\<dots> = poke m (cb + of_nat i) (replicate (Suc k) 48)"
    using poke_Cons [of "replicate k 48" m "cb + of_nat i" 48] Suc.prems by simp
  finally show ?case .
qed

lemma poke_poke_before:
  assumes "length xs = n" and "n + length ys \<le> 4294967296"
  shows "poke (poke m (p + of_nat n) ys) p xs = poke m p (xs @ ys)"
proof
  fix a
  show "poke (poke m (p + of_nat n) ys) p xs a = poke m p (xs @ ys) a"
  proof (cases "within p n a")
    case True
    then show ?thesis using assms(1) by (simp add: poke_def nth_append within_def)
  next
    case False
    then show ?thesis using fun_cong [OF poke_append [of xs ys m p], of a] assms
      by (simp add: poke_def [of _ _ xs] poke_def [of _ _ ys] split: if_splits)
  qed
qed

lemma hex8_length: "length (hex8_text v) = 8"
  using numeral_bytes_u32(1) [of v] by (simp add: hex8_text_def)

lemma print_hex_alternate:
  assumes "on_screen s" and "off_vram cb 64"
  shows "\<exists>s'. print_hex cb True v s = Some s' \<and> prints cb (hex8_text v) s s'"
proof -
  let ?xs = "numeral_bytes 16 (unat v)" and ?L = "length (numeral_bytes 16 (unat v))"
  let ?m = "poke (mem s) (cb + 8) (?xs @ [0])" and ?m' = "poke (mem s) (cb + of_nat ?L) (hex8_text v @ [0])"
  have L: "?L \<le> 8" and nz: "0 \<notin> set ?xs" using numeral_bytes_u32(1) numeral_bytes_nonzero [of 16] by simp_all
  have len: "strlen (ptr ?m (cb + 8)) = Some (of_nat ?L)" using strlen_cstr [OF cstr_poke [OF nz]] L by simp
  have "pad_zero ?m cb (int ?L) = poke ?m (cb + of_nat ?L) (replicate (8 - ?L) 48)"
    using pad_zero_poke [of ?L "8 - ?L"] L by simp
  also have "cb + 8 = cb + of_nat ?L + of_nat (8 - ?L)" using L by simp
  then have "poke ?m (cb + of_nat ?L) (replicate (8 - ?L) 48) = ?m'"
    using poke_poke_before [of "replicate (8 - ?L) 48" "8 - ?L" "?xs @ [0]" "mem s" "cb + of_nat ?L"] L
    by (simp add: hex8_text_def)
  finally have pad: "pad_zero ?m cb (sint (of_nat ?L :: u32)) = ?m'"
    using L sint_len_minus_1 [of "Suc ?L"] by simp
  have "\<exists>s'. map_option snd (puts (cb + of_nat ?L) (s\<lparr>mem := ?m'\<rparr>)) = Some s' \<and> prints cb (hex8_text v) s s'"
  proof (rule puts_prints [OF assms(1) _ assms(2)])
    show "\<And>a. \<not> within cb 64 a \<Longrightarrow> ?m' a = mem s a"
      using poke_in_buffer [of ?L "hex8_text v @ [0]" cb] L by (simp add: hex8_length)
    show "cstr (ptr ?m' (cb + of_nat ?L)) (hex8_text v)"
      using nz hex8_length [of v] by (intro cstr_poke) (auto simp: hex8_text_def)
    show "off_vram (cb + of_nat ?L) (Suc (length (hex8_text v)))"
      using off_vram_sub [OF assms(2), of ?L] L by (simp add: hex8_length)
  qed
  then show ?thesis using itoa_numeral [of 16 "mem s" v "cb + 8"] len pad by (simp add: print_hex_def)
qed

lemma print_hex_prints:
  assumes "on_screen s" and "off_vram cb 64"
  shows "\<exists>s'. print_hex cb alternate v s = Some s' \<and>
    prints cb (if alternate then hex8_text v else numeral_bytes 16 (unat v)) s s'"
  using print_hex_alternate [OF assms, of v] itoa_puts_prints [OF assms, of 16 v] numeral_bytes_u32(1) [of v]
  by (cases alternate) (simp_all add: print_hex_def)

lemma numeral_10_short: "length (numeral_bytes 10 (unat (v :: u32))) \<le> 10"
  using numeral_bytes_u32(2) [of v] unat_lt_u32 [of v] by simp

lemma print_unsigned_prints:
  assumes "on_screen s" and "off_vram cb 64"
  shows "\<exists>s'. print_unsigned cb v s = Some s' \<and> prints cb (numeral_bytes 10 (unat v)) s s'"
  using itoa_puts_prints [OF assms, of 10 v] numeral_10_short [of v] by (simp add: print_unsigned_def)

lemma print_signed_prints:
  assumes "on_screen s" and "off_vram cb 64"
  shows "\<exists>s'. print_signed cb v s = Some s' \<and> prints cb (signed_text v) s s'"
proof (cases "sint v < 0")
  case True
  let ?xs = "numeral_bytes 10 (unat (- v))" and ?m = "poke (mem s) cb (signed_text v @ [0])"
  have nz: "0 \<notin> set ?xs" using numeral_bytes_nonzero by simp
  have shape: "signed_text v = 45 # ?xs" using True by (simp add: signed_text_def)
  have len: "length (signed_text v) \<le> 11" using numeral_10_short [of "- v"] shape by simp
  have "\<exists>s'. map_option snd (puts cb (s\<lparr>mem := ?m\<rparr>)) = Some s' \<and> prints cb (signed_text v) s s'"
  proof (rule puts_prints [OF assms(1) _ assms(2)])
    show "\<And>a. \<not> within cb 64 a \<Longrightarrow> ?m a = mem s a"
      using poke_in_buffer [of 0 "signed_text v @ [0]" cb] len by simp
    show "cstr (ptr ?m cb) (signed_text v)" using nz shape len by (intro cstr_poke) auto
    show "off_vram cb (Suc (length (signed_text v)))" using off_vram_sub [OF assms(2), of 0] len by simp
  qed
  moreover have "itoa ((mem s)(cb := 45)) (- v) (cb + 1) 10 = Some ?m"
    using itoa_numeral [of 10 "(mem s)(cb := 45)" "- v" "cb + 1"] poke_Cons [of "?xs @ [0]" "mem s" cb 45] len shape by simp
  ultimately show ?thesis using True by (simp add: print_signed_def)
next
  case False
  then show ?thesis
    using itoa_puts_prints [OF assms, of 10 v] numeral_10_short [of v]
    by (simp add: print_signed_def signed_text_def)
qed

text \<open>The string arguments: NUL-terminated, outside video memory and the conversion buffer.\<close>

definition str_args :: "u32 \<Rightarrow> u32 set \<Rightarrow> (u32 \<Rightarrow> byte list) \<Rightarrow> mem \<Rightarrow> bool" where
  "str_args cb P str m \<longleftrightarrow> (\<forall>p \<in> P. cstr (ptr m p) (str p) \<and>
     off_vram p (Suc (length (str p))) \<and> separate p (Suc (length (str p))) cb 64)"

lemma str_args_prints:
  assumes "str_args cb P str (mem s)" and "prints cb out s s'"
  shows "str_args cb P str (mem s')"
  unfolding str_args_def
proof (intro ballI conjI)
  fix p assume "p \<in> P"
  let ?xs = "str p"
  have p: "cstr (ptr (mem s) p) ?xs" "off_vram p (Suc (length ?xs))" "separate p (Suc (length ?xs)) cb 64"
    using assms(1) \<open>p \<in> P\<close> by (auto simp: str_args_def)
  then show "off_vram p (Suc (length ?xs))" "separate p (Suc (length ?xs)) cb 64" by blast+
  have len: "length ?xs < 4294967296" using p(1) by (simp add: cstr_def)
  have keep: "mem s' (p + of_nat i) = mem s (p + of_nat i)" if "i \<le> length ?xs" for i
    using assms(2) off_vram_at [OF p(2), of i] separate_within [OF p(3), of "p + of_nat i"] that len
    by (simp add: prints_def)
  show "cstr (ptr (mem s') p) ?xs"
  proof (rule cstrI [OF len])
    show "\<And>i. i < length ?xs \<Longrightarrow> ptr (mem s') p (of_nat i) = ?xs ! i" using keep cstr_nth [OF p(1)] by simp
    show "0 \<notin> set ?xs" using p(1) by (simp add: cstr_def)
    show "ptr (mem s') p (of_nat (length ?xs)) = 0" using keep cstr_end [OF p(1)] by simp
  qed
qed

lemma printf_conv_prints:
  assumes "on_screen s" and "off_vram cb 64" and "str_args cb P str (mem s)"
    and "takes_arg c \<Longrightarrow> args \<noteq> [] \<and> (c = 115 \<longrightarrow> hd args \<in> P)"
  shows "\<exists>s'. printf_conv cb c alternate args s = Some (if takes_arg c then tl args else args, s') \<and>
    prints cb (conv_text str alternate c args) s s'"
proof (cases "takes_arg c")
  case False
  then show ?thesis using assms(1) prints_putc prints_refl
    by (auto simp: printf_conv_def conv_text_def takes_arg_def)
next
  case True
  then obtain v vs where args: "args = v # vs" using assms(4) by (cases args) auto
  have "\<exists>s'. map_option snd (puts v s) = Some s' \<and> prints cb (str v) s s'" if "c = 115"
    using puts_prints [OF assms(1) refl assms(2), of v "str v"] assms(3,4) that True args by (simp add: str_args_def)
  then show ?thesis
    using True args print_hex_prints [OF assms(1,2), of alternate v] print_unsigned_prints [OF assms(1,2), of v]
      print_signed_prints [OF assms(1,2), of v] prints_putc [OF assms(1), of cb "ucast v"]
    by (auto simp: printf_conv_def conv_text_def takes_arg_def)
qed

lemma printf_loop_prints:
  assumes "on_screen s" and "off_vram cb 64" and "str_args cb P str (mem s)"
    and "complete P mode cs args" and "0 \<notin> set cs"
    and "\<And>k. k < length cs \<Longrightarrow> fmt (of_nat (i + k)) = cs ! k" and "fmt (of_nat (i + length cs)) = 0"
  shows "\<exists>s'. printf_loop cb fmt (of_nat i) mode args s = Some (of_nat (i + length cs), s') \<and>
    prints cb (render str mode cs args) s s'"
  using assms
proof (induction P mode cs args arbitrary: i s rule: complete.induct)
  case (1 P mode args)
  then show ?case using prints_refl by (subst printf_loop.simps) auto
next
  case (2 P c cs args)
  have c: "fmt (of_nat i) = c" "c \<noteq> 0" using "2.prems"(5) "2.prems"(6) [of 0] by auto
  have nxt: "\<And>k. k < length cs \<Longrightarrow> fmt (of_nat (Suc i + k)) = cs ! k" "fmt (of_nat (Suc i + length cs)) = 0"
    using "2.prems"(6) [of "Suc _"] "2.prems"(7) by (simp_all add: add.assoc add.left_commute)
  have nz: "0 \<notin> set cs" using "2.prems"(5) by simp
  show ?case
  proof (cases "c = 37")
    case True
    have "\<exists>s'. printf_loop cb fmt (of_nat (Suc i)) (Some False) args s = Some (of_nat (Suc i + length cs), s') \<and>
        prints cb (render str (Some False) cs args) s s'"
      using "2.IH"(1) [OF True "2.prems"(1-3) _ nz nxt] "2.prems"(4) True by simp
    then show ?thesis using True c by (subst printf_loop.simps) (simp add: add.commute)
  next
    case False
    have p: "prints cb [c] s (putc c s)" using prints_putc [OF "2.prems"(1)] .
    have "\<exists>s'. printf_loop cb fmt (of_nat (Suc i)) None args (putc c s) = Some (of_nat (Suc i + length cs), s') \<and>
        prints cb (render str None cs args) (putc c s) s'"
      using "2.IH"(2) [OF False prints_on_screen [OF p] "2.prems"(2) str_args_prints [OF "2.prems"(3) p] _ nz nxt]
        "2.prems"(4) False by simp
    then show ?thesis using False c prints_trans [OF p] by (subst printf_loop.simps) (auto simp: add.commute)
  qed
next
  case (3 P alternate c cs args)
  have c: "fmt (of_nat i) = c" using "3.prems"(6) [of 0] by auto
  have nxt: "\<And>k. k < length cs \<Longrightarrow> fmt (of_nat (Suc i + k)) = cs ! k" "fmt (of_nat (Suc i + length cs)) = 0"
    using "3.prems"(6) [of "Suc _"] "3.prems"(7) by (simp_all add: add.assoc add.left_commute)
  have nz: "0 \<notin> set cs" using "3.prems"(5) by simp
  show ?case
  proof (cases "c = 35")
    case True
    have "\<exists>s'. printf_loop cb fmt (of_nat (Suc i)) (Some True) args s = Some (of_nat (Suc i + length cs), s') \<and>
        prints cb (render str (Some True) cs args) s s'"
      using "3.IH"(1) [OF True "3.prems"(1-3) _ nz nxt] "3.prems"(4) True by simp
    then show ?thesis using True c by (subst printf_loop.simps) (simp add: add.commute)
  next
    case False
    let ?args = "if takes_arg c then tl args else args"
    obtain s1 where s1: "printf_conv cb c alternate args s = Some (?args, s1)"
      and p: "prints cb (conv_text str alternate c args) s s1"
      using printf_conv_prints [OF "3.prems"(1-3), of c args alternate] "3.prems"(4) False by (auto split: if_splits)
    have "\<exists>s'. printf_loop cb fmt (of_nat (Suc i)) None ?args s1 = Some (of_nat (Suc i + length cs), s') \<and>
        prints cb (render str None cs ?args) s1 s'"
      using "3.IH"(2) [OF False _ prints_on_screen [OF p] "3.prems"(2) str_args_prints [OF "3.prems"(3) p] _ nz nxt]
        "3.IH"(3) [OF False _ prints_on_screen [OF p] "3.prems"(2) str_args_prints [OF "3.prems"(3) p] _ nz nxt]
        "3.prems"(4) False by (cases "takes_arg c") simp_all
    then show ?thesis using False c s1 prints_trans [OF p] by (subst printf_loop.simps) (auto simp: add.commute)
  qed
qed

lemma printf_prints:
  assumes "on_screen s" and "off_vram cb 64" and "str_args cb P str (mem s)"
    and "cstr fmt cs" and "complete P None cs args"
  shows "\<exists>s'. printf cb fmt args s = Some (of_nat (length cs), s') \<and> prints cb (render str None cs args) s s'"
  using printf_loop_prints [OF assms(1-3,5), of fmt 0] assms(4) cstr_nth [OF assms(4)]
  by (simp add: printf_def cstr_def)

section \<open>Properties\<close>

text \<open>C21: \<open>putc\<close> implements the abstract terminal.  With the cursor on the page, the cells and the
  cursor after \<open>putc c\<close> are those of the abstract operation: the character goes to the cursor's
  cell, the cursor wraps at column 80, a newline or a full last row scrolls the page up by one
  blank row; the cursor stays on the page, and no byte outside video memory and no other part of
  the state changes.\<close>

theorem putc_correct:
  assumes "on_screen s"
  shows "term_of (putc c s) = t_putc c (term_of s) \<and> on_screen (putc c s) \<and>
    off_screen (putc c s) = off_screen s"
  using putc_refines putc_on_screen off_screen_putc assms by blast

theorem putc_correct_witness:
  "row (term_of (putc 65 \<lparr>mem = \<lambda>_. 0, io = [], intr = False, screen_x = 79, screen_y = 24\<rparr>)) = 24"
proof -
  have "on_screen \<lparr>mem = \<lambda>_. 0, io = [], intr = False, screen_x = 79, screen_y = 24\<rparr>"
    by (simp add: on_screen_def)
  from putc_correct [OF this, of 65] show ?thesis by (simp add: t_putc_def t_advance_def)
qed

text \<open>\<open>back_space\<close> undoes \<open>putc\<close>.  For a character that is not a line break, unless the
  cursor is in the last cell of the page (where \<open>putc\<close> scrolls), a \<open>back_space\<close> right after it puts
  the cursor back where it was and leaves the page as it was but for a blank in that one cell;
  nothing outside video memory changes.  At the top left corner \<open>back_space\<close> does nothing.\<close>

theorem back_space_putc:
  assumes "on_screen s" and "c \<noteq> 10" and "c \<noteq> 13" and "screen_x s < 79 \<or> screen_y s < 24"
  shows "term_of (back_space (putc c s)) =
      (term_of s)\<lparr>cells := (cells (term_of s))[nat (80 * screen_y s + screen_x s) := blank]\<rparr> \<and>
    off_screen (back_space (putc c s)) = off_screen s \<and>
    (screen_x s = 0 \<and> screen_y s = 0 \<longrightarrow> back_space s = s)"
proof -
  have "term_of (back_space (putc c s)) = t_back_space (t_putc c (term_of s))"
    using back_space_refines [OF putc_on_screen [OF assms(1)]] putc_refines [OF assms(1)] by simp
  also have "\<dots> = (term_of s)\<lparr>cells := (cells (term_of s))[nat (80 * screen_y s + screen_x s) := blank]\<rparr>"
  proof (cases "screen_x s = 79")
    case True
    then show ?thesis using assms
      by (simp add: t_back_space_def t_putc_def t_advance_def Let_def on_screen_def term_of_def add.commute)
  next
    case False
    then show ?thesis using assms
      by (auto simp: t_back_space_def t_putc_def t_advance_def Let_def on_screen_def term_of_def)
  qed
  finally show ?thesis
    using off_screen_back_space [OF putc_on_screen [OF assms(1)]] off_screen_putc [OF assms(1)]
    by (simp add: back_space_def)
qed

theorem back_space_putc_witness:
  "screen_x (back_space (putc 65 \<lparr>mem = \<lambda>_. 0, io = [], intr = False, screen_x = 79, screen_y = 3\<rparr>)) = 79"
proof -
  have "on_screen \<lparr>mem = \<lambda>_. 0, io = [], intr = False, screen_x = 79, screen_y = 3\<rparr>"
    by (simp add: on_screen_def)
  from back_space_putc [OF this, of 65] show ?thesis
    by (simp add: term_of_def terminal.defs)
qed

text \<open>C20: \<open>printf\<close> prints exactly the rendering of its format.  For every complete format (no
  dangling \<^verbatim>\<open>%\<close>, an argument for every conversion, string arguments in ordinary memory) it
  returns the length of the format, the terminal shows the literal characters and, for each
  conversion, the decimal, signed, hexadecimal, zero-padded hexadecimal, character or string text
  of its argument, and of the rest of the state only the conversion buffer changes.\<close>

theorem printf_correct:
  assumes "on_screen s" and "off_vram cb 64" and "str_args cb P str (mem s)"
    and "cstr fmt cs" and "complete P None cs args"
  shows "\<exists>s'. printf cb fmt args s = Some (of_nat (length cs), s') \<and>
    term_of s' = fold t_putc (render str None cs args) (term_of s) \<and>
    (\<forall>a. \<not> vram a \<longrightarrow> \<not> within cb 64 a \<longrightarrow> mem s' a = mem s a) \<and> others s' = others s"
  using printf_prints [OF assms] by (auto simp: prints_def)

text \<open>The state and the format of the witness.\<close>

abbreviation home :: console where
  "home \<equiv> \<lparr>mem = \<lambda>_. 0, io = [], intr = False, screen_x = 0, screen_y = 0\<rparr>"

theorem printf_correct_witness:
  "\<exists>s'. printf 0x100 (ptr (poke (\<lambda>_. 0) 0x10 (lit ''%d:%#x'')) 0x10) [- 5, 0xBEEF] home = Some (6, s') \<and>
    term_of s' = fold t_putc (lit ''-5:0000BEEF'') (term_of home)"
proof -
  let ?fmt = "ptr (poke (\<lambda>_. 0) 0x10 (lit ''%d:%#x'')) 0x10"
  have on: "on_screen home" by (simp add: on_screen_def)
  have buf: "off_vram 0x100 64" by (simp add: off_vram_def separate_def)
  have strs: "str_args 0x100 {} (\<lambda>_. []) (mem home)" by (simp add: str_args_def)
  have fmt: "cstr ?fmt (lit ''%d:%#x'')"
    by (simp add: cstr_def lit_def poke_def bytes_at_def within_def upt_conv_Cons)
  have args: "complete {} None (lit ''%d:%#x'') [- 5, 0xBEEF]" by (simp add: lit_def takes_arg_def)
  have "render (\<lambda>_. []) None (lit ''%d:%#x'') [- 5, 0xBEEF] = lit ''-5:0000BEEF''"
    by (simp add: lit_def takes_arg_def conv_text_def signed_text_def hex8_text_def numeral_bytes_def digits.simps lookup_digits_def)
       (simp add: eval_nat_numeral)
  moreover have "(of_nat (length (lit ''%d:%#x'')) :: u32) = 6" by (simp add: lit_def)
  ultimately show ?thesis using printf_correct [OF on buf strs fmt args] by (metis (lifting))
qed

end
