(* ===== verification/Pic.thy ===== *)
theory Pic
  imports Console
begin

text \<open>
  The 8259 interrupt controller driver, \<^verbatim>\<open>student-distrib/i8259.c\<close>: the mask variables
  \<open>master_mask\<close> and \<open>slave_mask\<close>, and \<open>i8259_init\<close>, \<open>enable_irq\<close>, \<open>disable_irq\<close> and
  \<open>send_eoi\<close> with the port writes they make.  The specification is the set of enabled interrupt
  lines; the locale \<open>irq_lines\<close> is the interface the drivers of the RTC and the keyboard rely on.
\<close>

unbundle bit_operations_syntax

section \<open>State and operations\<close>

record pic = console +
  master_mask :: byte
  slave_mask :: byte

abbreviation MASTER_8259_PORT :: u16 where "MASTER_8259_PORT \<equiv> 0x20"
abbreviation SLAVE_8259_PORT :: u16 where "SLAVE_8259_PORT \<equiv> 0xA0"
abbreviation EOI :: u32 where "EOI \<equiv> 0x60"
abbreviation SLAVE_IRQ :: u32 where "SLAVE_IRQ \<equiv> 2"

definition i8259_init :: "'a pic_scheme \<Rightarrow> 'a pic_scheme" where
  "i8259_init s =
     (let s = outb 0x11 MASTER_8259_PORT s;
          s = outb 0x20 (MASTER_8259_PORT + 1) s;
          s = outb 0x04 (MASTER_8259_PORT + 1) s;
          s = outb 0x01 (MASTER_8259_PORT + 1) s;
          s = outb 0x11 SLAVE_8259_PORT s;
          s = outb 0x28 (SLAVE_8259_PORT + 1) s;
          s = outb 0x02 (SLAVE_8259_PORT + 1) s
      in outb 0x01 (SLAVE_8259_PORT + 1) s)"

text \<open>The two statements of every \<^verbatim>\<open>case\<close>: assign the mask variable, write it to the data port.\<close>

definition set_master_mask :: "byte \<Rightarrow> 'a pic_scheme \<Rightarrow> 'a pic_scheme" where
  "set_master_mask v s = (let s1 = s\<lparr>master_mask := v\<rparr> in outb (master_mask s1) (MASTER_8259_PORT + 1) s1)"

definition set_slave_mask :: "byte \<Rightarrow> 'a pic_scheme \<Rightarrow> 'a pic_scheme" where
  "set_slave_mask v s = (let s1 = s\<lparr>slave_mask := v\<rparr> in outb (slave_mask s1) (SLAVE_8259_PORT + 1) s1)"

definition enable_irq :: "u32 \<Rightarrow> 'a pic_scheme \<Rightarrow> 'a pic_scheme" where
  "enable_irq irq_num s =
     (if irq_num < 0 \<or> irq_num > 15 then s
      else if irq_num = 0 then set_master_mask (0xfe AND master_mask s) s
      else if irq_num = 1 then set_master_mask (0xfd AND master_mask s) s
      else if irq_num = 2 then set_master_mask (0xfb AND master_mask s) s
      else if irq_num = 3 then set_master_mask (0xf7 AND master_mask s) s
      else if irq_num = 4 then set_master_mask (0xef AND master_mask s) s
      else if irq_num = 5 then set_master_mask (0xdf AND master_mask s) s
      else if irq_num = 6 then set_master_mask (0xbf AND master_mask s) s
      else if irq_num = 7 then set_master_mask (0x7f AND master_mask s) s
      else if irq_num = 8 then set_slave_mask (0xfe AND slave_mask s) s
      else if irq_num = 9 then set_slave_mask (0xfd AND slave_mask s) s
      else if irq_num = 10 then set_slave_mask (0xfb AND slave_mask s) s
      else if irq_num = 11 then set_slave_mask (0xf7 AND slave_mask s) s
      else if irq_num = 12 then set_slave_mask (0xef AND slave_mask s) s
      else if irq_num = 13 then set_slave_mask (0xdf AND slave_mask s) s
      else if irq_num = 14 then set_slave_mask (0xbf AND slave_mask s) s
      else if irq_num = 15 then set_slave_mask (0x7f AND slave_mask s) s
      else s)"

definition disable_irq :: "u32 \<Rightarrow> 'a pic_scheme \<Rightarrow> 'a pic_scheme" where
  "disable_irq irq_num s =
     (if irq_num < 0 \<or> irq_num > 15 then s
      else if irq_num = 0 then set_master_mask (0x01 OR master_mask s) s
      else if irq_num = 1 then set_master_mask (0x02 OR master_mask s) s
      else if irq_num = 2 then set_master_mask (0x04 OR master_mask s) s
      else if irq_num = 3 then set_master_mask (0x08 OR master_mask s) s
      else if irq_num = 4 then set_master_mask (0x10 OR master_mask s) s
      else if irq_num = 5 then set_master_mask (0x20 OR master_mask s) s
      else if irq_num = 6 then set_master_mask (0x40 OR master_mask s) s
      else if irq_num = 7 then set_master_mask (0x80 OR master_mask s) s
      else if irq_num = 8 then set_slave_mask (0x01 OR slave_mask s) s
      else if irq_num = 9 then set_slave_mask (0x02 OR slave_mask s) s
      else if irq_num = 10 then set_slave_mask (0x04 OR slave_mask s) s
      else if irq_num = 11 then set_slave_mask (0x08 OR slave_mask s) s
      else if irq_num = 12 then set_slave_mask (0x10 OR slave_mask s) s
      else if irq_num = 13 then set_slave_mask (0x20 OR slave_mask s) s
      else if irq_num = 14 then set_slave_mask (0x40 OR slave_mask s) s
      else if irq_num = 15 then set_slave_mask (0x80 OR slave_mask s) s
      else s)"

definition send_eoi :: "u32 \<Rightarrow> 'a pic_scheme \<Rightarrow> 'a pic_scheme" where
  "send_eoi irq_num s =
     (if irq_num < 0 \<or> irq_num > 15 then s
      else if irq_num \<ge> 0 \<and> irq_num < 8 then outb (ucast (EOI OR irq_num)) MASTER_8259_PORT s
      else (let s = outb (ucast (EOI OR (irq_num - 8))) SLAVE_8259_PORT s
            in outb (ucast (EOI OR SLAVE_IRQ)) MASTER_8259_PORT s))"

section \<open>The set of enabled lines\<close>

definition irq_enabled :: "'a pic_scheme \<Rightarrow> nat \<Rightarrow> bool" where
  "irq_enabled s n \<longleftrightarrow> n < 16 \<and> (if n < 8 then \<not> bit (master_mask s) n else \<not> bit (slave_mask s) (n - 8))"

text \<open>The mask register of a controller is what was last written to its data port.\<close>

definition last_out :: "u16 \<Rightarrow> port_event list \<Rightarrow> byte option" where
  "last_out p h = fold (\<lambda>e r. case e of Out q b \<Rightarrow> if q = p then Some b else r | In _ \<Rightarrow> r) h None"

definition mask_written :: "nat \<Rightarrow> 'a pic_scheme \<Rightarrow> bool" where
  "mask_written n s \<longleftrightarrow>
     (if n < 8 then last_out (MASTER_8259_PORT + 1) (io s) = Some (master_mask s)
      else last_out (SLAVE_8259_PORT + 1) (io s) = Some (slave_mask s))"

text \<open>What an operation of the driver must leave alone: all but the masks and the port history.\<close>

definition off_pic :: "'a pic_scheme \<Rightarrow> 'a pic_scheme" where
  "off_pic s = s\<lparr>io := [], master_mask := 0, slave_mask := 0\<rparr>"

lemma last_out_snoc: "last_out p (h @ [e]) = (case e of Out q b \<Rightarrow> if q = p then Some b else last_out p h | In _ \<Rightarrow> last_out p h)"
  by (cases e) (simp_all add: last_out_def)

lemma less_8_cases: "n < 8 \<Longrightarrow> n = 0 \<or> n = 1 \<or> n = 2 \<or> n = 3 \<or> n = 4 \<or> n = 5 \<or> n = 6 \<or> n = (7 :: nat)"
  by linarith

lemma bit_byte_unset:
  "n < 8 \<Longrightarrow> bit (NOT (2 ^ n) AND (m :: byte)) k \<longleftrightarrow> bit m k \<and> k \<noteq> n"
  by (auto simp: bit_simps dest: bit_imp_le_length)

lemma bit_byte_set:
  "n < 8 \<Longrightarrow> bit (2 ^ n OR (m :: byte)) k \<longleftrightarrow> bit m k \<or> k = n"
  by (auto simp: bit_simps)

lemma byte_complements:
  "(- 2 :: byte) = 0xfe" "(- 3 :: byte) = 0xfd" "(- 5 :: byte) = 0xfb" "(- 9 :: byte) = 0xf7"
  "(- 17 :: byte) = 0xef" "(- 33 :: byte) = 0xdf" "(- 65 :: byte) = 0xbf" "(- 129 :: byte) = 0x7f"
  by simp_all

lemma enable_irq_master:
  "n < 8 \<Longrightarrow> enable_irq (of_nat n) s = set_master_mask (NOT (2 ^ n) AND master_mask s) s"
  by (drule less_8_cases) (elim disjE; simp add: enable_irq_def byte_complements)

lemma enable_irq_slave:
  "n < 8 \<Longrightarrow> enable_irq (of_nat (n + 8)) s = set_slave_mask (NOT (2 ^ n) AND slave_mask s) s"
  by (drule less_8_cases) (elim disjE; simp add: enable_irq_def byte_complements)

lemma disable_irq_master:
  "n < 8 \<Longrightarrow> disable_irq (of_nat n) s = set_master_mask (2 ^ n OR master_mask s) s"
  by (drule less_8_cases) (elim disjE; simp add: disable_irq_def)

lemma disable_irq_slave:
  "n < 8 \<Longrightarrow> disable_irq (of_nat (n + 8)) s = set_slave_mask (2 ^ n OR slave_mask s) s"
  by (drule less_8_cases) (elim disjE; simp add: disable_irq_def)

lemmas irq_switch = enable_irq_master enable_irq_slave disable_irq_master disable_irq_slave

lemma irq_out_of_range:
  assumes "irq > 15"
  shows "enable_irq irq s = s" "disable_irq irq s = s" "send_eoi irq s = s"
  using assms by (simp_all add: enable_irq_def disable_irq_def send_eoi_def)

lemma set_mask_fields [simp]:
  "master_mask (set_master_mask v s) = v" "slave_mask (set_master_mask v s) = slave_mask s"
  "slave_mask (set_slave_mask v s) = v" "master_mask (set_slave_mask v s) = master_mask s"
  "io (set_master_mask v s) = io s @ [Out 0x21 v]" "io (set_slave_mask v s) = io s @ [Out 0xA1 v]"
  "off_pic (set_master_mask v s) = off_pic s" "off_pic (set_slave_mask v s) = off_pic s"
  by (simp_all add: set_master_mask_def set_slave_mask_def outb_def off_pic_def)

lemma irq_line_cases:
  assumes "n < (16 :: nat)"
  obtains (master) "n < 8" | (slave) k where "n = k + 8" "k < 8"
proof (cases "n < 8")
  case False
  then have "n = (n - 8) + 8" "n - 8 < 8" using assms by simp_all
  then show ?thesis using that by blast
qed (use that in blast)

lemma irq_enabled_enable: "n < 16 \<Longrightarrow> irq_enabled (enable_irq (of_nat n) s) k \<longleftrightarrow> irq_enabled s k \<or> k = n"
  by (erule irq_line_cases) (auto simp: irq_enabled_def bit_byte_unset enable_irq_master enable_irq_slave simp del: of_nat_add)

lemma irq_enabled_disable: "n < 16 \<Longrightarrow> irq_enabled (disable_irq (of_nat n) s) k \<longleftrightarrow> irq_enabled s k \<and> k \<noteq> n"
  by (erule irq_line_cases) (auto simp: irq_enabled_def bit_byte_set disable_irq_master disable_irq_slave simp del: of_nat_add)

lemma mask_written_irq:
  assumes "n < 16"
  shows "mask_written n (enable_irq (of_nat n) s)" "mask_written n (disable_irq (of_nat n) s)"
    "mask_written k s \<Longrightarrow> mask_written k (enable_irq (of_nat n) s)"
    "mask_written k s \<Longrightarrow> mask_written k (disable_irq (of_nat n) s)"
    "off_pic (enable_irq (of_nat n) s) = off_pic s" "off_pic (disable_irq (of_nat n) s) = off_pic s"
  using assms
  by (auto elim!: irq_line_cases simp: mask_written_def irq_switch last_out_snoc simp del: of_nat_add)

lemma send_eoi_io:
  assumes "n < 16"
  shows "io (send_eoi (of_nat n) s) = io s @
    (if n < 8 then [Out 0x20 (0x60 + of_nat n)] else [Out 0xA0 (0x60 + of_nat (n - 8)), Out 0x20 0x62])"
  using assms
proof (cases rule: irq_line_cases)
  case master
  then show ?thesis by (drule_tac less_8_cases) (elim disjE; simp add: send_eoi_def)
next
  case (slave k)
  then show ?thesis by (drule_tac less_8_cases) (elim disjE; simp add: send_eoi_def)
qed

section \<open>The interrupt-line interface\<close>

locale irq_lines =
  fixes enable disable :: "nat \<Rightarrow> 's \<Rightarrow> 's" and enabled :: "'s \<Rightarrow> nat \<Rightarrow> bool"
  assumes enabled_enable: "n < 16 \<Longrightarrow> enabled (enable n s) k \<longleftrightarrow> enabled s k \<or> k = n"
    and enabled_disable: "n < 16 \<Longrightarrow> enabled (disable n s) k \<longleftrightarrow> enabled s k \<and> k \<noteq> n"
begin

lemma enabled_fold: "list_all (\<lambda>n. n < 16) ns \<Longrightarrow> enabled (fold enable ns s) k \<longleftrightarrow> enabled s k \<or> k \<in> set ns"
  by (induction ns arbitrary: s) (auto simp: enabled_enable)

lemma disable_enable: "n < 16 \<Longrightarrow> enabled (disable n (enable n s)) k \<longleftrightarrow> enabled s k \<and> k \<noteq> n"
  by (auto simp: enabled_enable enabled_disable)

lemma other_line: "n < 16 \<Longrightarrow> k \<noteq> n \<Longrightarrow> enabled (enable n s) k = enabled s k \<and> enabled (disable n s) k = enabled s k"
  by (simp add: enabled_enable enabled_disable)

end

interpretation irq: irq_lines "\<lambda>n. enable_irq (of_nat n)" "\<lambda>n. disable_irq (of_nat n)" irq_enabled
  by unfold_locales (rule irq_enabled_enable irq_enabled_disable; assumption)+

section \<open>Properties\<close>

text \<open>C32: the interrupt masks.  For every one of the 16 lines, \<open>enable_irq\<close> clears and \<open>disable_irq\<close>
  sets the mask bit of that line and of no other; after either the controller's mask register
  holds the driver's variable and nothing else of the state changes; the end-of-interrupt command
  of a line goes to the controller the line is wired to, with the line's number in its low three
  bits, and for a slave line line 2 is acknowledged on the master; a number above 15 changes
  nothing.\<close>

theorem irq_masks_correct:
  assumes "n < 16"
  shows "(irq_enabled (enable_irq (of_nat n) s) k \<longleftrightarrow> irq_enabled s k \<or> k = n) \<and>
    (irq_enabled (disable_irq (of_nat n) s) k \<longleftrightarrow> irq_enabled s k \<and> k \<noteq> n) \<and>
    mask_written n (enable_irq (of_nat n) s) \<and> mask_written n (disable_irq (of_nat n) s) \<and>
    off_pic (enable_irq (of_nat n) s) = off_pic s \<and> off_pic (disable_irq (of_nat n) s) = off_pic s \<and>
    io (send_eoi (of_nat n) s) = io s @
      (if n < 8 then [Out 0x20 (0x60 + of_nat n)] else [Out 0xA0 (0x60 + of_nat (n - 8)), Out 0x20 0x62]) \<and>
    (\<forall>irq > 15. enable_irq irq s = s \<and> disable_irq irq s = s \<and> send_eoi irq s = s)"
proof -
  have eoi: "io (send_eoi (of_nat n) s) = io s @
      (if n < 8 then [Out 0x20 (0x60 + of_nat n)] else [Out 0xA0 (0x60 + of_nat (n - 8)), Out 0x20 0x62])"
    using assms by (rule send_eoi_io)
  then show ?thesis
    using irq_enabled_enable [OF assms] irq_enabled_disable [OF assms] mask_written_irq [OF assms] irq_out_of_range
    by auto
qed

theorem irq_masks_correct_witness:
  "irq_enabled (enable_irq 8 \<lparr>mem = \<lambda>_. 0, io = [], intr = False, screen_x = 0, screen_y = 0,
     master_mask = 0xff, slave_mask = 0xff\<rparr>) 8"
  using irq_masks_correct [of 8 "\<lparr>mem = \<lambda>_. 0, io = [], intr = False, screen_x = 0, screen_y = 0,
     master_mask = 0xff, slave_mask = 0xff\<rparr>" 8] by simp

end
