(* ===== verification/Rtc.thy ===== *)
theory Rtc
  imports Pic
begin

text \<open>
  The real-time clock driver, \<^verbatim>\<open>student-distrib/rtc.c\<close>: \<open>rtc_init\<close>, the interrupt handler
  \<open>rtc_handler\<close>, and the file operations \<open>rtc_open\<close>, \<open>rtc_read\<close>, \<open>rtc_write\<close> and
  \<open>rtc_close\<close>.  The CMOS registers are addressed through the index port \<open>0x70\<close> and the data
  port \<open>0x71\<close>; what a read returns is the device parameter \<open>dev\<close>.  \<open>rtc_read\<close> busy-waits
  for the handler, so it runs against a schedule of interrupts (\<open>spin\<close>).

  The global \<open>rtc_open_close\<close> is written by no code that is compiled, so it is left out.
\<close>

unbundle bit_operations_syntax

section \<open>State and operations\<close>

record rtc = pic +
  rtc_interrupt_occurred :: int

abbreviation RTC_IRQ :: u32 where "RTC_IRQ \<equiv> 8"
abbreviation SLAVE :: u32 where "SLAVE \<equiv> 2"
abbreviation RTC_PORT :: u16 where "RTC_PORT \<equiv> 0x70"
abbreviation CMOS_PORT :: u16 where "CMOS_PORT \<equiv> 0x71"
abbreviation PIE_ENABLE :: byte where "PIE_ENABLE \<equiv> 0x40"
abbreviation REGA :: byte where "REGA \<equiv> 0x8A"
abbreviation REGB :: byte where "REGB \<equiv> 0x8B"
abbreviation REGC :: byte where "REGC \<equiv> 0x8C"
abbreviation RESET_RV :: byte where "RESET_RV \<equiv> 0xf0"

definition rtc_init :: "device \<Rightarrow> 'a rtc_scheme \<Rightarrow> 'a rtc_scheme" where
  "rtc_init dev s =
     (let s = cli s;
          s = outb REGB RTC_PORT s;
          (prev, s) = inb dev CMOS_PORT s;
          s = outb REGB RTC_PORT s;
          s = outb (prev OR PIE_ENABLE) CMOS_PORT s;
          rate = 0x0f;
          s = outb REGA RTC_PORT s;
          (prev, s) = inb dev CMOS_PORT s;
          s = outb REGA RTC_PORT s;
          s = outb ((prev AND RESET_RV) OR rate) CMOS_PORT s;
          s = sti s;
          s = enable_irq SLAVE s
      in enable_irq RTC_IRQ s)"

definition rtc_handler :: "device \<Rightarrow> 'a rtc_scheme \<Rightarrow> 'a rtc_scheme" where
  "rtc_handler dev s =
     (let s = cli s;
          s = outb REGC RTC_PORT s;
          (_, s) = inb dev CMOS_PORT s;
          s = s\<lparr>rtc_interrupt_occurred := 0\<rparr>;
          s = send_eoi RTC_IRQ s
      in sti s)"

text \<open>\<open>rtc_read\<close> ignores its arguments.  It returns the interrupts that are left of the schedule,
  the result and the state.\<close>

definition rtc_read :: "'a rtc_scheme handler list \<Rightarrow> 'a rtc_scheme
    \<Rightarrow> ('a rtc_scheme handler list \<times> int \<times> 'a rtc_scheme) option" where
  "rtc_read irqs s = do {
     let s = s\<lparr>rtc_interrupt_occurred := 1\<rparr>;
     (irqs', s') \<leftarrow> spin (\<lambda>s. rtc_interrupt_occurred s = 1) irqs s;
     Some (irqs', 0, s')
   }"

text \<open>The \<^verbatim>\<open>switch\<close> of \<open>rtc_write\<close>; \<open>None\<close> is its \<^verbatim>\<open>default\<close>.\<close>

definition rtc_rate :: "int \<Rightarrow> byte option" where
  "rtc_rate frequency =
     (if frequency = 1024 then Some 0x06
      else if frequency = 512 then Some 0x07
      else if frequency = 256 then Some 0x08
      else if frequency = 128 then Some 0x09
      else if frequency = 64 then Some 0x0A
      else if frequency = 32 then Some 0x0B
      else if frequency = 16 then Some 0x0C
      else if frequency = 8 then Some 0x0D
      else if frequency = 4 then Some 0x0E
      else if frequency = 2 then Some 0x0F
      else if frequency = 0 then Some 0x00
      else None)"

definition rtc_write :: "device \<Rightarrow> int \<Rightarrow> u32 \<Rightarrow> int \<Rightarrow> 'a rtc_scheme \<Rightarrow> int \<times> 'a rtc_scheme" where
  "rtc_write dev fd buf nbytes s =
     (if nbytes \<noteq> 4 then (-1, s)
      else let frequency = sint (load32 (mem s) buf) in
        if frequency > 1024 then (-1, s)
        else case rtc_rate frequency of
          None \<Rightarrow> (-1, s)
        | Some rate \<Rightarrow>
            (let s = outb REGA RTC_PORT s;
                 (prev, s) = inb dev CMOS_PORT s;
                 s = outb REGA RTC_PORT s;
                 s = outb ((prev AND RESET_RV) OR rate) CMOS_PORT s
             in (nbytes, s)))"

definition rtc_open :: "'a rtc_scheme \<Rightarrow> int \<times> 'a rtc_scheme" where
  "rtc_open s = (0, s)"

definition rtc_close :: "'a rtc_scheme \<Rightarrow> int \<times> 'a rtc_scheme" where
  "rtc_close s = (0, s)"

section \<open>The CMOS registers\<close>

text \<open>The register file behind the two ports: a write to the index port selects a register, a
  write to the data port stores into it.\<close>

definition cmos_step :: "port_event \<Rightarrow> byte \<times> (byte \<Rightarrow> byte option) \<Rightarrow> byte \<times> (byte \<Rightarrow> byte option)" where
  "cmos_step e c = (case e of
     Out p b \<Rightarrow> if p = RTC_PORT then (b, snd c) else if p = CMOS_PORT then (fst c, (snd c)(fst c := Some b)) else c
   | In p \<Rightarrow> c)"

definition cmos_reg :: "port_event list \<Rightarrow> byte \<Rightarrow> byte option" where
  "cmos_reg h = snd (fold cmos_step h (0, \<lambda>_. None))"

text \<open>The periodic rate of a value of register A, as the clock's data sheet (and the comment in
  the code) has it: \<open>32768 >> (rate - 1)\<close> interrupts a second, none for rate 0.\<close>

definition rate_hz :: "byte \<Rightarrow> int" where
  "rate_hz a = (let r = unat (a AND 0x0f) in if r = 0 then 0 else 32768 div 2 ^ (r - 1))"

lemma cmos_fold_snoc: "fold cmos_step (h @ es) c = fold cmos_step es (fold cmos_step h c)"
  by simp

lemma rate_hz_low: "rate_hz ((p AND 0xf0) OR r) = rate_hz (r AND 0x0f)"
proof -
  have "((p AND 0xf0) OR r) AND 0x0f = (r AND 0x0f) AND (0x0f :: byte)"
  proof (rule bit_word_eqI)
    fix n assume "n < LENGTH(8)"
    then have "n < 8" by simp
    then show "bit (((p AND 0xf0) OR r) AND 0x0f) n = bit ((r AND 0x0f) AND (0x0f :: byte)) n"
      by (drule_tac less_8_cases) (elim disjE; simp add: bit_simps)
  qed
  then show ?thesis by (simp add: rate_hz_def)
qed

lemma rtc_rate_hz: "rtc_rate f = Some r \<Longrightarrow> rate_hz (r AND 0x0f) = f"
  by (auto simp: rtc_rate_def rate_hz_def split: if_splits)

lemma rtc_rate_le: "rtc_rate f = Some r \<Longrightarrow> f \<le> 1024"
  by (auto simp: rtc_rate_def split: if_splits)

lemma rtc_rate_low: "rtc_rate f = Some r \<Longrightarrow> r AND 0xf0 = 0"
  by (auto simp: rtc_rate_def split: if_splits)

text \<open>The four port accesses with which the driver changes register A.\<close>

definition rega_traffic :: "byte \<Rightarrow> byte \<Rightarrow> port_event list" where
  "rega_traffic prev rate = [Out RTC_PORT REGA, In CMOS_PORT, Out RTC_PORT REGA, Out CMOS_PORT ((prev AND RESET_RV) OR rate)]"

lemma cmos_rega: "cmos_reg (h @ rega_traffic prev rate) r =
    (if r = REGA then Some ((prev AND RESET_RV) OR rate) else cmos_reg h r)"
  by (simp add: cmos_reg_def rega_traffic_def cmos_step_def)

lemma rtc_write_cases:
  "rtc_write dev fd buf nbytes s =
     (case rtc_rate (sint (load32 (mem s) buf)) of
        Some rate \<Rightarrow> if nbytes = 4
          then (4, s\<lparr>io := io s @ rega_traffic (dev (io s @ [Out RTC_PORT REGA]) CMOS_PORT) rate\<rparr>) else (-1, s)
      | None \<Rightarrow> (-1, s))"
  using rtc_rate_le [of "sint (load32 (mem s) buf)"]
  by (auto simp: rtc_write_def Let_def outb_def inb_def rega_traffic_def split: option.splits)

lemma masked_or:
  assumes "r AND 0xf0 = (0 :: byte)"
  shows "((p AND 0xf0) OR r) AND 0xf0 = p AND 0xf0"
proof -
  have "((p AND 0xf0) OR r) AND 0xf0 = (p AND 0xf0) OR (r AND 0xf0)"
    by (simp add: bit.conj_disj_distrib2 and.assoc)
  then show ?thesis using assms by simp
qed

section \<open>The interrupt schedule\<close>

text \<open>A handler that returns and leaves the clock's flag alone and interrupts enabled.\<close>

definition unrelated :: "'a rtc_scheme handler \<Rightarrow> bool" where
  "unrelated h \<longleftrightarrow> (\<forall>t. \<exists>t'. h t = Some t' \<and> rtc_interrupt_occurred t' = rtc_interrupt_occurred t \<and> (intr t \<longrightarrow> intr t'))"

lemma rtc_handler_flag [simp]: "rtc_interrupt_occurred (rtc_handler dev s) = 0" "intr (rtc_handler dev s)"
  by (simp_all add: rtc_handler_def Let_def cli_def outb_def inb_def send_eoi_def sti_def)

lemma spin_unrelated:
  assumes "\<forall>h \<in> set hs. unrelated h" and "intr s" and "rtc_interrupt_occurred s = 1"
  shows "\<exists>t. intr t \<and> rtc_interrupt_occurred t = 1 \<and>
    (\<forall>irqs. spin (\<lambda>s. rtc_interrupt_occurred s = 1) (hs @ irqs) s = spin (\<lambda>s. rtc_interrupt_occurred s = 1) irqs t)"
  using assms
proof (induction hs arbitrary: s)
  case Nil
  then show ?case by auto
next
  case (Cons h hs)
  obtain s' where "h s = Some s'" "rtc_interrupt_occurred s' = rtc_interrupt_occurred s" "intr s \<longrightarrow> intr s'"
    using Cons.prems(1) unfolding unrelated_def by (meson list.set_intros(1))
  then show ?case using Cons.IH [of s'] Cons.prems spin_step [of "\<lambda>s. rtc_interrupt_occurred s = 1" s h s'] by simp
qed

lemma rtc_read_served:
  assumes "intr s" and "\<forall>h \<in> set hs. unrelated h"
  shows "\<exists>t. rtc_read (hs @ (\<lambda>u. Some (rtc_handler dev u)) # rest) s = Some (rest, 0, rtc_handler dev t)"
proof -
  let ?w = "\<lambda>s. rtc_interrupt_occurred s = 1"
  obtain t where t: "intr t" "?w t" "\<forall>irqs. spin ?w (hs @ irqs) (s\<lparr>rtc_interrupt_occurred := 1\<rparr>) = spin ?w irqs t"
    using spin_unrelated [OF assms(2), of "s\<lparr>rtc_interrupt_occurred := 1\<rparr>"] assms(1) by auto
  have "spin ?w ((\<lambda>u. Some (rtc_handler dev u)) # rest) t = spin ?w rest (rtc_handler dev t)"
    using t by (intro spin_step) auto
  also have "\<dots> = Some (rest, rtc_handler dev t)" by (rule spin_done) simp
  finally show ?thesis using t by (auto simp: rtc_read_def)
qed

lemma rtc_read_waits:
  assumes "\<forall>h \<in> set hs. unrelated h"
  shows "rtc_read hs s = None"
proof (cases "intr s")
  case True
  let ?w = "\<lambda>s. rtc_interrupt_occurred s = 1"
  obtain t where "?w t" "\<forall>irqs. spin ?w (hs @ irqs) (s\<lparr>rtc_interrupt_occurred := 1\<rparr>) = spin ?w irqs t"
    using spin_unrelated [OF assms, of "s\<lparr>rtc_interrupt_occurred := 1\<rparr>"] True by auto
  then have "spin ?w (hs @ []) (s\<lparr>rtc_interrupt_occurred := 1\<rparr>) = spin ?w [] t" by blast
  also have "\<dots> = None" using \<open>?w t\<close> by (simp add: spin.simps)
  finally have "spin ?w hs (s\<lparr>rtc_interrupt_occurred := 1\<rparr>) = None" by simp
  then show ?thesis by (simp add: rtc_read_def)
qed (simp add: rtc_read_def spin_masked)

section \<open>Properties\<close>

text \<open>C31: \<open>rtc_write\<close> accepts exactly four bytes holding 0 or a power of two from 2 to 1024.  It
  then returns 4, register A holds the rate that gives that many interrupts a second with its
  upper four bits as the device had them, and nothing but the port history changes; in every
  other case it returns -1 and changes nothing.\<close>

theorem rtc_write_correct:
  "let f = sint (load32 (mem s) buf); prev = dev (io s @ [Out RTC_PORT REGA]) CMOS_PORT
   in if nbytes = 4 \<and> (f = 0 \<or> f \<in> {2, 4, 8, 16, 32, 64, 128, 256, 512, 1024})
      then \<exists>h a. rtc_write dev fd buf nbytes s = (4, s\<lparr>io := h\<rparr>) \<and> cmos_reg h REGA = Some a \<and>
        rate_hz a = f \<and> a AND 0xf0 = prev AND 0xf0 \<and> (cmos_reg h)(REGA := None) = (cmos_reg (io s))(REGA := None)
      else rtc_write dev fd buf nbytes s = (-1, s)"
proof (cases "rtc_rate (sint (load32 (mem s) buf))")
  case None
  then show ?thesis by (auto simp: rtc_write_cases rtc_rate_def Let_def split: if_splits)
next
  case (Some rate)
  let ?f = "sint (load32 (mem s) buf)" and ?prev = "dev (io s @ [Out RTC_PORT REGA]) CMOS_PORT"
  let ?h = "io s @ rega_traffic ?prev rate" and ?a = "(?prev AND RESET_RV) OR rate"
  have "rate_hz ?a = ?f" using rtc_rate_hz [OF Some] rate_hz_low by simp
  moreover have "?a AND 0xf0 = ?prev AND 0xf0" using masked_or [OF rtc_rate_low [OF Some]] .
  moreover have "rtc_write dev fd buf 4 s = (4, s\<lparr>io := ?h\<rparr>)"
    using Some by (simp add: rtc_write_cases)
  moreover have "?f = 0 \<or> ?f \<in> {2, 4, 8, 16, 32, 64, 128, 256, 512, 1024}"
    using Some by (auto simp: rtc_rate_def split: if_splits)
  moreover have "rtc_write dev fd buf nbytes s = (-1, s)" if "nbytes \<noteq> 4"
    using that by (simp add: rtc_write_def)
  moreover have "cmos_reg ?h REGA = Some ?a" "(cmos_reg ?h)(REGA := None) = (cmos_reg (io s))(REGA := None)"
    by (auto simp: cmos_rega)
  ultimately show ?thesis unfolding Let_def by (cases "nbytes = 4") (simp_all, blast)
qed

text \<open>C27: \<open>rtc_read\<close> returns 0 at the first clock interrupt.  With interrupts enabled, whatever
  other handlers run before it, the first \<open>rtc_handler\<close> ends the wait and the later interrupts are
  still pending; without one the read keeps waiting, and with interrupts disabled it never
  returns.\<close>

theorem rtc_read_live:
  assumes "\<forall>h \<in> set hs. unrelated h"
  shows "(intr s \<longrightarrow> (\<exists>t. rtc_read (hs @ (\<lambda>u. Some (rtc_handler dev u)) # rest) s = Some (rest, 0, rtc_handler dev t))) \<and>
    rtc_read hs s = None \<and> (\<not> intr s \<longrightarrow> rtc_read irqs s = None)"
  using rtc_read_served [OF _ assms, of s dev rest] rtc_read_waits [OF assms, of s]
  by (auto simp: rtc_read_def spin_masked)

theorem rtc_read_live_witness:
  "\<exists>t. rtc_read [\<lambda>u. Some u, \<lambda>u. Some (rtc_handler (\<lambda>_ _. 0) u)]
     \<lparr>mem = \<lambda>_. 0, io = [], intr = True, screen_x = 0, screen_y = 0, master_mask = 0, slave_mask = 0,
      rtc_interrupt_occurred = 0\<rparr> = Some ([], 0, rtc_handler (\<lambda>_ _. 0) t)"
proof -
  have "\<forall>h \<in> set [\<lambda>u :: rtc. Some u]. unrelated h" by (simp add: unrelated_def)
  from rtc_read_live [OF this, of _ "\<lambda>_ _. 0" "[]"] show ?thesis by simp
qed

text \<open>\<open>rtc_init\<close> enables exactly the clock's line and the cascade line besides those already
  enabled, writes both masks to the controllers, sets the periodic-interrupt bit of register B
  without changing its other bits, programs 2 Hz, and leaves interrupts enabled.\<close>

theorem rtc_init_correct:
  "(irq_enabled (rtc_init dev s) k \<longleftrightarrow> irq_enabled s k \<or> k = 2 \<or> k = 8) \<and>
   mask_written 2 (rtc_init dev s) \<and> mask_written 8 (rtc_init dev s) \<and> intr (rtc_init dev s) \<and>
   (\<exists>a b. cmos_reg (io (rtc_init dev s)) REGA = Some a \<and> rate_hz a = 2 \<and>
          cmos_reg (io (rtc_init dev s)) REGB = Some (b OR PIE_ENABLE) \<and> b = dev (io s @ [Out RTC_PORT REGB]) CMOS_PORT)"
proof -
  define b where "b = dev (io s @ [Out RTC_PORT REGB]) CMOS_PORT"
  define h where "h = io s @ [Out RTC_PORT REGB, In CMOS_PORT, Out RTC_PORT REGB, Out CMOS_PORT (b OR PIE_ENABLE)]"
  define a where "a = dev (h @ [Out RTC_PORT REGA]) CMOS_PORT"
  define s1 where "s1 = s\<lparr>io := h @ rega_traffic a 0x0f, intr := True\<rparr>"
  have init: "rtc_init dev s = enable_irq RTC_IRQ (enable_irq SLAVE s1)"
    by (simp add: rtc_init_def s1_def h_def a_def b_def rega_traffic_def Let_def outb_def inb_def cli_def sti_def)
  have irq2: "enable_irq SLAVE t = enable_irq (of_nat 2) t" and irq8: "enable_irq RTC_IRQ t = enable_irq (of_nat 8) t"
    for t :: "'a rtc_scheme" by simp_all
  have "irq_enabled (rtc_init dev s) k \<longleftrightarrow> irq_enabled s k \<or> k = 2 \<or> k = 8"
    unfolding init irq2 irq8 using irq.enabled_fold [of "[2, 8]" s1 k]
    by (auto simp: s1_def irq_enabled_def simp del: of_nat_numeral)
  moreover have "mask_written 2 (rtc_init dev s)" "mask_written 8 (rtc_init dev s)"
    unfolding init irq2 irq8 by (intro mask_written_irq; simp del: of_nat_numeral)+
  moreover have "intr (rtc_init dev s)"
    by (simp add: init s1_def enable_irq_def set_master_mask_def set_slave_mask_def outb_def)
  moreover have "cmos_reg (io (rtc_init dev s)) r = cmos_reg (h @ rega_traffic a 0x0f) r" for r
    by (simp add: init s1_def enable_irq_def cmos_reg_def cmos_step_def)
  moreover have "cmos_reg h REGB = Some (b OR PIE_ENABLE)" by (simp add: h_def cmos_reg_def cmos_step_def)
  moreover have "rate_hz ((a AND RESET_RV) OR 0x0f) = 2" by (simp add: rate_hz_low) (simp add: rate_hz_def)
  ultimately show ?thesis by (auto simp: cmos_rega b_def)
qed

end
