(* ===== verification/Files.thy ===== *)
theory Files
  imports Rtc
begin

text \<open>
  The read-only file system, \<^verbatim>\<open>student-distrib/files.c\<close> and \<^verbatim>\<open>files.h\<close>.  The image the boot
  loader placed in memory is read in place: directory entries of 64 bytes (name 32, file type,
  inode number) after the 64-byte boot block, inodes of 4096 bytes (length, 1023 block numbers),
  then data blocks of 4096 bytes.  The globals of \<^verbatim>\<open>files.h\<close> are fields of the state, pointers are
  addresses, and every access goes through memory, so that a buffer overlapping the image behaves
  as it does in the code.

  The specification reads the image as a directory of names and files as byte lists
  (\<open>entry_name\<close>, \<open>file_bytes\<close>).
\<close>

unbundle bit_operations_syntax

section \<open>State\<close>

record boot_block =
  dentries_num :: u32
  inodes_num :: u32
  datablocks_num :: u32
  reserved :: "byte list"

record file_sys =
  st_boot_block :: u32
  st_inode :: u32
  st_data :: u32

record files = rtc +
  my_boot_block :: boot_block
  file_addr :: file_sys
  dentries :: u32
  inodes :: u32
  length_of_file :: int
  entry_counter :: int
  flag_open :: u32

abbreviation FS_UNIT_SIZE :: u32 where "FS_UNIT_SIZE \<equiv> 4096"
abbreviation SIZE_FS_DENTRIES :: int where "SIZE_FS_DENTRIES \<equiv> 63"
abbreviation SBUFSIZE :: int where "SBUFSIZE \<equiv> 33"

text \<open>The structures at their offsets.\<close>

definition boot_block_at :: "mem \<Rightarrow> u32 \<Rightarrow> boot_block" where
  "boot_block_at m a = \<lparr>dentries_num = load32 m a, inodes_num = load32 m (a + 4),
     datablocks_num = load32 m (a + 8), reserved = bytes_at (ptr m (a + 12)) 52\<rparr>"

definition dentry_at :: "'a files_scheme \<Rightarrow> u32 \<Rightarrow> u32" where
  "dentry_at s i = dentries s + i * 64"

definition inode_length :: "'a files_scheme \<Rightarrow> u32 \<Rightarrow> u32" where
  "inode_length s inode = load32 (mem s) (inodes s + inode * 4096)"

definition data_block :: "'a files_scheme \<Rightarrow> u32 \<Rightarrow> u32 \<Rightarrow> u32" where
  "data_block s inode j = load32 (mem s) (inodes s + inode * 4096 + 4 + j * 4)"

section \<open>Operations\<close>

definition filesystem_init :: "u32 \<Rightarrow> u32 \<Rightarrow> 'a files_scheme \<Rightarrow> int \<times> 'a files_scheme" where
  "filesystem_init fs_start fs_end s =
     (if fs_start = fs_end then (-1, s)
      else
        (let s = s\<lparr>my_boot_block := boot_block_at (mem s) fs_start\<rparr>;
             s = s\<lparr>file_addr := \<lparr>st_boot_block = fs_start, st_inode = fs_start + FS_UNIT_SIZE,
                   st_data = fs_start + (inodes_num (my_boot_block s) + 1) * FS_UNIT_SIZE\<rparr>\<rparr>;
             s = s\<lparr>dentries := fs_start + of_int (SIZE_FS_DENTRIES + 1)\<rparr>;
             s = s\<lparr>inodes := st_inode (file_addr s)\<rparr>
         in (0, s\<lparr>entry_counter := 0\<rparr>)))"

definition dentry_copy :: "u32 \<Rightarrow> u32 \<Rightarrow> 'a files_scheme \<Rightarrow> 'a files_scheme option" where
  "dentry_copy index dentry s = do {
     m \<leftarrow> strcpy (mem s) dentry (dentry_at s index);
     let m = store32 m (dentry + 32) (load32 m (dentry_at s index + 32));
     let m = store32 m (dentry + 36) (load32 m (dentry_at s index + 36));
     Some (s\<lparr>mem := m\<rparr>)
   }"

function dentry_search :: "u32 \<Rightarrow> u32 \<Rightarrow> int \<Rightarrow> 'a files_scheme \<Rightarrow> (int \<times> 'a files_scheme) option" where
  "dentry_search fname dentry i s =
     (if i < SIZE_FS_DENTRIES then do {
        sizefile \<leftarrow> strlen (ptr (mem s) fname);
        sizedentry \<leftarrow> strlen (ptr (mem s) (dentry_at s (of_int i)));
        let size = (if sint sizefile > sint sizedentry then sint sizefile else sint sizedentry);
        if strncmp (ptr (mem s) (dentry_at s (of_int i))) (ptr (mem s) fname) (of_int size) = 0
        then do { s' \<leftarrow> dentry_copy (of_int i) dentry s; Some (0, s') }
        else dentry_search fname dentry (i + 1) s
      } else Some (-1, s))"
  by pat_completeness auto
termination
  by (relation "measure (\<lambda>(fname, dentry, i, s). nat (SIZE_FS_DENTRIES - i))") auto

definition read_dentry_by_name :: "u32 \<Rightarrow> u32 \<Rightarrow> 'a files_scheme \<Rightarrow> (int \<times> 'a files_scheme) option" where
  "read_dentry_by_name fname dentry s = do {
     len \<leftarrow> strlen (ptr (mem s) fname);
     if sint len \<le> 0 then Some (-1, s) else dentry_search fname dentry 0 s
   }"

definition read_dentry_by_index :: "u32 \<Rightarrow> u32 \<Rightarrow> 'a files_scheme \<Rightarrow> (int \<times> 'a files_scheme) option" where
  "read_dentry_by_index index dentry s =
     (if index \<ge> of_int SIZE_FS_DENTRIES \<or> index < 0 \<or> index \<ge> inodes_num (my_boot_block s) then Some (-1, s)
      else do { s' \<leftarrow> dentry_copy index dentry s; Some (0, s') })"

function read_data_loop :: "u32 \<Rightarrow> u32 \<Rightarrow> u32 \<Rightarrow> u32 \<Rightarrow> u32 \<Rightarrow> u32 \<Rightarrow> u32 \<Rightarrow> u32 \<Rightarrow> 'a files_scheme
    \<Rightarrow> int \<times> 'a files_scheme" where
  "read_data_loop inode offset buf len read_data read_data_block read_addr i s =
     (if i < len then
        (let roll = (read_data \<ge> FS_UNIT_SIZE);
             read_data = (if roll then 0 else read_data);
             read_data_block = (if roll then read_data_block + 1 else read_data_block)
         in if roll \<and> data_block s inode read_data_block \<ge> datablocks_num (my_boot_block s) then (-1, s)
            else
              (let read_addr = (if roll then st_data (file_addr s) + data_block s inode read_data_block * FS_UNIT_SIZE
                                else read_addr)
               in if i + offset \<ge> inode_length s inode then (sint i, s\<lparr>length_of_file := sint i\<rparr>)
                  else read_data_loop inode offset buf len (read_data + 1) read_data_block (read_addr + 1) (i + 1)
                         (s\<lparr>mem := (mem s)(buf + i := mem s read_addr)\<rparr>)))
      else (sint i, s\<lparr>length_of_file := sint i\<rparr>))"
  by pat_completeness auto
termination
  by (relation "measure (\<lambda>(inode, offset, buf, len, rd, rdb, ra, i, s). unat len - unat i)")
     (auto simp: unat_succ_less word_less_nat_alt)

definition read_data :: "u32 \<Rightarrow> u32 \<Rightarrow> u32 \<Rightarrow> u32 \<Rightarrow> 'a files_scheme \<Rightarrow> int \<times> 'a files_scheme" where
  "read_data inode offset buf len s =
     (let read_data_block = offset div FS_UNIT_SIZE;
          read_data = offset mod FS_UNIT_SIZE
      in if offset \<ge> inode_length s inode then (0, s)
         else if inode \<ge> inodes_num (my_boot_block s) \<or>
                 data_block s inode read_data_block \<ge> datablocks_num (my_boot_block s)
         then (-1, s\<lparr>length_of_file := 0\<rparr>)
         else read_data_loop inode offset buf len read_data read_data_block
                (st_data (file_addr s) + data_block s inode read_data_block * FS_UNIT_SIZE + read_data) 0 s)"

declare dentry_search.simps [simp del] read_data_loop.simps [simp del]

text \<open>\<open>d\<close> is the stack address of the local \<^verbatim>\<open>dentry_t d\<close>.\<close>

definition file_load :: "u32 \<Rightarrow> u32 \<Rightarrow> u32 \<Rightarrow> 'a files_scheme \<Rightarrow> (int \<times> 'a files_scheme) option" where
  "file_load d fname addr s =
     (if fname = 0 then Some (-1, s)
      else do {
        n \<leftarrow> strlen (ptr (mem s) fname);
        if n = 0 then Some (-1, s)
        else do {
          (r, s) \<leftarrow> read_dentry_by_name fname d s;
          if r = -1 then Some (-1, s)
          else do {
            let inode = load32 (mem s) (d + 36);
            let len = inode_length s inode;
            Some (read_data inode 0 addr len s)
          }
        }
      })"

definition file_read :: "u32 \<Rightarrow> u32 \<Rightarrow> u32 \<Rightarrow> u32 \<Rightarrow> u32 \<Rightarrow> 'a files_scheme \<Rightarrow> (int \<times> 'a files_scheme) option" where
  "file_read d buf offset len name s =
     (if name = 0 \<or> buf = 0 \<or> len \<le> 0 \<or> offset < 0 then Some (-1, s)
      else do {
        (r, s) \<leftarrow> read_dentry_by_name name d s;
        if r = -1 then Some (-1, s)
        else Some (read_data (load32 (mem s) (d + 36)) offset buf len s)
      })"

definition file_open :: "u32 \<Rightarrow> u32 \<Rightarrow> 'a files_scheme \<Rightarrow> int \<times> 'a files_scheme" where
  "file_open fs_start fs_end s =
     (let s = s\<lparr>flag_open := 1\<rparr>;
          (_, s) = filesystem_init fs_start fs_end s
      in (0, s))"

definition file_close :: "'a files_scheme \<Rightarrow> int \<times> 'a files_scheme" where
  "file_close s = (0, s)"

definition file_write :: "'a files_scheme \<Rightarrow> int \<times> 'a files_scheme" where
  "file_write s = (-1, s)"

function clear_name_buf :: "mem \<Rightarrow> u32 \<Rightarrow> int \<Rightarrow> mem" where
  "clear_name_buf m buf i = (if i < SBUFSIZE then clear_name_buf (m(buf + of_int i := 0)) buf (i + 1) else m)"
  by pat_completeness auto
termination
  by (relation "measure (\<lambda>(m, buf, i). nat (SBUFSIZE - i))") auto

declare clear_name_buf.simps [simp del]

definition directory_read :: "u32 \<Rightarrow> u32 \<Rightarrow> u32 \<Rightarrow> u32 \<Rightarrow> 'a files_scheme \<Rightarrow> (int \<times> 'a files_scheme) option" where
  "directory_read buf offset len name s =
     (let num_node = sint (dentries_num (my_boot_block s));
          s = s\<lparr>mem := clear_name_buf (mem s) buf 0\<rparr>
      in if num_node \<le> entry_counter s then Some (0, s\<lparr>entry_counter := 0\<rparr>)
         else do {
           let d = dentry_at s (of_int (entry_counter s));
           n \<leftarrow> strlen (ptr (mem s) d);
           let size = (if sint n \<ge> SBUFSIZE - 1 then SBUFSIZE - 1 else sint n);
           let s = s\<lparr>mem := strncpy (mem s) buf d (of_int size)\<rparr>;
           let s = s\<lparr>entry_counter := entry_counter s + 1\<rparr>;
           r \<leftarrow> strlen (ptr (mem s) buf);
           Some (sint r, s)
         })"

definition directory_write :: "'a files_scheme \<Rightarrow> int \<times> 'a files_scheme" where
  "directory_write s = (-1, s)"

definition directory_close :: "'a files_scheme \<Rightarrow> int \<times> 'a files_scheme" where
  "directory_close s = (0, s)"

definition directory_open :: "'a files_scheme \<Rightarrow> int \<times> 'a files_scheme" where
  "directory_open s = (0, s)"

section \<open>The image as files\<close>

abbreviation fs_base :: "'a files_scheme \<Rightarrow> u32" where "fs_base s \<equiv> st_boot_block (file_addr s)"

definition fs_size :: "'a files_scheme \<Rightarrow> nat" where
  "fs_size s = 4096 * (1 + unat (inodes_num (my_boot_block s)) + unat (datablocks_num (my_boot_block s)))"

definition in_image :: "'a files_scheme \<Rightarrow> u32 \<Rightarrow> bool" where
  "in_image s a \<longleftrightarrow> within (fs_base s) (fs_size s) a"

text \<open>The globals describe an image that fits into the address space.\<close>

definition mounted :: "'a files_scheme \<Rightarrow> bool" where
  "mounted s \<longleftrightarrow> fs_size s \<le> 4294967296 \<and> dentries s = fs_base s + 64 \<and> inodes s = fs_base s + 4096 \<and>
     st_data (file_addr s) = fs_base s + (inodes_num (my_boot_block s) + 1) * 4096"

abbreviation file_length :: "'a files_scheme \<Rightarrow> u32 \<Rightarrow> nat" where
  "file_length s k \<equiv> unat (inode_length s k)"

definition file_ok :: "'a files_scheme \<Rightarrow> u32 \<Rightarrow> bool" where
  "file_ok s k \<longleftrightarrow> k < inodes_num (my_boot_block s) \<and> file_length s k \<le> 4190208 \<and>
     (\<forall>j \<le> 1023. 4096 * j < file_length s k \<longrightarrow> data_block s k (of_nat j) < datablocks_num (my_boot_block s))"

definition file_byte :: "'a files_scheme \<Rightarrow> u32 \<Rightarrow> nat \<Rightarrow> byte" where
  "file_byte s k p = mem s (st_data (file_addr s) + data_block s k (of_nat (p div 4096)) * 4096 + of_nat (p mod 4096))"

definition file_bytes :: "'a files_scheme \<Rightarrow> u32 \<Rightarrow> byte list" where
  "file_bytes s k = map (file_byte s k) [0..<file_length s k]"

text \<open>A read that reaches the end of a file whose length is a multiple of the block size looks at
  the entry after the last block before it looks at the length.\<close>

definition tail_ok :: "'a files_scheme \<Rightarrow> u32 \<Rightarrow> nat \<Rightarrow> bool" where
  "tail_ok s k stop \<longleftrightarrow> stop \<le> file_length s k \<or> file_length s k mod 4096 \<noteq> 0 \<or>
     data_block s k (of_nat (file_length s k div 4096)) < datablocks_num (my_boot_block s)"

lemma in_image_offset: "mounted s \<Longrightarrow> x < fs_size s \<Longrightarrow> in_image s (fs_base s + of_nat x)"
  by (simp add: in_image_def mounted_def)

lemma block_room: "b < d \<Longrightarrow> x < 4096 \<Longrightarrow> 4096 * n + 4096 * b + x < 4096 * (n + d)" for b d n x :: nat
  using mult_le_mono2 [of "Suc b" d 4096] by simp

lemma inode_in_image:
  assumes "mounted s" and "k < inodes_num (my_boot_block s)" and "x < 8192"
    and "x < 4096 \<or> 0 < datablocks_num (my_boot_block s)"
  shows "in_image s (inodes s + k * 4096 + of_nat x)"
proof -
  have k: "unat k < unat (inodes_num (my_boot_block s))" using assms(2) by (simp add: word_less_nat_alt)
  have "0 < unat (datablocks_num (my_boot_block s))" if "\<not> x < 4096"
    using assms(4) that by (simp add: word_less_nat_alt)
  then have "x < 4096 + 4096 * unat (datablocks_num (my_boot_block s))" using assms(3) by (cases "x < 4096") simp_all
  moreover have "4096 * Suc (unat k) \<le> 4096 * unat (inodes_num (my_boot_block s))" using k by (intro mult_le_mono2) simp
  ultimately have "4096 + 4096 * unat k + x < fs_size s" by (simp add: fs_size_def)
  from in_image_offset [OF assms(1) this] show ?thesis
    using assms(1) by (simp add: mounted_def ac_simps)
qed

lemma block_in_image:
  assumes "mounted s" and "b < datablocks_num (my_boot_block s)" and "x < 4096"
  shows "in_image s (st_data (file_addr s) + b * 4096 + of_nat x)"
proof -
  let ?n = "inodes_num (my_boot_block s)"
  have "unat b < unat (datablocks_num (my_boot_block s))" using assms(2) by (simp add: word_less_nat_alt)
  then have "4096 * (1 + unat ?n) + 4096 * unat b + x < fs_size s" using assms(3) unfolding fs_size_def by (rule block_room)
  from in_image_offset [OF assms(1) this] show ?thesis
    using assms(1) by (simp add: mounted_def algebra_simps)
qed

text \<open>Writing outside the image changes no file.\<close>

definition image_eq :: "'a files_scheme \<Rightarrow> mem \<Rightarrow> bool" where
  "image_eq s m \<longleftrightarrow> (\<forall>a. in_image s a \<longrightarrow> m a = mem s a)"

lemma image_eq_load32:
  assumes "image_eq s m" and "\<And>i. i < 4 \<Longrightarrow> in_image s (a + of_nat i)"
  shows "load32 m a = load32 (mem s) a"
  using assms by (intro load32_cong) (simp add: image_eq_def)

lemma inode_length_frame:
  assumes "mounted s" and "k < inodes_num (my_boot_block s)" and "image_eq s m"
  shows "inode_length (s\<lparr>mem := m\<rparr>) k = inode_length s k"
  unfolding inode_length_def using image_eq_load32 [OF assms(3)] inode_in_image [OF assms(1,2)] by simp

lemma data_block_frame:
  assumes "mounted s" and "k < inodes_num (my_boot_block s)" and "image_eq s m" and "j \<le> 1023"
    and "0 < datablocks_num (my_boot_block s)"
  shows "data_block (s\<lparr>mem := m\<rparr>) k (of_nat j) = data_block s k (of_nat j)"
proof -
  have "in_image s (inodes s + k * 4096 + 4 + of_nat j * 4 + of_nat i)" if "i < 4" for i
    using inode_in_image [OF assms(1,2), of "4 + j * 4 + i"] that assms(4,5) by (simp add: add.assoc)
  then show ?thesis using image_eq_load32 [OF assms(3)] by (simp add: data_block_def)
qed

lemma file_ok_block:
  "file_ok s k \<Longrightarrow> p < file_length s k \<Longrightarrow> data_block s k (of_nat (p div 4096)) < datablocks_num (my_boot_block s)"
  unfolding file_ok_def by (elim conjE allE [of _ "p div 4096"]) auto

lemma file_byte_in_image:
  "mounted s \<Longrightarrow> file_ok s k \<Longrightarrow> p < file_length s k \<Longrightarrow>
     in_image s (st_data (file_addr s) + data_block s k (of_nat (p div 4096)) * 4096 + of_nat (p mod 4096))"
  using block_in_image file_ok_block by (metis mod_less_divisor zero_less_numeral)

section \<open>Reading data\<close>

text \<open>The loop invariant of \<open>read_data\<close>: \<open>p\<close> is the file position, \<open>rd\<close> may stand at the end of
  the block.\<close>

definition at_pos :: "'a files_scheme \<Rightarrow> u32 \<Rightarrow> nat \<Rightarrow> u32 \<Rightarrow> u32 \<Rightarrow> u32 \<Rightarrow> bool" where
  "at_pos s k p rd rdb ra \<longleftrightarrow> p = 4096 * unat rdb + unat rd \<and> unat rd \<le> 4096 \<and>
     (unat rd < 4096 \<longrightarrow> ra = st_data (file_addr s) + data_block s k rdb * 4096 + rd)"

lemma at_pos_block:
  assumes "at_pos s k p rd rdb ra"
  shows "of_nat (p div 4096) = (if rd \<ge> 4096 then rdb + 1 else rdb)"
    and "p mod 4096 = (if rd \<ge> 4096 then 0 else unat rd)"
    and "\<not> rd \<ge> 4096 \<Longrightarrow> ra = st_data (file_addr s) + data_block s k (of_nat (p div 4096)) * 4096 + of_nat (p mod 4096)"
proof -
  have p: "p = 4096 * unat rdb + unat rd" "unat rd \<le> 4096"
    and ra: "unat rd < 4096 \<longrightarrow> ra = st_data (file_addr s) + data_block s k rdb * 4096 + rd"
    using assms by (simp_all add: at_pos_def)
  have roll: "rd \<ge> 4096 \<longleftrightarrow> unat rd = 4096" using p(2) by (auto simp: word_le_nat_alt)
  have "p div 4096 = (if rd \<ge> 4096 then Suc (unat rdb) else unat rdb)"
    using p roll by auto
  then show 1: "of_nat (p div 4096) = (if rd \<ge> 4096 then rdb + 1 else rdb)" by simp
  show 2: "p mod 4096 = (if rd \<ge> 4096 then 0 else unat rd)" using p roll by auto
  show "\<not> rd \<ge> 4096 \<Longrightarrow> ra = st_data (file_addr s) + data_block s k (of_nat (p div 4096)) * 4096 + of_nat (p mod 4096)"
    using 1 2 ra roll p(2) by simp
qed

lemma at_pos_next:
  assumes "at_pos s k p rd rdb ra" and "unat rdb < 4294967295"
  shows "at_pos s k (Suc p) ((if rd \<ge> 4096 then 0 else rd) + 1) (if rd \<ge> 4096 then rdb + 1 else rdb)
    (st_data (file_addr s) + data_block s k (of_nat (p div 4096)) * 4096 + of_nat (p mod 4096) + 1)"
proof -
  have p: "p = 4096 * unat rdb + unat rd" "unat rd \<le> 4096" using assms by (simp_all add: at_pos_def)
  have roll: "rd \<ge> 4096 \<longleftrightarrow> unat rd = 4096" using p(2) by (auto simp: word_le_nat_alt)
  have rdb: "unat (rdb + 1) = Suc (unat rdb)" using assms(2) by (simp add: unat_plus_if')
  have rd: "unat (rd + 1) = Suc (unat rd)" using p(2) by (simp add: unat_plus_if')
  show ?thesis
    using at_pos_block(1,2) [OF assms(1)] p roll rdb rd by (auto simp: at_pos_def add.assoc)
qed

lemma poke_snoc:
  assumes "length xs < 4294967296"
  shows "(poke m p xs)(p + of_nat (length xs) := b) = poke m p (xs @ [b])"
  using poke_append [of xs "[b]" m p] assms by (simp add: poke_single)

lemma image_eq_poke:
  assumes "\<And>i. i < length xs \<Longrightarrow> i < 4294967296 \<Longrightarrow> \<not> in_image s (p + of_nat i)"
  shows "image_eq s (poke (mem s) p xs)"
  unfolding image_eq_def
proof (intro allI impI)
  fix a assume "in_image s a"
  then have "\<not> within p (length xs) a" using assms by (auto simp: within_iff)
  then show "poke (mem s) p xs a = mem s a" by (rule poke_other)
qed

lemma sint_of_nat_small:
  assumes "n < 2147483648"
  shows "sint (of_nat n :: u32) = int n"
proof -
  have "sint (of_int (int n) :: u32) = int n"
    using assms by (subst sint_sbintrunc') (simp add: signed_take_bit_int_eq_self)
  then show ?thesis by simp
qed

lemma word_pos: "a < b \<Longrightarrow> 0 < (b :: u32)"
  by (simp add: word_less_nat_alt)

text \<open>What the loop does at file position \<open>p = offset + i\<close>, when \<open>i\<close> bytes have been copied: one more
  byte before the end of the request and of the file, or it stops.\<close>

definition copied :: "'a files_scheme \<Rightarrow> u32 \<Rightarrow> u32 \<Rightarrow> u32 \<Rightarrow> nat \<Rightarrow> 'a files_scheme" where
  "copied s k offset buf i = s\<lparr>mem := poke (mem s) buf (map (file_byte s k) [unat offset..<unat offset + i])\<rparr>"

lemma copied_step:
  assumes "mounted s" and "file_ok s k" and "unat offset + i < file_length s k" and "i < 4294967295"
    and img: "image_eq s (mem (copied s k offset buf i))"
  shows "(copied s k offset buf i)\<lparr>mem := (mem (copied s k offset buf i))(buf + of_nat i :=
      mem (copied s k offset buf i) (st_data (file_addr s) +
        data_block s k (of_nat ((unat offset + i) div 4096)) * 4096 + of_nat ((unat offset + i) mod 4096)))\<rparr>
    = copied s k offset buf (Suc i)"
proof -
  let ?xs = "map (file_byte s k) [unat offset..<unat offset + i]"
  have "mem (copied s k offset buf i) (st_data (file_addr s) +
        data_block s k (of_nat ((unat offset + i) div 4096)) * 4096 + of_nat ((unat offset + i) mod 4096))
      = file_byte s k (unat offset + i)"
    using img file_byte_in_image [OF assms(1-3)] by (simp add: image_eq_def file_byte_def)
  then show ?thesis
    using poke_snoc [of ?xs "mem s" buf "file_byte s k (unat offset + i)"] assms(4)
    by (simp add: copied_def)
qed

lemma unat_pos:
  assumes "unat offset + i \<le> 4190208"
  shows "unat (of_nat i + offset :: u32) = unat offset + i"
proof -
  have "of_nat i + offset = of_nat (unat offset + i)" by simp
  then show ?thesis using assms by (simp del: of_nat_add)
qed

lemma pos_not_eof:
  assumes "unat offset + i < unat L" and "unat L \<le> 4190208"
  shows "\<not> L \<le> of_nat i + (offset :: u32)"
  using assms unat_pos [of offset i] by (simp add: word_le_nat_alt)

lemma read_data_loop_step:
  assumes "mounted s" and "file_ok s k" and "unat offset + i < file_length s k" and "i < unat len"
    and img: "image_eq s (mem (copied s k offset buf i))" and pos: "at_pos s k (unat offset + i) rd rdb ra"
  shows "\<exists>rd' rdb' ra'. at_pos s k (unat offset + Suc i) rd' rdb' ra' \<and> rd' \<noteq> 0 \<and>
    read_data_loop k offset buf len rd rdb ra (of_nat i) (copied s k offset buf i) =
    read_data_loop k offset buf len rd' rdb' ra' (of_nat (Suc i)) (copied s k offset buf (Suc i))"
proof -
  let ?p = "unat offset + i" and ?s = "copied s k offset buf i"
  let ?rdb = "if rd \<ge> 4096 then rdb + 1 else rdb"
  let ?ra = "st_data (file_addr s) + data_block s k (of_nat (?p div 4096)) * 4096 + of_nat (?p mod 4096)"
  have k: "k < inodes_num (my_boot_block s)" and L: "file_length s k \<le> 4190208" using assms(2) by (simp_all add: file_ok_def)
  have i: "i < 4190208" "?p div 4096 \<le> 1023" using L assms(3) by auto
  have blk: "data_block s k (of_nat (?p div 4096)) < datablocks_num (my_boot_block s)" using file_ok_block [OF assms(2,3)] .
  then have pos0: "0 < datablocks_num (my_boot_block s)" by (rule word_pos)
  note b = at_pos_block [OF pos]
  have db: "data_block ?s k ?rdb = data_block s k ?rdb"
    using data_block_frame [OF assms(1) k img i(2) pos0] b(1) by (simp add: copied_def)
  have il: "inode_length ?s k = inode_length s k" using inode_length_frame [OF assms(1) k img] by (simp add: copied_def)
  have same: "file_addr ?s = file_addr s" "my_boot_block ?s = my_boot_block s" by (simp_all add: copied_def)
  have lt: "(of_nat i :: u32) < len" using assms(4) i(1) by (simp add: word_less_nat_alt)
  have ilt: "\<not> inode_length s k \<le> of_nat i + offset"
    using pos_not_eof [OF assms(3) L] .
  have ra: "(if rd \<ge> 4096 then st_data (file_addr s) + data_block s k ?rdb * 4096 else ra) = ?ra"
    using b by (cases "rd \<ge> 4096") simp_all
  have nroll: "\<not> (rd \<ge> 4096 \<and> data_block s k ?rdb \<ge> datablocks_num (my_boot_block s))"
    using blk b(1) by (cases "rd \<ge> 4096") (simp_all add: not_le)
  have rdb: "unat rdb < 4294967295" using pos assms(3) L by (simp add: at_pos_def)
  have "read_data_loop k offset buf len rd rdb ra (of_nat i) ?s =
      read_data_loop k offset buf len ((if rd \<ge> 4096 then 0 else rd) + 1) ?rdb (?ra + 1) (of_nat i + 1)
        (?s\<lparr>mem := (mem ?s)(buf + of_nat i := mem ?s ?ra)\<rparr>)"
    by (subst read_data_loop.simps) (simp only: Let_def lt db il same ilt ra nroll if_True if_False simp_thms)
  also have "?s\<lparr>mem := (mem ?s)(buf + of_nat i := mem ?s ?ra)\<rparr> = copied s k offset buf (Suc i)"
    using copied_step [OF assms(1-3) _ img] i(1) by simp
  finally have "read_data_loop k offset buf len rd rdb ra (of_nat i) ?s =
      read_data_loop k offset buf len ((if rd \<ge> 4096 then 0 else rd) + 1) ?rdb (?ra + 1) (of_nat (Suc i))
        (copied s k offset buf (Suc i))" by (simp only: of_nat_Suc add.commute)
  moreover have "at_pos s k (unat offset + Suc i) ((if rd \<ge> 4096 then 0 else rd) + 1) ?rdb (?ra + 1)"
    using at_pos_next [OF pos rdb] by (simp only: add_Suc_right)
  moreover have "(if rd \<ge> 4096 then 0 else rd) + 1 \<noteq> 0"
    using pos unat_eq_zero [of "rd + 1"] by (auto simp: at_pos_def unat_plus_if')
  ultimately show ?thesis by blast
qed

lemma copied_image_eq:
  assumes "\<And>j. j < n \<Longrightarrow> \<not> in_image s (buf + of_nat j)" and "i \<le> n"
  shows "image_eq s (mem (copied s k offset buf i))"
  using image_eq_poke [of "map (file_byte s k) [unat offset..<unat offset + i]" s buf] assms by (simp add: copied_def)

lemma read_data_loop_eof:
  assumes "mounted s" and "file_ok s k" and eof: "unat offset + i = file_length s k" and "i < unat len"
    and img: "image_eq s (mem (copied s k offset buf i))" and pos: "at_pos s k (unat offset + i) rd rdb ra"
    and "0 < datablocks_num (my_boot_block s)"
  shows "read_data_loop k offset buf len rd rdb ra (of_nat i) (copied s k offset buf i) =
    (if file_length s k mod 4096 = 0 \<and> rd \<noteq> 0 \<and>
        data_block s k (of_nat (file_length s k div 4096)) \<ge> datablocks_num (my_boot_block s)
     then (-1, copied s k offset buf i)
     else (int i, (copied s k offset buf i)\<lparr>length_of_file := int i\<rparr>))"
proof -
  let ?s = "copied s k offset buf i" and ?p = "unat offset + i"
  let ?rdb = "if rd \<ge> 4096 then rdb + 1 else rdb"
  have k: "k < inodes_num (my_boot_block s)" and L: "file_length s k \<le> 4190208" using assms(2) by (simp_all add: file_ok_def)
  have p: "?p \<le> 4190208" "?p div 4096 \<le> 1023" "i \<le> 4190208" using L eof by auto
  note b = at_pos_block [OF pos]
  have db: "data_block ?s k ?rdb = data_block s k (of_nat (file_length s k div 4096))"
    using data_block_frame [OF assms(1) k img p(2) assms(7)] b(1) eof by (simp add: copied_def)
  have il: "inode_length ?s k = inode_length s k" using inode_length_frame [OF assms(1) k img] by (simp add: copied_def)
  have same: "my_boot_block ?s = my_boot_block s" by (simp add: copied_def)
  have lt: "(of_nat i :: u32) < len" using assms(4) p(3) by (simp add: word_less_nat_alt)
  have ge: "inode_length s k \<le> of_nat i + offset"
    using unat_pos [OF p(1)] eof by (simp add: word_le_nat_alt)
  have roll: "rd \<ge> 4096 \<longleftrightarrow> file_length s k mod 4096 = 0 \<and> rd \<noteq> 0"
    using b(2) eof by (cases "rd \<ge> 4096") (auto simp: unat_eq_zero)
  have r: "sint (of_nat i :: u32) = int i" using p(3) by (intro sint_of_nat_small) simp
  show ?thesis
  proof (cases "rd \<ge> 4096")
    case True
    have db': "data_block ?s k (rdb + 1) = data_block s k (of_nat (file_length s k div 4096))" using db True by simp
    have roll': "file_length s k mod 4096 = 0" "(rd = 0) = False" using roll True by simp_all
    show ?thesis
      by (subst read_data_loop.simps) (simp only: Let_def True lt db' il same ge roll' r if_True if_False simp_thms)
  next
    case False
    have roll': "(file_length s k mod 4096 = 0 \<and> rd \<noteq> 0 \<and> X) = False" for X :: bool using roll False by auto
    show ?thesis
      by (subst read_data_loop.simps) (simp only: Let_def False lt il ge roll' r if_True if_False simp_thms)
  qed
qed

lemma read_data_loop_full:
  assumes "unat len < 2147483648"
  shows "read_data_loop k offset buf len rd rdb ra len s = (int (unat len), s\<lparr>length_of_file := int (unat len)\<rparr>)"
  using sint_of_nat_small [OF assms] by (subst read_data_loop.simps) simp

lemma read_data_loop_correct:
  assumes "mounted s" and "file_ok s k" and n: "n = min (unat len) (file_length s k - unat offset)"
    and "unat offset < file_length s k"
    and sep: "\<And>j. j < n \<Longrightarrow> \<not> in_image s (buf + of_nat j)"
    and "i \<le> n" and "at_pos s k (unat offset + i) rd rdb ra" and "i = 0 \<or> rd \<noteq> 0"
  shows "read_data_loop k offset buf len rd rdb ra (of_nat i) (copied s k offset buf i) =
    (if tail_ok s k (unat offset + unat len) then (int n, (copied s k offset buf n)\<lparr>length_of_file := int n\<rparr>)
     else (-1, copied s k offset buf n))"
  using assms(6-8)
proof (induction "n - i" arbitrary: i rd rdb ra)
  case 0
  then have i: "i = n" by simp
  have L: "file_length s k \<le> 4190208" using assms(2) by (simp add: file_ok_def)
  have pos0: "0 < datablocks_num (my_boot_block s)" using word_pos [OF file_ok_block [OF assms(2,4)]] .
  show ?case
  proof (cases "n = unat len")
    case True
    then have le: "unat len \<le> file_length s k - unat offset" using n by (simp add: min_def split: if_splits)
    then have "unat offset + unat len \<le> file_length s k" using assms(4) by linarith
    then have "unat len < 2147483648" "tail_ok s k (unat offset + unat len)"
      using L by (simp_all add: tail_ok_def)
    then show ?thesis using read_data_loop_full [of len] i True by simp
  next
    case False
    then have eof: "unat offset + i = file_length s k" "i < unat len" using n i assms(4) by (auto simp: min_def split: if_splits)
    then have "i \<noteq> 0" using assms(4) by auto
    then have "tail_ok s k (unat offset + unat len) \<longleftrightarrow> \<not> (file_length s k mod 4096 = 0 \<and> rd \<noteq> 0 \<and>
        data_block s k (of_nat (file_length s k div 4096)) \<ge> datablocks_num (my_boot_block s))"
      using eof "0.prems"(3) by (auto simp: tail_ok_def not_le)
    then show ?thesis
      using read_data_loop_eof [OF assms(1,2) eof copied_image_eq [OF sep "0.prems"(1)] "0.prems"(2) pos0] i by simp
  qed
next
  case (Suc m)
  then have lt: "unat offset + i < file_length s k" "i < unat len" "Suc i \<le> n" "m = n - Suc i" using n assms(4) by auto
  obtain rd' rdb' ra' where "at_pos s k (unat offset + Suc i) rd' rdb' ra'" "rd' \<noteq> 0"
    and "read_data_loop k offset buf len rd rdb ra (of_nat i) (copied s k offset buf i) =
      read_data_loop k offset buf len rd' rdb' ra' (of_nat (Suc i)) (copied s k offset buf (Suc i))"
    using read_data_loop_step [OF assms(1,2) lt(1,2) copied_image_eq [OF sep Suc.prems(1)] Suc.prems(2)] by blast
  then show ?case using Suc.hyps(1) [OF lt(4,3)] by simp
qed

lemma at_pos_start: "at_pos s k (unat offset) (offset mod 4096) (offset div 4096)
    (st_data (file_addr s) + data_block s k (offset div 4096) * 4096 + offset mod 4096)"
  by (simp add: at_pos_def unat_div_distrib unat_mod_distrib)

lemma read_data_copied:
  assumes "mounted s" and "file_ok s k" and "unat offset < file_length s k"
    and n: "n = min (unat len) (file_length s k - unat offset)"
    and "\<And>j. j < n \<Longrightarrow> \<not> in_image s (buf + of_nat j)"
  shows "read_data k offset buf len s =
    (if tail_ok s k (unat offset + unat len) then (int n, (copied s k offset buf n)\<lparr>length_of_file := int n\<rparr>)
     else (-1, copied s k offset buf n))"
proof -
  have "unat (offset div 4096) = unat offset div 4096" by (simp add: unat_div_distrib)
  then have "(of_nat (unat offset div 4096) :: u32) = offset div 4096" by (simp flip: \<open>unat (offset div 4096) = _\<close>)
  then have "data_block s k (offset div 4096) < datablocks_num (my_boot_block s)"
    using file_ok_block [OF assms(2,3)] by simp
  moreover have "k < inodes_num (my_boot_block s)" using assms(2) by (simp add: file_ok_def)
  moreover have "\<not> inode_length s k \<le> offset" using assms(3) by (simp add: word_le_nat_alt)
  moreover have "copied s k offset buf 0 = s" by (simp add: copied_def)
  moreover have "at_pos s k (unat offset + 0) (offset mod 4096) (offset div 4096)
      (st_data (file_addr s) + data_block s k (offset div 4096) * 4096 + offset mod 4096)"
    using at_pos_start by simp
  note read_data_loop_correct [OF assms(1,2) n assms(3,5) le0 this]
  ultimately show ?thesis by (auto simp add: read_data_def Let_def not_le)
qed

end
