(* ===== verification/FilesDir.thy ===== *)
theory FilesDir
  imports Files
begin

text \<open>
  The directory of the file system as a list of names, and what the operations of
  \<^verbatim>\<open>student-distrib/files.c\<close> do in terms of it: lookup by name (\<open>read_dentry_by_name\<close>,
  \<open>dentry_copy\<close>), reading and loading a file by name (\<open>file_read\<close>, \<open>file_load\<close>), and listing
  (\<open>directory_read\<close>).
\<close>

unbundle bit_operations_syntax

section \<open>The directory\<close>

definition entry_name :: "'a files_scheme \<Rightarrow> nat \<Rightarrow> byte list \<Rightarrow> bool" where
  "entry_name s i xs \<longleftrightarrow> cstr (ptr (mem s) (dentry_at s (of_nat i))) xs"

definition entry_type :: "'a files_scheme \<Rightarrow> nat \<Rightarrow> u32" where
  "entry_type s i = load32 (mem s) (dentry_at s (of_nat i) + 32)"

definition entry_inode :: "'a files_scheme \<Rightarrow> nat \<Rightarrow> u32" where
  "entry_inode s i = load32 (mem s) (dentry_at s (of_nat i) + 36)"

text \<open>\<open>names\<close> are the 63 names as the string routines see them, that is up to the first NUL.\<close>

definition directory :: "'a files_scheme \<Rightarrow> byte list list \<Rightarrow> bool" where
  "directory s names \<longleftrightarrow> length names = 63 \<and> (\<forall>i < 63. entry_name s i (names ! i) \<and> length (names ! i) < 64)"

primrec first_index :: "'b \<Rightarrow> 'b list \<Rightarrow> nat option" where
  "first_index x [] = None"
| "first_index x (y # ys) = (if y = x then Some 0 else map_option Suc (first_index x ys))"

lemma first_index_Some: "first_index x ys = Some i \<Longrightarrow> i < length ys \<and> ys ! i = x \<and> (\<forall>j < i. ys ! j \<noteq> x)"
  by (induction ys arbitrary: i) (auto split: if_splits simp: nth_Cons split: nat.splits)

lemma first_index_None: "first_index x ys = None \<longleftrightarrow> x \<notin> set ys"
  by (induction ys) auto

text \<open>The 64 bytes of the caller's \<^verbatim>\<open>dentry_t\<close> lie outside the image.\<close>

definition dentry_room :: "'a files_scheme \<Rightarrow> u32 \<Rightarrow> bool" where
  "dentry_room s d \<longleftrightarrow> (\<forall>j < 64. \<not> in_image s (d + of_nat j))"

lemma dentry_in_image:
  assumes "mounted s" and "i < 63" and "j < 64"
  shows "in_image s (dentry_at s (of_nat i) + of_nat j)"
proof -
  have "64 + 64 * i + j < fs_size s" using assms(2,3) by (simp add: fs_size_def)
  from in_image_offset [OF assms(1) this] show ?thesis using assms(1) by (simp add: mounted_def dentry_at_def ac_simps)
qed

lemma dentry_room_within: "dentry_room s d \<Longrightarrow> in_image s a \<Longrightarrow> \<not> within d 64 a"
  by (auto simp: dentry_room_def within_iff)

lemma within_sub: "within (p + of_nat i) k a \<Longrightarrow> i + k \<le> n \<Longrightarrow> n \<le> 4294967296 \<Longrightarrow> within p n a"
proof -
  assume w: "within (p + of_nat i) k a" and le: "i + k \<le> n" "n \<le> 4294967296"
  then obtain j where j: "j < k" "a = p + of_nat i + of_nat j" by (auto simp: within_iff)
  then have "a = p + of_nat (i + j)" by (simp add: add.assoc)
  then show ?thesis using j(1) le by (simp del: of_nat_add)
qed

lemma store32_at: "\<not> within p 64 a \<Longrightarrow> i + 4 \<le> 64 \<Longrightarrow> store32 m (p + of_nat i) v a = m a"
  using within_sub [of p i 4 a 64] by (auto intro: store32_other)

definition entry_copied :: "'a files_scheme \<Rightarrow> u32 \<Rightarrow> nat \<Rightarrow> byte list \<Rightarrow> mem \<Rightarrow> bool" where
  "entry_copied s d i xs m \<longleftrightarrow> (\<forall>a. \<not> within d 64 a \<longrightarrow> m a = mem s a) \<and>
     load32 m (d + 32) = entry_type s i \<and> load32 m (d + 36) = entry_inode s i \<and>
     (length xs < 32 \<longrightarrow> cstr (ptr m d) xs)"

lemma image_eq_outside: "dentry_room s d \<Longrightarrow> (\<And>a. \<not> within d 64 a \<Longrightarrow> m a = mem s a) \<Longrightarrow> image_eq s m"
  using dentry_room_within by (auto simp: image_eq_def)

lemma dentry_field_frame:
  assumes "mounted s" and "i < 63" and "dentry_room s d" and "\<And>a. \<not> within d 64 a \<Longrightarrow> m a = mem s a" and "j + 4 \<le> 64"
  shows "load32 m (dentry_at s (of_nat i) + of_nat j) = load32 (mem s) (dentry_at s (of_nat i) + of_nat j)"
proof (rule image_eq_load32 [OF image_eq_outside [OF assms(3,4)]])
  fix l :: nat assume "l < 4"
  then show "in_image s (dentry_at s (of_nat i) + of_nat j + of_nat l)"
    using dentry_in_image [OF assms(1,2), of "j + l"] assms(5) by (simp add: add.assoc)
qed

lemma dentry_forward_safe:
  assumes "mounted s" and "i < 63" and "dentry_room s d" and "n \<le> 64"
  shows "forward_safe d (dentry_at s (of_nat i)) n"
proof (rule ccontr)
  let ?src = "dentry_at s (of_nat i)"
  assume "\<not> forward_safe d ?src n"
  then have "unat (d - ?src) < 64" using assms(4) by (simp add: forward_safe_def)
  from dentry_in_image [OF assms(1,2) this] have "in_image s d" by simp
  then show False using assms(3) by (auto simp: dentry_room_def dest: spec [where x = 0])
qed

lemma dentry_copy_correct:
  assumes "mounted s" and "i < 63" and "dentry_room s d" and "entry_name s i xs" and "length xs < 64"
  shows "\<exists>m. dentry_copy (of_nat i) d s = Some (s\<lparr>mem := m\<rparr>) \<and> entry_copied s d i xs m"
proof -
  let ?src = "dentry_at s (of_nat i)"
  let ?m1 = "blit (mem s) d ?src (Suc (length xs))"
  let ?m2 = "store32 ?m1 (d + 32) (load32 ?m1 (?src + 32))"
  let ?m3 = "store32 ?m2 (d + 36) (load32 ?m2 (?src + 36))"
  have xs: "cstr (ptr (mem s) ?src) xs" using assms(4) by (simp add: entry_name_def)
  have copy: "strcpy (mem s) d ?src = Some ?m1"
    using strcpy_blit [OF xs dentry_forward_safe [OF assms(1-3)]] assms(5) by simp
  have o1: "?m1 a = mem s a" if "\<not> within d 64 a" for a
    using that assms(5) by (auto simp: blit_def within_def)
  have o2: "?m2 a = mem s a" if "\<not> within d 64 a" for a
    using o1 [OF that] store32_at [OF that, of 32] by simp
  have o3: "?m3 a = mem s a" if "\<not> within d 64 a" for a
    using o2 [OF that] store32_at [OF that, of 36] by simp
  have ty: "load32 ?m1 (?src + 32) = entry_type s i"
    using dentry_field_frame [OF assms(1-3) o1, of 32] by (simp add: entry_type_def)
  have ino: "load32 ?m2 (?src + 36) = entry_inode s i"
    using dentry_field_frame [OF assms(1-3) o2, of 36] by (simp add: entry_inode_def)
  have "separate (d + 36) 4 (d + 32) 4" by (simp add: separate_def)
  then have ty3: "load32 ?m3 (d + 32) = entry_type s i" using ty by (simp add: load32_store32_other)
  have str: "cstr (ptr ?m3 d) xs" if "length xs < 32"
  proof (rule cstrI)
    have keep: "?m3 (d + of_nat j) = mem s (?src + of_nat j)" if j: "j \<le> length xs" for j
    proof -
      have "j < 32" using j \<open>length xs < 32\<close> by simp
      then have "\<not> within (d + of_nat 32) 4 (d + of_nat j)" "\<not> within (d + of_nat 36) 4 (d + of_nat j)"
        by (simp_all add: within_def unat_minus_of_nat_u32 [of 32 "of_nat j", simplified] unat_minus_of_nat_u32 [of 36 "of_nat j", simplified])
      then show ?thesis using j \<open>j < 32\<close> by (simp add: store32_other blit_offset)
    qed
    show "length xs < 4294967296" "0 \<notin> set xs" using xs by (simp_all add: cstr_def)
    show "\<And>j. j < length xs \<Longrightarrow> ptr ?m3 d (of_nat j) = xs ! j" using keep cstr_nth [OF xs] by simp
    show "ptr ?m3 d (of_nat (length xs)) = 0" using keep cstr_end [OF xs] by simp
  qed
  have "entry_copied s d i xs ?m3" unfolding entry_copied_def using o3 ty3 ino str by simp
  moreover have "dentry_copy (of_nat i) d s = Some (s\<lparr>mem := ?m3\<rparr>)" by (simp add: dentry_copy_def copy Let_def)
  ultimately show ?thesis by blast
qed

lemma strncmp_whole:
  assumes "cstr p xs" and "cstr q ys" and "length xs < 2147483648" and "length ys < 2147483648"
    and "sz = max (int (length ys)) (int (length xs))"
  shows "strncmp p q (of_int sz) = 0 \<longleftrightarrow> xs = ys"
proof -
  have "(of_int sz :: u32) = of_nat (max (length ys) (length xs))" using assms(5) by (simp add: max_def)
  then have "unat (of_int sz :: u32) = max (length ys) (length xs)" using assms(3,4) by simp
  then show ?thesis using strncmp_eq_0 [OF assms(1,2)] by simp
qed

lemma dentry_search_find:
  assumes "directory s names" and "cstr (ptr (mem s) fname) xs" and "length xs < 2147483648" and "i \<le> 63"
  shows "dentry_search fname d (int i) s =
    (case first_index xs (drop i names) of
       None \<Rightarrow> Some (-1, s)
     | Some j \<Rightarrow> do { s' \<leftarrow> dentry_copy (of_nat (i + j)) d s; Some (0, s') })"
  using assms(4)
proof (induction "63 - i" arbitrary: i)
  case 0
  then show ?case using assms(1) by (subst dentry_search.simps) (simp add: directory_def)
next
  case (Suc n)
  then have i: "i < 63" by simp
  let ?ys = "names ! i"
  have ys: "cstr (ptr (mem s) (dentry_at s (of_nat i))) ?ys" "length ?ys < 2147483648"
    using assms(1) i by (auto simp: directory_def entry_name_def)
  have len: "strlen (ptr (mem s) fname) = Some (of_nat (length xs))"
    "strlen (ptr (mem s) (dentry_at s (of_nat i))) = Some (of_nat (length ?ys))"
    using strlen_cstr assms(2) ys(1) by simp_all
  define sz where "sz = (if sint (of_nat (length xs) :: u32) > sint (of_nat (length ?ys) :: u32)
      then sint (of_nat (length xs) :: u32) else sint (of_nat (length ?ys) :: u32))"
  have "sz = max (int (length xs)) (int (length ?ys))"
    unfolding sz_def sint_of_nat_small [OF assms(3)] sint_of_nat_small [OF ys(2)] by auto
  then have cmp: "strncmp (ptr (mem s) (dentry_at s (of_nat i))) (ptr (mem s) fname) (of_int sz) = 0 \<longleftrightarrow> ?ys = xs"
    using strncmp_whole [OF ys(1) assms(2) ys(2) assms(3)] by simp
  have step: "dentry_search fname d (int i) s =
      (if ?ys = xs then do { s' \<leftarrow> dentry_copy (of_nat i) d s; Some (0, s') } else dentry_search fname d (int (Suc i)) s)"
    using i by (subst dentry_search.simps) (simp add: len cmp add.commute flip: sz_def)
  have "drop i names = ?ys # drop (Suc i) names" using assms(1) i by (simp add: directory_def Cons_nth_drop_Suc)
  then show ?case using step Suc.hyps(1) [of "Suc i"] Suc.hyps(2) i by (simp add: ac_simps split: option.splits)
qed

lemma read_dentry_by_name_find:
  assumes "directory s names" and "cstr (ptr (mem s) fname) xs" and "length xs < 2147483648"
  shows "read_dentry_by_name fname d s =
    (if xs = [] then Some (-1, s) else case first_index xs names of
       None \<Rightarrow> Some (-1, s)
     | Some j \<Rightarrow> do { s' \<leftarrow> dentry_copy (of_nat j) d s; Some (0, s') })"
  using dentry_search_find [OF assms, of 0 d] strlen_cstr [OF assms(2)] sint_of_nat_small [OF assms(3)]
  by (simp add: read_dentry_by_name_def split: option.splits)

lemma read_dentry_by_name_correct:
  assumes "mounted s" and "directory s names" and "dentry_room s d"
    and "cstr (ptr (mem s) fname) xs" and "length xs < 2147483648"
  shows "case (if xs = [] then None else first_index xs names) of
      None \<Rightarrow> read_dentry_by_name fname d s = Some (-1, s)
    | Some i \<Rightarrow> \<exists>m. read_dentry_by_name fname d s = Some (0, s\<lparr>mem := m\<rparr>) \<and> entry_copied s d i xs m"
proof (cases "if xs = [] then None else first_index xs names")
  case None
  then show ?thesis using read_dentry_by_name_find [OF assms(2,4,5)] by (auto split: if_splits)
next
  case (Some i)
  then have i: "first_index xs names = Some i" "xs \<noteq> []" by (auto split: if_splits)
  then have "i < 63" "entry_name s i xs" "length xs < 64"
    using first_index_Some [OF i(1)] assms(2) by (auto simp: directory_def)
  then show ?thesis
    using dentry_copy_correct [OF assms(1) _ assms(3)] Some i read_dentry_by_name_find [OF assms(2,4,5), of d] by fastforce
qed

section \<open>Files by name\<close>

lemma mounted_frame [simp]: "mounted (s\<lparr>mem := m\<rparr>) = mounted s"
  by (simp add: mounted_def fs_size_def)

lemma in_image_frame [simp]: "in_image (s\<lparr>mem := m\<rparr>) = in_image s"
  by (simp add: in_image_def fs_size_def fun_eq_iff)

lemma file_frame:
  assumes "mounted s" and "file_ok s k" and "image_eq s m" and "0 < file_length s k"
  shows "file_length (s\<lparr>mem := m\<rparr>) k = file_length s k" "file_ok (s\<lparr>mem := m\<rparr>) k"
    and "file_bytes (s\<lparr>mem := m\<rparr>) k = file_bytes s k" "tail_ok (s\<lparr>mem := m\<rparr>) k stop = tail_ok s k stop"
proof -
  have k: "k < inodes_num (my_boot_block s)" and L: "file_length s k \<le> 4190208" using assms(2) by (simp_all add: file_ok_def)
  have pos0: "0 < datablocks_num (my_boot_block s)" using word_pos [OF file_ok_block [OF assms(2,4)]] .
  have len: "inode_length (s\<lparr>mem := m\<rparr>) k = inode_length s k" using inode_length_frame [OF assms(1) k assms(3)] .
  have blk: "data_block (s\<lparr>mem := m\<rparr>) k (of_nat j) = data_block s k (of_nat j)" if "j \<le> 1023" for j
    using data_block_frame [OF assms(1) k assms(3) that pos0] .
  show "file_length (s\<lparr>mem := m\<rparr>) k = file_length s k" by (simp add: len)
  show "file_ok (s\<lparr>mem := m\<rparr>) k" using assms(2) by (simp add: file_ok_def len blk)
  have "file_length s k div 4096 \<le> 1023" using L by simp
  then show "tail_ok (s\<lparr>mem := m\<rparr>) k stop = tail_ok s k stop" by (simp add: tail_ok_def len blk)
  have "file_byte (s\<lparr>mem := m\<rparr>) k p = file_byte s k p" if "p < file_length s k" for p
  proof -
    have "p div 4096 \<le> 1023" using that L by simp
    then show ?thesis using file_byte_in_image [OF assms(1,2) that] assms(3) by (simp add: file_byte_def blk image_eq_def)
  qed
  then show "file_bytes (s\<lparr>mem := m\<rparr>) k = file_bytes s k" by (simp add: file_bytes_def len)
qed

lemma copied_bytes:
  assumes "unat offset + n \<le> file_length s k"
  shows "copied s k offset buf n = s\<lparr>mem := poke (mem s) buf (take n (drop (unat offset) (file_bytes s k)))\<rparr>"
  using assms by (simp add: copied_def file_bytes_def take_map drop_map take_upt drop_upt)

lemma length_file_bytes [simp]: "length (file_bytes s k) = file_length s k"
  by (simp add: file_bytes_def)

text \<open>The bytes a read of \<open>len\<close> bytes at \<open>offset\<close> must deliver.\<close>

definition file_slice :: "'a files_scheme \<Rightarrow> u32 \<Rightarrow> u32 \<Rightarrow> u32 \<Rightarrow> byte list" where
  "file_slice s k offset len = take (unat len) (drop (unat offset) (file_bytes s k))"

definition buf_room :: "'a files_scheme \<Rightarrow> u32 \<Rightarrow> nat \<Rightarrow> bool" where
  "buf_room s buf n \<longleftrightarrow> (\<forall>j < n. \<not> in_image s (buf + of_nat j))"

lemma length_file_slice: "length (file_slice s k offset len) = min (unat len) (file_length s k - unat offset)"
  by (simp add: file_slice_def)

lemma read_data_slice:
  assumes "mounted s" and "file_ok s k" and "unat offset < file_length s k"
    and "buf_room s buf (length (file_slice s k offset len))"
  shows "read_data k offset buf len s =
    (if tail_ok s k (unat offset + unat len) then (int (length (file_slice s k offset len)),
       s\<lparr>mem := poke (mem s) buf (file_slice s k offset len), length_of_file := int (length (file_slice s k offset len))\<rparr>)
     else (-1, s\<lparr>mem := poke (mem s) buf (file_slice s k offset len)\<rparr>))"
proof -
  define n where "n = length (file_slice s k offset len)"
  have n: "n = min (unat len) (file_length s k - unat offset)" by (simp add: n_def length_file_slice)
  have "take n (drop (unat offset) (file_bytes s k)) = file_slice s k offset len"
    by (simp add: n file_slice_def min_def)
  moreover have "unat offset + n \<le> file_length s k" using n assms(3) by simp
  ultimately have "copied s k offset buf n = s\<lparr>mem := poke (mem s) buf (file_slice s k offset len)\<rparr>"
    using copied_bytes by metis
  then show ?thesis
    using read_data_copied [OF assms(1-3) n] assms(4) by (simp add: buf_room_def n_def)
qed

lemma read_data_eof: "file_length s k \<le> unat offset \<Longrightarrow> read_data k offset buf len s = (0, s)"
  by (simp add: read_data_def word_le_nat_alt)

lemma file_read_slice:
  assumes "mounted s" and "directory s names" and "dentry_room s d"
    and "cstr (ptr (mem s) name) xs" and "length xs < 2147483648" and "xs \<noteq> []"
    and "first_index xs names = Some i" and "file_ok s (entry_inode s i)"
    and "unat offset < file_length s (entry_inode s i)"
    and "tail_ok s (entry_inode s i) (unat offset + unat len)"
    and "buf_room s buf (length (file_slice s (entry_inode s i) offset len))"
    and "name \<noteq> 0" and "buf \<noteq> 0" and "len \<noteq> 0"
  shows "\<exists>m. entry_copied s d i xs m \<and> file_read d buf offset len name s =
    Some (int (length (file_slice s (entry_inode s i) offset len)),
          s\<lparr>mem := poke m buf (file_slice s (entry_inode s i) offset len),
            length_of_file := int (length (file_slice s (entry_inode s i) offset len))\<rparr>)"
proof -
  let ?k = "entry_inode s i"
  obtain m where m: "read_dentry_by_name name d s = Some (0, s\<lparr>mem := m\<rparr>)" "entry_copied s d i xs m"
    using read_dentry_by_name_correct [OF assms(1-5)] assms(6,7) by auto
  have img: "image_eq s m" using image_eq_outside [OF assms(3)] m(2) by (simp add: entry_copied_def)
  have L: "0 < file_length s ?k" using assms(9) by simp
  note f = file_frame [OF assms(1,8) img L]
  have sl: "file_slice (s\<lparr>mem := m\<rparr>) ?k offset len = file_slice s ?k offset len" by (simp add: file_slice_def f(3))
  have "load32 m (d + 36) = ?k" using m(2) by (simp add: entry_copied_def)
  then show ?thesis
    using m read_data_slice [of "s\<lparr>mem := m\<rparr>" ?k offset buf len] assms f sl
    by (auto simp: file_read_def buf_room_def)
qed

lemma file_load_whole:
  assumes "mounted s" and "directory s names" and "dentry_room s d"
    and "cstr (ptr (mem s) fname) xs" and "length xs < 2147483648" and "xs \<noteq> []"
    and "first_index xs names = Some i" and "file_ok s (entry_inode s i)" and "0 < file_length s (entry_inode s i)"
    and "buf_room s addr (file_length s (entry_inode s i))" and "fname \<noteq> 0"
  shows "\<exists>m. entry_copied s d i xs m \<and> file_load d fname addr s =
    Some (int (file_length s (entry_inode s i)),
          s\<lparr>mem := poke m addr (file_bytes s (entry_inode s i)), length_of_file := int (file_length s (entry_inode s i))\<rparr>)"
proof -
  let ?k = "entry_inode s i"
  obtain m where m: "read_dentry_by_name fname d s = Some (0, s\<lparr>mem := m\<rparr>)" "entry_copied s d i xs m"
    using read_dentry_by_name_correct [OF assms(1-5)] assms(6,7) by auto
  have img: "image_eq s m" using image_eq_outside [OF assms(3)] m(2) by (simp add: entry_copied_def)
  note f = file_frame [OF assms(1,8) img assms(9)]
  have k: "load32 m (d + 36) = ?k" using m(2) by (simp add: entry_copied_def)
  have il: "inode_length (s\<lparr>mem := m\<rparr>) ?k = inode_length s ?k"
    using inode_length_frame [OF assms(1) _ img] assms(8) by (simp add: file_ok_def)
  have sl: "file_slice (s\<lparr>mem := m\<rparr>) ?k 0 (inode_length s ?k) = file_bytes s ?k" by (simp add: file_slice_def f(3))
  have "tail_ok s ?k (unat 0 + unat (inode_length s ?k))" by (simp add: tail_ok_def)
  then have "read_data ?k 0 addr (inode_length s ?k) (s\<lparr>mem := m\<rparr>) = (int (file_length s ?k),
      s\<lparr>mem := poke m addr (file_bytes s ?k), length_of_file := int (file_length s ?k)\<rparr>)"
    using read_data_slice [of "s\<lparr>mem := m\<rparr>" ?k 0 addr "inode_length s ?k"] assms(1,9,10) f sl
    by (simp add: buf_room_def)
  moreover have "strlen (ptr (mem s) fname) = Some (of_nat (length xs))" "(of_nat (length xs) :: u32) \<noteq> 0"
    using strlen_cstr [OF assms(4)] sint_of_nat_small [OF assms(5)] assms(6) by auto
  ultimately show ?thesis using m assms(11) k il by (auto simp: file_load_def Let_def)
qed

lemma file_missing:
  assumes "directory s names" and "cstr (ptr (mem s) name) xs" and "length xs < 2147483648" and "xs = [] \<or> xs \<notin> set names"
  shows "file_read d buf offset len name s = Some (-1, s)" "file_load d name addr s = Some (-1, s)"
proof -
  have "read_dentry_by_name name d s = Some (-1, s)"
    using read_dentry_by_name_find [OF assms(1-3)] assms(4) first_index_None [of xs names] by auto
  then show "file_read d buf offset len name s = Some (-1, s)" "file_load d name addr s = Some (-1, s)"
    using strlen_cstr [OF assms(2)] by (simp_all add: file_read_def file_load_def)
qed

section \<open>Listing the directory\<close>

lemma clear_name_buf_fill:
  assumes "i + n = 33"
  shows "clear_name_buf m buf (int i) = fill m (buf + of_nat i) n 0"
  using assms
proof (induction n arbitrary: i m)
  case 0
  then show ?case by (subst clear_name_buf.simps) simp
next
  case (Suc n)
  have "clear_name_buf m buf (int i) = clear_name_buf (m(buf + of_nat i := 0)) buf (int (Suc i))"
    using Suc.prems by (subst clear_name_buf.simps) (simp add: add.commute)
  also have "\<dots> = fill (m(buf + of_nat i := 0)) (buf + of_nat i + 1) n 0"
    using Suc.IH [of "Suc i"] Suc.prems by (simp add: ac_simps)
  also have "\<dots> = fill m (buf + of_nat i) (Suc n) 0" using fill_Suc Suc.prems by simp
  finally show ?case .
qed

text \<open>The name buffer after a read: the name cut to 32 characters and padded with NULs.\<close>

definition name_buf :: "byte list \<Rightarrow> byte list" where
  "name_buf xs = take 32 xs @ replicate (33 - length (take 32 xs)) 0"

lemma length_name_buf [simp]: "length (name_buf xs) = 33"
  by (simp add: name_buf_def)

lemma fill_poke: "n \<le> 4294967296 \<Longrightarrow> fill m p n b = poke m p (replicate n b)"
  by (auto simp: fill_def poke_def within_def fun_eq_iff)

lemma entry_name_frame:
  assumes "mounted s" and "i < 63" and "entry_name s i xs" and "length xs < 64" and "image_eq s m"
  shows "cstr (ptr m (dentry_at s (of_nat i))) xs"
proof -
  have xs: "cstr (ptr (mem s) (dentry_at s (of_nat i))) xs" using assms(3) by (simp add: entry_name_def)
  have keep: "m (dentry_at s (of_nat i) + of_nat j) = mem s (dentry_at s (of_nat i) + of_nat j)" if "j \<le> length xs" for j
    using dentry_in_image [OF assms(1,2), of j] assms(4,5) that by (simp add: image_eq_def)
  show ?thesis
  proof (rule cstrI)
    show "length xs < 4294967296" "0 \<notin> set xs" using xs by (simp_all add: cstr_def)
    show "\<And>j. j < length xs \<Longrightarrow> ptr m (dentry_at s (of_nat i)) (of_nat j) = xs ! j" using keep cstr_nth [OF xs] by simp
    show "ptr m (dentry_at s (of_nat i)) (of_nat (length xs)) = 0" using keep cstr_end [OF xs] by simp
  qed
qed

lemma buf_room_0: "buf_room s buf n \<Longrightarrow> 0 < n \<Longrightarrow> \<not> in_image s buf"
  by (auto simp: buf_room_def dest: spec [where x = 0])

lemma name_copy:
  assumes "mounted s" and "i < 63" and "entry_name s i xs" and "length xs < 64" and "buf_room s buf 33"
  shows "strncpy (fill (mem s) buf 33 0) buf (dentry_at s (of_nat i)) (of_nat (min 32 (length xs))) =
    poke (mem s) buf (name_buf xs)"
proof
  fix a
  let ?m = "fill (mem s) buf 33 0" and ?d = "dentry_at s (of_nat i)" and ?n = "min 32 (length xs)"
  have n: "unat (of_nat ?n :: u32) = ?n" by (rule unat_of_nat_u32) simp
  have img: "image_eq s ?m"
    unfolding fill_poke [of 33, simplified] by (rule image_eq_poke) (use assms(5) in \<open>simp add: buf_room_def\<close>)
  have xs: "cstr (ptr ?m ?d) xs" using entry_name_frame [OF assms(1-4) img] .
  have "forward_safe buf ?d (min (unat (of_nat ?n :: u32)) (Suc (length xs)))"
  proof (rule ccontr)
    assume "\<not> ?thesis"
    then have "unat (buf - ?d) < ?n" using n by (simp add: forward_safe_def not_le)
    then have "unat (buf - ?d) < 64" by simp
    from dentry_in_image [OF assms(1,2) this] show False using buf_room_0 [OF assms(5)] by simp
  qed
  note sp = fun_cong [OF strncpy_spec [OF xs this], of a]
  show "strncpy ?m buf ?d (of_nat ?n) a = poke (mem s) buf (name_buf xs) a"
  proof (cases "unat (a - buf) < ?n")
    case True
    have "?m (?d + (a - buf)) = xs ! unat (a - buf)" using cstr_nth [OF xs, of "unat (a - buf)"] True by simp
    then show ?thesis using sp True n by (simp add: within_def poke_def name_buf_def nth_append)
  next
    case False
    then show ?thesis using sp n by (auto simp: within_def fill_def poke_def name_buf_def nth_append min_def)
  qed
qed

lemma cstr_name_buf:
  assumes "0 \<notin> set xs"
  shows "cstr (ptr (poke m buf (name_buf xs)) buf) (take 32 xs)"
proof (rule cstrI)
  show "0 \<notin> set (take 32 xs)" using assms by (meson in_set_takeD)
qed (auto simp: poke_at name_buf_def nth_append min_def)

lemma directory_read_entry:
  assumes "mounted s" and "directory s names" and "buf_room s buf 33"
    and "entry_counter s = int c" and "sint (dentries_num (my_boot_block s)) = int n" and "c < n" and "n \<le> 63"
  shows "directory_read buf offset len nm s = Some (int (length (take 32 (names ! c))),
    s\<lparr>mem := poke (mem s) buf (name_buf (names ! c)), entry_counter := int (Suc c)\<rparr>)"
proof -
  let ?xs = "names ! c" and ?m = "fill (mem s) buf 33 0"
  have c: "c < 63" using assms(6,7) by simp
  have e: "entry_name s c ?xs" "length ?xs < 64" using assms(2) c by (simp_all add: directory_def)
  have img: "image_eq s ?m"
    unfolding fill_poke [of 33, simplified] by (rule image_eq_poke) (use assms(3) in \<open>simp add: buf_room_def\<close>)
  have d: "dentry_at (s\<lparr>mem := m\<rparr>) i = dentry_at s i" for m i by (simp add: dentry_at_def)
  have clr: "clear_name_buf (mem s) buf 0 = ?m" using clear_name_buf_fill [of 0 33] by simp
  have len: "strlen (ptr ?m (dentry_at s (of_nat c))) = Some (of_nat (length ?xs))"
    using strlen_cstr [OF entry_name_frame [OF assms(1) c e img]] .
  have sz: "sint (of_nat (length ?xs) :: u32) = int (length ?xs)" using e(2) sint_of_nat_small [of "length ?xs"] by simp
  have "0 \<notin> set ?xs" using e(1) by (simp add: entry_name_def cstr_def)
  from strlen_cstr [OF cstr_name_buf [OF this]]
  have r: "strlen (ptr (poke (mem s) buf (name_buf ?xs)) buf) = Some (of_nat (length (take 32 ?xs)))" .
  have "sint (of_nat (length (take 32 ?xs)) :: u32) = int (length (take 32 ?xs))"
    by (rule sint_of_nat_small) simp
  then show ?thesis
    using assms(4-6) name_copy [OF assms(1) c e assms(3)] r
    by (cases "32 \<le> length ?xs") (simp_all add: directory_read_def Let_def clr d len sz min_def)
qed

lemma directory_read_end:
  assumes "sint (dentries_num (my_boot_block s)) \<le> entry_counter s"
  shows "directory_read buf offset len nm s = Some (0, s\<lparr>mem := fill (mem s) buf 33 0, entry_counter := 0\<rparr>)"
  using assms clear_name_buf_fill [of 0 33] by (simp add: directory_read_def)

text \<open>Repeated reads of an open directory: the text the buffer holds after each.\<close>

primrec list_directory :: "nat \<Rightarrow> u32 \<Rightarrow> 'a files_scheme \<Rightarrow> (byte list list \<times> 'a files_scheme) option" where
  "list_directory 0 buf s = Some ([], s)"
| "list_directory (Suc n) buf s = do {
     (r, s1) \<leftarrow> directory_read buf 0 32 0 s;
     (xss, s2) \<leftarrow> list_directory n buf s1;
     Some (bytes_at (ptr (mem s1) buf) (nat r) # xss, s2)
   }"

definition listing_step :: "u32 \<Rightarrow> byte list \<Rightarrow> 'a files_scheme \<Rightarrow> 'a files_scheme" where
  "listing_step buf xs s = s\<lparr>mem := poke (mem s) buf (name_buf xs), entry_counter := entry_counter s + 1\<rparr>"

lemma bytes_at_name_buf: "bytes_at (ptr (poke m buf (name_buf xs)) buf) (length (take 32 xs)) = take 32 xs"
  by (rule nth_equalityI) (auto simp: poke_at name_buf_def nth_append)

lemma directory_step:
  assumes "mounted s" and "directory s names" and "buf_room s buf 33"
  shows "mounted (listing_step buf xs s)" "directory (listing_step buf xs s) names" "buf_room (listing_step buf xs s) buf 33"
proof -
  let ?m = "poke (mem s) buf (name_buf xs)"
  have img: "image_eq s ?m" by (rule image_eq_poke) (use assms(3) in \<open>simp add: buf_room_def\<close>)
  show "mounted (listing_step buf xs s)" using assms(1) by (simp add: listing_step_def mounted_def fs_size_def)
  show "buf_room (listing_step buf xs s) buf 33"
    using assms(3) by (simp add: listing_step_def buf_room_def in_image_def fs_size_def)
  show "directory (listing_step buf xs s) names"
    using assms(2) entry_name_frame [OF assms(1) _ _ _ img]
    by (simp add: directory_def entry_name_def listing_step_def dentry_at_def)
qed

lemma list_directory_from:
  assumes "mounted s" and "directory s names" and "buf_room s buf 33" and "entry_counter s = int c"
    and "sint (dentries_num (my_boot_block s)) = int n" and "n \<le> 63" and "c + k \<le> n"
  shows "\<exists>s'. list_directory k buf s = Some (map (take 32) (take k (drop c names)), s') \<and>
    entry_counter s' = int (c + k) \<and> my_boot_block s' = my_boot_block s"
  using assms(1-5,7)
proof (induction k arbitrary: c s)
  case 0
  then show ?case by simp
next
  case (Suc k)
  let ?s = "listing_step buf (names ! c) s"
  have rd: "directory_read buf 0 32 0 s = Some (int (length (take 32 (names ! c))), ?s)"
    using directory_read_entry [OF Suc.prems(1-5)] Suc.prems(4,6) assms(6) by (simp add: listing_step_def add.commute)
  have same: "my_boot_block ?s = my_boot_block s" "entry_counter ?s = int (Suc c)"
    using Suc.prems(4) by (simp_all add: listing_step_def)
  obtain s' where s': "list_directory k buf ?s = Some (map (take 32) (take k (drop (Suc c) names)), s')"
    "entry_counter s' = int (Suc c + k)" "my_boot_block s' = my_boot_block s"
    using Suc.IH [OF directory_step [OF Suc.prems(1-3)] same(2)] Suc.prems(5,6) same(1) by auto
  have "bytes_at (ptr (mem ?s) buf) (length (take 32 (names ! c))) = take 32 (names ! c)"
    by (simp add: listing_step_def bytes_at_name_buf del: length_take)
  moreover have "take (Suc k) (drop c names) = names ! c # take k (drop (Suc c) names)"
    using Suc.prems(2,6) assms(6) by (simp add: directory_def Cons_nth_drop_Suc [symmetric])
  ultimately show ?case using rd s' by (simp del: length_take)
qed

lemma filesystem_init_mounted:
  assumes "fs_start \<noteq> fs_end"
    and "4096 * (1 + unat (load32 (mem s) (fs_start + 4)) + unat (load32 (mem s) (fs_start + 8))) \<le> 4294967296"
  shows "mounted (snd (filesystem_init fs_start fs_end s))"
  using assms by (simp add: filesystem_init_def mounted_def fs_size_def boot_block_at_def)

end
