(* ===== verification/FilesTest.thy ===== *)
theory FilesTest
  imports FilesDir
begin

text \<open>
  The demonstration commands at the end of \<^verbatim>\<open>student-distrib/files.c\<close>, which the keyboard driver
  runs on Ctrl-1, Ctrl-2 and Ctrl-3: \<open>files_test\<close>, \<open>print_allfile_name\<close> and \<open>file_index\<close>.  They
  print with \<open>printf\<close>; \<open>cb\<close> is the stack address of its conversion buffer, \<open>d\<close> and \<open>buf\<close> those of
  the locals of the commands.
\<close>

unbundle bit_operations_syntax

section \<open>The commands\<close>

text \<open>The read-only pointer to a string literal.\<close>

definition lit_ptr :: "string \<Rightarrow> cptr" where
  "lit_ptr str = (\<lambda>i. if unat i < length str then lit str ! unat i else 0)"

definition kprintf :: "u32 \<Rightarrow> string \<Rightarrow> u32 list \<Rightarrow> 'a console_scheme \<Rightarrow> 'a console_scheme option" where
  "kprintf cb fmt args s = map_option snd (printf cb (lit_ptr fmt) args s)"

abbreviation rule_line :: string where
  "rule_line \<equiv> ''-----------------------------------------.'' @ [CHR 0x0A]"

text \<open>The loop over the 32 name characters of entry \<open>i\<close>, then the loop over the entries.\<close>

function print_name_chars :: "u32 \<Rightarrow> int \<Rightarrow> int \<Rightarrow> 'a files_scheme \<Rightarrow> 'a files_scheme option" where
  "print_name_chars cb i j s =
     (if j < 32 then do {
        let c = mem s (dentry_at s (of_int i) + of_int j);
        s \<leftarrow> (if c \<noteq> 0 then kprintf cb ''%c'' [scast c] s else kprintf cb '' '' [] s);
        print_name_chars cb i (j + 1) s
      } else Some s)"
  by pat_completeness auto
termination
  by (relation "measure (\<lambda>(cb, i, j, s). nat (32 - j))") auto

definition filetype_text :: "u32 \<Rightarrow> string" where
  "filetype_text t = (if t = 0 then ''   Filetype: RTC''
     else if t = 1 then ''   Filetype: Directory''
     else if t = 2 then ''   Filetype: Regular file''
     else ''   Filetype: Invalid file type'')"

function print_entries :: "u32 \<Rightarrow> int \<Rightarrow> int \<Rightarrow> 'a files_scheme \<Rightarrow> 'a files_scheme option" where
  "print_entries cb num_node i s =
     (if i < num_node then do {
        s \<leftarrow> print_name_chars cb i 0 s;
        s \<leftarrow> kprintf cb (filetype_text (load32 (mem s) (dentry_at s (of_int i) + 32))) [] s;
        s \<leftarrow> kprintf cb [CHR 0x0A] [] s;
        print_entries cb num_node (i + 1) s
      } else Some s)"
  by pat_completeness auto
termination
  by (relation "measure (\<lambda>(cb, n, i, s). nat (n - i))") auto

definition print_allfile_name :: "u32 \<Rightarrow> 'a files_scheme \<Rightarrow> 'a files_scheme option" where
  "print_allfile_name cb s = do {
     let num_node = sint (dentries_num (my_boot_block s));
     let s = clear s;
     s \<leftarrow> kprintf cb rule_line [] s;
     s \<leftarrow> kprintf cb ('' Below is all the file in this computer.'' @ [CHR 0x0A]) [] s;
     s \<leftarrow> kprintf cb rule_line [] s;
     print_entries cb num_node 1 s
   }"

function print_bytes :: "u32 \<Rightarrow> u32 \<Rightarrow> int \<Rightarrow> int \<Rightarrow> 'a files_scheme \<Rightarrow> 'a files_scheme option" where
  "print_bytes cb buf n i s =
     (if i < n then do {
        s \<leftarrow> kprintf cb ''%c'' [ucast (mem s (buf + of_int i))] s;
        print_bytes cb buf n (i + 1) s
      } else Some s)"
  by pat_completeness auto
termination
  by (relation "measure (\<lambda>(cb, buf, n, i, s). nat (n - i))") auto

text \<open>\<open>asdf\<close> is the address of the literal \<^verbatim>\<open>frame0.txt\<close>.  The bound of the print loop is the global
  \<open>length_of_file\<close>, which printing does not change.\<close>

definition files_test :: "u32 \<Rightarrow> u32 \<Rightarrow> u32 \<Rightarrow> u32 \<Rightarrow> 'a files_scheme \<Rightarrow> 'a files_scheme option" where
  "files_test cb asdf dentry buf s = do {
     let s = clear s;
     (_, s) \<leftarrow> read_dentry_by_name asdf dentry s;
     s \<leftarrow> kprintf cb rule_line [] s;
     s \<leftarrow> kprintf cb (''   Reading file by name: '' @ [CHR 0x27] @ ''frame0.txt'' @ [CHR 0x27] @ ''.'' @ [CHR 0x0A]) [] s;
     s \<leftarrow> kprintf cb rule_line [] s;
     let inode = load32 (mem s) (dentry + 36);
     let len = inode_length s inode;
     let (r, s) = read_data inode 0 buf len s;
     if r = 0 then print_bytes cb buf (length_of_file s) 0 s
     else kprintf cb (''FAIL TO READ FILE.'' @ [CHR 0x0A]) [] s
   }"

function print_name_until_nul :: "u32 \<Rightarrow> u32 \<Rightarrow> int \<Rightarrow> 'a files_scheme \<Rightarrow> 'a files_scheme option" where
  "print_name_until_nul cb dentry i s =
     (if i < 32 then
        (let c = mem s (dentry + of_int i) in
         if c = 0 then Some s
         else do { s \<leftarrow> kprintf cb ''%c'' [scast c] s; print_name_until_nul cb dentry (i + 1) s })
      else Some s)"
  by pat_completeness auto
termination
  by (relation "measure (\<lambda>(cb, d, i, s). nat (32 - i))") auto

definition file_index :: "u32 \<Rightarrow> u32 \<Rightarrow> u32 \<Rightarrow> 'a files_scheme \<Rightarrow> 'a files_scheme option" where
  "file_index cb dentry a s = do {
     let s = clear s;
     s \<leftarrow> kprintf cb rule_line [] s;
     s \<leftarrow> kprintf cb (''       Reading file by index: %d.'' @ [CHR 0x0A]) [a] s;
     s \<leftarrow> kprintf cb rule_line [] s;
     (r, s) \<leftarrow> read_dentry_by_index a dentry s;
     s \<leftarrow> (if r = 0 then do {
             n \<leftarrow> strlen (ptr (mem s) dentry);
             if n = 0 then kprintf cb ''READ FAIL: empty file.'' [] s
             else print_name_until_nul cb dentry 0 s
           } else kprintf cb ''Read fail: Index does not exist'' [] s);
     kprintf cb [CHR 0x0A] [] s
   }"

declare print_name_chars.simps [simp del] print_entries.simps [simp del] print_bytes.simps [simp del]
  print_name_until_nul.simps [simp del]

section \<open>Printing a literal\<close>

lemma of_char_byte_0: "(of_char c :: byte) = 0 \<longleftrightarrow> c = CHR 0x00"
proof
  assume "(of_char c :: byte) = 0"
  then have "(of_nat (of_char c) :: byte) = 0" by (simp add: of_nat_of_char)
  then have "unat (of_nat (of_char c) :: byte) = 0" by simp
  then have "(of_char c :: nat) = of_char (CHR 0x00)" by (simp add: unat_of_nat take_bit_eq_mod)
  then show "c = CHR 0x00" by (rule of_char_eqI)
qed simp

lemma cstr_lit_ptr: "CHR 0x00 \<notin> set str \<Longrightarrow> length str < 4294967296 \<Longrightarrow> cstr (lit_ptr str) (lit str)"
proof (rule cstrI)
  assume nz: "CHR 0x00 \<notin> set str"
  then show "0 \<notin> set (lit str)" by (auto simp: lit_def of_char_byte_0 dest: sym)
qed (auto simp: lit_ptr_def lit_def)

lemma render_plain: "37 \<notin> set xs \<Longrightarrow> render str None xs args = xs"
  by (induction xs) auto

lemma complete_plain: "37 \<notin> set xs \<Longrightarrow> complete P None xs args"
  by (induction xs) auto

text \<open>A literal format without \<^verbatim>\<open>%s\<close> prints its rendering.\<close>

lemma kprintf_prints:
  assumes "on_screen s" and "off_vram cb 64" and "CHR 0x00 \<notin> set str" and "length str < 4294967296"
    and "complete {} None (lit str) args"
  shows "\<exists>s'. kprintf cb str args s = Some s' \<and> prints cb (render (\<lambda>_. []) None (lit str) args) s s'"
proof -
  have "str_args cb {} (\<lambda>_. []) (mem s)" by (simp add: str_args_def)
  from printf_prints [OF assms(1,2) this cstr_lit_ptr [OF assms(3,4)] assms(5)]
  show ?thesis by (auto simp: kprintf_def)
qed

lemma kprintf_plain:
  assumes "on_screen s" and "off_vram cb 64" and "CHR 0x00 \<notin> set str" and "37 \<notin> set (lit str)" and "length str < 4294967296"
  shows "\<exists>s'. kprintf cb str [] s = Some s' \<and> prints cb (lit str) s s'"
  using kprintf_prints [OF assms(1-3,5) complete_plain [OF assms(4)]] render_plain [OF assms(4)] by simp

lemma kprintf_char:
  assumes "on_screen s" and "off_vram cb 64"
  shows "\<exists>s'. kprintf cb ''%c'' [v] s = Some s' \<and> prints cb [ucast v] s s'"
proof -
  have "complete {} None (lit ''%c'') [v]" "render (\<lambda>_. []) None (lit ''%c'') [v] = [ucast v]"
    by (simp_all add: lit_def takes_arg_def conv_text_def)
  with kprintf_prints [OF assms, of "''%c''" "[v]"] show ?thesis by simp
qed

end
