(* ===== verification/Keyboard.thy ===== *)
theory Keyboard
  imports FilesTest
begin

text \<open>
  The keyboard driver and terminal, \<^verbatim>\<open>student-distrib/keyboard.c\<close>: modifier flags, the line
  buffer \<open>buffer\<close>, the completed line \<open>storage_buffer\<close>, the scan-code handling
  \<open>process_keyboard_input\<close>, the interrupt handler, and the terminal file operations
  \<open>terminal_open\<close>, \<open>terminal_read\<close> and \<open>terminal_write\<close>.  An access outside one of the two
  arrays is undefined and gives \<open>None\<close>.

  The addresses the compiler gives to the locals of the printing and demonstration routines are
  the fields of \<open>addrs\<close>.
\<close>

unbundle bit_operations_syntax

section \<open>State\<close>

record addrs =
  conv_buf :: u32
  dentry_local :: u32
  data_local :: u32
  frame0_lit :: u32

record keyboard = files +
  caps_flag :: int
  shift_left_flag :: int
  shift_right_flag :: int
  ctrl_left_flag :: int
  ctrl_right_flag :: int
  buffer :: "byte list"
  storage_buffer :: "int list"
  buffer_content_counter :: int
  storage_buffer_counter :: int
  backspacable_counter :: int
  readable_flag :: int
  count :: int
  index_file :: int

abbreviation BUF_SIZE :: nat where "BUF_SIZE \<equiv> 1024"
abbreviation KEYBOARD_IRQ :: u32 where "KEYBOARD_IRQ \<equiv> 1"
abbreviation KEYBOARD_PORT :: u16 where "KEYBOARD_PORT \<equiv> 0x60"

section \<open>The scan-code tables\<close>

definition norm :: "byte list" where
  "norm = [0, 27, 49, 50, 51, 52, 53, 54, 55, 56, 57, 48, 45, 61, 8, 9, 113, 119, 101, 114, 116,
     121, 117, 105, 111, 112, 91, 93, 10, 0, 97, 115, 100, 102, 103, 104, 106, 107, 108, 59,
     39, 96, 0, 92, 122, 120, 99, 118, 98, 110, 109, 44, 46, 47, 0, 42, 0, 32] @ replicate 70 0"

definition cap_norm :: "byte list" where
  "cap_norm = [0, 27, 49, 50, 51, 52, 53, 54, 55, 56, 57, 48, 45, 61, 8, 9, 81, 87, 69, 82, 84, 89, 85,
     73, 79, 80, 91, 93, 10, 0, 65, 83, 68, 70, 71, 72, 74, 75, 76, 58, 39, 96, 0, 92, 90, 88,
     67, 86, 66, 78, 77, 44, 46, 47, 0, 42, 0, 32] @ replicate 70 0"

definition shift_norm :: "byte list" where
  "shift_norm = [0, 27, 33, 64, 35, 36, 37, 94, 38, 42, 40, 41, 95, 43, 8, 9, 81, 87, 69, 82, 84, 89, 85,
     73, 79, 80, 123, 125, 10, 0, 65, 83, 68, 70, 71, 72, 74, 75, 76, 58, 34, 126, 0, 92, 90,
     88, 67, 86, 66, 78, 77, 60, 62, 63, 0, 42, 0, 32] @ replicate 70 0"

definition cap_shift :: "byte list" where
  "cap_shift = [0, 27, 33, 64, 35, 36, 37, 94, 38, 42, 40, 41, 95, 43, 8, 9, 113, 119, 101, 114, 116,
     121, 117, 105, 111, 112, 123, 125, 10, 0, 97, 115, 100, 102, 103, 104, 106, 107, 108, 58,
     34, 126, 0, 92, 122, 120, 99, 118, 98, 110, 109, 60, 62, 63, 0, 42, 0, 32] @ replicate 70 0"

section \<open>Buffers\<close>

definition keyboard_init :: "'a keyboard_scheme \<Rightarrow> 'a keyboard_scheme" where
  "keyboard_init s =
     (let s = s\<lparr>buffer := replicate BUF_SIZE 0, storage_buffer := replicate BUF_SIZE 0\<rparr>;
          s = s\<lparr>buffer_content_counter := 0, readable_flag := 0, backspacable_counter := 0\<rparr>;
          s = init_screen_x_and_y s;
          s = update_terminal_cursor s;
          s = s\<lparr>index_file := 0, count := 1\<rparr>
      in enable_irq KEYBOARD_IRQ s)"

definition clear_buf :: "'a keyboard_scheme \<Rightarrow> 'a keyboard_scheme" where
  "clear_buf s = s\<lparr>buffer := replicate BUF_SIZE 0, buffer_content_counter := 0\<rparr>"

definition clear_storage_buf :: "'a keyboard_scheme \<Rightarrow> 'a keyboard_scheme" where
  "clear_storage_buf s = s\<lparr>storage_buffer := replicate BUF_SIZE 0, storage_buffer_counter := 0\<rparr>"

text \<open>\<^verbatim>\<open>buffer[i] = c\<close>, \<^verbatim>\<open>storage_buffer[i] = v\<close> and the reads.\<close>

definition set_buffer :: "int \<Rightarrow> byte \<Rightarrow> 'a keyboard_scheme \<Rightarrow> 'a keyboard_scheme option" where
  "set_buffer i c s = (if 0 \<le> i \<and> i < 1024 then Some (s\<lparr>buffer := (buffer s)[nat i := c]\<rparr>) else None)"

definition set_storage :: "int \<Rightarrow> int \<Rightarrow> 'a keyboard_scheme \<Rightarrow> 'a keyboard_scheme option" where
  "set_storage i v s = (if 0 \<le> i \<and> i < 1024 then Some (s\<lparr>storage_buffer := (storage_buffer s)[nat i := v]\<rparr>) else None)"

definition get_buffer :: "int \<Rightarrow> 'a keyboard_scheme \<Rightarrow> byte option" where
  "get_buffer i s = (if 0 \<le> i \<and> i < 1024 then Some (buffer s ! nat i) else None)"

definition get_storage :: "int \<Rightarrow> 'a keyboard_scheme \<Rightarrow> int option" where
  "get_storage i s = (if 0 \<le> i \<and> i < 1024 then Some (storage_buffer s ! nat i) else None)"

text \<open>Printing leaves the line buffer alone.\<close>

lemma putc_keyboard [simp]: "buffer_content_counter (putc c s) = buffer_content_counter s" "buffer (putc c s) = buffer s"
  by (simp_all add: putc_def terminal_scroll_down_def Let_def)

function print_buf_from :: "int \<Rightarrow> 'a keyboard_scheme \<Rightarrow> (int \<times> 'a keyboard_scheme) option" where
  "print_buf_from i s =
     (if i < buffer_content_counter s then do {
        c \<leftarrow> get_buffer i s;
        print_buf_from (i + 1) (putc c s)
      } else Some (i, s))"
  by pat_completeness auto
termination
  by (relation "measure (\<lambda>(i, s). nat (buffer_content_counter s - i))") auto

declare print_buf_from.simps [simp del]

definition print_buf :: "'a keyboard_scheme \<Rightarrow> (int \<times> 'a keyboard_scheme) option" where
  "print_buf s = do {
     (i, s) \<leftarrow> print_buf_from 0 s;
     let s = update_terminal_cursor s;
     Some (i, s\<lparr>backspacable_counter := 0\<rparr>)
   }"

section \<open>Terminal file operations\<close>

function copy_storage :: "u32 \<Rightarrow> int \<Rightarrow> int \<Rightarrow> 'a keyboard_scheme \<Rightarrow> (int \<times> 'a keyboard_scheme) option" where
  "copy_storage buf nbytes i s =
     (if i < storage_buffer_counter s \<and> i < nbytes then do {
        v \<leftarrow> get_storage i s;
        copy_storage buf nbytes (i + 1) (s\<lparr>mem := (mem s)(buf + of_int i := of_int v)\<rparr>)
      } else Some (i, s))"
  by pat_completeness auto
termination
  by (relation "measure (\<lambda>(buf, n, i, s). nat (n - i))") auto

declare copy_storage.simps [simp del]

text \<open>\<open>bytse_read\<close> is incremented with \<open>i\<close>.  After the wait \<open>readable_flag\<close> is not 0, so the
  \<^verbatim>\<open>else\<close> branch of the code, which returns -1, is unreachable.\<close>

definition terminal_read :: "'a keyboard_scheme handler list \<Rightarrow> u32 \<Rightarrow> u32 \<Rightarrow> int \<Rightarrow> u32 \<Rightarrow> 'a keyboard_scheme
    \<Rightarrow> ('a keyboard_scheme handler list \<times> int \<times> 'a keyboard_scheme) option" where
  "terminal_read irqs buf offset nbytes name s = do {
     (irqs', s) \<leftarrow> spin (\<lambda>s. readable_flag s = 0) irqs s;
     if readable_flag s \<noteq> 0 then do {
       (bytse_read, s) \<leftarrow> copy_storage buf nbytes 0 s;
       let s = clear_storage_buf s;
       Some (irqs', bytse_read, s\<lparr>readable_flag := 0\<rparr>)
     } else Some (irqs', -1, s)
   }"

function fill_buffer :: "u32 \<Rightarrow> int \<Rightarrow> int \<Rightarrow> 'a keyboard_scheme \<Rightarrow> 'a keyboard_scheme option" where
  "fill_buffer buf nbytes i s =
     (if i < nbytes then do {
        s \<leftarrow> set_buffer i (mem s (buf + of_int i)) s;
        fill_buffer buf nbytes (i + 1) (s\<lparr>buffer_content_counter := buffer_content_counter s + 1\<rparr>)
      } else Some s)"
  by pat_completeness auto
termination
  by (relation "measure (\<lambda>(buf, n, i, s). nat (n - i))") auto

declare fill_buffer.simps [simp del]

definition terminal_write :: "int \<Rightarrow> u32 \<Rightarrow> int \<Rightarrow> 'a keyboard_scheme \<Rightarrow> (int \<times> 'a keyboard_scheme) option" where
  "terminal_write fd buf nbytes s = do {
     s \<leftarrow> fill_buffer buf nbytes 0 s;
     (bytes_written, s) \<leftarrow> print_buf s;
     let s = clear_buf s;
     Some (bytes_written, s\<lparr>backspacable_counter := 0\<rparr>)
   }"

definition terminal_open :: "'a keyboard_scheme \<Rightarrow> int \<times> 'a keyboard_scheme" where
  "terminal_open s = (0, keyboard_init s)"

section \<open>Scan codes\<close>

text \<open>The sequence of flag updates at the top of \<open>process_keyboard_input\<close>; \<open>only_if\<close> is a C \<^verbatim>\<open>if\<close> without
  \<^verbatim>\<open>else\<close>.\<close>

definition only_if :: "bool \<Rightarrow> ('s \<Rightarrow> 's) \<Rightarrow> 's \<Rightarrow> 's" where
  "only_if b f s = (if b then f s else s)"

definition toggle_caps :: "u32 \<Rightarrow> 'a keyboard_scheme \<Rightarrow> 'a keyboard_scheme" where
  "toggle_caps ch s =
     (if ch = 0x3A \<and> caps_flag s = 0 then s\<lparr>caps_flag := 1\<rparr>
      else if ch = 0x3A \<and> caps_flag s = 1 then s\<lparr>caps_flag := 0\<rparr> else s)"

definition update_flags :: "u32 \<Rightarrow> 'a keyboard_scheme \<Rightarrow> 'a keyboard_scheme" where
  "update_flags ch s =
     (let s = only_if (ch = 0x36) (\<lambda>s. s\<lparr>shift_right_flag := 1\<rparr>) s;
          s = only_if (ch = 0x2A) (\<lambda>s. s\<lparr>shift_left_flag := 1\<rparr>) s;
          s = only_if (ch = 0x1D) (\<lambda>s. s\<lparr>ctrl_left_flag := 1\<rparr>) s;
          s = toggle_caps ch s;
          s = only_if (ch = 0xB6) (\<lambda>s. s\<lparr>shift_right_flag := 0\<rparr>) s;
          s = only_if (ch = 0xAA) (\<lambda>s. s\<lparr>shift_left_flag := 0\<rparr>) s
      in only_if (ch = 0x9D) (\<lambda>s. s\<lparr>ctrl_left_flag := 0\<rparr>) s)"

function copy_line :: "int \<Rightarrow> 'a keyboard_scheme \<Rightarrow> (int \<times> 'a keyboard_scheme) option" where
  "copy_line i s =
     (if i < buffer_content_counter s then do {
        c \<leftarrow> get_buffer i s;
        s \<leftarrow> set_storage i (sint c) s;
        copy_line (i + 1) (s\<lparr>storage_buffer_counter := storage_buffer_counter s + 1\<rparr>)
      } else Some (i, s))"
  by pat_completeness auto
termination
  by (relation "measure (\<lambda>(i, s). nat (buffer_content_counter s - i))") (auto simp: set_storage_def split: if_splits)

declare copy_line.simps [simp del]

definition enter_key :: "'a keyboard_scheme \<Rightarrow> 'a keyboard_scheme option" where
  "enter_key s = do {
     let s = putc 10 s;
     let s = update_terminal_cursor s;
     let s = s\<lparr>backspacable_counter := 0, readable_flag := 0\<rparr>;
     let s = clear_storage_buf s;
     (i, s) \<leftarrow> copy_line 0 s;
     s \<leftarrow> set_storage i 10 s;
     let s = s\<lparr>storage_buffer_counter := storage_buffer_counter s + 1\<rparr>;
     let s = s\<lparr>readable_flag := 1\<rparr>;
     Some (clear_buf s)
   }"

text \<open>The message of the branch for a negative counter starts with three Chinese characters and a
  full-width colon, in UTF-8.\<close>

abbreviation negative_message :: string where
  "negative_message \<equiv> [CHR 0xE6, CHR 0x9D, CHR 0x9C, CHR 0xE5, CHR 0xBB, CHR 0xBA, CHR 0xE9, CHR 0x9C, CHR 0x96,
     CHR 0xEF, CHR 0xBC, CHR 0x9A] @ ''Exception: keyboard.c: process_keyboard_input() when BACKSPACE is pressed'' @ [CHR 0x0A]"

definition backspace_key :: "addrs \<Rightarrow> 'a keyboard_scheme \<Rightarrow> 'a keyboard_scheme option" where
  "backspace_key env s = do {
     let s = back_space s;
     let s = update_terminal_cursor s;
     let s = s\<lparr>backspacable_counter := backspacable_counter s - 1\<rparr>;
     if buffer_content_counter s > 0 then do {
       let s = s\<lparr>buffer_content_counter := buffer_content_counter s - 1\<rparr>;
       set_buffer (buffer_content_counter s) 0 s
     } else if buffer_content_counter s = 0 then Some s
     else kprintf (conv_buf env) negative_message [] s
   }"

text \<open>The table the modifiers select, and the echo of an ordinary key.\<close>

definition key_table :: "'a keyboard_scheme \<Rightarrow> byte list" where
  "key_table s =
     (if caps_flag s = 1 then (if shift_left_flag s OR shift_right_flag s = 1 then cap_shift else cap_norm)
      else (if shift_left_flag s OR shift_right_flag s = 1 then shift_norm else norm))"

definition letter_key :: "u32 \<Rightarrow> 'a keyboard_scheme \<Rightarrow> 'a keyboard_scheme option" where
  "letter_key ch s =
     (if buffer_content_counter s < 128 then do {
        let c = key_table s ! unat ch;
        let s = putc c s;
        s \<leftarrow> set_buffer (buffer_content_counter s) c s;
        let s = update_terminal_cursor s;
        let s = s\<lparr>buffer_content_counter := buffer_content_counter s + 1\<rparr>;
        Some (s\<lparr>backspacable_counter := backspacable_counter s + 1\<rparr>)
      } else Some s)"

definition ctrl_down :: "'a keyboard_scheme \<Rightarrow> bool" where
  "ctrl_down s \<longleftrightarrow> ctrl_left_flag s = 1 \<or> ctrl_right_flag s = 1"

definition process_keyboard_input :: "addrs \<Rightarrow> u32 \<Rightarrow> 'a keyboard_scheme \<Rightarrow> 'a keyboard_scheme option" where
  "process_keyboard_input env ch s0 =
     (let s = update_flags ch s0 in
      if ctrl_down s \<and> ch = 0x26 then
        (let s = clear_screen s;
             s = clear_buf s;
             s = s\<lparr>backspacable_counter := 0\<rparr>;
             s = clear_storage_buf s
         in Some (update_terminal_cursor s))
      else if ctrl_down s \<and> ch = 0x2 then
        files_test (conv_buf env) (frame0_lit env) (dentry_local env) (data_local env) s
      else if ctrl_down s \<and> ch = 0x3 then print_allfile_name (conv_buf env) s
      else if ctrl_down s \<and> ch = 0x4 then do {
        s \<leftarrow> file_index (conv_buf env) (dentry_local env) (of_int (index_file s)) s;
        Some (s\<lparr>index_file := index_file s + 1\<rparr>)
      }
      else if ch > 0x3A then Some s
      else if norm ! unat ch = 10 then enter_key s
      else if norm ! unat ch = 8 \<and> backspacable_counter s > 0 then backspace_key env s
      else if norm ! unat ch = 8 then Some s
      else if norm ! unat ch = 9 then
        (let s = putc 32 (putc 32 s);
             s = update_terminal_cursor s
         in Some (s\<lparr>backspacable_counter := backspacable_counter s + 2\<rparr>))
      else if ch = 0x36 \<or> ch = 0x2A \<or> ch = 0x1D then Some s
      else if ch = 0x3A then Some s
      else letter_key ch s)"

definition keyboard_interrupt_handler :: "addrs \<Rightarrow> device \<Rightarrow> 'a keyboard_scheme \<Rightarrow> 'a keyboard_scheme option" where
  "keyboard_interrupt_handler env dev s = do {
     let s = cli s;
     let (character_info, s) = inb dev KEYBOARD_PORT s;
     s \<leftarrow> process_keyboard_input env (ucast character_info) s;
     let s = send_eoi KEYBOARD_IRQ s;
     Some (sti s)
   }"

section \<open>The line editor\<close>

text \<open>The abstract terminal input: the line being typed, the last completed line while nobody has
  read it, the screen, and how many echoed characters may be taken back.\<close>

record editor =
  e_line :: "byte list"
  e_ready :: "byte list option"
  e_screen :: terminal
  e_undo :: int

definition e_key :: "byte list \<Rightarrow> u32 \<Rightarrow> editor \<Rightarrow> editor" where
  "e_key table ch e =
     (if ch > 0x3A \<or> ch \<in> {0x36, 0x2A, 0x1D, 0x3A} then e
      else if ch = 0x1C then
        \<lparr>e_line = [], e_ready = Some (e_line e @ [10]), e_screen = t_putc 10 (e_screen e), e_undo = 0\<rparr>
      else if ch = 0x0E then
        (if e_undo e > 0
         then e\<lparr>e_line := butlast (e_line e), e_screen := t_back_space (e_screen e), e_undo := e_undo e - 1\<rparr> else e)
      else if ch = 0x0F then e\<lparr>e_screen := t_putc 32 (t_putc 32 (e_screen e)), e_undo := e_undo e + 2\<rparr>
      else if length (e_line e) < 128 then
        e\<lparr>e_line := e_line e @ [table ! unat ch], e_screen := t_putc (table ! unat ch) (e_screen e), e_undo := e_undo e + 1\<rparr>
      else e)"

definition line_of :: "'a keyboard_scheme \<Rightarrow> byte list" where
  "line_of s = take (nat (buffer_content_counter s)) (buffer s)"

definition ready_of :: "'a keyboard_scheme \<Rightarrow> byte list option" where
  "ready_of s = (if readable_flag s = 0 then None
     else Some (map of_int (take (nat (storage_buffer_counter s)) (storage_buffer s))))"

definition editor_of :: "'a keyboard_scheme \<Rightarrow> editor" where
  "editor_of s = \<lparr>e_line = line_of s, e_ready = ready_of s, e_screen = term_of s, e_undo = backspacable_counter s\<rparr>"

definition kb_ok :: "'a keyboard_scheme \<Rightarrow> bool" where
  "kb_ok s \<longleftrightarrow> on_screen s \<and> length (buffer s) = 1024 \<and> length (storage_buffer s) = 1024 \<and>
     0 \<le> buffer_content_counter s \<and> buffer_content_counter s \<le> 128 \<and>
     0 \<le> storage_buffer_counter s \<and> storage_buffer_counter s \<le> 129 \<and> 0 \<le> backspacable_counter s \<and>
     caps_flag s \<in> {0, 1} \<and> shift_left_flag s \<in> {0, 1} \<and> shift_right_flag s \<in> {0, 1}"

lemma length_tables [simp]:
  "length norm = 128" "length cap_norm = 128" "length shift_norm = 128" "length cap_shift = 128"
  by (simp_all add: norm_def cap_norm_def shift_norm_def cap_shift_def)

text \<open>Only one key each has the codes of Enter, Backspace and Tab.\<close>

lemma norm_special:
  fixes ch :: u32
  assumes "ch \<le> 0x3A"
  shows "norm ! unat ch = 10 \<longleftrightarrow> ch = 0x1C" "norm ! unat ch = 8 \<longleftrightarrow> ch = 0x0E" "norm ! unat ch = 9 \<longleftrightarrow> ch = 0x0F"
proof -
  have "list_all (\<lambda>n. (norm ! n = 10 \<longleftrightarrow> n = 28) \<and> (norm ! n = 8 \<longleftrightarrow> n = 14) \<and> (norm ! n = 9 \<longleftrightarrow> n = 15)) [0..<59]"
    by (simp add: norm_def upt_conv_Cons)
  moreover have "unat ch < 59" using assms by (simp add: word_le_nat_alt)
  moreover have "ch = of_nat n \<longleftrightarrow> unat ch = n" if "n < 59" for n using that by auto
  note this [of 28] this [of 14] this [of 15]
  ultimately show "norm ! unat ch = 10 \<longleftrightarrow> ch = 0x1C" "norm ! unat ch = 8 \<longleftrightarrow> ch = 0x0E" "norm ! unat ch = 9 \<longleftrightarrow> ch = 0x0F"
    by (simp_all add: list_all_iff)
qed

section \<open>The driver refines the editor\<close>

lemma cursor_fields [simp]:
  "mem (update_terminal_cursor s) = mem s" "screen_x (update_terminal_cursor s) = screen_x s"
  "screen_y (update_terminal_cursor s) = screen_y s" "on_screen (update_terminal_cursor s) = on_screen s"
  "term_of (update_terminal_cursor s) = term_of s"
  by (simp_all add: update_terminal_cursor_def Let_def outb_def on_screen_def term_of_def)

text \<open>The fields of the driver, read after a console operation.\<close>

definition kb_fields where
  "kb_fields s = (caps_flag s, shift_left_flag s, shift_right_flag s, ctrl_left_flag s, ctrl_right_flag s, buffer s,
     storage_buffer s, buffer_content_counter s, storage_buffer_counter s, backspacable_counter s, readable_flag s)"

lemma kb_fields_console [simp]:
  "kb_fields (putc c s) = kb_fields s" "kb_fields (back_space s) = kb_fields s"
  "kb_fields (update_terminal_cursor s) = kb_fields s" "kb_fields (clear s) = kb_fields s"
  by (simp_all add: kb_fields_def putc_def terminal_scroll_down_def back_space_def update_terminal_cursor_def clear_def outb_def Let_def)

lemma kb_fieldsD:
  assumes "kb_fields s = kb_fields t"
  shows "caps_flag s = caps_flag t" "shift_left_flag s = shift_left_flag t" "shift_right_flag s = shift_right_flag t"
    "ctrl_left_flag s = ctrl_left_flag t" "ctrl_right_flag s = ctrl_right_flag t" "buffer s = buffer t"
    "storage_buffer s = storage_buffer t" "buffer_content_counter s = buffer_content_counter t"
    "storage_buffer_counter s = storage_buffer_counter t" "backspacable_counter s = backspacable_counter t"
    "readable_flag s = readable_flag t"
  using assms by (simp_all add: kb_fields_def)

lemmas putc_kb [simp] = kb_fieldsD [OF kb_fields_console(1)]
lemmas back_space_kb [simp] = kb_fieldsD [OF kb_fields_console(2)]
lemmas cursor_kb [simp] = kb_fieldsD [OF kb_fields_console(3)]
lemmas clear_kb [simp] = kb_fieldsD [OF kb_fields_console(4)]

lemma on_screen_update [simp]:
  "on_screen (s\<lparr>buffer := b\<rparr>) = on_screen s" "on_screen (s\<lparr>storage_buffer := sb\<rparr>) = on_screen s"
  "on_screen (s\<lparr>buffer_content_counter := i\<rparr>) = on_screen s" "on_screen (s\<lparr>storage_buffer_counter := i\<rparr>) = on_screen s"
  "on_screen (s\<lparr>backspacable_counter := i\<rparr>) = on_screen s" "on_screen (s\<lparr>readable_flag := i\<rparr>) = on_screen s"
  by (simp_all add: on_screen_def)

lemma term_of_update [simp]:
  "term_of (s\<lparr>buffer := b\<rparr>) = term_of s" "term_of (s\<lparr>storage_buffer := sb\<rparr>) = term_of s"
  "term_of (s\<lparr>buffer_content_counter := i\<rparr>) = term_of s" "term_of (s\<lparr>storage_buffer_counter := i\<rparr>) = term_of s"
  "term_of (s\<lparr>backspacable_counter := i\<rparr>) = term_of s" "term_of (s\<lparr>readable_flag := i\<rparr>) = term_of s"
  by (simp_all add: term_of_def)

lemma kb_ok_screen: "kb_ok s \<Longrightarrow> on_screen s"
  by (simp add: kb_ok_def)

lemma letter_key_refines:
  assumes "kb_ok s" and "unat ch < 128"
  shows "\<exists>s'. letter_key ch s = Some s' \<and> kb_ok s' \<and> editor_of s' =
    (let e = editor_of s; c = key_table s ! unat ch in if length (e_line e) < 128 then
        e\<lparr>e_line := e_line e @ [c], e_screen := t_putc c (e_screen e), e_undo := e_undo e + 1\<rparr> else e)"
proof -
  have n: "0 \<le> buffer_content_counter s" "buffer_content_counter s \<le> 128" "length (buffer s) = 1024"
    using assms(1) by (simp_all add: kb_ok_def)
  have len: "length (line_of s) = nat (buffer_content_counter s)" using n by (simp add: line_of_def)
  show ?thesis
  proof (cases "buffer_content_counter s < 128")
    case True
    have sn: "nat (buffer_content_counter s + 1) = Suc (nat (buffer_content_counter s))" using n by simp
    have "nat (buffer_content_counter s) < length (buffer s)" using True n by simp
    then have "take (Suc (nat (buffer_content_counter s))) ((buffer s)[nat (buffer_content_counter s) := c]) = line_of s @ [c]" for c
      by (simp add: line_of_def take_Suc_conv_app_nth)
    then show ?thesis using True n len sn assms(1) putc_on_screen [OF kb_ok_screen [OF assms(1)]] putc_refines [OF kb_ok_screen [OF assms(1)]]
      by (simp add: letter_key_def set_buffer_def Let_def editor_of_def kb_ok_def line_of_def [of "_\<lparr>buffer := _\<rparr>"] ready_of_def)
         (simp add: line_of_def)
  next
    case False
    then show ?thesis using n len assms(1) by (simp add: letter_key_def editor_of_def)
  qed
qed

lemma backspace_key_refines:
  assumes "kb_ok s" and "0 < backspacable_counter s"
  shows "\<exists>s'. backspace_key env s = Some s' \<and> kb_ok s' \<and> editor_of s' =
    (let e = editor_of s in e\<lparr>e_line := butlast (e_line e), e_screen := t_back_space (e_screen e), e_undo := e_undo e - 1\<rparr>)"
proof -
  have n: "0 \<le> buffer_content_counter s" "buffer_content_counter s \<le> 128" "length (buffer s) = 1024"
    using assms(1) by (simp_all add: kb_ok_def)
  note scr = back_space_on_screen [OF kb_ok_screen [OF assms(1)]] back_space_refines [OF kb_ok_screen [OF assms(1)]]
  show ?thesis
  proof (cases "buffer_content_counter s > 0")
    case True
    have "take (nat (buffer_content_counter s - 1)) ((buffer s)[nat (buffer_content_counter s - 1) := 0]) = butlast (line_of s)"
      using True n by (simp add: line_of_def butlast_take nat_diff_distrib)
    then show ?thesis using True n assms scr
      by (simp add: backspace_key_def set_buffer_def Let_def editor_of_def kb_ok_def ready_of_def) (simp add: line_of_def)
  next
    case False
    then have "buffer_content_counter s = 0" using n by simp
    then show ?thesis using assms scr
      by (simp add: backspace_key_def Let_def editor_of_def kb_ok_def ready_of_def line_of_def)
  qed
qed

lemma update_snoc_replicate:
  fixes v :: int
  assumes "length xs = i" and "i < n"
  shows "(xs @ replicate (n - i) 0)[i := v] = (xs @ [v]) @ replicate (n - Suc i) 0"
proof -
  have "replicate (n - i) (0 :: int) = 0 # replicate (n - Suc i) 0" using assms(2) by (metis Suc_diff_Suc replicate_Suc)
  then show ?thesis using assms(1) by (simp only: list_update_append) simp
qed

lemma copy_line_storage:
  assumes "length (buffer s) = 1024" and "buffer_content_counter s = int n" and "n \<le> 128" and "i \<le> n"
    and "storage_buffer s = map sint (take i (buffer s)) @ replicate (1024 - i) 0" and "storage_buffer_counter s = int i"
  shows "copy_line (int i) s = Some (int n, s\<lparr>storage_buffer := map sint (take n (buffer s)) @ replicate (1024 - n) 0,
    storage_buffer_counter := int n\<rparr>)"
  using assms(2-6) assms(1)
proof (induction "n - i" arbitrary: i s)
  case 0
  then show ?case by (subst copy_line.simps) simp
next
  case (Suc d)
  then have i: "i < n" by simp
  let ?sb = "map sint (take (Suc i) (buffer s)) @ replicate (1024 - Suc i) 0"
  let ?s = "s\<lparr>storage_buffer := ?sb, storage_buffer_counter := int (Suc i)\<rparr>"
  have "(storage_buffer s)[i := sint (buffer s ! i)] = ?sb"
    using update_snoc_replicate [of "map sint (take i (buffer s))" i 1024 "sint (buffer s ! i)"] i Suc.prems
    by (simp add: take_Suc_conv_app_nth)
  then have "copy_line (int i) s = copy_line (int (Suc i)) ?s"
    using i Suc.prems by (subst copy_line.simps) (simp add: get_buffer_def set_storage_def add.commute)
  also have "\<dots> = Some (int n, ?s\<lparr>storage_buffer := map sint (take n (buffer ?s)) @ replicate (1024 - n) 0,
      storage_buffer_counter := int n\<rparr>)"
    using Suc.hyps i Suc.prems by (intro Suc.hyps(1)) auto
  finally show ?case by simp
qed

lemma enter_key_refines:
  assumes "kb_ok s"
  shows "\<exists>s'. enter_key s = Some s' \<and> kb_ok s' \<and> editor_of s' =
    \<lparr>e_line = [], e_ready = Some (line_of s @ [10]), e_screen = t_putc 10 (term_of s), e_undo = 0\<rparr>"
proof -
  define n where "n = nat (buffer_content_counter s)"
  have n: "buffer_content_counter s = int n" "n \<le> 128" "length (buffer s) = 1024"
    using assms by (auto simp: kb_ok_def n_def)
  define s1 where "s1 = clear_storage_buf ((update_terminal_cursor (putc 10 s))\<lparr>backspacable_counter := 0, readable_flag := 0\<rparr>)"
  have s1: "buffer s1 = buffer s" "buffer_content_counter s1 = int n" "storage_buffer s1 = replicate 1024 0" "storage_buffer_counter s1 = 0"
    using n by (simp_all add: s1_def clear_storage_buf_def)
  let ?sb = "map sint (take n (buffer s)) @ replicate (1024 - n) 0"
  have cl: "copy_line 0 s1 = Some (int n, s1\<lparr>storage_buffer := ?sb, storage_buffer_counter := int n\<rparr>)"
    using copy_line_storage [of s1 n 0] s1 n by simp
  have "?sb[n := 10] = (map sint (take n (buffer s)) @ [10]) @ replicate (1024 - Suc n) 0"
    using n by (intro update_snoc_replicate) auto
  then have st: "set_storage (int n) 10 (s1\<lparr>storage_buffer := ?sb, storage_buffer_counter := int n\<rparr>) =
      Some (s1\<lparr>storage_buffer := (map sint (take n (buffer s)) @ [10]) @ replicate (1024 - Suc n) 0, storage_buffer_counter := int n\<rparr>)"
    using n by (simp add: set_storage_def)
  let ?s' = "clear_buf (s1\<lparr>storage_buffer := (map sint (take n (buffer s)) @ [10]) @ replicate (1024 - Suc n) 0,
      storage_buffer_counter := int n + 1, readable_flag := 1\<rparr>)"
  have "enter_key s = Some ?s'"
    unfolding enter_key_def Let_def s1_def [symmetric] by (simp add: cl st)
  moreover have "ready_of ?s' = Some (line_of s @ [10])"
    using n by (simp add: ready_of_def clear_buf_def line_of_def n_def [symmetric] nat_add_distrib comp_def)
  moreover have "kb_ok ?s'" "line_of ?s' = []" "backspacable_counter ?s' = 0" "term_of ?s' = t_putc 10 (term_of s)"
    using assms n putc_on_screen [OF kb_ok_screen [OF assms]] putc_refines [OF kb_ok_screen [OF assms]]
    by (simp_all add: kb_ok_def clear_buf_def s1_def clear_storage_buf_def line_of_def)
  ultimately show ?thesis by (simp add: editor_of_def)
qed

lemma only_if_inv: "(\<And>s. P s \<Longrightarrow> P (f s)) \<Longrightarrow> P s \<Longrightarrow> P (only_if b f s)"
  by (simp add: only_if_def)

lemma update_flags_inv:
  assumes "\<And>s v. v \<in> {0, 1} \<Longrightarrow> P s \<Longrightarrow> P (s\<lparr>shift_right_flag := v\<rparr>)" "\<And>s v. v \<in> {0, 1} \<Longrightarrow> P s \<Longrightarrow> P (s\<lparr>shift_left_flag := v\<rparr>)"
    "\<And>s v. v \<in> {0, 1} \<Longrightarrow> P s \<Longrightarrow> P (s\<lparr>ctrl_left_flag := v\<rparr>)" "\<And>s v. v \<in> {0, 1} \<Longrightarrow> P s \<Longrightarrow> P (s\<lparr>caps_flag := v\<rparr>)" "P s"
  shows "P (update_flags ch s)"
proof -
  have toggle: "P (toggle_caps ch t)" if "P t" for t using that assms(4) by (simp add: toggle_caps_def)
  show ?thesis unfolding update_flags_def Let_def by (intro only_if_inv [where P = P] toggle) (simp_all add: assms)
qed

lemma editor_of_flags [simp]:
  "editor_of (s\<lparr>shift_right_flag := v\<rparr>) = editor_of s" "editor_of (s\<lparr>shift_left_flag := v\<rparr>) = editor_of s"
  "editor_of (s\<lparr>ctrl_left_flag := v\<rparr>) = editor_of s" "editor_of (s\<lparr>caps_flag := v\<rparr>) = editor_of s"
  by (simp_all add: editor_of_def line_of_def ready_of_def term_of_def)

lemma update_flags_same:
  shows "kb_ok s \<Longrightarrow> kb_ok (update_flags ch s)" and "editor_of (update_flags ch s) = editor_of s"
proof -
  show "kb_ok (update_flags ch s)" if "kb_ok s"
    by (rule update_flags_inv [where P = kb_ok]) (use that in \<open>auto simp: kb_ok_def on_screen_def\<close>)
  show "editor_of (update_flags ch s) = editor_of s"
    by (rule update_flags_inv [where P = "\<lambda>t. editor_of t = editor_of s"]) simp_all
qed

text \<open>The keys that run a command rather than edit the line.\<close>

definition command_key :: "u32 \<Rightarrow> 'a keyboard_scheme \<Rightarrow> bool" where
  "command_key ch s \<longleftrightarrow> ctrl_down (update_flags ch s) \<and> ch \<in> {0x26, 0x2, 0x3, 0x4}"

lemma process_edit:
  assumes "\<not> command_key ch s"
  shows "process_keyboard_input env ch s =
    (let s = update_flags ch s in
     if ch > 0x3A then Some s
     else if norm ! unat ch = 10 then enter_key s
     else if norm ! unat ch = 8 \<and> backspacable_counter s > 0 then backspace_key env s
     else if norm ! unat ch = 8 then Some s
     else if norm ! unat ch = 9 then
       Some ((update_terminal_cursor (putc 32 (putc 32 s)))\<lparr>backspacable_counter := backspacable_counter s + 2\<rparr>)
     else if ch = 0x36 \<or> ch = 0x2A \<or> ch = 0x1D then Some s
     else if ch = 0x3A then Some s
     else letter_key ch s)"
proof -
  have "(ctrl_down (update_flags ch s) \<and> ch = 0x26) = False" "(ctrl_down (update_flags ch s) \<and> ch = 0x2) = False"
    "(ctrl_down (update_flags ch s) \<and> ch = 0x3) = False" "(ctrl_down (update_flags ch s) \<and> ch = 0x4) = False"
    using assms by (auto simp: command_key_def)
  then show ?thesis
    by (simp only: process_keyboard_input_def Let_def if_False putc_kb cursor_kb)
qed

lemma process_refines:
  assumes "kb_ok s" and "\<not> command_key ch s"
  shows "\<exists>s'. process_keyboard_input env ch s = Some s' \<and> kb_ok s' \<and>
    editor_of s' = e_key (key_table (update_flags ch s)) ch (editor_of s)"
proof -
  define t where "t = update_flags ch s"
  have t: "kb_ok t" "editor_of t = editor_of s" using update_flags_same(1) [OF assms(1)] update_flags_same(2) [of ch s] by (simp_all add: t_def)
  have undo: "e_undo (editor_of s) = backspacable_counter t" using t(2) [symmetric] by (simp add: editor_of_def)
  note proc = process_edit [OF assms(2), of env, folded t_def, unfolded Let_def]
  show ?thesis
  proof (cases "ch > 0x3A")
    case True
    then show ?thesis using proc t by (simp add: e_key_def)
  next
    case False
    then have le: "ch \<le> 0x3A" by simp
    note special = norm_special [OF le]
    consider (enter) "ch = 0x1C" | (erase) "ch = 0x0E" | (tab) "ch = 0x0F" | (modifier) "ch \<in> {0x36, 0x2A, 0x1D, 0x3A}"
      | (letter) "ch \<notin> {0x1C, 0x0E, 0x0F, 0x36, 0x2A, 0x1D, 0x3A}" by blast
    then show ?thesis
    proof cases
      case enter
      then show ?thesis using proc special enter_key_refines [OF t(1)] t(2) by (auto simp: e_key_def editor_of_def)
    next
      case erase
      then show ?thesis
        using proc special backspace_key_refines [OF t(1), of env] t undo by (cases "backspacable_counter t > 0") (auto simp: e_key_def Let_def)
    next
      case tab
      let ?s' = "(update_terminal_cursor (putc 32 (putc 32 t)))\<lparr>backspacable_counter := backspacable_counter t + 2\<rparr>"
      have on: "on_screen t" "on_screen (putc 32 t)" using kb_ok_screen [OF t(1)] putc_on_screen by blast+
      have "kb_ok ?s'" using t(1) putc_on_screen [OF on(2)] by (simp add: kb_ok_def)
      moreover have "editor_of ?s' = (editor_of t)\<lparr>e_screen := t_putc 32 (t_putc 32 (e_screen (editor_of t))), e_undo := e_undo (editor_of t) + 2\<rparr>"
        using putc_refines [OF on(1)] putc_refines [OF on(2)] by (simp add: editor_of_def line_of_def ready_of_def)
      ultimately show ?thesis using tab proc special t(2) by (simp add: e_key_def)
    next
      case modifier
      then have "process_keyboard_input env ch s = Some t" using proc special False by auto
      then show ?thesis using modifier t by (auto simp: e_key_def)
    next
      case letter
      have "unat ch < 128" using le by (simp add: word_le_nat_alt)
      then show ?thesis
        using letter_key_refines [OF t(1), of ch] letter False proc special t(2) by (simp add: e_key_def Let_def t_def [symmetric])
    qed
  qed
qed

end
