(* ===== verification/FilesProps.thy ===== *)
theory FilesProps
  imports FilesDir
begin

text \<open>
  The properties of the file system, each with a witness on a sample image.
\<close>

unbundle bit_operations_syntax

section \<open>A sample image\<close>

text \<open>One directory entry \<^verbatim>\<open>a\<close>, a regular file of five bytes; it serves as the concrete state of the
  witnesses.\<close>

definition demo_mem :: mem where
  "demo_mem = (\<lambda>_. 0)(0x100040 := 97, 0x100060 := 2, 0x101000 := 5, 0x102000 := 104, 0x102001 := 101,
     0x102002 := 108, 0x102003 := 108, 0x102004 := 111)"

definition demo :: files where
  "demo = \<lparr>mem = demo_mem, io = [], intr = True, screen_x = 0, screen_y = 0, master_mask = 0, slave_mask = 0,
     rtc_interrupt_occurred = 0,
     my_boot_block = \<lparr>dentries_num = 1, inodes_num = 1, datablocks_num = 1, reserved = []\<rparr>,
     file_addr = \<lparr>st_boot_block = 0x100000, st_inode = 0x101000, st_data = 0x102000\<rparr>,
     dentries = 0x100040, inodes = 0x101000, length_of_file = 0, entry_counter = 0, flag_open = 0\<rparr>"

definition demo_names :: "byte list list" where
  "demo_names = lit ''a'' # replicate 62 []"

lemma demo_fields [simp]:
  "mem demo = demo_mem" "my_boot_block demo = \<lparr>dentries_num = 1, inodes_num = 1, datablocks_num = 1, reserved = []\<rparr>"
  "file_addr demo = \<lparr>st_boot_block = 0x100000, st_inode = 0x101000, st_data = 0x102000\<rparr>"
  "dentries demo = 0x100040" "inodes demo = 0x101000" "entry_counter demo = 0"
  by (simp_all add: demo_def)

lemma demo_mounted: "mounted demo"
  by (simp add: mounted_def fs_size_def)

lemma demo_inode: "inode_length demo 0 = 5" "data_block demo 0 0 = 0" "entry_inode demo 0 = 0" "entry_type demo 0 = 2"
  by (simp_all add: inode_length_def data_block_def entry_inode_def entry_type_def dentry_at_def demo_mem_def load32_def join32_def)

lemma demo_file: "file_bytes demo 0 = lit ''hello''" "file_ok demo 0"
proof -
  show "file_bytes demo 0 = lit ''hello''"
    by (simp add: file_bytes_def demo_inode file_byte_def upt_conv_Cons demo_mem_def lit_def)
  have "data_block demo 0 (of_nat j) = 0" if "4096 * j < (5 :: nat)" for j
  proof -
    have "j = 0" using that by linarith
    then show ?thesis by (simp add: demo_inode)
  qed
  then show "file_ok demo 0" by (simp add: file_ok_def demo_inode)
qed

lemma demo_mem_zero:
  assumes "0 < x" "x < 4032" "x \<noteq> 32"
  shows "demo_mem (0x100040 + of_nat x) = 0"
proof -
  have "(0x100040 :: u32) + of_nat x \<noteq> 0x100040 + of_nat y" if "y \<noteq> x" "y < 10000" for y
    using add_of_nat_u32_inj [of x y] assms that by simp
  note n = this [of 0] this [of 32] this [of 4032] this [of 8128] this [of 8129] this [of 8130] this [of 8131] this [of 8132]
  show ?thesis using assms n by (simp add: demo_mem_def)
qed

lemma demo_directory: "directory demo demo_names"
proof -
  have "entry_name demo i (demo_names ! i) \<and> length (demo_names ! i) < 64" if "i < 63" for i
  proof (cases i)
    case 0
    then show ?thesis by (simp add: demo_names_def entry_name_def cstr_def demo_mem_def dentry_at_def bytes_at_def lit_def)
  next
    case (Suc j)
    have "demo_mem (0x100040 + of_nat (64 * i)) = 0" using that Suc by (intro demo_mem_zero) auto
    then show ?thesis using Suc that by (simp add: demo_names_def entry_name_def cstr_def dentry_at_def bytes_at_def mult.commute)
  qed
  then show ?thesis by (simp add: directory_def demo_names_def)
qed

lemma demo_room: "dentry_room demo 0x200000" "n \<le> 64 \<Longrightarrow> buf_room demo 0x200100 n"
  by (simp_all add: dentry_room_def buf_room_def in_image_def fs_size_def within_def unat_word_ariths)

lemma demo_fname: "cstr (ptr (mem demo) 0x100040) (lit ''a'')" "length (lit ''a'') < 2147483648"
  by (simp_all add: cstr_def demo_mem_def bytes_at_def lit_def)

lemma demo_tail: "tail_ok demo 0 n"
  by (simp add: tail_ok_def demo_inode)

section \<open>Properties\<close>

text \<open>C13: \<open>read_data\<close> delivers exactly the bytes of the file.  On a mounted image and a well-formed
  inode, with the buffer outside the image, a read at or past the end returns 0 and changes
  nothing; any other read stores the requested slice of the file, cut at its end, into the buffer
  and changes no other byte, whatever blocks the slice spans, and returns its length.  The one
  exception is a read past the end of a file whose length is a multiple of 4096 while the block
  entry after its last block is no valid block number: there the bytes are stored but the result
  is -1.\<close>

theorem read_data_correct:
  assumes "mounted s" and "file_ok s k" and "buf_room s buf (length (file_slice s k offset len))"
  shows "read_data k offset buf len s =
    (if file_length s k \<le> unat offset then (0, s)
     else if tail_ok s k (unat offset + unat len)
     then (int (length (file_slice s k offset len)),
           s\<lparr>mem := poke (mem s) buf (file_slice s k offset len), length_of_file := int (length (file_slice s k offset len))\<rparr>)
     else (-1, s\<lparr>mem := poke (mem s) buf (file_slice s k offset len)\<rparr>))"
  using read_data_slice [OF assms(1,2) _ assms(3)] read_data_eof [of s k offset] by simp

theorem read_data_correct_witness:
  "fst (read_data 0 1 0x200100 3 demo) = 3 \<and>
   mem (snd (read_data 0 1 0x200100 3 demo)) = poke demo_mem 0x200100 (lit ''ell'')"
proof -
  have sl: "file_slice demo 0 1 3 = lit ''ell''" by (simp add: file_slice_def demo_file lit_def)
  have "buf_room demo 0x200100 (length (file_slice demo 0 1 3))" by (rule demo_room) (simp add: sl lit_def)
  from read_data_correct [OF demo_mounted demo_file(2) this] show ?thesis
    by (simp add: sl demo_inode demo_tail lit_def)
qed

text \<open>C29: lookup by name.  \<open>read_dentry_by_name\<close> returns 0 exactly when the name is not empty and
  some directory entry has it, and then copies the file type and the inode number of the first
  such entry (and its name, when it fits) into the caller's structure and changes nothing else;
  otherwise it returns -1 and changes nothing.\<close>

theorem lookup_correct:
  assumes "mounted s" and "directory s names" and "dentry_room s d"
    and "cstr (ptr (mem s) fname) xs" and "length xs < 2147483648"
  shows "if xs \<noteq> [] \<and> xs \<in> set names
    then \<exists>i m. i < 63 \<and> names ! i = xs \<and> (\<forall>j < i. names ! j \<noteq> xs) \<and>
      read_dentry_by_name fname d s = Some (0, s\<lparr>mem := m\<rparr>) \<and> entry_copied s d i xs m
    else read_dentry_by_name fname d s = Some (-1, s)"
proof (cases "if xs = [] then None else first_index xs names")
  case None
  then show ?thesis
    using read_dentry_by_name_correct [OF assms] first_index_None [of xs names] by (auto split: if_splits)
next
  case (Some i)
  then have i: "first_index xs names = Some i" "xs \<noteq> []" by (auto split: if_splits)
  then have "xs \<in> set names" using first_index_None [of xs names] by (metis option.discI)
  then show ?thesis
    using read_dentry_by_name_correct [OF assms] Some first_index_Some [OF i(1)] i(2) assms(2)
    by (auto simp: directory_def)
qed

theorem lookup_correct_witness:
  "\<exists>m. read_dentry_by_name 0x100040 0x200000 demo = Some (0, demo\<lparr>mem := m\<rparr>) \<and> load32 m 0x200020 = 2"
proof -
  have "lit ''a'' \<noteq> [] \<and> lit ''a'' \<in> set demo_names" by (simp add: demo_names_def lit_def)
  with lookup_correct [OF demo_mounted demo_directory demo_room(1) demo_fname]
  obtain i m where im: "i < 63" "demo_names ! i = lit ''a''"
    "read_dentry_by_name 0x100040 0x200000 demo = Some (0, demo\<lparr>mem := m\<rparr>)" "entry_copied demo 0x200000 i (lit ''a'') m"
    by auto
  then have "i = 0" by (cases i) (auto simp: demo_names_def lit_def)
  then have "load32 m 0x200020 = 2" using im(4) by (simp add: entry_copied_def demo_inode)
  then show ?thesis using im(3) by blast
qed

text \<open>Reading a file by name.  \<open>file_read\<close> on an existing, non-empty file returns the number of
  bytes of the requested slice, and the buffer holds exactly that slice; of memory only the buffer
  and the local directory entry change.  Reading the next slice from where the first ended gives
  the bytes that follow, so consecutive reads return consecutive pieces of the file.\<close>

theorem file_read_correct:
  assumes "mounted s" and "directory s names" and "dentry_room s d"
    and "cstr (ptr (mem s) name) xs" and "length xs < 2147483648" and "xs \<noteq> []"
    and "first_index xs names = Some i" and "file_ok s (entry_inode s i)"
    and "unat offset < file_length s (entry_inode s i)"
    and "tail_ok s (entry_inode s i) (unat offset + unat len)"
    and "buf_room s buf (length (file_slice s (entry_inode s i) offset len))"
    and "name \<noteq> 0" and "buf \<noteq> 0" and "len \<noteq> 0"
  shows "\<exists>n s'. file_read d buf offset len name s = Some (int n, s') \<and>
    n = min (unat len) (file_length s (entry_inode s i) - unat offset) \<and>
    bytes_at (ptr (mem s') buf) n = take n (drop (unat offset) (file_bytes s (entry_inode s i))) \<and>
    (\<forall>a. \<not> within d 64 a \<and> \<not> within buf n a \<longrightarrow> mem s' a = mem s a)"
proof -
  let ?sl = "file_slice s (entry_inode s i) offset len"
  obtain m where m: "entry_copied s d i xs m" "file_read d buf offset len name s =
      Some (int (length ?sl), s\<lparr>mem := poke m buf ?sl, length_of_file := int (length ?sl)\<rparr>)"
    using file_read_slice [OF assms] by blast
  have "length ?sl \<le> 4294967296" unfolding length_file_slice using unat_le_u32(1) [of len] by (rule min.coboundedI1)
  then have "bytes_at (ptr (poke m buf ?sl) buf) (length ?sl) = ?sl" by (rule bytes_at_poke)
  moreover have "?sl = take (length ?sl) (drop (unat offset) (file_bytes s (entry_inode s i)))"
    by (simp add: file_slice_def min_def)
  moreover have "poke m buf ?sl a = mem s a" if "\<not> within d 64 a" "\<not> within buf (length ?sl) a" for a
    using poke_other [OF that(2)] m(1) that(1) by (simp add: entry_copied_def)
  ultimately show ?thesis using m(2) length_file_slice [of s "entry_inode s i" offset len]
    by (intro exI [of _ "length ?sl"]) auto
qed

theorem file_read_correct_witness:
  "\<exists>s'. file_read 0x200000 0x200100 2 10 0x100040 demo = Some (3, s') \<and> bytes_at (ptr (mem s') 0x200100) 3 = lit ''llo''"
proof -
  have i: "first_index (lit ''a'') demo_names = Some 0" by (simp add: demo_names_def)
  have sl: "file_slice demo 0 2 10 = lit ''llo''" by (simp add: file_slice_def demo_file lit_def)
  have room: "buf_room demo 0x200100 (length (file_slice demo (entry_inode demo 0) 2 10))"
    unfolding demo_inode sl by (rule demo_room) (simp add: lit_def)
  have ok: "file_ok demo (entry_inode demo 0)" "unat (2 :: u32) < file_length demo (entry_inode demo 0)"
    "tail_ok demo (entry_inode demo 0) (unat (2 :: u32) + unat (10 :: u32))"
    by (simp_all add: demo_inode demo_file demo_tail)
  from file_read_correct [OF demo_mounted demo_directory demo_room(1) demo_fname _ i ok room]
  show ?thesis by (auto simp: demo_inode demo_file lit_def)
qed

text \<open>Loading a program.  \<open>file_load\<close> copies the whole file to the given address and returns its
  length; no byte outside that block and the local directory entry changes.  A name that is empty
  or in no directory entry gives -1 and changes nothing, for \<open>file_load\<close> and for \<open>file_read\<close>.\<close>

theorem file_load_correct:
  assumes "mounted s" and "directory s names" and "dentry_room s d"
    and "cstr (ptr (mem s) fname) xs" and "length xs < 2147483648" and "fname \<noteq> 0"
    and "\<And>i. first_index xs names = Some i \<Longrightarrow> file_ok s (entry_inode s i) \<and> 0 < file_length s (entry_inode s i) \<and>
           buf_room s addr (file_length s (entry_inode s i))"
  shows "case first_index xs names of
      Some i \<Rightarrow> xs \<noteq> [] \<longrightarrow> (\<exists>s'. file_load d fname addr s = Some (int (file_length s (entry_inode s i)), s') \<and>
        bytes_at (ptr (mem s') addr) (file_length s (entry_inode s i)) = file_bytes s (entry_inode s i) \<and>
        (\<forall>a. \<not> within d 64 a \<and> \<not> within addr (file_length s (entry_inode s i)) a \<longrightarrow> mem s' a = mem s a))
    | None \<Rightarrow> file_load d fname addr s = Some (-1, s) \<and> file_read d buf offset len fname s = Some (-1, s)"
proof (cases "first_index xs names")
  case None
  then show ?thesis using file_missing [OF assms(2,4,5)] first_index_None [of xs names] by simp
next
  case (Some i)
  let ?fs = "file_bytes s (entry_inode s i)"
  have ok: "file_ok s (entry_inode s i)" "0 < file_length s (entry_inode s i)" "buf_room s addr (file_length s (entry_inode s i))"
    using assms(7) [OF Some] by simp_all
  have len: "length ?fs \<le> 4294967296" by simp
  show ?thesis
  proof (cases "xs = []")
    case False
    obtain m where m: "entry_copied s d i xs m" "file_load d fname addr s =
        Some (int (file_length s (entry_inode s i)),
          s\<lparr>mem := poke m addr ?fs, length_of_file := int (file_length s (entry_inode s i))\<rparr>)"
      using file_load_whole [OF assms(1-5) False Some ok assms(6)] by blast
    have "poke m addr ?fs a = mem s a" if "\<not> within d 64 a" "\<not> within addr (file_length s (entry_inode s i)) a" for a
      using that m(1) by (simp add: entry_copied_def poke_def)
    then show ?thesis using m(2) bytes_at_poke [OF len, of m addr] Some by auto
  next
    case True
    then show ?thesis using Some by (simp only: option.case) simp
  qed
qed

theorem file_load_correct_witness:
  "\<exists>s'. file_load 0x200000 0x100040 0x200100 demo = Some (5, s') \<and> bytes_at (ptr (mem s') 0x200100) 5 = lit ''hello''"
proof -
  have i: "first_index (lit ''a'') demo_names = Some 0" by (simp add: demo_names_def)
  have "file_ok demo (entry_inode demo i) \<and> 0 < file_length demo (entry_inode demo i) \<and>
      buf_room demo 0x200100 (file_length demo (entry_inode demo i))" if "first_index (lit ''a'') demo_names = Some i" for i
    using that i demo_room(2) by (simp add: demo_inode demo_file)
  note file_load_correct [OF demo_mounted demo_directory demo_room(1) demo_fname _ this, of 0 0 0]
  then have "\<exists>s'. file_load 0x200000 0x100040 0x200100 demo = Some (int (file_length demo 0), s') \<and>
      bytes_at (ptr (mem s') 0x200100) (file_length demo 0) = file_bytes demo 0"
    unfolding i option.case demo_inode(3) by (auto simp: lit_def)
  then show ?thesis by (simp add: demo_inode demo_file)
qed

text \<open>C30: listing the directory.  Starting with the entry counter at 0, as \<open>filesystem_init\<close> leaves
  it, the first \<open>dentries_num\<close> reads deliver the names in directory order, cut to 32 characters;
  the next read returns 0 and sets the counter back to 0, so that the listing can be repeated.\<close>

theorem directory_listing:
  assumes "mounted s" and "directory s names" and "buf_room s buf 33" and "entry_counter s = 0"
    and "sint (dentries_num (my_boot_block s)) = int n" and "n \<le> 63"
  shows "\<exists>s'. list_directory n buf s = Some (map (take 32) (take n names), s') \<and>
    (\<exists>s''. directory_read buf offset len nm s' = Some (0, s'') \<and> entry_counter s'' = 0)"
proof -
  obtain s' where "list_directory n buf s = Some (map (take 32) (take n (drop 0 names)), s')"
    and "entry_counter s' = int (0 + n)" "my_boot_block s' = my_boot_block s"
    using list_directory_from [OF assms(1-3) _ assms(5,6), of 0 n] assms(4) by auto
  then show ?thesis using directory_read_end [of s' buf offset len nm] assms(5) by auto
qed

theorem directory_listing_witness:
  "\<exists>s'. list_directory 1 0x200100 demo = Some ([lit ''a''], s')"
proof -
  have n: "sint (dentries_num (my_boot_block demo)) = int 1" by simp
  have "map (take 32) (take 1 demo_names) = [lit ''a'']" by (simp add: demo_names_def lit_def)
  then show ?thesis
    using directory_listing [OF demo_mounted demo_directory demo_room(2) _ n, of "0x200100"] by auto
qed

text \<open>Mounting.  \<open>filesystem_init\<close> refuses an empty module; otherwise it sets the globals so
  that they describe the image at \<open>fs_start\<close> (\<open>mounted\<close>), with the counts the boot block holds, the
  directory counter at 0, and no byte of memory changed.\<close>

theorem filesystem_init_correct:
  assumes "4096 * (1 + unat (load32 (mem s) (fs_start + 4)) + unat (load32 (mem s) (fs_start + 8))) \<le> 4294967296"
  shows "if fs_start = fs_end then filesystem_init fs_start fs_end s = (-1, s)
    else \<exists>s'. filesystem_init fs_start fs_end s = (0, s') \<and> mounted s' \<and> fs_base s' = fs_start \<and>
      dentries_num (my_boot_block s') = load32 (mem s) fs_start \<and> entry_counter s' = 0 \<and> mem s' = mem s"
  using filesystem_init_mounted [of fs_start fs_end s] assms
  by (auto simp: filesystem_init_def boot_block_at_def Let_def)

theorem filesystem_init_correct_witness:
  "mounted (snd (filesystem_init 0x100000 0x103000 demo))"
proof -
  have "4096 * (1 + unat (load32 (mem demo) (0x100000 + 4)) + unat (load32 (mem demo) (0x100000 + 8))) \<le> 4294967296"
    by (simp add: load32_def join32_def demo_mem_def)
  from filesystem_init_correct [OF this, of "0x103000"] show ?thesis by auto
qed

text \<open>A name of 32 characters cannot be found.  When the 32 name bytes of an entry are all in
  use and the low byte of its file type is not 0 (a directory or a regular file), the string
  routines read past the name, so the entry is not found under its 32-character name: unless some
  other entry has that name, the lookup returns -1.\<close>

theorem long_name_not_found:
  assumes "directory s names" and "i < 63"
    and "\<forall>j < 32. mem s (dentry_at s (of_nat i) + of_nat j) \<noteq> 0" and "mem s (dentry_at s (of_nat i) + 32) \<noteq> 0"
    and "cstr (ptr (mem s) fname) (bytes_at (ptr (mem s) (dentry_at s (of_nat i))) 32)"
    and "\<forall>j < 63. j \<noteq> i \<longrightarrow> names ! j \<noteq> bytes_at (ptr (mem s) (dentry_at s (of_nat i))) 32"
  shows "read_dentry_by_name fname d s = Some (-1, s)"
proof -
  let ?xs = "bytes_at (ptr (mem s) (dentry_at s (of_nat i))) 32"
  have e: "entry_name s i (names ! i)" using assms(1,2) by (simp add: directory_def)
  then have "length (names ! i) \<noteq> 32"
    using cstr_end [of "ptr (mem s) (dentry_at s (of_nat i))" "names ! i"] assms(4) by (auto simp: entry_name_def)
  then have "names ! i \<noteq> ?xs" by (metis length_bytes_at)
  then have "\<forall>j < 63. names ! j \<noteq> ?xs" using assms(6) by blast
  then have "?xs \<notin> set names" using assms(1) by (auto simp: directory_def in_set_conv_nth)
  then show ?thesis
    using read_dentry_by_name_find [OF assms(1,5)] first_index_None [of ?xs names] by simp
qed

text \<open>An image whose first entry uses all 32 name bytes, with the query at \<open>0x300000\<close>.\<close>

definition long_mem :: mem where
  "long_mem = (\<lambda>a. if within 0x100040 33 a \<or> within 0x300000 32 a then 98 else 0)"

lemma long_mem_entry: "x < 4032 \<Longrightarrow> long_mem (0x100040 + of_nat x) = (if x < 33 then 98 else 0)"
proof -
  assume "x < 4032"
  then have "\<not> within 0x300000 32 (0x100040 + of_nat x)" by (simp add: within_def unat_sub_if')
  then show ?thesis using \<open>x < 4032\<close> by (simp add: long_mem_def)
qed

lemma long_mem_query: "x \<le> 32 \<Longrightarrow> long_mem (0x300000 + of_nat x) = (if x < 32 then 98 else 0)"
proof -
  assume "x \<le> 32"
  then have "\<not> within 0x100040 33 (0x300000 + of_nat x)" by (simp add: within_def unat_word_ariths)
  then show ?thesis using \<open>x \<le> 32\<close> by (simp add: long_mem_def)
qed

lemma long_directory: "directory (demo\<lparr>mem := long_mem\<rparr>) (replicate 33 98 # replicate 62 [])"
proof -
  have "entry_name (demo\<lparr>mem := long_mem\<rparr>) i ((replicate 33 98 # replicate 62 []) ! i)" if "i < 63" for i
  proof (cases i)
    case 0
    then show ?thesis using long_mem_entry long_mem_entry [of 33] by (auto simp: entry_name_def dentry_at_def intro!: cstrI)
  next
    case (Suc j)
    have "long_mem (0x100040 + of_nat (64 * i)) = 0" using that Suc by (subst long_mem_entry) auto
    then show ?thesis using Suc that by (simp add: entry_name_def cstr_def dentry_at_def bytes_at_def mult.commute)
  qed
  moreover have "length ((replicate 33 (98 :: byte) # replicate 62 []) ! i) < 64" if "i < 63" for i
    using that by (cases i) simp_all
  ultimately show ?thesis by (simp add: directory_def)
qed

theorem long_name_not_found_witness:
  "read_dentry_by_name 0x300000 0x200000 (demo\<lparr>mem := long_mem\<rparr>) = Some (-1, demo\<lparr>mem := long_mem\<rparr>)"
proof -
  let ?s = "demo\<lparr>mem := long_mem\<rparr>"
  have d: "dentry_at ?s (of_nat 0) = 0x100040" by (simp add: dentry_at_def)
  have xs: "bytes_at (ptr (mem ?s) (dentry_at ?s (of_nat 0))) 32 = replicate 32 98"
    unfolding d by (rule nth_equalityI) (simp_all add: long_mem_entry)
  show ?thesis
  proof (rule long_name_not_found [OF long_directory, of 0])
    show "\<forall>j < 32. mem ?s (dentry_at ?s (of_nat 0) + of_nat j) \<noteq> 0" unfolding d by (simp add: long_mem_entry)
    show "mem ?s (dentry_at ?s (of_nat 0) + 32) \<noteq> 0" unfolding d using long_mem_entry [of 32] by simp
    show "cstr (ptr (mem ?s) 0x300000) (bytes_at (ptr (mem ?s) (dentry_at ?s (of_nat 0))) 32)"
      unfolding xs using long_mem_query long_mem_query [of 32] by (auto intro!: cstrI)
    show "\<forall>j < 63. j \<noteq> 0 \<longrightarrow> (replicate 33 98 # replicate 62 []) ! j \<noteq> bytes_at (ptr (mem ?s) (dentry_at ?s (of_nat 0))) 32"
      unfolding xs by (auto simp: nth_Cons split: nat.splits)
  qed simp
qed

end
