(* ===== verification/KeyboardProps.thy ===== *)
theory KeyboardProps
  imports Keyboard FilesProps
begin

text \<open>
  The properties of the keyboard driver and the terminal file operations: the line editor
  refinement, what a blocked \<open>terminal_read\<close> returns, and what \<open>terminal_write\<close> shows.
\<close>

unbundle bit_operations_syntax

section \<open>Reading a completed line\<close>

lemma copy_storage_poke:
  assumes "length (storage_buffer s) = 1024" and "storage_buffer_counter s = int c" and "c \<le> 1024"
    and "k = min c n" and "i \<le> k"
  shows "copy_storage buf (int n) (int i) (s\<lparr>mem := poke m buf (map of_int (take i (storage_buffer s)))\<rparr>) =
    Some (int k, s\<lparr>mem := poke m buf (map of_int (take k (storage_buffer s)))\<rparr>)"
  using assms(5)
proof (induction "k - i" arbitrary: i)
  case 0
  then have "i = k" by simp
  then show ?case using assms(2,4) by (subst copy_storage.simps) (auto simp: min_def)
next
  case (Suc d)
  then have i: "i < c" "i < n" "i < 1024" using assms(3,4) by auto
  let ?xs = "map of_int (take i (storage_buffer s)) :: byte list"
  have "(poke m buf ?xs)(buf + of_nat i := of_int (storage_buffer s ! i)) = poke m buf (map of_int (take (Suc i) (storage_buffer s)))"
    using poke_snoc [of ?xs m buf] i assms(1) by (simp add: take_Suc_conv_app_nth)
  then have "copy_storage buf (int n) (int i) (s\<lparr>mem := poke m buf ?xs\<rparr>) =
      copy_storage buf (int n) (int (Suc i)) (s\<lparr>mem := poke m buf (map of_int (take (Suc i) (storage_buffer s)))\<rparr>)"
    using i assms(2) by (subst copy_storage.simps) (simp add: get_storage_def add.commute)
  then show ?case using Suc.hyps(1) [of "Suc i"] Suc.hyps(2) by simp
qed

lemma copy_storage_ready:
  assumes "kb_ok s" and "ready_of s = Some xs"
  shows "copy_storage buf (int n) 0 s = Some (int (min (length xs) n), s\<lparr>mem := poke (mem s) buf (take n xs)\<rparr>)"
proof -
  define c where "c = nat (storage_buffer_counter s)"
  have c: "storage_buffer_counter s = int c" "c \<le> 1024" "length (storage_buffer s) = 1024"
    using assms(1) by (auto simp: kb_ok_def c_def)
  have xs: "xs = map of_int (take c (storage_buffer s))" using assms(2) by (simp add: ready_of_def c_def split: if_splits)
  then have "length xs = c" "take n xs = map of_int (take (min c n) (storage_buffer s))"
    using c by (simp_all add: take_map min.commute)
  then show ?thesis using copy_storage_poke [OF c(3,1,2) refl, where n = n and i = 0 and buf = buf and m = "mem s"] by simp
qed

section \<open>Keys as interrupts\<close>

text \<open>The handler that finds scan code \<open>c\<close> at the keyboard port.\<close>

abbreviation key_irq :: "addrs \<Rightarrow> byte \<Rightarrow> 'a keyboard_scheme handler" where
  "key_irq env c \<equiv> keyboard_interrupt_handler env (\<lambda>_ _. c)"

lemma editor_of_io [simp]: "editor_of (s\<lparr>io := h\<rparr>) = editor_of s" "editor_of (s\<lparr>intr := b\<rparr>) = editor_of s"
  by (simp_all add: editor_of_def line_of_def ready_of_def term_of_def)

lemma editor_of_sel [simp]:
  "e_line (editor_of s) = line_of s" "e_ready (editor_of s) = ready_of s" "e_screen (editor_of s) = term_of s"
  "e_undo (editor_of s) = backspacable_counter s"
  by (simp_all add: editor_of_def)

lemma kb_ok_io [simp]: "kb_ok (s\<lparr>io := h\<rparr>) = kb_ok s" "kb_ok (s\<lparr>intr := b\<rparr>) = kb_ok s"
  by (simp_all add: kb_ok_def on_screen_def)

lemma handler_process:
  "keyboard_interrupt_handler env dev s =
     map_option (\<lambda>t. t\<lparr>io := io t @ [Out 0x20 0x61], intr := True\<rparr>)
       (process_keyboard_input env (ucast (dev (io s) KEYBOARD_PORT)) (s\<lparr>intr := False, io := io s @ [In KEYBOARD_PORT]\<rparr>))"
  by (simp add: keyboard_interrupt_handler_def cli_def inb_def Let_def send_eoi_def outb_def sti_def map_conv_bind_option comp_def)

text \<open>The state without what typing may change: the screen, the line buffers and their counters, the record of port accesses
  and the interrupt flag.\<close>

definition off_input :: "'a keyboard_scheme \<Rightarrow> 'a keyboard_scheme" where
  "off_input s = s\<lparr>mem := hide_vram (mem s), intr := False, io := [], screen_x := 0, screen_y := 0, buffer := [], storage_buffer := [],
     buffer_content_counter := 0, storage_buffer_counter := 0, backspacable_counter := 0, readable_flag := 0\<rparr>"

lemma off_input_upd [simp]:
  "off_input (s\<lparr>intr := b\<rparr>) = off_input s" "off_input (s\<lparr>io := h\<rparr>) = off_input s" "off_input (s\<lparr>buffer := xs\<rparr>) = off_input s"
  "off_input (s\<lparr>storage_buffer := ys\<rparr>) = off_input s" "off_input (s\<lparr>buffer_content_counter := n\<rparr>) = off_input s"
  "off_input (s\<lparr>storage_buffer_counter := n\<rparr>) = off_input s" "off_input (s\<lparr>backspacable_counter := n\<rparr>) = off_input s"
  "off_input (s\<lparr>readable_flag := n\<rparr>) = off_input s" "off_input (update_terminal_cursor s) = off_input s"
  by (simp_all add: off_input_def update_terminal_cursor_def outb_def Let_def)

lemma off_input_putc: "on_screen s \<Longrightarrow> off_input (putc c s) = off_input s"
proof -
  have "off_input (off_screen t) = off_input t" for t :: "'a keyboard_scheme"
    by (simp add: off_input_def off_screen_def hide_vram_def fun_eq_iff)
  then show "on_screen s \<Longrightarrow> off_input (putc c s) = off_input s" using con.rest_put [of s c] by metis
qed

lemma letter_key_frame: "letter_key ch s = Some s' \<Longrightarrow> on_screen s \<Longrightarrow> off_input s' = off_input s"
  by (auto simp: letter_key_def set_buffer_def Let_def off_input_putc split: if_splits)

lemma copy_line_frame: "copy_line i s = Some (j, s') \<Longrightarrow> off_input s' = off_input s"
proof (induction i s arbitrary: s' rule: copy_line.induct)
  case (1 i s)
  then show ?case by (subst (asm) copy_line.simps) (auto simp: set_storage_def split: if_splits bind_splits)
qed

lemma enter_key_frame:
  assumes "enter_key s = Some s'" and "on_screen s"
  shows "off_input s' = off_input s"
proof -
  let ?s = "clear_storage_buf ((update_terminal_cursor (putc 10 s))\<lparr>backspacable_counter := 0, readable_flag := 0\<rparr>)"
  obtain i t where "copy_line 0 ?s = Some (i, t)" "off_input s' = off_input t"
    using assms(1) by (auto simp: enter_key_def set_storage_def clear_buf_def Let_def split: bind_splits if_splits)
  then show ?thesis using copy_line_frame [of 0 ?s i t] off_input_putc [OF assms(2), of 10] by (simp add: clear_storage_buf_def)
qed

text \<open>No modifier is held and Caps Lock is off.\<close>

definition plain :: "'a keyboard_scheme \<Rightarrow> bool" where
  "plain s \<longleftrightarrow> caps_flag s = 0 \<and> shift_left_flag s = 0 \<and> shift_right_flag s = 0 \<and> ctrl_left_flag s = 0 \<and> ctrl_right_flag s = 0"

text \<open>The scan codes of the keys that put a character into the line.\<close>

definition char_key :: "byte \<Rightarrow> bool" where
  "char_key c \<longleftrightarrow> c \<le> 0x39 \<and> c \<notin> {0x1C, 0x0E, 0x0F, 0x36, 0x2A, 0x1D}"

lemma char_key_u32:
  assumes "char_key c"
  shows "(ucast c :: u32) \<le> 0x3A" "(ucast c :: u32) \<notin> {0x1C, 0x0E, 0x0F, 0x36, 0x2A, 0x1D, 0x3A, 0xB6, 0xAA, 0x9D}"
    "unat (ucast c :: u32) = unat c"
proof -
  have "unat c < 256" using unsigned_less [of c] by simp
  then have u: "unat (ucast c :: u32) = unat c" by (simp add: unsigned_ucast_eq take_bit_nat_eq_self)
  then show "unat (ucast c :: u32) = unat c" .
  have le: "unat c \<le> 57" using assms by (simp add: char_key_def word_le_nat_alt)
  then show "(ucast c :: u32) \<le> 0x3A" using u by (simp add: word_le_nat_alt)
  have "unat c \<notin> {28, 14, 15, 54, 42, 29}" using assms by (auto simp: char_key_def word_unat_eq_iff)
  then show "(ucast c :: u32) \<notin> {0x1C, 0x0E, 0x0F, 0x36, 0x2A, 0x1D, 0x3A, 0xB6, 0xAA, 0x9D}"
    using u le by (auto simp: word_unat_eq_iff)
qed

lemma update_flags_char: "char_key c \<Longrightarrow> update_flags (ucast c) s = s"
  using char_key_u32(2) [of c] by (simp add: update_flags_def only_if_def toggle_caps_def)

lemma plain_editor_step:
  assumes "kb_ok s" and "plain s" and "char_key c" and "length (line_of s) < 128"
  shows "\<exists>s'. key_irq env c s = Some s' \<and> kb_ok s' \<and> plain s' \<and> intr s' \<and> off_input s' = off_input s \<and>
    editor_of s' = (editor_of s)\<lparr>e_line := line_of s @ [norm ! unat c],
      e_screen := t_putc (norm ! unat c) (term_of s), e_undo := backspacable_counter s + 1\<rparr>"
proof -
  let ?s = "s\<lparr>intr := False, io := io s @ [In KEYBOARD_PORT]\<rparr>" and ?ch = "ucast c :: u32"
  note c = char_key_u32 [OF assms(3)]
  have nlt: "(0x3A < ?ch) = False" using c(1) by (simp add: not_less)
  have same: "update_flags ?ch ?s = ?s" using update_flags_char [OF assms(3)] .
  have cmd: "\<not> command_key ?ch ?s" using assms(2) by (simp add: command_key_def same ctrl_down_def plain_def)
  have tab: "key_table ?s = norm" using assms(2) by (simp add: key_table_def plain_def)
  have proc: "process_keyboard_input env ?ch ?s = letter_key ?ch ?s"
    using process_edit [OF cmd, of env] norm_special [OF c(1)] c(2) by (simp add: same nlt Let_def)
  obtain s' where s': "letter_key ?ch ?s = Some s'" "kb_ok s'" "editor_of s' = e_key norm ?ch (editor_of ?s)"
    using process_refines [of ?s ?ch env, OF _ cmd] assms(1) by (auto simp: same tab proc)
  have "plain s'"
    using s'(1) assms(2) by (auto simp: letter_key_def set_buffer_def plain_def Let_def split: if_splits)
  then have "plain (s'\<lparr>io := io s' @ [Out 0x20 0x61], intr := True\<rparr>)" by (simp add: plain_def)
  moreover have "editor_of s' = (editor_of s)\<lparr>e_line := line_of s @ [norm ! unat c],
      e_screen := t_putc (norm ! unat c) (term_of s), e_undo := backspacable_counter s + 1\<rparr>"
    using s'(3) c(2) assms(4) by (simp add: e_key_def nlt c(3))
  moreover have "on_screen ?s" using kb_ok_screen [OF assms(1)] by (simp add: on_screen_def)
  then have "off_input s' = off_input s" using letter_key_frame [OF s'(1)] by simp
  ultimately show ?thesis using s' proc by (simp add: handler_process)
qed

lemma plain_enter_step:
  assumes "kb_ok s" and "plain s"
  shows "\<exists>s'. key_irq env 0x1C s = Some s' \<and> kb_ok s' \<and> off_input s' = off_input s \<and>
    editor_of s' = \<lparr>e_line = [], e_ready = Some (line_of s @ [10]), e_screen = t_putc 10 (term_of s), e_undo = 0\<rparr>"
proof -
  let ?s = "s\<lparr>intr := False, io := io s @ [In KEYBOARD_PORT]\<rparr>"
  have same: "update_flags 0x1C ?s = ?s" by (simp add: update_flags_def only_if_def toggle_caps_def)
  have cmd: "\<not> command_key 0x1C ?s" by (simp add: command_key_def)
  have proc: "process_keyboard_input env 0x1C ?s = enter_key ?s"
    using process_edit [OF cmd, of env] norm_special [of "0x1C"] by (simp add: same Let_def)
  obtain s' where s': "enter_key ?s = Some s'" "kb_ok s'" "editor_of s' = e_key (key_table ?s) 0x1C (editor_of ?s)"
    using process_refines [of ?s "0x1C" env, OF _ cmd] assms(1) by (auto simp: same proc)
  have "on_screen ?s" using kb_ok_screen [OF assms(1)] by (simp add: on_screen_def)
  then have "off_input s' = off_input s" using enter_key_frame [OF s'(1)] by simp
  then show ?thesis using s' proc by (simp add: handler_process e_key_def)
qed

lemma readable_of_ready: "ready_of s = None \<longleftrightarrow> readable_flag s = 0"
  by (simp add: ready_of_def)

lemma ready_editor: "editor_of s' = (editor_of s)\<lparr>e_line := l, e_screen := t, e_undo := u\<rparr> \<Longrightarrow>
    ready_of s' = ready_of s \<and> line_of s' = l \<and> term_of s' = t \<and> backspacable_counter s' = u"
  by (metis editor.select_convs editor.surjective editor.update_convs editor_of_sel)

lemma spin_typing:
  assumes "kb_ok s" and "plain s" and "intr s" and "readable_flag s = 0" and "list_all char_key cs"
    and "length (line_of s) + length cs \<le> 128"
  shows "\<exists>s'. kb_ok s' \<and> plain s' \<and> intr s' \<and> readable_flag s' = 0 \<and> line_of s' = line_of s @ map (\<lambda>c. norm ! unat c) cs \<and>
    term_of s' = fold t_putc (map (\<lambda>c. norm ! unat c) cs) (term_of s) \<and> off_input s' = off_input s \<and>
    (\<forall>irqs. spin (\<lambda>s. readable_flag s = 0) (map (key_irq env) cs @ irqs) s = spin (\<lambda>s. readable_flag s = 0) irqs s')"
  using assms
proof (induction cs arbitrary: s)
  case Nil
  then show ?case by auto
next
  case (Cons c cs)
  obtain t where t: "key_irq env c s = Some t" "kb_ok t" "plain t" "intr t" "off_input t = off_input s"
    "editor_of t = (editor_of s)\<lparr>e_line := line_of s @ [norm ! unat c], e_screen := t_putc (norm ! unat c) (term_of s),
       e_undo := backspacable_counter s + 1\<rparr>"
    using plain_editor_step [OF Cons.prems(1,2), of c env] Cons.prems(5,6) by auto
  note e = ready_editor [OF t(6)]
  have r: "readable_flag t = 0" using e Cons.prems(4) readable_of_ready by metis
  obtain s' where "kb_ok s'" "plain s'" "intr s'" "readable_flag s' = 0" "line_of s' = line_of t @ map (\<lambda>c. norm ! unat c) cs"
    "term_of s' = fold t_putc (map (\<lambda>c. norm ! unat c) cs) (term_of t)" "off_input s' = off_input t"
    "\<forall>irqs. spin (\<lambda>s. readable_flag s = 0) (map (key_irq env) cs @ irqs) t = spin (\<lambda>s. readable_flag s = 0) irqs s'"
    using Cons.IH [OF t(2-4) r] Cons.prems(5,6) e by auto
  moreover have "spin (\<lambda>s. readable_flag s = 0) (key_irq env c # irqs) s = spin (\<lambda>s. readable_flag s = 0) irqs t" for irqs
    using Cons.prems(3,4) t(1) by (intro spin_step) auto
  ultimately show ?case using e t(5) by auto
qed

text \<open>A wait that ends with the line typed, ready for the reader.\<close>

lemma spin_typed_line:
  fixes s :: "'a keyboard_scheme"
  assumes "kb_ok s" and "plain s" and "intr s" and "readable_flag s = 0" and "line_of s = []"
    and "list_all char_key cs" and "length cs \<le> 128"
  shows "\<exists>u. spin (\<lambda>s. readable_flag s = 0) (map (key_irq env) (cs @ [0x1C]) @ rest) s = Some (rest, u) \<and> kb_ok u \<and> readable_flag u \<noteq> 0 \<and>
    ready_of u = Some (map (\<lambda>c. norm ! unat c) cs @ [10]) \<and> line_of u = [] \<and>
    term_of u = fold t_putc (map (\<lambda>c. norm ! unat c) cs @ [10]) (term_of s) \<and> off_input u = off_input s"
proof -
  let ?w = "\<lambda>s :: 'a keyboard_scheme. readable_flag s = 0" and ?l = "map (\<lambda>c. norm ! unat c) cs"
  obtain t where t: "kb_ok t" "plain t" "intr t" "?w t" "line_of t = ?l" "term_of t = fold t_putc ?l (term_of s)" "off_input t = off_input s"
    "\<forall>irqs. spin ?w (map (key_irq env) cs @ irqs) s = spin ?w irqs t"
    using spin_typing [OF assms(1-4,6), of env] assms(5,7) by auto
  obtain u where u: "key_irq env 0x1C t = Some u" "kb_ok u" "off_input u = off_input t"
    "editor_of u = \<lparr>e_line = [], e_ready = Some (?l @ [10]), e_screen = t_putc 10 (term_of t), e_undo = 0\<rparr>"
    using plain_enter_step [OF t(1,2), of env] t(5) by auto
  have f: "line_of u = []" "ready_of u = Some (?l @ [10])" "term_of u = t_putc 10 (term_of t)"
    using u(4) by (metis editor.select_convs editor_of_sel)+
  have ru: "\<not> ?w u" using f(2) by (auto simp: ready_of_def split: if_splits)
  have "spin ?w (key_irq env 0x1C # rest) t = spin ?w rest u" using t(3,4) u(1) by (intro spin_step) auto
  also have "\<dots> = Some (rest, u)" using ru by (rule spin_done)
  finally have "spin ?w (map (key_irq env) (cs @ [0x1C]) @ rest) s = Some (rest, u)" using t(8) by simp
  then show ?thesis using u(2,3) f ru t(6,7) by auto
qed

section \<open>Writing to the terminal\<close>

lemma bytes_at_Suc: "bytes_at p (Suc n) = bytes_at p n @ [p (of_nat n)]"
  by (simp add: bytes_at_def)

lemma fill_buffer_bytes:
  assumes "length b = 1024" and "n \<le> 1024" and "i \<le> n"
  shows "fill_buffer buf (int n) (int i) (s\<lparr>buffer := bytes_at (ptr (mem s) buf) i @ drop i b, buffer_content_counter := c + int i\<rparr>) =
    Some (s\<lparr>buffer := bytes_at (ptr (mem s) buf) n @ drop n b, buffer_content_counter := c + int n\<rparr>)"
  using assms(3)
proof (induction "n - i" arbitrary: i)
  case 0
  then show ?case by (subst fill_buffer.simps) simp
next
  case (Suc d)
  then have i: "i < n" "i < 1024" using assms(2) by simp_all
  then have "drop i b = b ! i # drop (Suc i) b" using assms(1) by (simp add: Cons_nth_drop_Suc)
  then have "(bytes_at (ptr (mem s) buf) i @ drop i b)[i := mem s (buf + of_nat i)] = bytes_at (ptr (mem s) buf) (Suc i) @ drop (Suc i) b"
    by (simp only: list_update_append) (simp add: bytes_at_Suc)
  then have "fill_buffer buf (int n) (int i) (s\<lparr>buffer := bytes_at (ptr (mem s) buf) i @ drop i b, buffer_content_counter := c + int i\<rparr>) =
      fill_buffer buf (int n) (int (Suc i)) (s\<lparr>buffer := bytes_at (ptr (mem s) buf) (Suc i) @ drop (Suc i) b, buffer_content_counter := c + int (Suc i)\<rparr>)"
    using i by (subst fill_buffer.simps) (simp add: set_buffer_def ac_simps)
  then show ?case using Suc.hyps(1) [of "Suc i"] Suc.hyps(2) by simp
qed

lemma fill_buffer_overflow:
  assumes "1024 < n" and "i \<le> 1024"
  shows "fill_buffer buf n (int i) s = None"
  using assms(2)
proof (induction "1024 - i" arbitrary: i s)
  case 0
  then have "i = 1024" by simp
  then show ?case using assms(1) by (subst fill_buffer.simps) (simp add: set_buffer_def)
next
  case (Suc d)
  then have "i < 1024" by simp
  then show ?case using assms(1) Suc.hyps(1) [of "Suc i"] Suc.hyps(2)
    by (subst fill_buffer.simps) (simp add: set_buffer_def add.commute)
qed

lemma print_buf_from_fold:
  assumes "buffer_content_counter s = int c" and "c \<le> 1024" and "length (buffer s) = 1024" and "i \<le> c"
  shows "print_buf_from (int i) s = Some (int c, fold putc (drop i (take c (buffer s))) s)"
  using assms(1,3,4)
proof (induction "c - i" arbitrary: i s)
  case 0
  then show ?case by (subst print_buf_from.simps) simp
next
  case (Suc d)
  then have i: "i < c" by simp
  then have "drop i (take c (buffer s)) = buffer s ! i # drop (Suc i) (take c (buffer s))"
    using Suc.prems(2) assms(2) by (simp add: Cons_nth_drop_Suc [symmetric])
  moreover have "print_buf_from (int (Suc i)) (putc (buffer s ! i) s) =
      Some (int c, fold putc (drop (Suc i) (take c (buffer s))) (putc (buffer s ! i) s))"
    using Suc.hyps(1) [of "Suc i" "putc (buffer s ! i) s"] Suc.hyps(2) Suc.prems i by simp
  ultimately show ?case
    using i Suc.prems assms(2) by (subst print_buf_from.simps) (simp add: get_buffer_def add.commute)
qed

lemma fold_putc_kb [simp]: "kb_fields (fold putc xs s) = kb_fields s"
  by (induction xs arbitrary: s) simp_all

lemmas fold_putc_kbD [simp] = kb_fieldsD [OF fold_putc_kb]

text \<open>What \<open>terminal_write\<close> prints: the caller's bytes over the start of the line buffer, and then
  whatever the line buffer held up to the old count.\<close>

definition written :: "u32 \<Rightarrow> nat \<Rightarrow> 'a keyboard_scheme \<Rightarrow> byte list" where
  "written buf n s = take (nat (buffer_content_counter s) + n) (bytes_at (ptr (mem s) buf) n @ drop n (buffer s))"

lemma terminal_write_shows:
  assumes "kb_ok s" and "nat (buffer_content_counter s) + n \<le> 1024"
  shows "\<exists>s'. terminal_write fd buf (int n) s = Some (buffer_content_counter s + int n, s') \<and> kb_ok s' \<and>
    term_of s' = fold t_putc (written buf n s) (term_of s) \<and> line_of s' = [] \<and> ready_of s' = ready_of s \<and>
    hide_vram (mem s') = hide_vram (mem s)"
proof -
  define c where "c = nat (buffer_content_counter s)"
  have c: "buffer_content_counter s = int c" "c + n \<le> 1024" "length (buffer s) = 1024"
    using assms by (auto simp: kb_ok_def c_def)
  let ?b = "bytes_at (ptr (mem s) buf) n @ drop n (buffer s)"
  define s1 where "s1 = s\<lparr>buffer := ?b, buffer_content_counter := int c + int n\<rparr>"
  have eq: "s\<lparr>buffer := bytes_at (ptr (mem s) buf) 0 @ drop 0 (buffer s), buffer_content_counter := int c + int 0\<rparr> = s"
  proof -
    have "bytes_at (ptr (mem s) buf) 0 @ drop 0 (buffer s) = buffer s" "int c + int 0 = buffer_content_counter s"
      using c(1) by (simp_all add: bytes_at_def)
    then show ?thesis by simp
  qed
  have "fill_buffer buf (int n) (int 0) (s\<lparr>buffer := bytes_at (ptr (mem s) buf) 0 @ drop 0 (buffer s), buffer_content_counter := int c + int 0\<rparr>) = Some s1"
    unfolding s1_def by (rule fill_buffer_bytes) (use c in simp_all)
  then have fb: "fill_buffer buf (int n) 0 s = Some s1" unfolding eq by simp
  have w: "written buf n s = take (c + n) ?b" by (simp add: written_def c_def)
  define s2 where "s2 = fold putc (written buf n s) s1"
  have on: "on_screen s1" using assms(1) by (simp add: s1_def kb_ok_def)
  have "print_buf_from 0 s1 = Some (int (c + n), s2)"
    using print_buf_from_fold [of s1 "c + n" 0] c(2,3) w by (simp add: s1_def s2_def)
  then have pb: "print_buf s1 = Some (int c + int n, (update_terminal_cursor s2)\<lparr>backspacable_counter := 0\<rparr>)"
    by (simp add: print_buf_def)
  let ?s' = "(clear_buf ((update_terminal_cursor s2)\<lparr>backspacable_counter := 0\<rparr>))\<lparr>backspacable_counter := 0\<rparr>"
  have "terminal_write fd buf (int n) s = Some (int c + int n, ?s')" by (simp add: terminal_write_def fb pb Let_def)
  moreover have "term_of ?s' = fold t_putc (written buf n s) (term_of s)"
    using con.view_fold [OF on, of "written buf n s"] by (simp add: clear_buf_def s2_def) (simp add: s1_def)
  moreover have "kb_ok ?s'" "line_of ?s' = []" "ready_of ?s' = ready_of s"
    using assms(1) con.ok_fold [OF on, of "written buf n s"]
    by (simp_all add: kb_ok_def clear_buf_def line_of_def ready_of_def s2_def) (simp_all add: s1_def)
  moreover have "hide_vram (mem ?s') = hide_vram (mem s)"
    using off_screen_mem [OF con.rest_fold [OF on, of "written buf n s"]] by (simp add: clear_buf_def s2_def) (simp add: s1_def)
  ultimately show ?thesis unfolding c(1) by blast
qed

lemma written_fresh: "line_of s = [] \<Longrightarrow> kb_ok s \<Longrightarrow> written buf n s = bytes_at (ptr (mem s) buf) n"
proof -
  assume "line_of s = []" "kb_ok s"
  then have "nat (buffer_content_counter s) = 0" by (auto simp: line_of_def kb_ok_def)
  then show ?thesis by (simp add: written_def)
qed

section \<open>A sample state\<close>

definition kb_demo :: keyboard where
  "kb_demo = files.extend demo \<lparr>caps_flag = 0, shift_left_flag = 0, shift_right_flag = 0, ctrl_left_flag = 0,
     ctrl_right_flag = 0, buffer = replicate 1024 0, storage_buffer = replicate 1024 0, buffer_content_counter = 0,
     storage_buffer_counter = 0, backspacable_counter = 0, readable_flag = 0, count = 1, index_file = 0\<rparr>"

lemma kb_demo_ok: "kb_ok kb_demo" "plain kb_demo" "intr kb_demo" "readable_flag kb_demo = 0" "line_of kb_demo = []"
  by (simp_all add: kb_demo_def kb_ok_def plain_def line_of_def on_screen_def files.defs demo_def)

definition env_demo :: addrs where
  "env_demo = \<lparr>conv_buf = 0x7FFE00, dentry_local = 0x7FFE80, data_local = 0x7FE000, frame0_lit = 0x410000\<rparr>"

section \<open>Properties\<close>

text \<open>C15: the keyboard driver is a line editor.  In a well-formed state every scan code that is not a
  Ctrl command is handled completely, the well-formedness of the driver (array sizes, counters
  within the arrays, at most 128 characters in the line, cursor on the page) is kept, and line,
  completed line, screen and undo count change as the abstract editor says: releases and
  modifiers change none of them, Enter publishes the line with a newline, Backspace removes the
  last character if an echoed one may be taken back, Tab shows two blanks, any other key appends
  and shows the character of the table the modifiers select while the line has fewer than 128.\<close>

theorem keyboard_refines_editor:
  assumes "kb_ok s" and "\<not> command_key ch s"
  shows "\<exists>s'. process_keyboard_input env ch s = Some s' \<and> kb_ok s' \<and>
    editor_of s' = e_key (key_table (update_flags ch s)) ch (editor_of s)"
  using process_refines [OF assms] .

theorem keyboard_refines_editor_witness:
  "\<exists>s'. process_keyboard_input env_demo 0x1E kb_demo = Some s' \<and> line_of s' = lit ''a''"
proof -
  have cmd: "\<not> command_key 0x1E kb_demo" by (simp add: command_key_def)
  have "update_flags 0x1E kb_demo = kb_demo" by (simp add: update_flags_def only_if_def toggle_caps_def)
  moreover have "key_table kb_demo = norm" by (simp add: key_table_def kb_demo_def files.defs)
  moreover have "norm ! 30 = 97" by (simp add: norm_def)
  ultimately obtain s' where "process_keyboard_input env_demo 0x1E kb_demo = Some s'" "line_of s' = [97]"
    using keyboard_refines_editor [OF kb_demo_ok(1) cmd, of env_demo] kb_demo_ok(5)
    by (auto simp: e_key_def dest: arg_cong [where f = e_line])
  then show ?thesis by (auto simp: lit_def)
qed

text \<open>C14: what is typed is what is read.  A \<open>terminal_read\<close> that waits with interrupts enabled, no
  modifier held and an empty line, while the keyboard delivers any sequence of at most 128 character keys and
  then Enter, returns at the Enter; the caller's buffer holds the characters of the keys followed
  by a newline, cut to the requested number of bytes, and the result is their number.\<close>

theorem typed_line_is_read:
  assumes "kb_ok s" and "plain s" and "intr s" and "readable_flag s = 0" and "line_of s = []"
    and "list_all char_key cs" and "length cs \<le> 128"
  shows "\<exists>s'. terminal_read (map (key_irq env) (cs @ [0x1C]) @ rest) buf offset (int n) name s =
      Some (rest, int (min (Suc (length cs)) n), s') \<and>
    bytes_at (ptr (mem s') buf) (min (Suc (length cs)) n) = take n (map (\<lambda>c. norm ! unat c) cs @ [10]) \<and>
    readable_flag s' = 0"
proof -
  let ?l = "map (\<lambda>c. norm ! unat c) cs"
  obtain u where u: "spin (\<lambda>s. readable_flag s = 0) (map (key_irq env) (cs @ [0x1C]) @ rest) s = Some (rest, u)" "kb_ok u"
    "ready_of u = Some (?l @ [10])" and ru: "readable_flag u \<noteq> 0"
    using spin_typed_line [OF assms, of env rest] by blast
  have cp: "copy_storage buf (int n) 0 u = Some (int (min (Suc (length cs)) n), u\<lparr>mem := poke (mem u) buf (take n (?l @ [10]))\<rparr>)"
    using copy_storage_ready [OF u(2,3), of buf n] by simp
  have len: "length (take n (?l @ [10])) = min (Suc (length cs)) n" by simp
  have "bytes_at (ptr (poke (mem u) buf (take n (?l @ [10]))) buf) (min (Suc (length cs)) n) = take n (?l @ [10])"
    using bytes_at_poke [of "take n (?l @ [10])" "mem u" buf] assms(7) unfolding len by simp
  then show ?thesis
    using u(1) cp ru by (simp add: terminal_read_def clear_storage_buf_def)
qed

theorem typed_line_is_read_witness:
  "\<exists>s'. terminal_read (map (key_irq env_demo) [0x26, 0x1F, 0x1C]) 0x200100 0 128 0 kb_demo = Some ([], 3, s') \<and>
    bytes_at (ptr (mem s') 0x200100) 3 = lit ''ls'' @ [10]"
proof -
  have "list_all char_key [0x26, 0x1F]" by (simp add: char_key_def)
  moreover have "norm ! 38 = 108" "norm ! 31 = 115" by (simp_all add: norm_def)
  ultimately show ?thesis
    using typed_line_is_read [OF kb_demo_ok, of "[0x26, 0x1F]" env_demo "[]" "0x200100" 0 128 0] by (auto simp: lit_def numeral_3_eq_3)
qed

text \<open>C39: \<open>terminal_write\<close>.  In a well-formed state, as long as the bytes fit behind the pending input
  into the 1024-byte buffer, it returns and shows, with the abstract terminal's wrapping and
  scrolling, the caller's bytes followed by the characters of the line buffer up to the old count;
  the pending input line is discarded and a completed line is kept.  When no input is pending it
  shows exactly the caller's bytes and returns their number; otherwise the result is larger than
  the number of bytes asked for.  A write of more than 1024 bytes overruns the buffer.\<close>

theorem terminal_write_correct:
  assumes "kb_ok s" and "length (line_of s) + n \<le> 1024"
  shows "(\<exists>s'. terminal_write fd buf (int n) s = Some (int (length (line_of s) + n), s') \<and> kb_ok s' \<and>
      term_of s' = fold t_putc (written buf n s) (term_of s) \<and> line_of s' = [] \<and> ready_of s' = ready_of s \<and>
      hide_vram (mem s') = hide_vram (mem s)) \<and>
    (line_of s = [] \<longrightarrow> written buf n s = bytes_at (ptr (mem s) buf) n) \<and>
    (\<forall>k > 1024. terminal_write fd buf k s = None)"
proof -
  have c: "nat (buffer_content_counter s) = length (line_of s)" "buffer_content_counter s = int (length (line_of s))"
    using assms(1) by (auto simp: line_of_def kb_ok_def)
  have "terminal_write fd buf k s = None" if "k > 1024" for k
    using fill_buffer_overflow [OF that, of 0 buf s] by (simp add: terminal_write_def)
  then show ?thesis
    using terminal_write_shows [OF assms(1), of n fd buf] assms c written_fresh [of s buf n] by auto
qed

theorem terminal_write_correct_witness:
  "\<exists>s'. terminal_write 1 0x102000 5 kb_demo = Some (5, s') \<and> term_of s' = fold t_putc (lit ''hello'') (term_of kb_demo)"
proof -
  have "length (line_of kb_demo) + 5 \<le> 1024" using kb_demo_ok(5) by simp
  moreover have "bytes_at (ptr (mem kb_demo) 0x102000) 5 = lit ''hello''"
    by (simp add: kb_demo_def files.defs demo_def demo_mem_def bytes_at_def upt_conv_Cons lit_def)
  ultimately show ?thesis
    using terminal_write_correct [OF kb_demo_ok(1), of 5 1 "0x102000"] kb_demo_ok(5) by auto
qed

text \<open>The scan codes of the letters, and of the other keys the driver puts into the line.\<close>

definition letter_codes :: "nat list" where
  "letter_codes = [16, 17, 18, 19, 20, 21, 22, 23, 24, 25, 30, 31, 32, 33, 34, 35, 36, 37, 38, 44, 45, 46, 47, 48, 49, 50]"

definition other_codes :: "nat list" where
  "other_codes = [0, 1, 2, 3, 4, 5, 6, 7, 8, 9, 10, 11, 12, 13, 26, 27, 40, 41, 43, 51, 52, 53, 55, 56, 57]"

text \<open>The four scan-code tables agree on the letter keys: the table without modifiers gives the
  lower-case letter, Shift alone and Caps Lock alone the upper-case one, and both together the
  lower-case one again.  On every other character key but the semicolon, Caps Lock makes no
  difference, with or without Shift; on the semicolon key Caps Lock alone gives a colon.\<close>

theorem caps_shift_tables:
  "list_all (\<lambda>n. cap_norm ! n = norm ! n - 32 \<and> shift_norm ! n = norm ! n - 32 \<and> cap_shift ! n = norm ! n \<and>
      97 \<le> norm ! n \<and> norm ! n \<le> 122) letter_codes \<and>
   list_all (\<lambda>n. cap_shift ! n = shift_norm ! n \<and> cap_norm ! n = norm ! n) other_codes \<and>
   norm ! 39 = 59 \<and> cap_norm ! 39 = 58 \<and> shift_norm ! 39 = 58 \<and> cap_shift ! 39 = 58"
  by (simp add: letter_codes_def other_codes_def norm_def cap_norm_def shift_norm_def cap_shift_def)

end
