(* ===== verification/Idt.thy ===== *)
theory Idt
  imports KeyboardProps
begin

text \<open>
  Descriptors and the interrupt descriptor table: \<^verbatim>\<open>student-distrib/x86_desc.h\<close> (segment and gate
  descriptors and the macros that set them) and \<^verbatim>\<open>student-distrib/idt.c\<close> (the exception handlers
  and \<open>IDT_init\<close>).  Bit-fields are numbers taken modulo their width.  The addresses of the assembly
  entry points are the function \<open>entry_of\<close>; \<open>gate_bytes\<close> is the eight-byte image of a gate in memory, and
  \<open>gate_offset\<close>, \<open>gate_type\<close> read from it what the processor uses.

  Every exception handler disables interrupts, prints a message and ends in \<^verbatim>\<open>while(1)\<close>; its model
  returns the state in which the processor spins.
\<close>

unbundle bit_operations_syntax

section \<open>Descriptors\<close>

record seg_desc =
  seg_lim_15_00 :: u16
  base_15_00 :: u16
  base_23_16 :: byte
  seg_type :: nat
  sys :: nat
  seg_dpl :: nat
  seg_present :: nat
  seg_lim_19_16 :: nat
  avail :: nat
  seg_reserved :: nat
  opsize :: nat
  granularity :: nat
  base_31_24 :: byte

definition SET_TSS_PARAMS :: "seg_desc \<Rightarrow> u32 \<Rightarrow> u32 \<Rightarrow> seg_desc" where
  "SET_TSS_PARAMS str addr lim =
     str\<lparr>base_31_24 := ucast (drop_bit 24 (addr AND 0xFF000000)),
         base_23_16 := ucast (drop_bit 16 (addr AND 0x00FF0000)),
         base_15_00 := ucast (addr AND 0x0000FFFF),
         seg_lim_19_16 := unat (drop_bit 16 (lim AND 0x000F0000)) mod 16,
         seg_lim_15_00 := ucast (lim AND 0x0000FFFF)\<rparr>"

definition SET_LDT_PARAMS :: "seg_desc \<Rightarrow> u32 \<Rightarrow> u32 \<Rightarrow> seg_desc" where
  "SET_LDT_PARAMS str addr lim =
     str\<lparr>base_31_24 := ucast (drop_bit 24 (addr AND 0xFF000000)),
         base_23_16 := ucast (drop_bit 16 (addr AND 0x00FF0000)),
         base_15_00 := ucast (addr AND 0x0000FFFF),
         seg_lim_19_16 := unat (drop_bit 16 (lim AND 0x000F0000)) mod 16,
         seg_lim_15_00 := ucast (lim AND 0x0000FFFF)\<rparr>"

record idt_desc =
  offset_15_00 :: u16
  seg_selector :: u16
  reserved4 :: byte
  reserved3 :: nat
  reserved2 :: nat
  reserved1 :: nat
  gate_size :: nat
  reserved0 :: nat
  dpl :: nat
  present :: nat
  offset_31_16 :: u16

definition SET_IDT_ENTRY :: "idt_desc \<Rightarrow> u32 \<Rightarrow> idt_desc" where
  "SET_IDT_ENTRY str handler =
     str\<lparr>offset_31_16 := ucast (drop_bit 16 (handler AND 0xFFFF0000)), offset_15_00 := ucast (handler AND 0xFFFF)\<rparr>"

section \<open>Exception handlers\<close>

datatype excep = DE | DB | NMI | BP | OF | BRE | IO | DNA | DF | CS | ITSS | SegNP | SF | GP | PF | FP | AC | MC | SFP
  | UNDEF

text \<open>The assembly wrappers of \<^verbatim>\<open>handler.S\<close>; there is none for \<open>DB\<close>.\<close>

datatype entry_point = Excep excep | Keyboard_helper | Rtc_helper | Asm_linkage

fun excep_message :: "excep \<Rightarrow> string" where
  "excep_message DE = ''Divide error exception!''"
| "excep_message DB = ''Debug exception!''"
| "excep_message NMI = ''Non-maskable interrupt exception!''"
| "excep_message BP = ''Break-point exception!''"
| "excep_message OF = ''Overflow exception!''"
| "excep_message BRE = ''Bound range exceeded exception!''"
| "excep_message IO = ''Invalid opcode exception!''"
| "excep_message DNA = ''Device not available exception!''"
| "excep_message DF = ''Double fault exception!''"
| "excep_message CS = ''Coprocessor segment exception!''"
| "excep_message ITSS = ''Invalid TSS exception!''"
| "excep_message SegNP = ''Segment not present exception!''"
| "excep_message SF = ''Stack fault exception!''"
| "excep_message GP = ''General protection exception!''"
| "excep_message PF = ''Page falut exception!''"
| "excep_message FP = ''FLoating point exception!''"
| "excep_message AC = ''Alignment check exception!''"
| "excep_message MC = ''Machine check exception!''"
| "excep_message SFP = ''SIMD floating-point exception!''"
| "excep_message UNDEF = ''Undefined interruption!''"

text \<open>A handler is the sequence of its statements.  \<open>error_code\<close> and \<open>error_code2\<close> are the two stack words \<open>excep_GP\<close> reads; the others ignore
  them.\<close>

datatype excep_stmt = Do_cli | Do_printf string "u32 list" | While_1 | Do_sti

definition excep_handler :: "u32 \<Rightarrow> u32 \<Rightarrow> excep \<Rightarrow> excep_stmt list" where
  "excep_handler error_code error_code2 e =
     [Do_cli] @
     (if e = GP then [Do_printf (''error_code:%x'' @ [CHR 0x0A]) [error_code], Do_printf ''error_code:%x'' [error_code2]] else []) @
     [Do_printf (excep_message e @ [CHR 0x0A]) [], While_1, Do_sti]"

text \<open>Executing statements: what is left to execute, the interrupts still to come, the state.  \<open>while(1);\<close> goes on for ever; while interrupts are
  enabled the next one may be served before any statement.  The handler has returned when no statement is left.\<close>

inductive excep_step :: "u32 \<Rightarrow> excep_stmt list \<times> 'a keyboard_scheme handler list \<times> 'a keyboard_scheme
    \<Rightarrow> excep_stmt list \<times> 'a keyboard_scheme handler list \<times> 'a keyboard_scheme \<Rightarrow> bool" for cb where
  cli: "excep_step cb (Do_cli # c, irqs, s) (c, irqs, cli s)"
| printf: "kprintf cb str args s = Some s' \<Longrightarrow> excep_step cb (Do_printf str args # c, irqs, s) (c, irqs, s')"
| again: "excep_step cb (While_1 # c, irqs, s) (While_1 # c, irqs, s)"
| sti: "excep_step cb (Do_sti # c, irqs, s) (c, irqs, sti s)"
| irq: "intr s \<Longrightarrow> h s = Some s' \<Longrightarrow> excep_step cb (c, h # irqs, s) (c, irqs, s')"

code_pred excep_step .

inductive_cases While_1E [elim]: "excep_step cb (While_1 # c, irqs, s) cf"

lemma while_1_left: "excep_step cb cf cf' \<Longrightarrow> While_1 \<in> set (fst cf) \<Longrightarrow> While_1 \<in> set (fst cf')"
  by (induction rule: excep_step.induct) auto

lemma while_1_stays:
  assumes "rtranclp (excep_step cb) (While_1 # c, irqs, s) cf" and "\<not> intr s"
  shows "cf = (While_1 # c, irqs, s)"
  using assms by (induction rule: rtranclp_induct) auto

lemma printf_steps:
  assumes "kprintf cb str args s = Some s'" and "rtranclp (excep_step cb) (c, irqs, s') cf"
  shows "rtranclp (excep_step cb) (Do_printf str args # c, irqs, s) cf"
  using excep_step.printf [OF assms(1)] assms(2) by (rule converse_rtranclp_into_rtranclp)

section \<open>The table\<close>

record idt_state = keyboard +
  idt :: "idt_desc list"
  idtr :: "u32 option"

abbreviation KERNEL_CS :: u16 where "KERNEL_CS \<equiv> 0x0010"
abbreviation NUM_VEC :: nat where "NUM_VEC \<equiv> 256"

definition set_gate :: "nat \<Rightarrow> u32 \<Rightarrow> 'a idt_state_scheme \<Rightarrow> 'a idt_state_scheme" where
  "set_gate v handler s = s\<lparr>idt := (idt s)[v := SET_IDT_ENTRY (idt s ! v) handler]\<rparr>"

text \<open>The loop body of \<open>IDT_init\<close> on entry \<open>c\<close>.\<close>

definition init_gate :: "(entry_point \<Rightarrow> u32) \<Rightarrow> nat \<Rightarrow> idt_desc \<Rightarrow> idt_desc" where
  "init_gate entry_of c g =
     (let g = g\<lparr>reserved0 := 0, reserved1 := 1, reserved2 := 1, reserved3 := 1, reserved4 := 0,
                seg_selector := KERNEL_CS, gate_size := 1, present := 1, dpl := 0\<rparr>;
          g = (if c \<ge> 32 then SET_IDT_ENTRY (g\<lparr>reserved3 := 0\<rparr>) (entry_of (Excep UNDEF)) else g)
      in if c = 0x80 then g\<lparr>dpl := 3\<rparr> else g)"

function init_gates :: "(entry_point \<Rightarrow> u32) \<Rightarrow> nat \<Rightarrow> 'a idt_state_scheme \<Rightarrow> 'a idt_state_scheme" where
  "init_gates entry_of c s =
     (if c < NUM_VEC then init_gates entry_of (c + 1) (s\<lparr>idt := (idt s)[c := init_gate entry_of c (idt s ! c)]\<rparr>) else s)"
  by pat_completeness auto
termination
  by (relation "measure (\<lambda>(e, c, s). NUM_VEC - c)") auto

declare init_gates.simps [simp del]

definition handler_table :: "(nat \<times> entry_point) list" where
  "handler_table =
     [(0, Excep DE), (1, Excep DF), (2, Excep NMI), (3, Excep BP), (4, Excep OF), (5, Excep BRE), (6, Excep IO),
      (7, Excep DNA), (8, Excep DF), (9, Excep CS), (10, Excep ITSS), (11, Excep SegNP), (12, Excep SF), (13, Excep GP),
      (14, Excep PF), (16, Excep FP), (17, Excep AC), (18, Excep MC), (19, Excep SFP),
      (33, Keyboard_helper), (40, Rtc_helper), (0x80, Asm_linkage)]"

text \<open>\<open>desc_ptr\<close> is the address of \<open>idt_desc_ptr\<close>, which \<^verbatim>\<open>lidt\<close> loads.  The 22 \<open>SET_IDT_ENTRY\<close> statements
  run in the order of the code.\<close>

definition IDT_init :: "u32 \<Rightarrow> (entry_point \<Rightarrow> u32) \<Rightarrow> 'a idt_state_scheme \<Rightarrow> 'a idt_state_scheme" where
  "IDT_init desc_ptr entry_of s =
     (let s = s\<lparr>idtr := Some desc_ptr\<rparr>;
          s = init_gates entry_of 0 s
      in fold (\<lambda>(v, h). set_gate v (entry_of h)) handler_table s)"

section \<open>The gate as the processor reads it\<close>

definition gate_bytes :: "idt_desc \<Rightarrow> byte list" where
  "gate_bytes g =
     [ucast (offset_15_00 g), ucast (drop_bit 8 (offset_15_00 g)), ucast (seg_selector g), ucast (drop_bit 8 (seg_selector g)),
      reserved4 g,
      of_nat (reserved3 g mod 2 + 2 * (reserved2 g mod 2) + 4 * (reserved1 g mod 2) + 8 * (gate_size g mod 2) +
              16 * (reserved0 g mod 2) + 32 * (dpl g mod 4) + 128 * (present g mod 2)),
      ucast (offset_31_16 g), ucast (drop_bit 8 (offset_31_16 g))]"

definition gate_offset :: "byte list \<Rightarrow> u32" where
  "gate_offset b = join32 (b ! 0) (b ! 1) (b ! 6) (b ! 7)"

definition gate_selector :: "byte list \<Rightarrow> u16" where
  "gate_selector b = ucast (b ! 2) OR push_bit 8 (ucast (b ! 3))"

definition gate_flags :: "byte list \<Rightarrow> byte" where
  "gate_flags b = b ! 5"

section \<open>Reading the finished table\<close>

lemma half_masks: "(0xFFFF :: u32) = mask 16" "(0xFFFF0000 :: u32) = push_bit 16 (mask 16)"
  by (simp_all add: mask_eq_exp_minus_1)

lemma offset_low_bytes:
  fixes h :: u32
  shows "(ucast (ucast (h AND 0xFFFF) :: u16) :: byte) = byte_of 0 h"
    and "(ucast (drop_bit 8 (ucast (h AND 0xFFFF) :: u16)) :: byte) = byte_of (Suc 0) h"
  unfolding half_masks by (auto intro!: bit_word_eqI simp: byte_of_def bit_simps)

lemma offset_high_bytes:
  fixes h :: u32
  shows "(ucast (ucast (drop_bit 16 (h AND 0xFFFF0000)) :: u16) :: byte) = byte_of 2 h"
    and "(ucast (drop_bit 8 (ucast (drop_bit 16 (h AND 0xFFFF0000)) :: u16)) :: byte) = byte_of 3 h"
  unfolding half_masks by (auto intro!: bit_word_eqI simp: byte_of_def bit_simps)

lemma gate_offset_bytes:
  "gate_offset (gate_bytes g) = join32 (ucast (offset_15_00 g)) (ucast (drop_bit 8 (offset_15_00 g)))
     (ucast (offset_31_16 g)) (ucast (drop_bit 8 (offset_31_16 g)))"
  by (simp add: gate_offset_def gate_bytes_def)

lemma gate_offset_SET [simp]: "gate_offset (gate_bytes (SET_IDT_ENTRY g handler)) = handler"
proof -
  have "offset_15_00 (SET_IDT_ENTRY g handler) = ucast (handler AND 0xFFFF)"
    "offset_31_16 (SET_IDT_ENTRY g handler) = ucast (drop_bit 16 (handler AND 0xFFFF0000))"
    unfolding SET_IDT_ENTRY_def by (cases g, simp only: idt_desc.simps)+
  then show ?thesis unfolding gate_offset_bytes by (simp only: offset_low_bytes offset_high_bytes join32_bytes)
qed

lemma gate_offset_dpl [simp]: "gate_offset (gate_bytes (g\<lparr>dpl := d\<rparr>)) = gate_offset (gate_bytes g)"
  by (simp add: gate_offset_def gate_bytes_def)

lemma gate_header_SET [simp]:
  "gate_selector (gate_bytes (SET_IDT_ENTRY g h)) = gate_selector (gate_bytes g)"
  "gate_flags (gate_bytes (SET_IDT_ENTRY g h)) = gate_flags (gate_bytes g)"
  by (simp_all add: gate_selector_def gate_flags_def gate_bytes_def SET_IDT_ENTRY_def)

lemma gate_header_init:
  "gate_selector (gate_bytes (init_gate entry_of v g)) = KERNEL_CS"
  "gate_flags (gate_bytes (init_gate entry_of v g)) = (if v < 32 then 0x8F else if v = 0x80 then 0xEE else 0x8E)"
  by (simp_all add: gate_selector_def gate_flags_def gate_bytes_def init_gate_def SET_IDT_ENTRY_def Let_def)

lemma gate_offset_init:
  "gate_offset (gate_bytes (init_gate entry_of v g)) =
     (if v < 32 then gate_offset (gate_bytes g) else entry_of (Excep UNDEF))"
  by (simp add: init_gate_def Let_def) (simp add: gate_offset_def gate_bytes_def)

lemma idt_init_gates:
  "c \<le> NUM_VEC \<Longrightarrow> length (idt s) = NUM_VEC \<Longrightarrow>
    init_gates entry_of c s = s\<lparr>idt := take c (idt s) @ map (\<lambda>v. init_gate entry_of v (idt s ! v)) [c..<NUM_VEC]\<rparr>"
proof (induction entry_of c s rule: init_gates.induct)
  case (1 entry_of c s)
  show ?case
  proof (cases "c < NUM_VEC")
    case True
    let ?s = "s\<lparr>idt := (idt s)[c := init_gate entry_of c (idt s ! c)]\<rparr>"
    have "init_gates entry_of c s = init_gates entry_of (c + 1) ?s" using True by (subst init_gates.simps) simp
    also have "\<dots> = ?s\<lparr>idt := take (c + 1) (idt ?s) @ map (\<lambda>v. init_gate entry_of v (idt ?s ! v)) [c + 1..<NUM_VEC]\<rparr>"
      using 1 True by simp
    also have "\<dots> = s\<lparr>idt := take c (idt s) @ map (\<lambda>v. init_gate entry_of v (idt s ! v)) [c..<NUM_VEC]\<rparr>"
    proof -
      have "take (c + 1) (idt ?s) = take c (idt s) @ [init_gate entry_of c (idt s ! c)]"
        using True 1(3) by (simp add: take_Suc_conv_app_nth)
      moreover have "[c..<NUM_VEC] = c # [c + 1..<NUM_VEC]" using True by (simp add: upt_conv_Cons)
      ultimately show ?thesis by simp
    qed
    finally show ?thesis .
  next
    case False
    with 1 show ?thesis by (subst init_gates.simps) simp
  qed
qed

lemma fold_set_gate:
  "distinct (map fst tbl) \<Longrightarrow> \<forall>v \<in> fst ` set tbl. v < length (idt s) \<Longrightarrow>
    (let s' = fold (\<lambda>(v, h). set_gate v (entry_of h)) tbl s
     in s' = s\<lparr>idt := idt s'\<rparr> \<and> length (idt s') = length (idt s) \<and>
        (\<forall>v. idt s' ! v = (case map_of tbl v of Some h \<Rightarrow> SET_IDT_ENTRY (idt s ! v) (entry_of h) | None \<Rightarrow> idt s ! v)))"
proof (induction tbl arbitrary: s)
  case (Cons x tbl)
  obtain v h where x: "x = (v, h)" by fastforce
  have none: "map_of tbl v = None" using Cons.prems(1) by (simp add: x map_of_eq_None_iff)
  from Cons.IH [of "set_gate v (entry_of h) s"] Cons.prems none
  show ?case by (auto simp: x Let_def set_gate_def nth_list_update split: option.splits)
qed simp

section \<open>Properties\<close>

text \<open>The entry point each vector should have: the exceptions in the order of the processor manual
  (15 and 20 to 31 are reserved), keyboard and clock at the lines the interrupt controllers map to
  0x21 and 0x28, the system call at 0x80 and the catch-all elsewhere.\<close>

definition expected_entry :: "nat \<Rightarrow> entry_point option" where
  "expected_entry v =
     (if v < 15 then Some (Excep ([DE, DB, NMI, BP, OF, BRE, IO, DNA, DF, CS, ITSS, SegNP, SF, GP, PF] ! v))
      else if 16 \<le> v \<and> v < 20 then Some (Excep ([FP, AC, MC, SFP] ! (v - 16)))
      else if v < 32 then None
      else if v = 0x20 + 1 then Some Keyboard_helper
      else if v = 0x20 + 8 then Some Rtc_helper
      else if v = 0x80 then Some Asm_linkage
      else Some (Excep UNDEF))"


lemma handler_table_low:
  "list_all (\<lambda>v. map_of handler_table v = (if v = 1 then Some (Excep DF) else expected_entry v)) [0..<32]"
  by code_simp

lemma handler_table_cases:
  obtains (reserved) "v < 32" "map_of handler_table v = None" "expected_entry v = None" "v \<noteq> 1"
  | (exception) h where "v < 32" "map_of handler_table v = Some (if v = 1 then Excep DF else h)" "expected_entry v = Some h"
  | (device) h where "32 \<le> v" "map_of handler_table v = Some h" "expected_entry v = Some h"
  | (other) "32 \<le> v" "map_of handler_table v = None" "expected_entry v = Some (Excep UNDEF)"
proof (cases "v < 32")
  case True
  then have "map_of handler_table v = (if v = 1 then Some (Excep DF) else expected_entry v)"
    using handler_table_low by (simp add: list_all_iff)
  moreover have "expected_entry 1 \<noteq> None" by (simp add: expected_entry_def)
  ultimately show ?thesis using reserved exception True by (cases "expected_entry v"; cases "v = 1") auto
next
  case False
  then show ?thesis
    using device [of Keyboard_helper] device [of Rtc_helper] device [of Asm_linkage] other
    by (cases "v \<in> {33, 40, 128}") (auto simp: handler_table_def expected_entry_def)
qed

text \<open>A sample table and sample entry addresses for the witnesses.\<close>

definition idt_demo :: idt_state where
  "idt_demo = keyboard.extend kb_demo \<lparr>idt = replicate 256 \<lparr>offset_15_00 = 0, seg_selector = 0, reserved4 = 0, reserved3 = 0,
     reserved2 = 0, reserved1 = 0, gate_size = 0, reserved0 = 0, dpl = 0, present = 0, offset_31_16 = 0\<rparr>, idtr = None\<rparr>"

definition demo_entry :: "entry_point \<Rightarrow> u32" where
  "demo_entry h = (case h of Excep e \<Rightarrow> 0x400100 | Keyboard_helper \<Rightarrow> 0x400180 | Rtc_helper \<Rightarrow> 0x4001C0 | Asm_linkage \<Rightarrow> 0x400200)"

lemma idt_demo_length: "length (idt idt_demo) = 256"
  by (simp add: idt_demo_def keyboard.defs)

text \<open>C25: the interrupt descriptor table.  \<open>IDT_init\<close> loads the table register and changes nothing
  but the table.  Afterwards the processor finds in each of the 256 gates a present 32-bit gate of
  the kernel code segment: a trap gate below 32, an interrupt gate from 32 on, callable from user
  mode only at 0x80.  Every vector leads to the entry point that belongs to it, with two
  exceptions: vector 1, the debug exception, leads to the double fault handler, and the reserved
  vectors 15 and 20 to 31 keep the offset the table had before although they are marked present.\<close>

theorem IDT_init_correct:
  assumes "length (idt s) = 256" and "v < 256"
  shows "IDT_init desc_ptr entry_of s = s\<lparr>idt := idt (IDT_init desc_ptr entry_of s), idtr := Some desc_ptr\<rparr> \<and>
    length (idt (IDT_init desc_ptr entry_of s)) = 256 \<and>
    (let g = gate_bytes (idt (IDT_init desc_ptr entry_of s) ! v)
     in gate_selector g = 0x10 \<and>
        gate_flags g = (if v < 32 then 0x8F else if v = 0x80 then 0xEE else 0x8E) \<and>
        gate_offset g = (case expected_entry v of
            Some h \<Rightarrow> entry_of (if v = 1 then Excep DF else h)
          | None \<Rightarrow> gate_offset (gate_bytes (idt s ! v))))"
proof -
  let ?s = "s\<lparr>idtr := Some desc_ptr\<rparr>"
  let ?t = "init_gates entry_of 0 ?s"
  have t: "?t = ?s\<lparr>idt := map (\<lambda>v. init_gate entry_of v (idt s ! v)) [0..<256]\<rparr>"
    using idt_init_gates [of 0 ?s entry_of] assms(1) by simp
  have len: "length (idt ?t) = 256" and at: "idt ?t ! v = init_gate entry_of v (idt s ! v)"
    using assms(2) by (simp_all add: t)
  have "distinct (map fst handler_table)" "\<forall>v \<in> fst ` set handler_table. v < length (idt ?t)"
    unfolding len by (simp_all add: handler_table_def)
  note fold = fold_set_gate [OF this, of entry_of, unfolded Let_def]
  have eq: "IDT_init desc_ptr entry_of s = fold (\<lambda>(v, h). set_gate v (entry_of h)) handler_table ?t"
    by (simp add: IDT_init_def)
  have "IDT_init desc_ptr entry_of s = s\<lparr>idt := idt (IDT_init desc_ptr entry_of s), idtr := Some desc_ptr\<rparr>"
    unfolding eq by (rule trans [OF conjunct1 [OF fold]]) (simp add: t)
  moreover have "length (idt (IDT_init desc_ptr entry_of s)) = 256" using fold len unfolding eq by simp
  moreover have g: "idt (IDT_init desc_ptr entry_of s) ! v = (case map_of handler_table v of
      Some h \<Rightarrow> SET_IDT_ENTRY (init_gate entry_of v (idt s ! v)) (entry_of h) | None \<Rightarrow> init_gate entry_of v (idt s ! v))"
    unfolding eq at [symmetric] by (rule spec [OF conjunct2 [OF conjunct2 [OF fold]]])
  moreover have "let g = gate_bytes (idt (IDT_init desc_ptr entry_of s) ! v)
     in gate_selector g = 0x10 \<and>
        gate_flags g = (if v < 32 then 0x8F else if v = 0x80 then 0xEE else 0x8E) \<and>
        gate_offset g = (case expected_entry v of
            Some h \<Rightarrow> entry_of (if v = 1 then Excep DF else h)
          | None \<Rightarrow> gate_offset (gate_bytes (idt s ! v)))"
    unfolding g by (cases v rule: handler_table_cases) (auto simp: gate_header_init gate_offset_init Let_def)
  ultimately show ?thesis by (intro conjI)
qed

theorem IDT_init_correct_witness:
  "gate_offset (gate_bytes (idt (IDT_init 0x40A000 demo_entry idt_demo) ! 0x80)) = 0x400200"
  using IDT_init_correct [of idt_demo "0x80" "0x40A000" demo_entry] idt_demo_length
  by (simp add: expected_entry_def Let_def demo_entry_def)

lemma excep_message_inj: "excep_message e' = excep_message e \<Longrightarrow> e' = e"
  by (cases e; cases e'; simp)

text \<open>What is printed before the message, and the statements from the message on.\<close>

definition error_codes :: "u32 \<Rightarrow> u32 \<Rightarrow> excep \<Rightarrow> byte list" where
  "error_codes code code2 e =
     (if e = GP then lit ''error_code:'' @ numeral_bytes 16 (unat code) @ [10] @ lit ''error_code:'' @ numeral_bytes 16 (unat code2) else [])"

definition excep_end :: "excep \<Rightarrow> excep_stmt list" where
  "excep_end e = [Do_printf (excep_message e @ [CHR 0x0A]) [], While_1, Do_sti]"

lemma error_codes_printed:
  assumes "on_screen s" and "off_vram cb 64"
  shows "\<exists>s1. rtranclp (excep_step cb) (tl (excep_handler code code2 e), irqs, s) (excep_end e, irqs, s1) \<and> prints cb (error_codes code code2 e) s s1"
proof (cases "e = GP")
  case True
  obtain s1 where s1: "kprintf cb (''error_code:%x'' @ [CHR 0x0A]) [code] s = Some s1"
    "prints cb (lit ''error_code:'' @ numeral_bytes 16 (unat code) @ [10]) s s1"
    using kprintf_prints [OF assms, of "''error_code:%x'' @ [CHR 0x0A]" "[code]"]
    by (auto simp: lit_def takes_arg_def conv_text_def)
  obtain s2 where s2: "kprintf cb ''error_code:%x'' [code2] s1 = Some s2"
    "prints cb (lit ''error_code:'' @ numeral_bytes 16 (unat code2)) s1 s2"
    using kprintf_prints [OF prints_on_screen [OF s1(2)] assms(2), of "''error_code:%x''" "[code2]"]
    by (auto simp: lit_def takes_arg_def conv_text_def)
  have "rtranclp (excep_step cb) (tl (excep_handler code code2 e), irqs, s) (excep_end e, irqs, s2)"
    using printf_steps [OF s1(1) printf_steps [OF s2(1) rtranclp.rtrancl_refl], of "excep_end e" irqs] True by (simp add: excep_handler_def excep_end_def)
  then show ?thesis using True prints_trans [OF s1(2) s2(2)] by (auto simp: error_codes_def)
next
  case False
  then show ?thesis using assms(1) by (intro exI [of _ "s"]) (simp add: error_codes_def prints_refl excep_handler_def excep_end_def)
qed

lemma message_printed:
  assumes "on_screen s" and "off_vram cb 64"
  shows "\<exists>s1. rtranclp (excep_step cb) (excep_end e, irqs, s) ([While_1, Do_sti], irqs, s1) \<and> prints cb (lit (excep_message e) @ [10]) s s1"
proof -
  have "CHR 0x00 \<notin> set (excep_message e @ [CHR 0x0A])" "37 \<notin> set (lit (excep_message e @ [CHR 0x0A]))"
    "length (excep_message e @ [CHR 0x0A]) < 4294967296"
    by (cases e; simp add: lit_def)+
  from kprintf_plain [OF assms this] obtain s1 where
    s1: "kprintf cb (excep_message e @ [CHR 0x0A]) [] s = Some s1" "prints cb (lit (excep_message e @ [CHR 0x0A])) s s1" by blast
  from printf_steps [OF s1(1) rtranclp.rtrancl_refl] s1(2) show ?thesis by (auto simp: excep_end_def lit_def)
qed

text \<open>C40: exceptions stop the machine with a message.  With the cursor on the page, every exception handler disables interrupts, shows its message (the general
  protection handler the two stack words it reads in hexadecimal before it), which tells the exceptions apart, changes nothing else but the conversion
  buffer of \<open>printf\<close> and arrives at its endless loop.  From there no other configuration is ever reached: interrupts are disabled, so whatever is pending is not
  served.  And however the handler is interrupted before its \<open>cli\<close>, it never gets to its end.\<close>

theorem excep_handler_stops:
  assumes "on_screen s" and "off_vram cb 64"
  shows "(\<exists>s'. rtranclp (excep_step cb) (excep_handler code code2 e, irqs, s) ([While_1, Do_sti], irqs, s') \<and>
      (\<forall>cf. rtranclp (excep_step cb) ([While_1, Do_sti], irqs, s') cf \<longrightarrow> cf = ([While_1, Do_sti], irqs, s')) \<and>
      prints cb (error_codes code code2 e @ lit (excep_message e) @ [10]) (cli s) s') \<and>
    (\<forall>irqs' t. \<not> rtranclp (excep_step cb) (excep_handler code code2 e, irqs, s) ([], irqs', t)) \<and>
    (\<forall>e'. excep_message e' = excep_message e \<longrightarrow> e' = e)"
proof (intro conjI allI notI impI)
  have on: "on_screen (cli s)" using assms(1) by (simp add: cli_def on_screen_def)
  have step: "rtranclp (excep_step cb) (excep_handler code code2 e, irqs, s) (tl (excep_handler code code2 e), irqs, cli s)"
    using excep_step.cli [of cb "tl (excep_handler code code2 e)" irqs s] by (auto simp: excep_handler_def)
  obtain s1 where s1: "rtranclp (excep_step cb) (tl (excep_handler code code2 e), irqs, cli s) (excep_end e, irqs, s1)"
    "prints cb (error_codes code code2 e) (cli s) s1" using error_codes_printed [OF on assms(2)] by blast
  obtain s2 where s2: "rtranclp (excep_step cb) (excep_end e, irqs, s1) ([While_1, Do_sti], irqs, s2)" "prints cb (lit (excep_message e) @ [10]) s1 s2"
    using message_printed [OF prints_on_screen [OF s1(2)] assms(2)] by blast
  note p = prints_trans [OF s1(2) s2(2)]
  then have "intr (others s2) = intr (others (cli s))" by (simp add: prints_def)
  then have "\<not> intr s2" by (simp add: others_def)
  then show "\<exists>s'. rtranclp (excep_step cb) (excep_handler code code2 e, irqs, s) ([While_1, Do_sti], irqs, s') \<and>
      (\<forall>cf. rtranclp (excep_step cb) ([While_1, Do_sti], irqs, s') cf \<longrightarrow> cf = ([While_1, Do_sti], irqs, s')) \<and>
      prints cb (error_codes code code2 e @ lit (excep_message e) @ [10]) (cli s) s'"
    using p rtranclp_trans [OF step rtranclp_trans [OF s1(1) s2(1)]] while_1_stays by blast
next
  fix irqs' t assume "rtranclp (excep_step cb) (excep_handler code code2 e, irqs, s) ([], irqs', t)"
  then have "While_1 \<in> set (fst ([] :: excep_stmt list, irqs', t))"
    by (induction rule: rtranclp_induct) (simp add: excep_handler_def, blast intro: while_1_left)
  then show False by simp
qed (rule excep_message_inj)

theorem excep_handler_stops_witness:
  "\<exists>s'. rtranclp (excep_step 0x7FFE00) (excep_handler 0 0 PF, [Some], kb_demo) ([While_1, Do_sti], [Some], s') \<and>
    (\<forall>cf. rtranclp (excep_step 0x7FFE00) ([While_1, Do_sti], [Some], s') cf \<longrightarrow> cf = ([While_1, Do_sti], [Some], s')) \<and>
    term_of s' = fold t_putc (lit ''Page falut exception!'' @ [10]) (term_of (cli kb_demo))"
proof -
  have "on_screen kb_demo" using kb_demo_ok(1) by (simp add: kb_ok_def)
  moreover have "off_vram 0x7FFE00 64" by (simp add: off_vram_def separate_def)
  ultimately show ?thesis
    using excep_handler_stops [of kb_demo "0x7FFE00" 0 0 PF "[Some]"] by (auto simp: prints_def error_codes_def)
qed

end
