(* ===== verification/Frame.thy ===== *)
theory Frame
  imports LibString
begin

text \<open>
  Reasoning about blocks of memory: when two blocks are apart, and views of memory that depend on one
  block only.  \<open>local_view\<close> is the interface between a structure in memory and the operations on other
  structures: whatever reads a block is not changed by stores, copies and fills elsewhere.
\<close>

unbundle bit_operations_syntax

section \<open>Blocks apart\<close>

lemma separateI:
  fixes p q :: u32
  assumes "unat p + n \<le> unat q \<or> unat q + k \<le> unat p" and "unat p + n \<le> 4294967296" and "unat q + k \<le> 4294967296"
    and "0 < n" and "0 < k"
  shows "separate p n q k"
proof -
  have *: "separate p n q k" if "unat p + n \<le> unat q" "unat q + k \<le> 4294967296" "0 < n" for p q :: u32 and n k
  proof -
    have "unat (q - p) = unat q - unat p" using that(1) by (intro unat_sub) (simp add: word_le_nat_alt)
    moreover have "unat (p - q) = unat p + 4294967296 - unat q" using that(1,3) by (simp add: unat_sub_if_size word_size)
    ultimately show ?thesis using that(1,2) unfolding separate_def by (intro conjI) linarith+
  qed
  show ?thesis using assms(1)
  proof
    assume "unat p + n \<le> unat q"
    then show ?thesis using * assms by blast
  next
    assume "unat q + k \<le> unat p"
    then have "separate q k p n" using * assms by blast
    then show ?thesis using separate_sym by blast
  qed
qed

lemma separate_offsets:
  fixes p :: u32
  assumes "a + n \<le> b \<or> b + k \<le> a" and "a + n \<le> 2147483648" and "b + k \<le> 2147483648" and "0 < n" and "0 < k"
  shows "separate (p + of_nat a) n (p + of_nat b) k"
proof -
  have *: "separate (p + of_nat a) n (p + of_nat b) k"
    if "a + n \<le> b" "b + k \<le> 2147483648" "0 < n" for a b n k
  proof -
    have d: "p + of_nat b - (p + of_nat a) = of_nat (b - a)" "p + of_nat a - (p + of_nat b) = - of_nat (b - a)"
      using that(1) by (simp_all add: of_nat_diff)
    have u: "unat (of_nat (b - a) :: u32) = b - a" using that by (intro unat_of_nat_u32) simp
    have "unat (0 - of_nat (b - a) :: u32) = 4294967296 - (b - a)"
      using that unfolding unat_sub_if_size u by (simp add: word_size)
    then have v: "unat (- of_nat (b - a) :: u32) = 4294967296 - (b - a)" by (simp only: diff_0)
    show ?thesis unfolding separate_def d u v using that by (intro conjI) linarith+
  qed
  show ?thesis using assms(1)
  proof
    assume "a + n \<le> b"
    then show ?thesis using * assms by blast
  next
    assume "b + k \<le> a"
    then have "separate (p + of_nat b) k (p + of_nat a) n" using * assms by blast
    then show ?thesis using separate_sym by blast
  qed
qed

lemma within_sub_block: "within (p + of_nat i) k a \<Longrightarrow> i + k \<le> n \<Longrightarrow> n \<le> 4294967296 \<Longrightarrow> within p n a"
proof -
  assume w: "within (p + of_nat i) k a" and le: "i + k \<le> n" "n \<le> 4294967296"
  then obtain j where j: "j < k" "a = p + of_nat i + of_nat j" by (auto simp: within_iff)
  then have "a = p + of_nat (i + j)" by (simp add: add.assoc)
  then show ?thesis using j(1) le by (simp del: of_nat_add)
qed

lemma load32_store32_offset:
  "a + 4 \<le> b \<or> b + 4 \<le> a \<Longrightarrow> a + 4 \<le> 2147483648 \<Longrightarrow> b + 4 \<le> 2147483648 \<Longrightarrow>
    load32 (store32 m (p + of_nat a) v) (p + of_nat b) = load32 m (p + of_nat b)"
  by (rule load32_store32_other) (rule separate_offsets, simp_all)

text \<open>Blocks without a common address.\<close>

definition apart :: "u32 \<Rightarrow> nat \<Rightarrow> u32 \<Rightarrow> nat \<Rightarrow> bool" where
  "apart p n q k \<longleftrightarrow> (\<forall>a. within p n a \<longrightarrow> \<not> within q k a)"

lemma apart_sym: "apart p n q k \<longleftrightarrow> apart q k p n"
  by (auto simp: apart_def)

lemma apartD: "apart p n q k \<Longrightarrow> within p n a \<Longrightarrow> \<not> within q k a"
  by (auto simp: apart_def)

lemma separate_apart: "separate p n q k \<Longrightarrow> apart p n q k"
  using separate_within by (auto simp: apart_def)

lemma apart_sub: "apart p n q k \<Longrightarrow> (\<And>a. within p' n' a \<Longrightarrow> within p n a) \<Longrightarrow> apart p' n' q k"
  by (auto simp: apart_def)

lemma apart_offsets:
  "a + n \<le> b \<or> b + k \<le> a \<Longrightarrow> a + n \<le> 2147483648 \<Longrightarrow> b + k \<le> 2147483648 \<Longrightarrow> apart (p + of_nat a) n (p + of_nat b) k"
  using separate_apart [OF separate_offsets, of a n b k p] by (cases "n = 0 \<or> k = 0") (auto simp: apart_def)

lemma apart_forward_safe:
  assumes "apart d n p n"
  shows "forward_safe d p n"
proof (cases "n = 0")
  case False
  then have "within d n d" by (simp add: within_def)
  then have "\<not> within p n d" using apartD [OF assms] by blast
  then show ?thesis by (simp add: forward_safe_def within_def not_less)
qed (simp add: forward_safe_def)

lemma cstr_blit:
  assumes "cstr (ptr m src) xs"
  shows "cstr (ptr (blit m d src (Suc (length xs))) d) xs"
proof (rule cstrI)
  show "0 \<notin> set xs" "length xs < 4294967296" using assms by (simp_all add: cstr_def)
qed (use cstr_nth [OF assms] cstr_end [OF assms] assms in \<open>auto simp: blit_offset cstr_def\<close>)

section \<open>Views of a block\<close>

locale local_view =
  fixes base :: u32 and len :: nat and view :: "mem \<Rightarrow> 'v"
  assumes local: "(\<And>a. within base len a \<Longrightarrow> m a = m' a) \<Longrightarrow> view m = view m'"
begin

lemma frame:
  assumes "apart base len q k" and "\<And>a. \<not> within q k a \<Longrightarrow> m' a = m a"
  shows "view m' = view m"
  using assms apartD by (intro local) blast

lemma frame_store32: "apart base len q 4 \<Longrightarrow> view (store32 m q v) = view m"
  by (rule frame) (auto intro: store32_other)

lemma frame_poke: "apart base len q (length bs) \<Longrightarrow> view (poke m q bs) = view m"
  by (rule frame) (auto intro: poke_other)

lemma frame_update: "\<not> within base len q \<Longrightarrow> view (m(q := b)) = view m"
  by (rule local) auto

lemma frame_blit: "apart base len q n \<Longrightarrow> view (blit m q src n) = view m"
  by (rule frame) (auto simp: blit_def)

lemma frame_fill: "apart base len q n \<Longrightarrow> view (fill m q n b) = view m"
  by (rule frame) (auto simp: fill_def)

end

text \<open>A word in memory, and a string with its terminating zero.\<close>

interpretation word_at: local_view p 4 "\<lambda>m. load32 m p" for p
  by unfold_locales (auto intro!: load32_cong)

interpretation string_at: local_view p "Suc (length xs)" "\<lambda>m. cstr (ptr m p) xs" for p xs
proof unfold_locales
  fix m m' :: mem
  assume eq: "\<And>a. within p (Suc (length xs)) a \<Longrightarrow> m a = m' a"
  have "m (p + of_nat i) = m' (p + of_nat i)" if "i \<le> length xs" "length xs < 4294967296" for i using eq that by simp
  then show "cstr (ptr m p) xs = cstr (ptr m' p) xs" by (auto simp: cstr_def list_eq_iff_nth_eq)
qed

end
