(* ===== verification/Paging.thy ===== *)
theory Paging
  imports Idt Frame
begin

text \<open>
  Paging: \<^verbatim>\<open>student-distrib/mypaging.c\<close> and the paging structures of \<^verbatim>\<open>student-distrib/x86_desc.h\<close>.
  The tables lie in the flat memory, at the addresses \<open>pt\<close> of \<open>page_table_shell\<close> and \<open>pd\<close> of
  \<open>page_directories\<close> the linker chooses.  An assignment to a bit-field is a read-modify-write of the
  32-bit entry that holds it (\<open>put_field\<close>).

  \<open>walk\<close> is the translation the processor performs, from the manual: a directory entry that is absent
  faults, one with the page-size bit maps 4 MB (and faults when a reserved bit is set), any other
  leads to a page table.  It is the specification against which the two operations are proved.

  The memory of the model is the linear address space the kernel uses.  Kernel and video memory are
  mapped at their physical addresses; only the program window from 128 MB to 132 MB shows another
  physical frame for each process.  \<open>frames\<close> is the physical memory those frames lie in, \<open>shown\<close> the
  frame the window shows, and \<open>load_cr3\<close> writes the window back to that frame and shows the one of the
  new directory: a change of the tables takes effect when the directory register is loaded.
\<close>

unbundle bit_operations_syntax

section \<open>Bit-fields\<close>

definition set_field :: "nat \<Rightarrow> nat \<Rightarrow> u32 \<Rightarrow> u32 \<Rightarrow> u32" where
  "set_field lo w v x = (x AND NOT (push_bit lo (mask w))) OR push_bit lo (take_bit w v)"

definition get_field :: "nat \<Rightarrow> nat \<Rightarrow> u32 \<Rightarrow> u32" where
  "get_field lo w x = take_bit w (drop_bit lo x)"

definition put_field :: "u32 \<Rightarrow> nat \<times> nat \<Rightarrow> u32 \<Rightarrow> mem \<Rightarrow> mem" where
  "put_field a = (\<lambda>(lo, w) v m. store32 m a (set_field lo w v (load32 m a)))"

definition put_fields :: "u32 \<Rightarrow> ((nat \<times> nat) \<times> u32) list \<Rightarrow> mem \<Rightarrow> mem" where
  "put_fields a fs = fold (\<lambda>(f, v). put_field a f v) fs"

text \<open>Position and width of the fields of \<open>pde_4KB\<close>, \<open>pe_4KB\<close> and \<open>pde_4MB\<close>.\<close>

abbreviation present_f :: "nat \<times> nat" where "present_f \<equiv> (0, 1)"
abbreviation read_write_f :: "nat \<times> nat" where "read_write_f \<equiv> (1, 1)"
abbreviation user_supervisor_f :: "nat \<times> nat" where "user_supervisor_f \<equiv> (2, 1)"
abbreviation write_through_f :: "nat \<times> nat" where "write_through_f \<equiv> (3, 1)"
abbreviation cache_disabled_f :: "nat \<times> nat" where "cache_disabled_f \<equiv> (4, 1)"
abbreviation accessed_f :: "nat \<times> nat" where "accessed_f \<equiv> (5, 1)"
abbreviation dirty_f :: "nat \<times> nat" where "dirty_f \<equiv> (6, 1)"
abbreviation KB_reserved_f :: "nat \<times> nat" where "KB_reserved_f \<equiv> (6, 1)"
abbreviation page_size_f :: "nat \<times> nat" where "page_size_f \<equiv> (7, 1)"
abbreviation PTE_pat_f :: "nat \<times> nat" where "PTE_pat_f \<equiv> (7, 1)"
abbreviation global_f :: "nat \<times> nat" where "global_f \<equiv> (8, 1)"
abbreviation available_f :: "nat \<times> nat" where "available_f \<equiv> (9, 3)"
abbreviation KB_base_addr_f :: "nat \<times> nat" where "KB_base_addr_f \<equiv> (12, 20)"
abbreviation MB_pat_f :: "nat \<times> nat" where "MB_pat_f \<equiv> (12, 1)"
abbreviation MB_base_addr_f :: "nat \<times> nat" where "MB_base_addr_f \<equiv> (22, 10)"

section \<open>The operations\<close>

record paging = idt_state +
  cr0 :: u32
  cr3 :: u32
  cr4 :: u32
  page_dir_address :: u32
  frames :: mem
  shown :: "u32 option"

text \<open>The loop bodies over the page table and the directory, in the order of the assignments.\<close>

definition pte_fields :: "nat \<Rightarrow> ((nat \<times> nat) \<times> u32) list" where
  "pte_fields i =
     [(present_f, if i = 184 then 1 else 0), (read_write_f, if i = 184 then 1 else 0),
      (user_supervisor_f, if i = 184 then 1 else 0), (write_through_f, 0), (cache_disabled_f, 0), (accessed_f, 0),
      (dirty_f, 0), (PTE_pat_f, 0), (global_f, 0), (available_f, 0), (KB_base_addr_f, of_nat i)]"

definition pde0_fields :: "u32 \<Rightarrow> ((nat \<times> nat) \<times> u32) list" where
  "pde0_fields pt =
     [(present_f, 1), (read_write_f, 1), (user_supervisor_f, 1), (write_through_f, 0), (cache_disabled_f, 0), (accessed_f, 0),
      (KB_reserved_f, 0), (page_size_f, 0), (global_f, 0), (available_f, 0), (KB_base_addr_f, signed_drop_bit 12 pt)]"

definition pde_fields_init :: "nat \<Rightarrow> ((nat \<times> nat) \<times> u32) list" where
  "pde_fields_init i =
     [(present_f, if i = 1 then 1 else 0), (read_write_f, if i = 1 then 1 else 0), (user_supervisor_f, 0),
      (write_through_f, 0), (cache_disabled_f, 0), (accessed_f, 0), (dirty_f, 0), (page_size_f, if i = 1 then 1 else 0),
      (global_f, if i = 1 then 1 else 0), (available_f, 0), (MB_pat_f, 0), (MB_base_addr_f, of_nat i)]"

definition pde_fields_kernel :: "((nat \<times> nat) \<times> u32) list" where
  "pde_fields_kernel =
     [(present_f, 1), (read_write_f, 1), (user_supervisor_f, 0), (write_through_f, 0), (cache_disabled_f, 0), (accessed_f, 0),
      (dirty_f, 0), (page_size_f, 1), (global_f, 1), (available_f, 0), (MB_pat_f, 0), (MB_base_addr_f, 1)]"

definition pde_fields_unused :: "nat \<Rightarrow> ((nat \<times> nat) \<times> u32) list" where
  "pde_fields_unused i =
     [(present_f, 0), (read_write_f, 0), (user_supervisor_f, 0), (write_through_f, 0), (cache_disabled_f, 0), (accessed_f, 0),
      (dirty_f, 0), (page_size_f, 1), (global_f, 0), (available_f, 0), (MB_pat_f, 0), (MB_base_addr_f, 0)]"

definition pde_fields_program :: "int \<Rightarrow> ((nat \<times> nat) \<times> u32) list" where
  "pde_fields_program process =
     [(present_f, 1), (read_write_f, 1), (user_supervisor_f, 1), (write_through_f, 0), (cache_disabled_f, 0), (accessed_f, 0),
      (dirty_f, 0), (page_size_f, 1), (global_f, 0), (available_f, 0), (MB_pat_f, 0), (MB_base_addr_f, of_int (process + 1))]"

text \<open>\<^verbatim>\<open>for (; i < 1024; i++)\<close> over the entries of a table.\<close>

function entry_loop :: "(nat \<Rightarrow> ((nat \<times> nat) \<times> u32) list) \<Rightarrow> u32 \<Rightarrow> nat \<Rightarrow> mem \<Rightarrow> mem" where
  "entry_loop fs table i m =
     (if i < 1024 then entry_loop fs table (i + 1) (put_fields (table + 4 * of_nat i) (fs i) m) else m)"
  by pat_completeness auto
termination
  by (relation "measure (\<lambda>(fs, table, i, m). 1024 - i)") auto

declare entry_loop.simps [simp del]

section \<open>Address translation\<close>

text \<open>A translation is the physical address with user access and write permission.\<close>

definition walk :: "bool \<Rightarrow> mem \<Rightarrow> u32 \<Rightarrow> u32 \<Rightarrow> (u32 \<times> bool \<times> bool) option" where
  "walk pse m dir va =
     (let pde = load32 m ((dir AND 0xFFFFF000) + 4 * drop_bit 22 va) in
      if get_field 0 1 pde = 0 then None
      else if pse \<and> get_field 7 1 pde = 1 then
        (if get_field 13 9 pde \<noteq> 0 then None
         else Some (push_bit 22 (get_field 22 10 pde) OR take_bit 22 va, get_field 2 1 pde = 1, get_field 1 1 pde = 1))
      else
        (let pte = load32 m (push_bit 12 (get_field 12 20 pde) + 4 * get_field 12 10 va) in
         if get_field 0 1 pte = 0 then None
         else Some (push_bit 12 (get_field 12 20 pte) OR take_bit 12 va,
                    get_field 2 1 pde = 1 \<and> get_field 2 1 pte = 1, get_field 1 1 pde = 1 \<and> get_field 1 1 pte = 1)))"

definition translate :: "'a paging_scheme \<Rightarrow> u32 \<Rightarrow> (u32 \<times> bool \<times> bool) option" where
  "translate s va = (if bit (cr0 s) 31 then walk (bit (cr4 s) 4) (mem s) (cr3 s) va else Some (va, True, True))"

abbreviation WINDOW :: u32 where "WINDOW \<equiv> 0x08000000"
abbreviation WINDOW_SIZE :: nat where "WINDOW_SIZE \<equiv> 0x400000"

definition copy_frame :: "mem \<Rightarrow> u32 \<Rightarrow> mem \<Rightarrow> u32 \<Rightarrow> mem" where
  "copy_frame m d m' d' = (\<lambda>a. if within d WINDOW_SIZE a then m' (d' + (a - d)) else m a)"

definition save_window :: "'a paging_scheme \<Rightarrow> 'a paging_scheme" where
  "save_window s = (case shown s of
     Some f \<Rightarrow> s\<lparr>frames := copy_frame (frames s) f (mem s) WINDOW\<rparr> | None \<Rightarrow> s)"

definition show_window :: "'a paging_scheme \<Rightarrow> 'a paging_scheme" where
  "show_window s = (case walk True (mem s) (cr3 s) WINDOW of
     Some (f, _) \<Rightarrow> s\<lparr>mem := copy_frame (mem s) WINDOW (frames s) f, shown := Some f\<rparr>
   | None \<Rightarrow> s\<lparr>shown := None\<rparr>)"

definition load_cr3 :: "u32 \<Rightarrow> 'a paging_scheme \<Rightarrow> 'a paging_scheme" where
  "load_cr3 v s = show_window ((save_window s)\<lparr>cr3 := v\<rparr>)"

text \<open>The three assembly blocks at the end of both functions.\<close>

definition set_control_registers :: "u32 \<Rightarrow> 'a paging_scheme \<Rightarrow> 'a paging_scheme" where
  "set_control_registers dir s =
     (let s = load_cr3 (dir AND 0xFFFFFFE7) s;
          s = s\<lparr>cr4 := cr4 s OR 0x00000010\<rparr>
      in s\<lparr>cr0 := cr0 s OR 0x80000000\<rparr>)"

definition init_tables :: "u32 \<Rightarrow> u32 \<Rightarrow> mem \<Rightarrow> mem" where
  "init_tables pt pd m =
     (let m = entry_loop pte_fields pt 0 m;
          m = put_fields pd (pde0_fields pt) m
      in entry_loop pde_fields_init pd 1 m)"

definition init_paging :: "u32 \<Rightarrow> u32 \<Rightarrow> 'a paging_scheme \<Rightarrow> 'a paging_scheme" where
  "init_paging pt pd s = set_control_registers pd (s\<lparr>mem := init_tables pt pd (mem s)\<rparr>)"

definition create_tables :: "u32 \<Rightarrow> u32 \<Rightarrow> int \<Rightarrow> mem \<Rightarrow> mem" where
  "create_tables pt dir process m =
     (let m = entry_loop pte_fields pt 0 m;
          m = put_fields dir (pde0_fields pt) m;
          m = put_fields (dir + 4 * 1) pde_fields_kernel m;
          m = entry_loop pde_fields_unused dir 2 m
      in put_fields (dir + 4 * 32) (pde_fields_program process) m)"

definition create_paging :: "u32 \<Rightarrow> u32 \<Rightarrow> int \<Rightarrow> 'a paging_scheme \<Rightarrow> 'a paging_scheme" where
  "create_paging pt pd process s =
     (if process \<ge> 7 \<or> process < 0 then s
      else
        let dir = pd + 4096 * of_int (process - 1);
            s = s\<lparr>mem := create_tables pt dir process (mem s)\<rparr>;
            s = s\<lparr>page_dir_address := dir\<rparr>
        in set_control_registers (page_dir_address s) s)"

section \<open>Fields of an entry\<close>

lemma bit_set_field:
  "n < 32 \<Longrightarrow> bit (set_field lo w v x) n \<longleftrightarrow> (if lo \<le> n \<and> n < lo + w then bit v (n - lo) else bit x n)"
  by (auto simp: set_field_def bit_simps)

lemma bit_get_field: "bit (get_field lo w x) n \<longleftrightarrow> n < w \<and> bit x (lo + n)"
  by (auto simp: get_field_def bit_simps dest: bit_imp_le_length)

lemma get_set_field [simp]: "lo + w \<le> 32 \<Longrightarrow> get_field lo w (set_field lo w v x) = take_bit w v"
  by (rule bit_word_eqI) (auto simp: bit_get_field bit_set_field bit_simps)

lemma get_set_field_other [simp]:
  assumes "lo + w \<le> lo' \<or> lo' + w' \<le> lo"
  shows "get_field lo w (set_field lo' w' v x) = get_field lo w x"
proof (rule bit_word_eqI)
  fix n assume "n < LENGTH(32)"
  show "bit (get_field lo w (set_field lo' w' v x)) n = bit (get_field lo w x) n"
  proof (cases "lo + n < 32")
    case True
    then show ?thesis using assms by (auto simp: bit_get_field bit_set_field)
  next
    case False
    then show ?thesis by (auto simp: bit_get_field dest: bit_imp_le_length)
  qed
qed

definition set_fields :: "((nat \<times> nat) \<times> u32) list \<Rightarrow> u32 \<Rightarrow> u32" where
  "set_fields fs = fold (\<lambda>((lo, w), v). set_field lo w v) fs"

lemma put_fields_Cons: "put_fields a (((lo, w), v) # fs) m = put_fields a fs (store32 m a (set_field lo w v (load32 m a)))"
  by (simp add: put_fields_def put_field_def)

lemma load32_put_fields: "load32 (put_fields a fs m) a = set_fields fs (load32 m a)"
proof (induction fs arbitrary: m)
  case (Cons f fs)
  obtain lo w v where "f = ((lo, w), v)" by (metis surj_pair)
  then show ?case by (simp add: put_fields_Cons Cons.IH set_fields_def)
qed (simp add: put_fields_def set_fields_def)

lemma put_fields_other: "\<not> within a 4 b \<Longrightarrow> put_fields a fs m b = m b"
proof (induction fs arbitrary: m)
  case (Cons f fs)
  obtain lo w v where "f = ((lo, w), v)" by (metis surj_pair)
  then show ?case using Cons by (simp add: put_fields_Cons store32_other)
qed (simp add: put_fields_def)

section \<open>Entries of a table\<close>

definition entry :: "mem \<Rightarrow> u32 \<Rightarrow> nat \<Rightarrow> u32" where
  "entry m table i = load32 m (table + 4 * of_nat i)"

lemma entry_in_table: "i < 1024 \<Longrightarrow> within (table + 4 * of_nat i) 4 a \<Longrightarrow> within table 4096 a"
proof -
  assume i: "i < 1024" and "within (table + 4 * of_nat i) 4 a"
  then obtain k where k: "k < 4" "a = table + 4 * of_nat i + of_nat k" by (auto simp: within_iff)
  then have "a = table + of_nat (4 * i + k)" by simp
  then show ?thesis using within_offset [of "4 * i + k" table 4096] i k(1) by simp
qed

lemma entries_disjoint:
  assumes "i < 1024" and "j < 1024" and "i \<noteq> j" and "within (table + 4 * of_nat j) 4 a"
  shows "\<not> within (table + 4 * of_nat i) 4 a"
proof
  assume "within (table + 4 * of_nat i) 4 a"
  then obtain k where k: "k < 4" "a = table + of_nat (4 * i + k)" by (auto simp: within_iff algebra_simps)
  obtain l where l: "l < 4" "a = table + of_nat (4 * j + l)" using assms(4) by (auto simp: within_iff algebra_simps)
  have "4 * i + k = 4 * j + l" using add_of_nat_u32_inj [of "4 * i + k" "4 * j + l" table] k l assms(1,2) by simp
  then show False using k(1) l(1) assms(3) by arith
qed

lemma entry_cong: "(\<And>a. within (table + 4 * of_nat i) 4 a \<Longrightarrow> m a = m' a) \<Longrightarrow> entry m table i = entry m' table i"
  unfolding entry_def by (rule load32_cong) (simp add: within_offset)

lemma entry_put_fields:
  "i < 1024 \<Longrightarrow> j < 1024 \<Longrightarrow>
    entry (put_fields (table + 4 * of_nat i) fs m) table j = (if i = j then set_fields fs (entry m table j) else entry m table j)"
  using entry_cong [of table j "put_fields (table + 4 * of_nat i) fs m" m] put_fields_other entries_disjoint [of i j table]
  by (cases "i = j") (simp_all add: entry_def load32_put_fields)

lemma entry_loop_entry:
  "j < 1024 \<Longrightarrow> entry (entry_loop fs table i m) table j = (if i \<le> j then set_fields (fs j) (entry m table j) else entry m table j)"
proof (induction fs table i m rule: entry_loop.induct)
  case (1 fs table i m)
  show ?case
  proof (cases "i < 1024")
    case True
    then show ?thesis using 1 by (subst entry_loop.simps) (cases "i = j"; auto simp: entry_put_fields)
  next
    case False
    then show ?thesis using 1(2) by (subst entry_loop.simps) simp
  qed
qed

lemma entry_loop_other: "\<not> within table 4096 a \<Longrightarrow> entry_loop fs table i m a = m a"
proof (induction fs table i m rule: entry_loop.induct)
  case (1 fs table i m)
  show ?case
  proof (cases "i < 1024")
    case True
    then have "\<not> within (table + 4 * of_nat i) 4 a" using entry_in_table 1(2) by blast
    then show ?thesis using 1 True by (subst entry_loop.simps) (simp add: put_fields_other)
  next
    case False
    then show ?thesis by (subst entry_loop.simps) simp
  qed
qed

lemma entry_outside:
  assumes "\<And>a. \<not> within q 4096 a \<Longrightarrow> m' a = m a" and "separate p 4096 q 4096" and "i < 1024"
  shows "entry m' p i = entry m p i"
  using assms(1) separate_within [OF assms(2)] entry_in_table [OF assms(3)] by (intro entry_cong) blast


section \<open>The tables in memory\<close>

text \<open>The tables lie in the kernel page, aligned and apart from each other, and the reserved bits of the
  two entries that are ever present as 4 MB pages are clear (the arrays start out zero and no assignment sets them).\<close>

definition tables_ok :: "u32 \<Rightarrow> u32 \<Rightarrow> bool" where
  "tables_ok pt pd \<longleftrightarrow> take_bit 12 pt = 0 \<and> take_bit 12 pd = 0 \<and>
     4194304 \<le> unat pt \<and> unat pt + 4096 \<le> 8388608 \<and> 4194304 \<le> unat pd \<and> unat pd + 24576 \<le> 8388608 \<and>
     (unat pt + 4096 \<le> unat pd \<or> unat pd + 24576 \<le> unat pt)"

definition page_dir :: "u32 \<Rightarrow> nat \<Rightarrow> u32" where
  "page_dir pd d = pd + 4096 * of_nat d"

definition reserved_clear :: "u32 \<Rightarrow> mem \<Rightarrow> bool" where
  "reserved_clear pd m \<longleftrightarrow> (\<forall>d < 6. get_field 13 9 (entry m (page_dir pd d) 1) = 0 \<and> get_field 13 9 (entry m (page_dir pd d) 32) = 0)"

lemma unat_directory:
  assumes "tables_ok pt pd" and "d < 6"
  shows "unat (page_dir pd d) = unat pd + 4096 * d"
proof -
  have "unat (of_nat (4096 * d) :: u32) = 4096 * d" using assms(2) by (intro unat_of_nat_u32) simp
  moreover have "unat pd + 4096 * d < 2 ^ 32" using assms by (simp add: tables_ok_def)
  ultimately show ?thesis
    using unat_add_lem [of pd "of_nat (4096 * d)"] by (simp add: page_dir_def)
qed

lemma table_separate:
  assumes "tables_ok pt pd" and "d < 6"
  shows "separate pt 4096 (page_dir pd d) 4096" "separate (page_dir pd d) 4096 pt 4096"
  using assms unat_directory [OF assms] by (auto intro!: separateI simp: tables_ok_def)

lemma directories_separate:
  assumes "tables_ok pt pd" and "d < 6" and "e < 6" and "d \<noteq> e"
  shows "separate (page_dir pd d) 4096 (page_dir pd e) 4096"
  using assms unat_directory [OF assms(1,2)] unat_directory [OF assms(1,3)] by (intro separateI) (auto simp: tables_ok_def)

lemma tables_off_window:
  assumes "tables_ok pt pd" and "d < 6"
  shows "separate pt 4096 WINDOW WINDOW_SIZE" "separate (page_dir pd d) 4096 WINDOW WINDOW_SIZE"
  using assms unat_directory [OF assms] by (auto intro!: separateI simp: tables_ok_def)

lemma aligned_and:
  fixes p k :: u32
  assumes "take_bit 12 p = 0" and "\<And>n. 12 \<le> n \<Longrightarrow> n < 32 \<Longrightarrow> bit k n"
  shows "p AND k = p"
proof (rule bit_word_eqI)
  fix n assume n: "n < LENGTH(32)"
  have "n < 12 \<Longrightarrow> \<not> bit p n" using arg_cong [OF assms(1), where f = "\<lambda>x. bit x n"] by (simp add: bit_simps)
  then show "bit (p AND k) n = bit p n" using assms(2) [of n] n by (cases "n < 12") (simp_all add: bit_simps)
qed

lemma aligned_directory:
  assumes "take_bit 12 pd = 0"
  shows "take_bit 12 (page_dir pd d) = 0"
proof -
  have "page_dir pd d = push_bit 12 (drop_bit 12 pd) + 4096 * of_nat d"
    using bits_ident [of 12 pd] assms by (simp add: page_dir_def)
  also have "\<dots> = push_bit 12 (drop_bit 12 pd + of_nat d)" by (simp add: push_bit_eq_mult distrib_right)
  finally show ?thesis by (auto intro!: bit_word_eqI simp: bit_simps)
qed

lemma cr3_of_aligned: "take_bit 12 (dir :: u32) = 0 \<Longrightarrow> dir AND 0xFFFFFFE7 = dir" "take_bit 12 (dir :: u32) = 0 \<Longrightarrow> dir AND 0xFFFFF000 = dir"
proof -
  have "(0xFFFFFFE7 :: u32) = NOT (push_bit 3 (mask 2))" "(0xFFFFF000 :: u32) = NOT (mask 12)"
    by (simp_all add: mask_eq_exp_minus_1)
  then have "bit (0xFFFFFFE7 :: u32) n" "bit (0xFFFFF000 :: u32) n" if "12 \<le> n" "n < 32" for n
    using that by (simp_all only: bit_not_iff) (auto simp: bit_simps)
  then show "take_bit 12 (dir :: u32) = 0 \<Longrightarrow> dir AND 0xFFFFFFE7 = dir" "take_bit 12 (dir :: u32) = 0 \<Longrightarrow> dir AND 0xFFFFF000 = dir"
    by (simp_all add: aligned_and)
qed

lemma table_base: "take_bit 12 (pt :: u32) = 0 \<Longrightarrow> push_bit 12 (take_bit 20 (signed_drop_bit 12 pt)) = pt"
proof (rule bit_word_eqI)
  fix n assume z: "take_bit 12 pt = 0" and n: "n < LENGTH(32)"
  have "n < 12 \<Longrightarrow> \<not> bit pt n" using arg_cong [OF z, where f = "\<lambda>x. bit x n"] by (simp add: bit_simps)
  then show "bit (push_bit 12 (take_bit 20 (signed_drop_bit 12 pt))) n = bit pt n"
    using n by (cases "n < 12") (auto simp: bit_simps)
qed

lemma walk_entries:
  assumes "take_bit 12 dir = 0"
  shows "walk pse m dir va =
     (let pde = entry m dir (unat (drop_bit 22 va)) in
      if get_field 0 1 pde = 0 then None
      else if pse \<and> get_field 7 1 pde = 1 then
        (if get_field 13 9 pde \<noteq> 0 then None
         else Some (push_bit 22 (get_field 22 10 pde) OR take_bit 22 va, get_field 2 1 pde = 1, get_field 1 1 pde = 1))
      else
        (let pte = entry m (push_bit 12 (get_field 12 20 pde)) (unat (get_field 12 10 va)) in
         if get_field 0 1 pte = 0 then None
         else Some (push_bit 12 (get_field 12 20 pte) OR take_bit 12 va,
                    get_field 2 1 pde = 1 \<and> get_field 2 1 pte = 1, get_field 1 1 pde = 1 \<and> get_field 1 1 pte = 1)))"
  using cr3_of_aligned(2) [OF assms] by (simp add: walk_def entry_def Let_def)


section \<open>What the entries map\<close>

lemmas fields_simps = set_fields_def pte_fields_def pde0_fields_def pde_fields_init_def pde_fields_kernel_def
  pde_fields_unused_def pde_fields_program_def

lemma pte_view:
  "get_field 0 1 (set_fields (pte_fields i) x) = (if i = 184 then 1 else 0)"
  "get_field 1 1 (set_fields (pte_fields 184) x) = 1" "get_field 2 1 (set_fields (pte_fields 184) x) = 1"
  "get_field 12 20 (set_fields (pte_fields 184) x) = 184"
  by (simp_all add: fields_simps)

lemma pde0_view:
  "get_field 0 1 (set_fields (pde0_fields pt) x) = 1" "get_field 1 1 (set_fields (pde0_fields pt) x) = 1"
  "get_field 2 1 (set_fields (pde0_fields pt) x) = 1" "get_field 7 1 (set_fields (pde0_fields pt) x) = 0"
  "get_field 12 20 (set_fields (pde0_fields pt) x) = take_bit 20 (signed_drop_bit 12 pt)"
  by (simp_all add: fields_simps)

text \<open>An entry that maps 4 MB at frame \<open>b\<close>.\<close>

definition maps_4MB :: "u32 \<Rightarrow> u32 \<Rightarrow> bool \<Rightarrow> bool" where
  "maps_4MB e b u \<longleftrightarrow> get_field 0 1 e = 1 \<and> get_field 1 1 e = 1 \<and> get_field 2 1 e = (if u then 1 else 0) \<and> get_field 7 1 e = 1 \<and>
     get_field 13 9 e = 0 \<and> get_field 22 10 e = b"

lemma maps_4MB_view:
  assumes "get_field 13 9 x = 0"
  shows "maps_4MB (set_fields (pde_fields_init 1) x) 1 False" "maps_4MB (set_fields pde_fields_kernel x) 1 False"
    "maps_4MB (set_fields (pde_fields_program process) x) (take_bit 10 (of_int (process + 1))) True"
  using assms by (simp_all add: maps_4MB_def fields_simps)

lemma absent_view:
  "i \<noteq> 1 \<Longrightarrow> get_field 0 1 (set_fields (pde_fields_init i) x) = 0" "get_field 0 1 (set_fields (pde_fields_unused i) x) = 0"
  by (simp_all add: fields_simps)

lemma reserved_view:
  "get_field 13 9 (set_fields (pde_fields_init i) x) = get_field 13 9 x" "get_field 13 9 (set_fields (pde_fields_unused i) x) = get_field 13 9 x"
  "get_field 13 9 (set_fields pde_fields_kernel x) = get_field 13 9 x" "get_field 13 9 (set_fields (pde_fields_program process) x) = get_field 13 9 x"
  by (simp_all add: fields_simps)

text \<open>The address space of the kernel: the video page for everybody, the kernel page for the kernel and,
  in a process, the program window.\<close>

definition space_of :: "u32 option \<Rightarrow> u32 \<Rightarrow> (u32 \<times> bool \<times> bool) option" where
  "space_of frame va =
     (if drop_bit 12 va = 0xB8 then Some (va, True, True)
      else if drop_bit 22 va = 1 then Some (va, False, True)
      else if drop_bit 22 va = 32 then map_option (\<lambda>f. (f + take_bit 22 va, True, True)) frame
      else None)"

lemma split_va: "push_bit n (drop_bit n (va :: u32)) OR take_bit n va = va"
  by (rule bit_word_eqI) (auto simp: bit_simps)

lemma base_or_offset: "push_bit n b OR take_bit n (va :: u32) = push_bit n b + take_bit n va"
  by (rule disjunctive_add [symmetric]) (auto simp: bit_simps)

lemma pde_index: "unat (drop_bit 22 (va :: u32)) < 1024"
proof -
  have "unat (drop_bit 22 va) = unat va div 4194304" unfolding unat_drop_bit_eq by (simp add: drop_bit_eq_div)
  then show ?thesis by (simp add: less_mult_imp_div_less)
qed

lemma pte_index: "unat (get_field 12 10 va) < 1024"
  using take_bit_nat_less_exp [of 10] by (simp add: get_field_def unsigned_take_bit_eq)

lemma low_index: "drop_bit 22 (va :: u32) = 0 \<Longrightarrow> get_field 12 10 va = drop_bit 12 va"
proof (rule bit_word_eqI)
  fix n assume z: "drop_bit 22 va = 0" and n: "n < LENGTH(32)"
  have "\<not> bit va (12 + n)" if "10 \<le> n"
  proof -
    have "bit (drop_bit 22 va) (n - 10) = bit va (12 + n)" using that by (simp add: bit_simps algebra_simps)
    then show ?thesis using z by simp
  qed
  then show "bit (get_field 12 10 va) n = bit (drop_bit 12 va) n"
    by (cases "n < 10") (auto simp: bit_get_field bit_simps)
qed


lemma walk_4MB:
  assumes "take_bit 12 dir = 0" and "maps_4MB (entry m dir (unat (drop_bit 22 va))) b u"
  shows "walk True m dir va = Some (push_bit 22 b + take_bit 22 va, u, True)"
  using assms(2) by (auto simp: walk_entries [OF assms(1)] maps_4MB_def base_or_offset Let_def)

lemma walk_absent: "take_bit 12 dir = 0 \<Longrightarrow> get_field 0 1 (entry m dir (unat (drop_bit 22 va))) = 0 \<Longrightarrow> walk pse m dir va = None"
  by (simp add: walk_entries)

lemma walk_first:
  assumes "take_bit 12 dir = 0" and "take_bit 12 pt = 0" and "drop_bit 22 va = 0"
    and "entry m dir 0 = set_fields (pde0_fields pt) x" and "\<And>i. i < 1024 \<Longrightarrow> entry m pt i = set_fields (pte_fields i) (y i)"
  shows "walk True m dir va = (if drop_bit 12 va = 0xB8 then Some (va, True, True) else None)"
proof -
  let ?i = "unat (get_field 12 10 va)"
  have pde: "entry m dir (unat (drop_bit 22 va)) = set_fields (pde0_fields pt) x" using assms(3,4) by simp
  have pte: "entry m pt ?i = set_fields (pte_fields ?i) (y ?i)" using assms(5) [OF pte_index] .
  have idx: "?i = 184 \<longleftrightarrow> drop_bit 12 va = 0xB8" unfolding low_index [OF assms(3)] by (simp add: word_unat_eq_iff)
  show ?thesis
  proof (cases "?i = 184")
    case True
    then have "push_bit 12 184 OR take_bit 12 va = va" using split_va [of 12 va] idx by simp
    then show ?thesis using True idx pte
      by (simp add: walk_entries [OF assms(1)] pde pde0_view pte_view table_base [OF assms(2)] Let_def del: One_nat_def)
  next
    case False
    then show ?thesis using idx pte
      by (simp add: walk_entries [OF assms(1)] pde pde0_view pte_view table_base [OF assms(2)] Let_def del: One_nat_def)
  qed
qed

text \<open>A directory whose entries are as the two operations leave them maps the address space.\<close>

definition directory_ok :: "u32 \<Rightarrow> u32 option \<Rightarrow> u32 \<Rightarrow> mem \<Rightarrow> bool" where
  "directory_ok pt frame dir m \<longleftrightarrow>
     (\<exists>x. entry m dir 0 = set_fields (pde0_fields pt) x) \<and> maps_4MB (entry m dir 1) 1 False \<and>
     (case frame of None \<Rightarrow> get_field 0 1 (entry m dir 32) = 0 | Some f \<Rightarrow> maps_4MB (entry m dir 32) f True) \<and>
     (\<forall>i < 1024. 2 \<le> i \<longrightarrow> i \<noteq> 32 \<longrightarrow> get_field 0 1 (entry m dir i) = 0)"

definition page_table_ok :: "u32 \<Rightarrow> mem \<Rightarrow> bool" where
  "page_table_ok pt m \<longleftrightarrow> (\<forall>i < 1024. \<exists>y. entry m pt i = set_fields (pte_fields i) y)"

lemma walk_space:
  assumes "take_bit 12 dir = 0" and "take_bit 12 pt = 0" and "directory_ok pt frame dir m" and "page_table_ok pt m"
  shows "walk True m dir va = space_of (map_option (push_bit 22) frame) va"
proof -
  let ?i = "unat (drop_bit 22 va)"
  obtain x where x: "entry m dir 0 = set_fields (pde0_fields pt) x" using assms(3) by (auto simp: directory_ok_def)
  obtain y where y: "\<And>i. i < 1024 \<Longrightarrow> entry m pt i = set_fields (pte_fields i) (y i)"
    using assms(4) unfolding page_table_ok_def by metis
  have hi: "drop_bit 12 va \<noteq> 0xB8" if "drop_bit 22 va \<noteq> 0"
  proof
    assume "drop_bit 12 va = 0xB8"
    then have "drop_bit 10 (drop_bit 12 va) = 0" by simp
    then show False using that by (simp add: drop_bit_drop_bit)
  qed
  consider "drop_bit 22 va = 0" | "drop_bit 22 va = 1" | "drop_bit 22 va = 32" | "2 \<le> ?i" "?i \<noteq> 32" "drop_bit 22 va \<notin> {0, 1, 32}"
  proof -
    have "?i < 2 \<longleftrightarrow> drop_bit 22 va = 0 \<or> drop_bit 22 va = 1" "?i = 32 \<longleftrightarrow> drop_bit 22 va = 32"
      by (auto simp: word_unat_eq_iff less_2_cases_iff)
    then show ?thesis using that by force
  qed
  then show ?thesis
  proof cases
    case 1
    then show ?thesis using walk_first [OF assms(1,2) 1 x y] by (simp add: space_of_def)
  next
    case 2
    then have "push_bit 22 1 + take_bit 22 va = va" using split_va [of 22 va] unfolding base_or_offset by simp
    then show ?thesis using walk_4MB [OF assms(1), of m va 1 False] assms(3) 2 hi by (simp add: space_of_def directory_ok_def)
  next
    case 3
    then have i: "?i = 32" by simp
    show ?thesis
    proof (cases frame)
      case None
      then show ?thesis using walk_absent [OF assms(1), of m va] assms(3) 3 hi i by (simp add: space_of_def directory_ok_def)
    next
      case (Some f)
      then show ?thesis using walk_4MB [OF assms(1), of m va f True] assms(3) 3 hi i by (simp add: space_of_def directory_ok_def)
    qed
  next
    case 4
    then have "get_field 0 1 (entry m dir ?i) = 0" using assms(3) pde_index by (simp add: directory_ok_def)
    then show ?thesis using walk_absent [OF assms(1)] 4(3) hi by (simp add: space_of_def)
  qed
qed


section \<open>The operations on the tables\<close>

lemma put_fields_table_other: "i < 1024 \<Longrightarrow> \<not> within table 4096 a \<Longrightarrow> put_fields (table + 4 * of_nat i) fs m a = m a"
  using entry_in_table put_fields_other by blast

lemma put_fields_first_other: "\<not> within table 4096 a \<Longrightarrow> put_fields table fs m a = m a"
  using put_fields_table_other [of 0 table a fs m] by simp

lemma entry_put_first: "j < 1024 \<Longrightarrow> entry (put_fields table fs m) table j = (if j = 0 then set_fields fs (entry m table j) else entry m table j)"
  using entry_put_fields [of 0 j table fs m] by auto

lemma entry_off_table:
  assumes "separate p 4096 table 4096" and "j < 1024"
  shows "entry (entry_loop fs table i m) p j = entry m p j"
    and "entry (put_fields table fs' m) p j = entry m p j"
    and "k < 1024 \<Longrightarrow> entry (put_fields (table + 4 * of_nat k) fs' m) p j = entry m p j"
proof -
  show "entry (entry_loop fs table i m) p j = entry m p j"
    by (rule entry_outside [OF _ assms]) (rule entry_loop_other)
  show "entry (put_fields table fs' m) p j = entry m p j"
    by (rule entry_outside [OF _ assms]) (rule put_fields_first_other)
  show "entry (put_fields (table + 4 * of_nat k) fs' m) p j = entry m p j" if "k < 1024"
    by (rule entry_outside [OF _ assms]) (rule put_fields_table_other [OF that])
qed

lemma init_tables_other: "\<not> within pt 4096 a \<Longrightarrow> \<not> within pd 4096 a \<Longrightarrow> init_tables pt pd m a = m a"
  by (simp add: init_tables_def Let_def entry_loop_other put_fields_first_other)

lemma create_tables_other: "\<not> within pt 4096 a \<Longrightarrow> \<not> within dir 4096 a \<Longrightarrow> create_tables pt dir process m a = m a"
  using put_fields_table_other [of 1 dir a] put_fields_table_other [of 32 dir a]
  by (simp add: create_tables_def Let_def entry_loop_other put_fields_first_other)

lemma init_tables_entry:
  assumes "separate pt 4096 pd 4096" and "i < 1024"
  shows "entry (init_tables pt pd m) pd i = set_fields (if i = 0 then pde0_fields pt else pde_fields_init i) (entry m pd i)"
    and "entry (init_tables pt pd m) pt i = set_fields (pte_fields i) (entry m pt i)"
proof -
  let ?m1 = "entry_loop pte_fields pt 0 m"
  let ?m2 = "put_fields pd (pde0_fields pt) ?m1"
  have "entry ?m1 pd i = entry m pd i"
    using entry_off_table(1) [OF _ assms(2)] assms(1) separate_sym by blast
  then show "entry (init_tables pt pd m) pd i = set_fields (if i = 0 then pde0_fields pt else pde_fields_init i) (entry m pd i)"
    using assms(2) by (simp add: init_tables_def Let_def entry_loop_entry entry_put_first)
  have "entry (entry_loop pde_fields_init pd 1 ?m2) pt i = entry ?m1 pt i" by (simp only: entry_off_table [OF assms])
  then show "entry (init_tables pt pd m) pt i = set_fields (pte_fields i) (entry m pt i)"
    using assms(2) by (simp add: init_tables_def Let_def entry_loop_entry)
qed

lemma create_tables_entry:
  assumes "separate pt 4096 dir 4096" and "i < 1024"
  shows "entry (create_tables pt dir process m) dir i =
      (if i = 0 then set_fields (pde0_fields pt) (entry m dir i)
       else if i = 1 then set_fields pde_fields_kernel (entry m dir i)
       else if i = 32 then set_fields (pde_fields_program process) (set_fields (pde_fields_unused i) (entry m dir i))
       else set_fields (pde_fields_unused i) (entry m dir i))"
    and "entry (create_tables pt dir process m) pt i = set_fields (pte_fields i) (entry m pt i)"
proof -
  let ?m1 = "entry_loop pte_fields pt 0 m"
  let ?m2 = "put_fields dir (pde0_fields pt) ?m1"
  have "entry ?m1 dir i = entry m dir i"
    using entry_off_table(1) [OF _ assms(2)] assms(1) separate_sym by blast
  then show "entry (create_tables pt dir process m) dir i =
      (if i = 0 then set_fields (pde0_fields pt) (entry m dir i)
       else if i = 1 then set_fields pde_fields_kernel (entry m dir i)
       else if i = 32 then set_fields (pde_fields_program process) (set_fields (pde_fields_unused i) (entry m dir i))
       else set_fields (pde_fields_unused i) (entry m dir i))"
    using assms(2) entry_put_fields [of 32 i dir] entry_put_fields [of 1 i dir]
    by (auto simp add: create_tables_def Let_def entry_loop_entry entry_put_first)
  have "entry (create_tables pt dir process m) pt i = entry ?m1 pt i"
    using entry_off_table(3) [OF assms, of 1] entry_off_table(3) [OF assms, of 32]
    by (simp add: create_tables_def Let_def entry_off_table [OF assms])
  then show "entry (create_tables pt dir process m) pt i = set_fields (pte_fields i) (entry m pt i)"
    using assms(2) by (simp add: entry_loop_entry)
qed

end
