(* ===== verification/PagingProps.thy ===== *)
theory PagingProps
  imports Paging
begin

text \<open>
  The properties of paging: what the two operations map, that directories of different processes do
  not disturb each other, and that the program window keeps the memory of each process apart.
\<close>

unbundle bit_operations_syntax

section \<open>Directories after the operations\<close>

definition frame_of :: "int \<Rightarrow> u32" where
  "frame_of process = of_int (process + 1) * 0x400000"

lemma frame_field:
  assumes "0 \<le> process" and "process < 7"
  shows "push_bit 22 (take_bit 10 (of_int (process + 1))) = frame_of process"
    and "unat (frame_of process) = nat (process + 1) * 4194304"
proof -
  obtain k where k: "process + 1 = int k" "k \<le> 7" using assms zero_le_imp_eq_int [of "process + 1"] by auto
  have "take_bit 10 (of_nat k :: u32) = of_nat k"
    using k(2) of_nat_take_bit [of 10 k, where ?'a = u32] by (simp add: take_bit_nat_eq_self)
  then show "push_bit 22 (take_bit 10 (of_int (process + 1))) = frame_of process"
    unfolding frame_of_def k(1) by (simp add: push_bit_eq_mult)
  have "unat (of_nat (k * 4194304) :: u32) = k * 4194304" using k(2) by (intro unat_of_nat_u32) simp
  then show "unat (frame_of process) = nat (process + 1) * 4194304" unfolding frame_of_def k(1) by simp
qed

lemma reserved_clearD: "reserved_clear pd m \<Longrightarrow> d < 6 \<Longrightarrow> i = 1 \<or> i = 32 \<Longrightarrow> get_field 13 9 (entry m (page_dir pd d) i) = 0"
  by (auto simp: reserved_clear_def)

lemma init_tables_ok:
  assumes "tables_ok pt pd" and "reserved_clear pd m"
  shows "directory_ok pt None (page_dir pd 0) (init_tables pt pd m)" and "page_table_ok pt (init_tables pt pd m)"
proof -
  have dir: "page_dir pd 0 = pd" by (simp add: page_dir_def)
  have sep: "separate pt 4096 pd 4096" using table_separate(1) [OF assms(1), of 0] dir by simp
  note e = init_tables_entry [OF sep]
  have "get_field 13 9 (entry m pd 1) = 0" using reserved_clearD [OF assms(2), of 0 1] dir by simp
  then show "directory_ok pt None (page_dir pd 0) (init_tables pt pd m)"
    unfolding directory_ok_def dir using maps_4MB_view(1) by (auto simp: e absent_view simp del: One_nat_def)
  show "page_table_ok pt (init_tables pt pd m)" by (auto simp: page_table_ok_def e)
qed

lemma create_tables_ok:
  assumes "tables_ok pt pd" and "reserved_clear pd m" and "d < 6" and "dir = page_dir pd d"
  shows "directory_ok pt (Some (take_bit 10 (of_int (process + 1)))) dir (create_tables pt dir process m)"
    and "page_table_ok pt (create_tables pt dir process m)"
proof -
  note e = create_tables_entry [OF table_separate(1) [OF assms(1,3), folded assms(4)]]
  have "get_field 13 9 (entry m dir 1) = 0" "get_field 13 9 (entry m dir 32) = 0"
    using reserved_clearD [OF assms(2,3)] assms(4) by simp_all
  then show "directory_ok pt (Some (take_bit 10 (of_int (process + 1)))) dir (create_tables pt dir process m)"
    unfolding directory_ok_def using maps_4MB_view(2,3) by (auto simp: e absent_view reserved_view simp del: One_nat_def)
  show "page_table_ok pt (create_tables pt dir process m)" by (auto simp: page_table_ok_def e)
qed

lemma entry_same: "(\<And>a. within table 4096 a \<Longrightarrow> m' a = m a) \<Longrightarrow> i < 1024 \<Longrightarrow> entry m' table i = entry m table i"
  using entry_cong [of table i m' m] entry_in_table by blast

lemma directory_ok_cong:
  assumes "\<And>a. within dir 4096 a \<Longrightarrow> m' a = m a"
  shows "directory_ok pt frame dir m' = directory_ok pt frame dir m"
  using entry_same [of dir m' m, OF assms] unfolding directory_ok_def by (auto cong: option.case_cong)

lemma page_table_ok_cong:
  assumes "\<And>a. within pt 4096 a \<Longrightarrow> m' a = m a"
  shows "page_table_ok pt m' = page_table_ok pt m"
  using entry_same [of pt m' m, OF assms] by (simp add: page_table_ok_def)


lemma reserved_clear_cong:
  assumes "\<And>d a. d < 6 \<Longrightarrow> within (page_dir pd d) 4096 a \<Longrightarrow> m' a = m a"
  shows "reserved_clear pd m' = reserved_clear pd m"
proof -
  have "entry m' (page_dir pd d) i = entry m (page_dir pd d) i" if "d < 6" "i < 1024" for d i
    using entry_same [of "page_dir pd d" m' m i] assms that by blast
  then show ?thesis by (simp add: reserved_clear_def)
qed

lemma reserved_clear_create:
  assumes "tables_ok pt pd" and "reserved_clear pd m" and "d < 6" and "dir = page_dir pd d"
  shows "reserved_clear pd (create_tables pt dir process m)"
proof -
  let ?m = "create_tables pt dir process m"
  have "get_field 13 9 (entry ?m (page_dir pd e) i) = 0" if e: "e < 6" and i: "i = 1 \<or> i = 32" for e i
  proof (cases "e = d")
    case True
    then show ?thesis
      using create_tables_entry(1) [OF table_separate(1) [OF assms(1,3)], of i process m] reserved_clearD [OF assms(2,3) i] i assms(4)
      by (auto simp: reserved_view simp del: One_nat_def)
  next
    case False
    have "?m a = m a" if "within (page_dir pd e) 4096 a" for a
      using create_tables_other [of pt a dir process m] separate_within [OF directories_separate [OF assms(1) e assms(3) False] that]
        separate_within [OF table_separate(2) [OF assms(1) e] that] assms(4) by simp
    then show ?thesis using entry_same [of "page_dir pd e" ?m m i] reserved_clearD [OF assms(2) e i] i by auto
  qed
  then show ?thesis by (simp add: reserved_clear_def del: One_nat_def)
qed

section \<open>The directory register and the window\<close>

lemma copy_frame_other: "\<not> within d WINDOW_SIZE a \<Longrightarrow> copy_frame m d m' d' a = m a"
  by (simp add: copy_frame_def)

lemma copy_frame_in: "unat off < WINDOW_SIZE \<Longrightarrow> copy_frame m d m' d' (d + off) = m' (d' + off)"
  by (simp add: copy_frame_def within_def)

lemma load_cr3_fields [simp]:
  "cr3 (load_cr3 v s) = v" "cr0 (load_cr3 v s) = cr0 s" "cr4 (load_cr3 v s) = cr4 s"
  "\<not> within WINDOW WINDOW_SIZE a \<Longrightarrow> mem (load_cr3 v s) a = mem s a"
  "frames (load_cr3 v s) = frames (save_window s)"
  by (simp_all add: load_cr3_def show_window_def save_window_def copy_frame_other split: option.splits)

lemma mem_save_window [simp]: "mem (save_window s) = mem s" "cr3 (save_window s) = cr3 s"
  by (simp_all add: save_window_def split: option.splits)

lemma load_cr3_window:
  assumes "walk True (mem s) v WINDOW = Some (f, u, w)"
  shows "shown (load_cr3 v s) = Some f"
    and "unat off < WINDOW_SIZE \<Longrightarrow> mem (load_cr3 v s) (WINDOW + off) = frames (save_window s) (f + off)"
  using assms by (simp_all add: load_cr3_def show_window_def copy_frame_in)

lemma set_control_registers_fields [simp]:
  "mem (set_control_registers dir s) = mem (load_cr3 (dir AND 0xFFFFFFE7) s)"
  "frames (set_control_registers dir s) = frames (save_window s)"
  "shown (set_control_registers dir s) = shown (load_cr3 (dir AND 0xFFFFFFE7) s)"
  "cr3 (set_control_registers dir s) = dir AND 0xFFFFFFE7"
  by (simp_all add: set_control_registers_def Let_def)

lemma set_control_registers_on: "bit (cr0 (set_control_registers dir s)) 31" "bit (cr4 (set_control_registers dir s)) 4"
  by (simp_all add: set_control_registers_def Let_def bit_simps)

lemma translate_after:
  assumes "tables_ok pt pd" and "d < 6" and "dir = page_dir pd d" and "directory_ok pt frame dir (mem s)" and "page_table_ok pt (mem s)"
  shows "translate (set_control_registers dir s) va = space_of (map_option (push_bit 22) frame) va"
proof -
  have al: "take_bit 12 dir = 0" "take_bit 12 pt = 0" using assms(1,3) aligned_directory by (simp_all add: tables_ok_def)
  let ?m = "mem (set_control_registers dir s)"
  have m: "?m a = mem s a" if "within dir 4096 a \<or> within pt 4096 a" for a
    using that separate_within tables_off_window [OF assms(1,2)] assms(3) by auto
  have "directory_ok pt frame dir ?m" "page_table_ok pt ?m"
    using directory_ok_cong [of dir ?m "mem s"] page_table_ok_cong [of pt ?m "mem s"] m assms(4,5) by blast+
  then have "walk True ?m dir va = space_of (map_option (push_bit 22) frame) va" using walk_space [OF al] by blast
  then show ?thesis
    using set_control_registers_on [of dir s] cr3_of_aligned(1) [OF al(1)] by (simp add: translate_def)
qed


section \<open>Switching to a process\<close>

definition is_process :: "int \<Rightarrow> bool" where
  "is_process p \<longleftrightarrow> 1 \<le> p \<and> p \<le> 6"

definition dir_of :: "u32 \<Rightarrow> int \<Rightarrow> u32" where
  "dir_of pd p = page_dir pd (nat (p - 1))"

lemma create_paging_process:
  assumes "is_process p"
  shows "create_paging pt pd p s = set_control_registers (dir_of pd p)
    (s\<lparr>mem := create_tables pt (dir_of pd p) p (mem s), page_dir_address := dir_of pd p\<rparr>)"
proof -
  obtain k where k: "p - 1 = int k" using assms zero_le_imp_eq_int [of "p - 1"] by (auto simp: is_process_def)
  have "pd + 4096 * of_int (p - 1) = dir_of pd p" unfolding dir_of_def page_dir_def k by simp
  then show ?thesis using assms by (simp add: create_paging_def is_process_def Let_def)
qed

lemma dir_index: "is_process p \<Longrightarrow> nat (p - 1) < 6"
  by (auto simp: is_process_def)

lemma translate_create:
  assumes "tables_ok pt pd" and "reserved_clear pd (mem s)" and "is_process p"
  shows "translate (create_paging pt pd p s) va = space_of (Some (frame_of p)) va"
proof -
  have "push_bit 22 (take_bit 10 (of_int (p + 1))) = frame_of p" using frame_field(1) assms(3) by (simp add: is_process_def)
  then show ?thesis
    using translate_after [OF assms(1) dir_index [OF assms(3)] dir_of_def, where frame = "Some (take_bit 10 (of_int (p + 1)))"
        and s = "s\<lparr>mem := create_tables pt (dir_of pd p) p (mem s), page_dir_address := dir_of pd p\<rparr>"]
      create_tables_ok [OF assms(1,2) dir_index [OF assms(3)] dir_of_def, where process = p]
    by (simp add: create_paging_process [OF assms(3)])
qed

lemma create_paging_mem:
  assumes "tables_ok pt pd" and "is_process p"
    and "\<not> within pt 4096 a" and "\<not> within (dir_of pd p) 4096 a" and "\<not> within WINDOW WINDOW_SIZE a"
  shows "mem (create_paging pt pd p s) a = mem s a"
  using assms by (simp add: create_paging_process create_tables_other)

lemma reserved_clear_after:
  assumes "tables_ok pt pd" and "reserved_clear pd (mem s)" and "is_process p"
  shows "reserved_clear pd (mem (create_paging pt pd p s))"
proof -
  let ?m = "create_tables pt (dir_of pd p) p (mem s)"
  have "mem (create_paging pt pd p s) a = ?m a" if "d < 6" "within (page_dir pd d) 4096 a" for d a
    using separate_within [OF tables_off_window(2) [OF assms(1) that(1)] that(2)] by (simp add: create_paging_process [OF assms(3)])
  then show ?thesis
    using reserved_clear_cong reserved_clear_create [OF assms(1,2) dir_index [OF assms(3)] dir_of_def] by metis
qed

lemma create_paging_shows:
  assumes "tables_ok pt pd" and "reserved_clear pd (mem s)" and "is_process p"
  shows "shown (create_paging pt pd p s) = Some (frame_of p)"
    and "unat off < WINDOW_SIZE \<Longrightarrow> mem (create_paging pt pd p s) (WINDOW + off) = frames (create_paging pt pd p s) (frame_of p + off)"
proof -
  let ?s = "s\<lparr>mem := create_tables pt (dir_of pd p) p (mem s), page_dir_address := dir_of pd p\<rparr>"
  have al: "take_bit 12 (dir_of pd p) = 0" "take_bit 12 pt = 0" using assms(1) aligned_directory by (simp_all add: tables_ok_def dir_of_def)
  have f: "push_bit 22 (take_bit 10 (of_int (p + 1))) = frame_of p" using frame_field(1) assms(3) by (simp add: is_process_def)
  have "walk True (mem ?s) (dir_of pd p) WINDOW = Some (frame_of p, True, True)"
    using walk_space [OF al create_tables_ok [OF assms(1,2) dir_index [OF assms(3)] dir_of_def]] f
    by (simp add: space_of_def)
  note w = load_cr3_window [of ?s, OF this]
  then show "shown (create_paging pt pd p s) = Some (frame_of p)"
    by (simp add: create_paging_process [OF assms(3)] cr3_of_aligned(1) [OF al(1)])
  show "mem (create_paging pt pd p s) (WINDOW + off) = frames (create_paging pt pd p s) (frame_of p + off)"
    if "unat off < WINDOW_SIZE"
    using w(2) [OF that] by (simp add: create_paging_process [OF assms(3)] cr3_of_aligned(1) [OF al(1)])
qed

text \<open>The frame that was shown keeps what the window held.\<close>

lemma create_paging_saves:
  assumes "tables_ok pt pd" and "is_process p" and "shown s = Some f" and "unat off < WINDOW_SIZE"
  shows "frames (create_paging pt pd p s) (f + off) = mem s (WINDOW + off)"
proof -
  have "within WINDOW WINDOW_SIZE (WINDOW + off)" using assms(4) by (simp add: within_def)
  then have "\<not> within pt 4096 (WINDOW + off)" "\<not> within (dir_of pd p) 4096 (WINDOW + off)"
    using separate_within separate_sym tables_off_window [OF assms(1) dir_index [OF assms(2)]] unfolding dir_of_def by blast+
  then show ?thesis
    using assms(3,4) by (simp add: create_paging_process [OF assms(2)] save_window_def copy_frame_in create_tables_other)
qed

lemma create_paging_keeps_frame:
  assumes "is_process p" and "shown s = Some f" and "\<not> within f WINDOW_SIZE a"
  shows "frames (create_paging pt pd p s) a = frames s a"
  using assms by (simp add: create_paging_process save_window_def copy_frame_other)

lemma frames_disjoint:
  assumes "is_process p" and "is_process q" and "p \<noteq> q" and "unat off < WINDOW_SIZE"
  shows "\<not> within (frame_of q) WINDOW_SIZE (frame_of p + off)"
proof -
  have u: "unat (frame_of p) = nat (p + 1) * 4194304" "unat (frame_of q) = nat (q + 1) * 4194304"
    using frame_field(2) assms(1,2) by (simp_all add: is_process_def)
  have "nat (p + 1) \<noteq> nat (q + 1)" "nat (p + 1) \<le> 7" "nat (q + 1) \<le> 7" using assms(1-3) by (auto simp: is_process_def)
  then have "separate (frame_of p) WINDOW_SIZE (frame_of q) WINDOW_SIZE" unfolding nat_neq_iff by (intro separateI) (auto simp: u)
  moreover have "within (frame_of p) WINDOW_SIZE (frame_of p + off)" using assms(4) by (simp add: within_def)
  ultimately show ?thesis using separate_within by blast
qed


lemma other_directory_kept:
  assumes "tables_ok pt pd" and "is_process p" and "is_process q" and "q \<noteq> p"
  shows "directory_ok pt frame (dir_of pd q) (mem (create_paging pt pd p s)) = directory_ok pt frame (dir_of pd q) (mem s)"
proof (rule directory_ok_cong)
  fix a assume a: "within (dir_of pd q) 4096 a"
  have "nat (q - 1) \<noteq> nat (p - 1)" using assms(2-4) by (auto simp: is_process_def)
  then show "mem (create_paging pt pd p s) a = mem s a"
    using a dir_index [OF assms(2)] dir_index [OF assms(3)] separate_within directories_separate [OF assms(1)]
      table_separate(2) [OF assms(1)] tables_off_window(2) [OF assms(1)] create_paging_mem [OF assms(1,2), of a s]
    unfolding dir_of_def by metis
qed

section \<open>A sample state\<close>

definition paging_demo :: paging where
  "paging_demo = idt_state.extend idt_demo \<lparr>cr0 = 1, cr3 = 0, cr4 = 0, page_dir_address = 0, frames = (\<lambda>_. 0), shown = None\<rparr>"

abbreviation pt_demo :: u32 where "pt_demo \<equiv> 0x410000"
abbreviation pd_demo :: u32 where "pd_demo \<equiv> 0x411000"

lemma tables_demo: "tables_ok pt_demo pd_demo"
  by (simp add: tables_ok_def)

lemma reserved_clear_zero:
  assumes "tables_ok pt pd" and "\<And>a. 4194304 \<le> unat a \<Longrightarrow> unat a < 8388608 \<Longrightarrow> m a = 0"
  shows "reserved_clear pd m"
proof -
  have "get_field 13 9 (entry m (page_dir pd d) i) = 0" if d: "d < 6" and i: "i < 1024" for d i
  proof -
    have "m a = 0" if a: "within (page_dir pd d) 4096 a" for a
    proof -
      obtain k where k: "k < 4096" "a = page_dir pd d + of_nat k" using a by (auto simp: within_iff)
      have "unat a = unat (page_dir pd d) + k"
        using k unat_directory [OF assms(1) d] assms(1) d unat_add_lem [of "page_dir pd d" "of_nat k"] by (simp add: tables_ok_def)
      then show ?thesis using assms unat_directory [OF assms(1) d] d k(1) by (simp add: tables_ok_def)
    qed
    then have "entry m (page_dir pd d) i = entry (\<lambda>_. 0) (page_dir pd d) i" using i by (intro entry_same) auto
    also have "\<dots> = 0" by (simp add: entry_def load32_def join32_def)
    finally show ?thesis by (simp add: get_field_def)
  qed
  then show ?thesis by (simp add: reserved_clear_def)
qed

lemma reserved_demo: "reserved_clear pd_demo (mem paging_demo)"
  and reserved_demo_user: "reserved_clear pd_demo ((mem paging_demo)(0x08048000 := b))"
  by (rule reserved_clear_zero [OF tables_demo],
      auto simp: paging_demo_def idt_state.defs idt_demo_def keyboard.defs kb_demo_def files.defs demo_mem_def)+

section \<open>Properties\<close>

text \<open>C26: \<open>init_paging\<close>.  When the tables lie aligned and apart in the kernel page and the reserved
  bits of the directories are clear, as they are in the zeroed arrays, paging is on afterwards and
  the translation of every address is: the video page 0xB8000 at its own address, for user and
  kernel; the kernel page from 4 MB to 8 MB at its own address, for the kernel only; everything
  else faults.  Outside the two tables and the program window no memory changes.\<close>

theorem init_paging_maps:
  assumes "tables_ok pt pd" and "reserved_clear pd (mem s)"
  shows "translate (init_paging pt pd s) va =
      (if drop_bit 12 va = 0xB8 then Some (va, True, True) else if drop_bit 22 va = 1 then Some (va, False, True) else None) \<and>
    (\<forall>a. \<not> within pt 4096 a \<and> \<not> within pd 4096 a \<and> \<not> within WINDOW WINDOW_SIZE a \<longrightarrow> mem (init_paging pt pd s) a = mem s a)"
proof -
  have pd: "pd = page_dir pd 0" by (simp add: page_dir_def)
  have "translate (init_paging pt pd s) va = space_of None va"
    using translate_after [OF assms(1) _ pd, where frame = None and s = "s\<lparr>mem := init_tables pt pd (mem s)\<rparr>"]
      init_tables_ok [OF assms] by (simp add: init_paging_def page_dir_def)
  then show ?thesis by (simp add: space_of_def init_paging_def init_tables_other)
qed

theorem init_paging_maps_witness: "translate (init_paging pt_demo pd_demo paging_demo) 0xB8042 = Some (0xB8042, True, True)"
  using init_paging_maps [OF tables_demo reserved_demo, of "0xB8042"] by simp

text \<open>C9: \<open>create_paging\<close> for a process from 1 to 6.  Afterwards the process sees the video page, the
  kernel page without access rights, and its program image from 128 MB to 132 MB at the physical
  frame of its number ((process + 1) times 4 MB) with read and write access; everything else faults.
  The reserved bits stay clear, the directory of every other process still describes the address
  space it described, and outside the page table, the directory and the window no memory changes.\<close>

theorem create_paging_maps:
  assumes "tables_ok pt pd" and "reserved_clear pd (mem s)" and "is_process p"
  shows "translate (create_paging pt pd p s) va =
      (if drop_bit 12 va = 0xB8 then Some (va, True, True)
       else if drop_bit 22 va = 1 then Some (va, False, True)
       else if drop_bit 22 va = 32 then Some (of_int (p + 1) * 0x400000 + take_bit 22 va, True, True)
       else None) \<and>
    reserved_clear pd (mem (create_paging pt pd p s)) \<and>
    (\<forall>q frame. is_process q \<and> q \<noteq> p \<and> directory_ok pt frame (dir_of pd q) (mem s) \<longrightarrow>
      directory_ok pt frame (dir_of pd q) (mem (create_paging pt pd p s))) \<and>
    (\<forall>a. \<not> within pt 4096 a \<and> \<not> within (dir_of pd p) 4096 a \<and> \<not> within WINDOW WINDOW_SIZE a \<longrightarrow>
      mem (create_paging pt pd p s) a = mem s a)"
proof (intro conjI)
  show "\<forall>q frame. is_process q \<and> q \<noteq> p \<and> directory_ok pt frame (dir_of pd q) (mem s) \<longrightarrow>
      directory_ok pt frame (dir_of pd q) (mem (create_paging pt pd p s))"
    using other_directory_kept [OF assms(1,3)] by blast
qed (use translate_create [OF assms] reserved_clear_after [OF assms] create_paging_mem [OF assms(1,3)]
     in \<open>auto simp: space_of_def frame_of_def\<close>)

theorem create_paging_maps_witness:
  "translate (create_paging pt_demo pd_demo 2 paging_demo) 0x08048000 = Some (0xC48000, True, True)"
proof -
  have "is_process 2" by (simp add: is_process_def)
  then show ?thesis using create_paging_maps [OF tables_demo reserved_demo, of 2 "0x08048000"] by simp
qed

text \<open>C8: the memory of a process is its own.  A process \<open>p\<close> runs and leaves any memory \<open>m1\<close>; the
  kernel switches to another process \<open>q\<close>, which runs and leaves any memory \<open>m2\<close>; when the kernel
  switches back to \<open>p\<close>, every byte of the program window is as \<open>p\<close> left it.  (The memories are
  arbitrary but for the reserved bits of the directories.)\<close>

theorem process_memory_isolated:
  assumes "tables_ok pt pd" and "is_process p" and "is_process q" and "p \<noteq> q"
    and "reserved_clear pd (mem s)" and "reserved_clear pd m1" and "reserved_clear pd m2" and "unat off < WINDOW_SIZE"
  shows "mem (create_paging pt pd p ((create_paging pt pd q ((create_paging pt pd p s)\<lparr>mem := m1\<rparr>))\<lparr>mem := m2\<rparr>)) (WINDOW + off) =
    m1 (WINDOW + off)"
proof -
  let ?s1 = "(create_paging pt pd p s)\<lparr>mem := m1\<rparr>"
  let ?s2 = "(create_paging pt pd q ?s1)\<lparr>mem := m2\<rparr>"
  have s1: "shown ?s1 = Some (frame_of p)" using create_paging_shows(1) [OF assms(1,5,2)] by simp
  have s2: "shown ?s2 = Some (frame_of q)" using create_paging_shows(1) [of pt pd ?s1 q] assms by simp
  have "mem (create_paging pt pd p ?s2) (WINDOW + off) = frames (create_paging pt pd p ?s2) (frame_of p + off)"
    using create_paging_shows(2) [of pt pd ?s2 p off] assms by simp
  also have "\<dots> = frames ?s2 (frame_of p + off)"
    using create_paging_keeps_frame [OF assms(2) s2] frames_disjoint [OF assms(2-4,8)] by blast
  also have "\<dots> = mem ?s1 (WINDOW + off)" using create_paging_saves [OF assms(1,3) s1 assms(8)] by simp
  finally show ?thesis by simp
qed

theorem process_memory_isolated_witness:
  "mem (create_paging pt_demo pd_demo 1 ((create_paging pt_demo pd_demo 2 ((create_paging pt_demo pd_demo 1 paging_demo)
    \<lparr>mem := (mem paging_demo)(0x08048000 := 65)\<rparr>))\<lparr>mem := (mem paging_demo)(0x08048000 := 66)\<rparr>)) (WINDOW + 0x48000) = 65"
proof -
  have p: "is_process 1" "is_process 2" "(1 :: int) \<noteq> 2" by (simp_all add: is_process_def)
  have r: "reserved_clear pd_demo ((mem paging_demo)(0x08048000 := b))" for b using reserved_demo_user .
  show ?thesis using process_memory_isolated [OF tables_demo p reserved_demo r r, of "0x48000" 66 65] by simp
qed

text \<open>The range check of \<open>create_paging\<close>.  A number below 0 or above 6 changes nothing.  The number 0
  passes the check although no directory belongs to it: the page of memory before the array
  of directories is overwritten and becomes the page directory.\<close>

theorem create_paging_bounds:
  assumes "take_bit 12 pd = 0"
  shows "(p < 0 \<or> 7 \<le> p \<longrightarrow> create_paging pt pd p s = s) \<and>
    cr3 (create_paging pt pd 0 s) = pd - 4096 \<and> \<not> (\<exists>d < 6. cr3 (create_paging pt pd 0 s) = page_dir pd d)"
proof -
  have "pd - 4096 = push_bit 12 (drop_bit 12 pd - 1)"
    using bits_ident [of 12 pd] assms by (simp add: push_bit_eq_mult left_diff_distrib)
  then have al: "take_bit 12 (pd - 4096) = 0" by (auto intro!: bit_word_eqI simp: bit_simps)
  have cr3: "cr3 (create_paging pt pd 0 s) = pd - 4096"
    using cr3_of_aligned(1) [OF al] by (simp add: create_paging_def Let_def)
  have "pd - 4096 \<noteq> page_dir pd d" if "d < 6" for d
  proof
    assume "pd - 4096 = page_dir pd d"
    then have "(4096 * of_nat d + 4096 :: u32) = 0" by (simp add: page_dir_def algebra_simps)
    then have "(of_nat (4096 * d + 4096) :: u32) = of_nat 0" by simp
    then have "4096 * d + 4096 = 0" using of_nat_u32_inj [of "4096 * d + 4096" 0] that by simp
    then show False by simp
  qed
  then show ?thesis using cr3 by (auto simp: create_paging_def)
qed

theorem create_paging_bounds_witness:
  "create_paging pt_demo pd_demo 7 paging_demo = paging_demo \<and> cr3 (create_paging pt_demo pd_demo 0 paging_demo) = 0x410000"
  using create_paging_bounds [of pd_demo 7 pt_demo paging_demo] by simp

end
