(* ===== verification/Syscalls.thy ===== *)
theory Syscalls
  imports PagingProps
begin

text \<open>
  System calls: \<^verbatim>\<open>student-distrib/systemcall.c\<close> and the dispatch of \<^verbatim>\<open>asm_linkage\<close> in
  \<^verbatim>\<open>student-distrib/handler.S\<close>.  The process control block lies in memory below the kernel stack of its
  process, at the offsets the compiler gives the fields of \<open>pcb_t\<close> and \<open>file_descriptor\<close>.

  \<open>layout\<close> collects the addresses the compiler and the linker choose: the tables of file operations,
  the paging tables, the local variables, and the two stack registers \<open>execute\<close> saves.  A descriptor
  holds the address of its table; calling a null entry of a table, or through an address that is no
  table, has no result (\<open>None\<close>): the processor jumps into unmapped memory.

  \<open>execute\<close> and \<open>halt\<close> leave the kernel by \<^verbatim>\<open>iret\<close> or by a jump into the \<open>execute\<close> of the parent, so their
  result is an \<open>outcome\<close>: the value returned, the user context entered, or the stack registers and
  the value with which the parent goes on.
\<close>

unbundle bit_operations_syntax

section \<open>State\<close>

record layout =
  stdin_t :: u32
  stdout_t :: u32
  rtc_t :: u32
  file_t :: u32
  directory_t :: u32
  page_table_shell :: u32
  page_table_video :: u32
  page_directories :: u32
  printf_buf :: u32
  dentry_addr :: u32
  buf_local :: u32
  arg_buf_local :: u32
  command_name_local :: u32
  temp_local :: u32
  curr_esp :: u32
  curr_ebp :: u32

record kernel = paging +
  counter :: int
  shell_entry_addr :: u32
  arg_size :: int
  page_dir_addr :: u32
  tss_esp0 :: u32

datatype outcome = Returned int | Entered_user (eip: u32) (user_esp: u32) | Resumed (kernel_esp: u32) (kernel_ebp: u32) (exit_status: byte)

datatype file_ops = Stdin_ops | Stdout_ops | Rtc_ops | File_ops | Directory_ops

abbreviation BOTTOM_STACK :: u32 where "BOTTOM_STACK \<equiv> 0x00800000"
abbreviation STACK_SIZE :: u32 where "STACK_SIZE \<equiv> 0x2000"
abbreviation PROGRAM_STARTING_ADDR :: u32 where "PROGRAM_STARTING_ADDR \<equiv> 0x08048000"
abbreviation PROGRAM_ENDING_ADDR :: u32 where "PROGRAM_ENDING_ADDR \<equiv> 0x083ffffc"
abbreviation VIDEO_ADDR :: u32 where "VIDEO_ADDR \<equiv> 0x8400000"

text \<open>The table a descriptor points to.\<close>

definition ops_at :: "layout \<Rightarrow> u32 \<Rightarrow> file_ops option" where
  "ops_at l a =
     (if a = stdin_t l then Some Stdin_ops else if a = stdout_t l then Some Stdout_ops
      else if a = rtc_t l then Some Rtc_ops else if a = file_t l then Some File_ops
      else if a = directory_t l then Some Directory_ops else None)"

text \<open>Offsets of \<open>pcb_t\<close>: \<open>pid\<close> 0, \<open>parent_pid\<close> 1, \<open>parent_kernel_sp\<close> 4, \<open>parent_kernel_bp\<close> 8, \<open>file_array\<close> 16, \<open>arg\<close>
  400; of \<open>file_descriptor\<close> (48 bytes): \<open>file_operation\<close> 0, \<open>file_name\<close> 4, \<open>inode\<close> 36, \<open>fileposition\<close> 40,
  \<open>flags\<close> 44.\<close>

definition pcb_of :: "int \<Rightarrow> u32" where
  "pcb_of n = BOTTOM_STACK - of_int n * STACK_SIZE"

definition fd_at :: "u32 \<Rightarrow> int \<Rightarrow> u32" where
  "fd_at pcb fd = pcb + 16 + 48 * of_int fd"

text \<open>\<open>strcpy\<close> from a string literal.\<close>

definition strcpy_literal :: "u32 \<Rightarrow> string \<Rightarrow> mem \<Rightarrow> mem" where
  "strcpy_literal dest str m = poke m dest (lit str @ [0])"

section \<open>File operations\<close>

definition call_read :: "layout \<Rightarrow> 'a kernel_scheme handler list \<Rightarrow> u32 \<Rightarrow> u32 \<Rightarrow> u32 \<Rightarrow> int \<Rightarrow> u32 \<Rightarrow> 'a kernel_scheme
    \<Rightarrow> ('a kernel_scheme handler list \<times> int \<times> 'a kernel_scheme) option" where
  "call_read l irqs table buf offset nbytes name s =
     (case ops_at l table of
        Some Stdin_ops \<Rightarrow> terminal_read irqs buf offset nbytes name s
      | Some Rtc_ops \<Rightarrow> rtc_read irqs s
      | Some File_ops \<Rightarrow> map_option (Pair irqs) (file_read (dentry_addr l) buf offset (of_int nbytes) name s)
      | Some Directory_ops \<Rightarrow> map_option (Pair irqs) (directory_read buf offset (of_int nbytes) name s)
      | _ \<Rightarrow> None)"

definition call_write :: "layout \<Rightarrow> device \<Rightarrow> u32 \<Rightarrow> int \<Rightarrow> u32 \<Rightarrow> int \<Rightarrow> 'a kernel_scheme \<Rightarrow> (int \<times> 'a kernel_scheme) option" where
  "call_write l dev table fd buf nbytes s =
     (case ops_at l table of
        Some Stdout_ops \<Rightarrow> terminal_write fd buf nbytes s
      | Some Rtc_ops \<Rightarrow> Some (rtc_write dev fd buf nbytes s)
      | Some File_ops \<Rightarrow> Some (file_write s)
      | Some Directory_ops \<Rightarrow> Some (directory_write s)
      | _ \<Rightarrow> None)"

definition call_close :: "layout \<Rightarrow> u32 \<Rightarrow> 'a kernel_scheme \<Rightarrow> (int \<times> 'a kernel_scheme) option" where
  "call_close l table s =
     (case ops_at l table of
        Some Rtc_ops \<Rightarrow> Some (rtc_close s)
      | Some File_ops \<Rightarrow> Some (file_close s)
      | Some Directory_ops \<Rightarrow> Some (directory_close s)
      | _ \<Rightarrow> None)"

definition sys_read :: "layout \<Rightarrow> 'a kernel_scheme handler list \<Rightarrow> int \<Rightarrow> u32 \<Rightarrow> int \<Rightarrow> 'a kernel_scheme
    \<Rightarrow> ('a kernel_scheme handler list \<times> int \<times> 'a kernel_scheme) option" where
  "sys_read l irqs fd buf nbytes s =
     (let s = sti s in
      if fd < 0 \<or> fd > 7 \<or> buf = 0 then Some (irqs, -1, s)
      else
        let f = fd_at (pcb_of (counter s)) fd in
        if load32 (mem s) (f + 44) = 0 then Some (irqs, -1, s)
        else do {
          let offset = load32 (mem s) (f + 40);
          let filename = f + 4;
          (irqs', bytes, s) \<leftarrow> call_read l irqs (load32 (mem s) f) buf offset nbytes filename s;
          let s = s\<lparr>mem := store32 (mem s) (f + 40) (load32 (mem s) (f + 40) + of_int bytes)\<rparr>;
          Some (irqs', bytes, s)
        })"

definition sys_write :: "layout \<Rightarrow> device \<Rightarrow> int \<Rightarrow> u32 \<Rightarrow> int \<Rightarrow> 'a kernel_scheme \<Rightarrow> (int \<times> 'a kernel_scheme) option" where
  "sys_write l dev fd buf nbytes s =
     (if fd < 0 \<or> fd > 7 \<or> buf = 0 then Some (-1, s)
      else
        let f = fd_at (pcb_of (counter s)) fd in
        if load32 (mem s) (f + 44) = 0 then Some (-1, s)
        else call_write l dev (load32 (mem s) f) fd buf nbytes s)"

text \<open>The search for a free descriptor; \<open>None\<close> is \<open>vacant_fd\<close> -1.\<close>

function vacant_fd :: "mem \<Rightarrow> u32 \<Rightarrow> int \<Rightarrow> int option" where
  "vacant_fd m pcb i =
     (if i < 8 then (if load32 m (fd_at pcb i + 44) = 0 then Some i else vacant_fd m pcb (i + 1)) else None)"
  by pat_completeness auto
termination
  by (relation "measure (\<lambda>(m, pcb, i). nat (8 - i))") auto

declare vacant_fd.simps [simp del]

text \<open>The table for a file type; any other type leaves the pointer of the descriptor alone.\<close>

definition ops_for :: "layout \<Rightarrow> u32 \<Rightarrow> u32 \<Rightarrow> u32" where
  "ops_for l filetype old =
     (if filetype = 2 then file_t l else if filetype = 1 then directory_t l else if filetype = 0 then rtc_t l else old)"

definition sys_open :: "layout \<Rightarrow> u32 \<Rightarrow> 'a kernel_scheme \<Rightarrow> (int \<times> 'a kernel_scheme) option" where
  "sys_open l filename s =
     (let pcb = pcb_of (counter s) in
      if strncmp (lit_ptr ''stdin'') (ptr (mem s) filename) 5 = 0 then
        (let m = store32 (mem s) (fd_at pcb 0) (stdin_t l);
             m = store32 m (fd_at pcb 0 + 44) 1
         in Some (0, s\<lparr>mem := m\<rparr>))
      else if strncmp (lit_ptr ''stdout'') (ptr (mem s) filename) 5 = 0 then
        (let m = store32 (mem s) (fd_at pcb 1) (stdout_t l);
             m = store32 m (fd_at pcb 1 + 44) 1
         in Some (0, s\<lparr>mem := m\<rparr>))
      else do {
        let temp = dentry_addr l;
        (r, s) \<leftarrow> read_dentry_by_name filename temp s;
        if r = -1 then Some (-1, s)
        else case vacant_fd (mem s) pcb 2 of
          None \<Rightarrow> Some (-1, s)
        | Some fd \<Rightarrow> do {
            let f = fd_at pcb fd;
            let m = store32 (mem s) f (ops_for l (load32 (mem s) (temp + 32)) (load32 (mem s) f));
            let m = store32 m (f + 44) 1;
            let m = store32 m (f + 36) (load32 m (temp + 36));
            let m = store32 m (f + 40) 0;
            m \<leftarrow> strcpy m (f + 4) filename;
            Some (fd, s\<lparr>mem := m\<rparr>)
          }
      })"

definition sys_close :: "layout \<Rightarrow> int \<Rightarrow> 'a kernel_scheme \<Rightarrow> (int \<times> 'a kernel_scheme) option" where
  "sys_close l fd s =
     (if fd < 2 \<or> fd > 7 then Some (-1, s)
      else
        let f = fd_at (pcb_of (counter s)) fd in
        if load32 (mem s) (f + 44) = 1 then do {
          (ret, s) \<leftarrow> call_close l (load32 (mem s) f) s;
          let m = store32 (mem s) (f + 36) 0;
          let m = store32 m (f + 44) 0;
          let m = store32 m (f + 40) 0;
          let m = store32 m f 0;
          let m = strcpy_literal (f + 4) '''' m;
          Some (ret, s\<lparr>mem := m\<rparr>)
        }
        else Some (-1, s))"

section \<open>Arguments and video memory\<close>

definition getargs :: "u32 \<Rightarrow> int \<Rightarrow> 'a kernel_scheme \<Rightarrow> int \<times> 'a kernel_scheme" where
  "getargs buf nbytes s =
     (if buf = 0 \<or> nbytes < arg_size s then (-1, s)
      else (0, s\<lparr>mem := strncpy (mem s) buf (pcb_of (counter s) + 400) (of_int nbytes)\<rparr>))"

definition video_pte_fields :: "nat \<Rightarrow> ((nat \<times> nat) \<times> u32) list" where
  "video_pte_fields i =
     [(present_f, if i = 0 then 1 else 0), (read_write_f, if i = 0 then 1 else 0), (user_supervisor_f, if i = 0 then 1 else 0),
      (write_through_f, 0), (cache_disabled_f, 0), (accessed_f, 0), (dirty_f, 0), (PTE_pat_f, 0), (global_f, 0),
      (available_f, 0), (KB_base_addr_f, 184)]"

text \<open>The fields of entry \<open>VIDEO_MEM\<close> (33) are those \<open>create_paging\<close> gives entry 0, for the other table.\<close>

definition vidmap :: "layout \<Rightarrow> u32 \<Rightarrow> 'a kernel_scheme \<Rightarrow> int \<times> 'a kernel_scheme" where
  "vidmap l screen_start s =
     (if screen_start < 0x08000000 \<or> screen_start \<ge> 0x08400000 then (-1, s)
      else
        let m = entry_loop video_pte_fields (page_table_video l) 0 (mem s);
            dir = page_directories l + 4096 * of_int (counter s - 1);
            m = put_fields (dir + 4 * 33) (pde0_fields (page_table_video l)) m;
            m = store32 m screen_start VIDEO_ADDR
        in (0, s\<lparr>mem := m\<rparr>))"

definition set_handler :: "u32 \<Rightarrow> u32 \<Rightarrow> 'a kernel_scheme \<Rightarrow> int \<times> 'a kernel_scheme" where
  "set_handler signum handler_address s = (-1, s)"

definition sigreturn :: "'a kernel_scheme \<Rightarrow> int \<times> 'a kernel_scheme" where
  "sigreturn s = (-1, s)"


section \<open>Programs\<close>

text \<open>The two loops over the command line.  The first copies up to 32 characters or to a space, also
  past a terminating zero; the second copies what follows up to a zero.\<close>

function parse_name :: "u32 \<Rightarrow> u32 \<Rightarrow> int \<Rightarrow> mem \<Rightarrow> int \<times> mem" where
  "parse_name command command_name i m =
     (if i < 32 \<and> m (command + of_int i) \<noteq> 32
      then parse_name command command_name (i + 1) (m(command_name + of_int i := m (command + of_int i)))
      else (i, m))"
  by pat_completeness auto
termination
  by (relation "measure (\<lambda>(c, n, i, m). nat (32 - i))") auto

declare parse_name.simps [simp del]

partial_function (option) parse_args :: "u32 \<Rightarrow> u32 \<Rightarrow> int \<Rightarrow> int \<Rightarrow> mem \<Rightarrow> (int \<times> mem) option" where
  "parse_args command arg_buf i n m =
     (if m (command + of_int i) \<noteq> 0
      then parse_args command arg_buf (i + 1) (n + 1) (m(arg_buf + of_int n := m (command + of_int i)))
      else Some (n, m))"

definition parse_command :: "layout \<Rightarrow> u32 \<Rightarrow> 'a kernel_scheme \<Rightarrow> 'a kernel_scheme option" where
  "parse_command l command s = do {
     let (i, m) = parse_name command (command_name_local l) 0 (mem s);
     let m = m(command_name_local l + of_int i := 0);
     (n, m) \<leftarrow> parse_args command (arg_buf_local l) (i + 1) 0 m;
     let m = m(arg_buf_local l + of_int n := 0);
     Some (s\<lparr>mem := m, arg_size := n\<rparr>)
   }"

definition check_executable :: "layout \<Rightarrow> u32 \<Rightarrow> 'a kernel_scheme \<Rightarrow> (int \<times> 'a kernel_scheme) option" where
  "check_executable l command_name s = do {
     let temp = temp_local l;
     (r, s) \<leftarrow> file_read (dentry_addr l) temp 0 4 command_name s;
     if r = -1 then Some (-1, s)
     else if mem s temp \<noteq> 0x7f \<or> mem s (temp + 1) \<noteq> 0x45 \<or> mem s (temp + 2) \<noteq> 0x4c \<or> mem s (temp + 3) \<noteq> 0x46
     then Some (-1, s)
     else Some (0, s)
   }"

text \<open>The five assignments to a descriptor.\<close>

definition set_fd :: "u32 \<Rightarrow> u32 \<Rightarrow> string \<Rightarrow> u32 \<Rightarrow> mem \<Rightarrow> mem" where
  "set_fd f table name flags m =
     (let m = store32 m f table;
          m = strcpy_literal (f + 4) name m;
          m = store32 m (f + 36) 0;
          m = store32 m (f + 40) 0
      in store32 m (f + 44) flags)"

text \<open>Steps 5 and 6 of \<open>execute\<close>: the process control block, the kernel stack of the process, its
  arguments.\<close>

definition init_pcb :: "layout \<Rightarrow> int \<Rightarrow> mem \<Rightarrow> mem" where
  "init_pcb l n m =
     (let pcb = pcb_of n;
          m = m(pcb := of_int n);
          m = (if n = 1 then m(pcb + 1 := 0) else m(pcb + 1 := m (curr_esp l AND 0xffffe000)));
          m = store32 m (pcb + 4) (curr_esp l);
          m = store32 m (pcb + 8) (curr_ebp l);
          m = set_fd (fd_at pcb 0) (stdin_t l) ''STDIN'' 1 m;
          m = set_fd (fd_at pcb 1) (stdout_t l) ''STDOUT'' 1 m
      in fold (\<lambda>i. set_fd (fd_at pcb i) 0 [] 0) [2, 3, 4, 5, 6, 7] m)"

definition enter_program :: "layout \<Rightarrow> u32 \<Rightarrow> 'a kernel_scheme \<Rightarrow> outcome \<times> 'a kernel_scheme" where
  "enter_program l entry_addr s =
     (let pcb = pcb_of (counter s);
          s = s\<lparr>mem := init_pcb l (counter s) (mem s)\<rparr>;
          s = s\<lparr>tss_esp0 := BOTTOM_STACK - of_int (counter s - 1) * 0x2000 - 4\<rparr>;
          s = s\<lparr>mem := fill (mem s) (pcb + 400) 1024 0\<rparr>;
          s = s\<lparr>mem := strncpy (mem s) (pcb + 400) (arg_buf_local l) (of_int (arg_size s))\<rparr>;
          s = cli s
      in (Entered_user entry_addr PROGRAM_ENDING_ADDR, s))"

text \<open>\<open>execute\<close> from the entry address on (steps 2 to 7), and as a whole.\<close>

definition start_program :: "layout \<Rightarrow> u32 \<Rightarrow> 'a kernel_scheme \<Rightarrow> (outcome \<times> 'a kernel_scheme) option" where
  "start_program l command_name s = do {
     let buf = buf_local l;
     (r, s) \<leftarrow> file_read (dentry_addr l) buf 24 4 command_name s;
     if r = -1 then Some (Returned (-1), s)
     else do {
       let entry_addr = join32 (mem s buf) (mem s (buf + 1)) (mem s (buf + 2)) (mem s (buf + 3));
       let s = s\<lparr>counter := counter s + 1\<rparr>;
       let s = (if counter s = 1 then s\<lparr>shell_entry_addr := entry_addr\<rparr> else s);
       let s = create_paging (page_table_shell l) (page_directories l) (counter s) s;
       (a, s) \<leftarrow> file_load (dentry_addr l) command_name PROGRAM_STARTING_ADDR s;
       if a = -1 then Some (Returned (-1), s)
       else Some (enter_program l entry_addr s)
     }
   }"

definition execute :: "layout \<Rightarrow> u32 \<Rightarrow> 'a kernel_scheme \<Rightarrow> (outcome \<times> 'a kernel_scheme) option" where
  "execute l command s =
     (if counter s \<ge> 6 then do {
        s \<leftarrow> kprintf (printf_buf l) (''Can'' @ [CHR 0x27] @ ''t execute more than 6 processes'' @ [CHR 0x0A]) [] s;
        Some (Returned (-1), s)
      }
      else if command = 0 then Some (Returned (-1), s)
      else do {
        s \<leftarrow> parse_command l command s;
        let command_name = command_name_local l;
        (r, s) \<leftarrow> check_executable l command_name s;
        if r = -1 then Some (Returned (-1), s)
        else start_program l command_name s
      })"

definition halt :: "layout \<Rightarrow> byte \<Rightarrow> 'a kernel_scheme \<Rightarrow> outcome \<times> 'a kernel_scheme" where
  "halt l status s =
     (let pcb = pcb_of (counter s) in
      if mem s pcb = 1 then
        (let s = clear_screen s;
             s = cli s
         in (Entered_user (shell_entry_addr s) PROGRAM_ENDING_ADDR, s))
      else
        (let s = s\<lparr>counter := counter s - 1\<rparr>;
             s = s\<lparr>page_dir_addr := page_directories l + 4096 * of_int (uint (mem s (pcb + 1)) - 1)\<rparr>;
             s = load_cr3 (page_dir_addr s AND 0xFFFFFFE7) s;
             s = s\<lparr>tss_esp0 := BOTTOM_STACK - of_int (counter s - 1) * 0x2000 - 4\<rparr>
         in (Resumed (load32 (mem s) (pcb + 4)) (load32 (mem s) (pcb + 8)) status, s)))"

section \<open>Dispatch\<close>

text \<open>The system call gate is an interrupt gate: interrupts are off in the handler, and the \<^verbatim>\<open>iret\<close> that
  returns to the caller restores the flag.\<close>

definition iret_to_caller :: "bool \<Rightarrow> 'i \<Rightarrow> outcome \<times> 'a kernel_scheme \<Rightarrow> 'i \<times> outcome \<times> 'a kernel_scheme" where
  "iret_to_caller flag irqs = (\<lambda>(r, s). case r of Returned v \<Rightarrow> (irqs, r, s\<lparr>intr := flag\<rparr>) | _ \<Rightarrow> (irqs, r, s))"

abbreviation give :: "bool \<Rightarrow> 'i \<Rightarrow> int \<times> 'a kernel_scheme \<Rightarrow> 'i \<times> outcome \<times> 'a kernel_scheme" where
  "give flag irqs r \<equiv> iret_to_caller flag irqs (map_prod Returned id r)"

definition asm_linkage :: "layout \<Rightarrow> device \<Rightarrow> 'a kernel_scheme handler list \<Rightarrow> u32 \<Rightarrow> u32 \<Rightarrow> u32 \<Rightarrow> u32 \<Rightarrow> 'a kernel_scheme
    \<Rightarrow> ('a kernel_scheme handler list \<times> outcome \<times> 'a kernel_scheme) option" where
  "asm_linkage l dev irqs eax ebx ecx edx s =
     (let flag = intr s;
          s = cli s
      in
      if sint eax < 1 \<or> sint eax > 10 then Some (give flag irqs (-1, s))
      else if eax = 1 then Some (iret_to_caller flag irqs (halt l (ucast ebx) s))
      else if eax = 2 then map_option (iret_to_caller flag irqs) (execute l ebx s)
      else if eax = 3 then map_option (\<lambda>(irqs', r). give flag irqs' r) (sys_read l irqs (sint ebx) ecx (sint edx) s)
      else if eax = 4 then map_option (give flag irqs) (sys_write l dev (sint ebx) ecx (sint edx) s)
      else if eax = 5 then map_option (give flag irqs) (sys_open l ebx s)
      else if eax = 6 then map_option (give flag irqs) (sys_close l (sint ebx) s)
      else if eax = 7 then Some (give flag irqs (getargs ebx (sint ecx) s))
      else if eax = 8 then Some (give flag irqs (vidmap l ebx s))
      else if eax = 9 then Some (give flag irqs (set_handler ebx ecx s))
      else Some (give flag irqs (sigreturn s)))"

end
