(* ===== verification/Descriptors.thy ===== *)
theory Descriptors
  imports Syscalls Frame
begin

text \<open>
  The file descriptors of a process.  \<open>fd_view\<close> is the abstract descriptor table the process control
  block in memory represents; opening and closing files are proved against it, and reading an open
  file to its end delivers the file.
\<close>

unbundle bit_operations_syntax

section \<open>The descriptor table\<close>

record descriptor =
  d_table :: u32
  d_inode :: u32
  d_pos :: u32
  d_flags :: u32

definition fd_view :: "mem \<Rightarrow> u32 \<Rightarrow> nat \<Rightarrow> descriptor option" where
  "fd_view m pcb i =
     (let f = fd_at pcb (int i) in
      if load32 m (f + 44) = 0 then None
      else Some \<lparr>d_table = load32 m f, d_inode = load32 m (f + 36), d_pos = load32 m (f + 40), d_flags = load32 m (f + 44)\<rparr>)"

lemma within_field: "within (f + of_nat k) 4 a \<Longrightarrow> k + 4 \<le> 48 \<Longrightarrow> within (f :: u32) 48 a"
  using within_sub_block [of f k 4 a 48] by simp

lemma field_cong:
  assumes "\<And>a. within f 48 a \<Longrightarrow> m a = m' a"
  shows "load32 m f = load32 m' f" "load32 m (f + 36) = load32 m' (f + 36)" "load32 m (f + 40) = load32 m' (f + 40)"
    "load32 m (f + 44) = load32 m' (f + 44)"
  using within_field [of f 0] within_field [of f 36] within_field [of f 40] within_field [of f 44] assms
  by (auto intro!: word_at.local)

interpretation fd: local_view "fd_at pcb (int i)" 48 "\<lambda>m. fd_view m pcb i" for pcb i
proof unfold_locales
  fix m m' :: mem assume "\<And>a. within (fd_at pcb (int i)) 48 a \<Longrightarrow> m a = m' a"
  then have "load32 m (fd_at pcb (int i) + k) = load32 m' (fd_at pcb (int i) + k)" if "k \<in> {0, 36, 40, 44}" for k
    using field_cong [of "fd_at pcb (int i)" m m'] that by auto
  from this [of 0] this [of 36] this [of 40] this [of 44] show "fd_view m pcb i = fd_view m' pcb i" by (simp add: fd_view_def Let_def)
qed

lemma fd_at_nat: "fd_at pcb (int i) = pcb + of_nat (16 + 48 * i)"
  by (simp add: fd_at_def ac_simps)

lemma fd_apart: "i < 8 \<Longrightarrow> j < 8 \<Longrightarrow> i \<noteq> j \<Longrightarrow> apart (fd_at pcb (int i)) 48 (fd_at pcb (int j)) 48"
  unfolding fd_at_nat by (rule apart_offsets) auto

lemma fd_in_pcb: "i < 8 \<Longrightarrow> within (fd_at pcb (int i)) 48 a \<Longrightarrow> within pcb 1424 a"
  using within_sub_block [of pcb "16 + 48 * i" 48 a 1424] by (simp add: fd_at_nat)

text \<open>The search for a free descriptor finds the lowest one.\<close>

definition free_fd :: "mem \<Rightarrow> u32 \<Rightarrow> nat option" where
  "free_fd m pcb = find (\<lambda>i. fd_view m pcb i = None) [2..<8]"

lemma vacant_fd_find: "i \<le> 8 \<Longrightarrow> vacant_fd m pcb (int i) = map_option int (find (\<lambda>i. fd_view m pcb i = None) [i..<8])"
proof (induction "8 - i" arbitrary: i)
  case 0
  then show ?case by (subst vacant_fd.simps) simp
next
  case (Suc d)
  then have "[i..<8] = i # [Suc i..<8]" by (simp add: upt_conv_Cons)
  moreover have "vacant_fd m pcb (int i + 1) = map_option int (find (\<lambda>i. fd_view m pcb i = None) [Suc i..<8])"
    using Suc.hyps(1) [of "Suc i"] Suc.hyps(2) Suc.prems by (simp add: add.commute)
  ultimately show ?case using Suc.hyps(2) by (subst vacant_fd.simps) (auto simp: fd_view_def Let_def)
qed

lemma vacant_fd_free: "vacant_fd m pcb 2 = map_option int (free_fd m pcb)"
  using vacant_fd_find [of 2 m pcb] by (simp add: free_fd_def)

lemma free_fd_Some: "free_fd m pcb = Some i \<Longrightarrow> 2 \<le> i \<and> i < 8 \<and> fd_view m pcb i = None"
proof -
  assume "free_fd m pcb = Some i"
  then have "i \<in> set [2..<8] \<and> fd_view m pcb i = None" unfolding free_fd_def find_Some_iff by (metis nth_mem)
  then show ?thesis by auto
qed

lemma free_fd_cong: "(\<And>i. i < 8 \<Longrightarrow> fd_view m pcb i = fd_view m' pcb i) \<Longrightarrow> free_fd m pcb = free_fd m' pcb"
  unfolding free_fd_def by (intro find_cong) auto


section \<open>Writing a descriptor\<close>

lemma fields_apart:
  fixes f :: u32
  shows "apart f 4 (f + 36) 4" "apart f 4 (f + 40) 4" "apart f 4 (f + 44) 4" "apart (f + 36) 4 f 4" "apart (f + 36) 4 (f + 40) 4" "apart (f + 36) 4 (f + 44) 4"
    "apart (f + 40) 4 f 4" "apart (f + 40) 4 (f + 36) 4" "apart (f + 40) 4 (f + 44) 4" "apart (f + 44) 4 f 4" "apart (f + 44) 4 (f + 36) 4" "apart (f + 44) 4 (f + 40) 4"
  using apart_offsets [of 0 4 36 4 f] apart_offsets [of 0 4 40 4 f] apart_offsets [of 0 4 44 4 f] apart_offsets [of 36 4 0 4 f] apart_offsets [of 36 4 40 4 f] apart_offsets [of 36 4 44 4 f]
    apart_offsets [of 40 4 0 4 f] apart_offsets [of 40 4 36 4 f] apart_offsets [of 40 4 44 4 f] apart_offsets [of 44 4 0 4 f] apart_offsets [of 44 4 36 4 f] apart_offsets [of 44 4 40 4 f] by simp_all

lemma fields_name_apart:
  fixes f :: u32
  shows "n \<le> 32 \<Longrightarrow> apart f 4 (f + 4) n" "n \<le> 32 \<Longrightarrow> apart (f + 36) 4 (f + 4) n" "n \<le> 32 \<Longrightarrow> apart (f + 40) 4 (f + 4) n" "n \<le> 32 \<Longrightarrow> apart (f + 44) 4 (f + 4) n"
  using apart_offsets [of 0 4 4 n f] apart_offsets [of 36 4 4 n f] apart_offsets [of 40 4 4 n f] apart_offsets [of 44 4 4 n f] by simp_all

lemmas field_simps_fd = word_at.frame_store32 word_at.frame_blit word_at.frame_poke fields_apart fields_name_apart

lemma store32_field: "\<not> within f 48 a \<Longrightarrow> k + 4 \<le> 48 \<Longrightarrow> store32 m (f + of_nat k) v a = m a"
  using within_field [of f k a] store32_other by blast

lemma stores_field:
  assumes "\<not> within f 48 a"
  shows "store32 m f v a = m a" "store32 m (f + 36) v a = m a" "store32 m (f + 40) v a = m a" "store32 m (f + 44) v a = m a"
  using store32_field [OF assms, of 0] store32_field [OF assms, of 36] store32_field [OF assms, of 40] store32_field [OF assms, of 44] by simp_all

lemma name_in_fd: "n \<le> 32 \<Longrightarrow> within (f + 4) n a \<Longrightarrow> within (f :: u32) 48 a"
  using within_sub_block [of f 4 n a 48] by simp

text \<open>The stores of \<open>open\<close> into the descriptor at \<open>f\<close>.\<close>

lemma open_stores:
  fixes f table k :: u32 and m :: mem
  assumes "cstr (ptr m filename) xs" and "length xs < 32" and "apart filename (Suc (length xs)) f 48"
  defines "m4 \<equiv> store32 (store32 (store32 (store32 m f table) (f + 44) 1) (f + 36) k) (f + 40) 0"
  shows "\<exists>m'. strcpy m4 (f + 4) filename = Some m' \<and> load32 m' f = table \<and> load32 m' (f + 36) = k \<and> load32 m' (f + 40) = 0 \<and>
    load32 m' (f + 44) = 1 \<and> cstr (ptr m' (f + 4)) xs \<and> (\<forall>a. \<not> within f 48 a \<longrightarrow> m' a = m a)"
proof -
  let ?n = "Suc (length xs)"
  let ?m' = "blit m4 (f + 4) filename ?n"
  have out: "m4 a = m a" if "\<not> within f 48 a" for a using stores_field [OF that] by (simp add: m4_def)
  have name: "cstr (ptr m4 filename) xs" using assms(1) string_at.frame [OF assms(3) out] by simp
  have off: "apart (f + 4) ?n filename ?n"
    using assms(2,3) name_in_fd [of ?n f] by (auto simp: apart_def)
  have safe: "forward_safe (f + 4) filename ?n" using apart_forward_safe [OF off] .
  have "strcpy m4 (f + 4) filename = Some ?m'" using strcpy_blit [OF name safe] .
  moreover have "load32 ?m' f = table" "load32 ?m' (f + 36) = k" "load32 ?m' (f + 40) = 0" "load32 ?m' (f + 44) = 1"
    using assms(2) by (simp_all add: field_simps_fd m4_def)
  moreover have "cstr (ptr ?m' (f + 4)) xs" using cstr_blit [OF name] .
  moreover have "?m' a = m a" if "\<not> within f 48 a" for a
    using name_in_fd [of ?n f a] that assms(2) out by (auto simp: blit_def)
  ultimately show ?thesis by blast
qed


section \<open>Opening a file\<close>

abbreviation pcb :: "'a kernel_scheme \<Rightarrow> u32" where "pcb s \<equiv> pcb_of (counter s)"

text \<open>The file system is mounted with the directory \<open>names\<close>, and image, process control block and the local
  directory entry do not overlap.\<close>

definition fs_ready :: "layout \<Rightarrow> byte list list \<Rightarrow> 'a kernel_scheme \<Rightarrow> bool" where
  "fs_ready l names s \<longleftrightarrow> mounted s \<and> directory s names \<and> dentry_room s (dentry_addr l) \<and>
     apart (dentry_addr l) 64 (pcb s) 1424 \<and> (\<forall>a. within (pcb s) 1424 a \<longrightarrow> \<not> in_image s a)"

definition reserved_name :: "byte list \<Rightarrow> bool" where
  "reserved_name xs \<longleftrightarrow> take 5 xs \<in> {lit ''stdin'', lit ''stdou''}"

lemma reserved_strncmp:
  assumes "cstr (ptr m filename) xs"
  shows "reserved_name xs \<longleftrightarrow> strncmp (lit_ptr ''stdin'') (ptr m filename) 5 = 0 \<or> strncmp (lit_ptr ''stdout'') (ptr m filename) 5 = 0"
proof -
  have "cstr (lit_ptr ''stdin'') (lit ''stdin'')" "cstr (lit_ptr ''stdout'') (lit ''stdout'')"
    by (rule cstr_lit_ptr; simp)+
  from this(1) [THEN strncmp_eq_0, OF assms, of 5] this(2) [THEN strncmp_eq_0, OF assms, of 5] show ?thesis
    by (auto simp: reserved_name_def lit_def)
qed

lemma fd_view_kept:
  assumes "apart d n (pcb_of c) 1424" and "i < 8" and "\<And>a. \<not> within d n a \<Longrightarrow> m' a = m a"
  shows "fd_view m' (pcb_of c) i = fd_view m (pcb_of c) i"
proof (rule fd.frame [OF _ assms(3)])
  show "apart (fd_at (pcb_of c) (int i)) 48 d n"
    using assms(1) fd_in_pcb [OF assms(2)] by (auto simp: apart_def)
qed

lemma other_fd_kept:
  assumes "apart d n (pcb_of c) 1424" and "j < 8" and "j \<noteq> fd" and "fd < 8"
    and "\<And>a. \<not> within d n a \<Longrightarrow> \<not> within (fd_at (pcb_of c) (int fd)) 48 a \<Longrightarrow> m' a = m a"
  shows "fd_view m' (pcb_of c) j = fd_view m (pcb_of c) j"
proof (rule fd.local)
  fix a assume a: "within (fd_at (pcb_of c) (int j)) 48 a"
  have "\<not> within d n a" using a assms(1) fd_in_pcb [OF assms(2)] by (auto simp: apart_def)
  moreover have "\<not> within (fd_at (pcb_of c) (int fd)) 48 a" using a fd_apart [OF assms(2,4,3)] apartD by blast
  ultimately show "m' a = m a" by (rule assms(5))
qed

lemma below_3: "(t :: u32) < 3 \<Longrightarrow> t = 0 \<or> t = 1 \<or> t = 2"
proof -
  assume "t < 3"
  then have "unat t < 3" by (simp add: word_less_nat_alt)
  then have "unat t \<in> {0, 1, 2}" by auto
  then show ?thesis by (auto simp: word_unat_eq_iff)
qed

definition fresh_fd :: "layout \<Rightarrow> 'a kernel_scheme \<Rightarrow> nat \<Rightarrow> nat \<Rightarrow> descriptor" where
  "fresh_fd l s i fd = \<lparr>d_table = ops_for l (entry_type s i) (load32 (mem s) (fd_at (pcb s) (int fd))),
     d_inode = entry_inode s i, d_pos = 0, d_flags = 1\<rparr>"

lemma sys_open_missing:
  assumes "fs_ready l names s" and "cstr (ptr (mem s) filename) xs" and "length xs < 2147483648"
    and "\<not> reserved_name xs" and "xs = [] \<or> xs \<notin> set names"
  shows "sys_open l filename s = Some (-1, s)"
proof -
  have "read_dentry_by_name filename (dentry_addr l) s = Some (-1, s)"
    using read_dentry_by_name_find [of s names filename xs] assms first_index_None [of xs names] by (auto simp: fs_ready_def)
  then show ?thesis using assms(4) reserved_strncmp [OF assms(2)] by (simp add: sys_open_def Let_def)
qed

lemma sys_open_found:
  assumes "fs_ready l names s" and "cstr (ptr (mem s) filename) xs" and "length xs < 32"
    and "\<not> reserved_name xs" and "xs \<noteq> []" and "first_index xs names = Some i"
    and "apart filename (Suc (length xs)) (pcb s) 1424" and "apart filename (Suc (length xs)) (dentry_addr l) 64"
  shows "case free_fd (mem s) (pcb s) of
      None \<Rightarrow> \<exists>m'. sys_open l filename s = Some (-1, s\<lparr>mem := m'\<rparr>) \<and> (\<forall>a. \<not> within (dentry_addr l) 64 a \<longrightarrow> m' a = mem s a)
    | Some fd \<Rightarrow> \<exists>m'. sys_open l filename s = Some (int fd, s\<lparr>mem := m'\<rparr>) \<and>
        fd_view m' (pcb s) fd = Some (fresh_fd l s i fd) \<and> cstr (ptr m' (fd_at (pcb s) (int fd) + 4)) xs \<and>
        (\<forall>a. \<not> within (dentry_addr l) 64 a \<longrightarrow> \<not> within (fd_at (pcb s) (int fd)) 48 a \<longrightarrow> m' a = mem s a)"
proof -
  let ?d = "dentry_addr l"
  have fs: "mounted s" "directory s names" "dentry_room s ?d" "apart ?d 64 (pcb s) 1424" using assms(1) by (simp_all add: fs_ready_def)
  obtain m where m: "read_dentry_by_name filename ?d s = Some (0, s\<lparr>mem := m\<rparr>)" "entry_copied s ?d i xs m"
    using read_dentry_by_name_correct [OF fs(1-3) assms(2)] assms(3,5,6) by auto
  have out: "m a = mem s a" if "\<not> within ?d 64 a" for a using m(2) that by (simp add: entry_copied_def)
  have view: "fd_view m (pcb s) j = fd_view (mem s) (pcb s) j" if "j < 8" for j using fd_view_kept [OF fs(4) that out] .
  have free: "vacant_fd m (pcb s) 2 = map_option int (free_fd (mem s) (pcb s))"
    using free_fd_cong [of m "pcb s" "mem s"] view by (simp add: vacant_fd_free)
  have nores: "strncmp (lit_ptr ''stdin'') (ptr (mem s) filename) 5 \<noteq> 0" "strncmp (lit_ptr ''stdout'') (ptr (mem s) filename) 5 \<noteq> 0"
    using assms(4) reserved_strncmp [OF assms(2)] by auto
  show ?thesis
  proof (cases "free_fd (mem s) (pcb s)")
    case None
    then show ?thesis using m(1) nores free out by (auto simp: sys_open_def Let_def)
  next
    case (Some fd)
    let ?f = "fd_at (pcb s) (int fd)"
    have fd: "2 \<le> fd" "fd < 8" using free_fd_Some [OF Some] by simp_all
    have name: "cstr (ptr m filename) xs" using assms(2) string_at.frame [OF assms(8) out] by simp
    have off: "apart filename (Suc (length xs)) ?f 48" using assms(7) fd_in_pcb [OF fd(2)] by (auto simp: apart_def)
    let ?table = "ops_for l (load32 m (?d + 32)) (load32 m ?f)"
    let ?m2 = "store32 (store32 m ?f ?table) (?f + 44) 1"
    have df: "apart ?d 64 ?f 48" using fs(4) fd_in_pcb [OF fd(2)] by (auto simp: apart_def)
    have inode: "load32 ?m2 (?d + 36) = entry_inode s i"
    proof -
      have "load32 ?m2 (?d + 36) = load32 m (?d + 36)"
        by (rule word_at.frame [of _ ?f 48]) (use df within_sub_block [of ?d 36 4 _ 64] stores_field in \<open>auto simp: apart_def\<close>)
      then show ?thesis using m(2) by (simp add: entry_copied_def)
    qed
    have "load32 m ?f = load32 (mem s) ?f"
      by (rule word_at.frame [of _ ?d 64]) (use df within_field [of ?f 0] out in \<open>auto simp: apart_def\<close>)
    then have table: "?table = d_table (fresh_fd l s i fd)" using m(2) by (simp add: entry_copied_def fresh_fd_def)
    obtain m' where m': "strcpy (store32 (store32 ?m2 (?f + 36) (load32 ?m2 (?d + 36))) (?f + 40) 0) (?f + 4) filename = Some m'"
      "load32 m' ?f = ?table" "load32 m' (?f + 36) = load32 ?m2 (?d + 36)" "load32 m' (?f + 40) = 0" "load32 m' (?f + 44) = 1"
      "cstr (ptr m' (?f + 4)) xs" "\<forall>a. \<not> within ?f 48 a \<longrightarrow> m' a = m a"
      using open_stores [OF name assms(3) off, of ?table "load32 ?m2 (?d + 36)"] by blast
    have "sys_open l filename s = Some (int fd, s\<lparr>mem := m'\<rparr>)"
      using m(1) nores free Some m'(1) by (simp add: sys_open_def Let_def)
    moreover have "fd_view m' (pcb s) fd = Some (fresh_fd l s i fd)"
      using m'(2-5) inode table by (simp add: fd_view_def fresh_fd_def Let_def)
    ultimately show ?thesis using Some m'(6,7) out by auto
  qed
qed


section \<open>Closing a file\<close>

lemma sys_close_closed:
  assumes "2 \<le> fd" and "fd < 8" and "fd_view (mem s) (pcb s) fd = None"
  shows "sys_close l (int fd) s = Some (-1, s)"
  using assms by (auto simp: sys_close_def fd_view_def Let_def split: if_splits)

lemma sys_close_open:
  assumes "2 \<le> fd" and "fd < 8" and "fd_view (mem s) (pcb s) fd = Some d" and "d_flags d = 1"
    and "ops_at l (d_table d) \<in> {Some Rtc_ops, Some File_ops, Some Directory_ops}"
  shows "\<exists>m'. sys_close l (int fd) s = Some (0, s\<lparr>mem := m'\<rparr>) \<and> fd_view m' (pcb s) fd = None \<and>
    (\<forall>a. \<not> within (fd_at (pcb s) (int fd)) 48 a \<longrightarrow> m' a = mem s a)"
proof -
  let ?f = "fd_at (pcb s) (int fd)"
  have d: "load32 (mem s) (?f + 44) = 1" "load32 (mem s) ?f = d_table d"
    using assms(3,4) by (auto simp: fd_view_def Let_def split: if_splits)
  have call: "call_close l (d_table d) s = Some (0, s)"
    using assms(5) by (auto simp: call_close_def rtc_close_def file_close_def directory_close_def)
  let ?m = "store32 (store32 (store32 (store32 (mem s) (?f + 36) 0) (?f + 44) 0) (?f + 40) 0) ?f 0"
  let ?m' = "strcpy_literal (?f + 4) [] ?m"
  have "sys_close l (int fd) s = Some (0, s\<lparr>mem := ?m'\<rparr>)"
    using assms(1,2) d call by (simp add: sys_close_def Let_def)
  moreover have "load32 ?m' (?f + 44) = 0"
    by (simp add: strcpy_literal_def lit_def field_simps_fd)
  then have "fd_view ?m' (pcb s) fd = None" by (simp add: fd_view_def)
  moreover have "?m' a = mem s a" if "\<not> within ?f 48 a" for a
  proof -
    have "\<not> within (?f + 4) 1 a" using name_in_fd [of 1 ?f a] that by auto
    then show ?thesis using stores_field [OF that] by (simp add: strcpy_literal_def lit_def poke_other)
  qed
  ultimately show ?thesis by blast
qed

section \<open>Reading an open file\<close>

text \<open>Descriptor \<open>fd\<close> is an open regular file with the name \<open>xs\<close>, directory entry \<open>i\<close>; the caller's
  buffer of \<open>n\<close> bytes overlaps neither the image, nor the process control block, nor the local
  directory entry.  Block numbers in the unused slot after the last block are valid.\<close>

definition reading :: "layout \<Rightarrow> byte list list \<Rightarrow> nat \<Rightarrow> byte list \<Rightarrow> nat \<Rightarrow> u32 \<Rightarrow> nat \<Rightarrow> 'a kernel_scheme \<Rightarrow> bool" where
  "reading l names fd xs i buf n s \<longleftrightarrow> fs_ready l names s \<and> fd < 8 \<and> first_index xs names = Some i \<and> xs \<noteq> [] \<and> length xs < 32 \<and>
     (\<exists>d. fd_view (mem s) (pcb s) fd = Some d \<and> ops_at l (d_table d) = Some File_ops) \<and>
     cstr (ptr (mem s) (fd_at (pcb s) (int fd) + 4)) xs \<and> fd_at (pcb s) (int fd) + 4 \<noteq> 0 \<and>
     file_ok s (entry_inode s i) \<and> 0 < file_length s (entry_inode s i) \<and>
     tail_ok s (entry_inode s i) (Suc (file_length s (entry_inode s i))) \<and>
     buf \<noteq> 0 \<and> 0 < n \<and> n < 2147483648 \<and> buf_room s buf n \<and> apart buf n (pcb s) 1424 \<and> apart buf n (dentry_addr l) 64"

definition fd_pos :: "nat \<Rightarrow> 'a kernel_scheme \<Rightarrow> nat" where
  "fd_pos fd s = unat (load32 (mem s) (fd_at (pcb s) (int fd) + 40))"

lemma tail_ok_mono: "tail_ok s k (Suc (file_length s k)) \<Longrightarrow> tail_ok s k stop"
  by (auto simp: tail_ok_def)


text \<open>What the file system sees does not depend on the interrupt flag and the length of the last read.\<close>

lemma fs_intr [simp]:
  "mounted (s\<lparr>intr := b\<rparr>) = mounted s" "in_image (s\<lparr>intr := b\<rparr>) = in_image s" "inode_length (s\<lparr>intr := b\<rparr>) = inode_length s"
  "data_block (s\<lparr>intr := b\<rparr>) = data_block s" "entry_inode (s\<lparr>intr := b\<rparr>) = entry_inode s" "entry_name (s\<lparr>intr := b\<rparr>) = entry_name s"
  by (simp_all add: mounted_def fs_size_def in_image_def inode_length_def data_block_def entry_inode_def entry_name_def dentry_at_def fun_eq_iff)

lemma fs_length [simp]:
  "mounted (s\<lparr>length_of_file := x\<rparr>) = mounted s" "in_image (s\<lparr>length_of_file := x\<rparr>) = in_image s"
  "inode_length (s\<lparr>length_of_file := x\<rparr>) = inode_length s" "data_block (s\<lparr>length_of_file := x\<rparr>) = data_block s"
  "entry_inode (s\<lparr>length_of_file := x\<rparr>) = entry_inode s" "entry_name (s\<lparr>length_of_file := x\<rparr>) = entry_name s"
  by (simp_all add: mounted_def fs_size_def in_image_def inode_length_def data_block_def entry_inode_def entry_name_def dentry_at_def fun_eq_iff)

lemma fs_derived [simp]:
  "file_ok (s\<lparr>intr := b\<rparr>) k = file_ok s k" "tail_ok (s\<lparr>intr := b\<rparr>) k = tail_ok s k" "file_bytes (s\<lparr>intr := b\<rparr>) k = file_bytes s k"
  "directory (s\<lparr>intr := b\<rparr>) names = directory s names" "dentry_room (s\<lparr>intr := b\<rparr>) d = dentry_room s d" "buf_room (s\<lparr>intr := b\<rparr>) p n = buf_room s p n"
  "file_ok (s\<lparr>length_of_file := x\<rparr>) k = file_ok s k" "tail_ok (s\<lparr>length_of_file := x\<rparr>) k = tail_ok s k"
  "file_bytes (s\<lparr>length_of_file := x\<rparr>) k = file_bytes s k" "directory (s\<lparr>length_of_file := x\<rparr>) names = directory s names"
  "dentry_room (s\<lparr>length_of_file := x\<rparr>) d = dentry_room s d" "buf_room (s\<lparr>length_of_file := x\<rparr>) p n = buf_room s p n"
  by (simp_all add: file_ok_def tail_ok_def file_bytes_def file_byte_def directory_def dentry_room_def buf_room_def fun_eq_iff)

lemma directory_frame:
  assumes "mounted s" and "directory s names" and "image_eq s m"
  shows "directory (s\<lparr>mem := m\<rparr>) names"
  using assms entry_name_frame [OF assms(1) _ _ _ assms(3)] by (auto simp: directory_def entry_name_def dentry_at_def)

lemma entry_inode_frame:
  assumes "mounted s" and "i < 63" and "image_eq s m"
  shows "entry_inode (s\<lparr>mem := m\<rparr>) i = entry_inode s i"
proof -
  have "load32 m (dentry_at s (of_nat i) + of_nat 36) = load32 (mem s) (dentry_at s (of_nat i) + of_nat 36)"
  proof (rule image_eq_load32 [OF assms(3)])
    fix j :: nat assume "j < 4"
    then show "in_image s (dentry_at s (of_nat i) + of_nat 36 + of_nat j)"
      using dentry_in_image [OF assms(1,2), of "36 + j"] by (simp add: add.assoc)
  qed
  then show ?thesis by (simp add: entry_inode_def dentry_at_def)
qed

lemma reading_frame:
  assumes "reading l names fd xs i buf n s"
    and "\<And>a. in_image s a \<Longrightarrow> m a = mem s a"
    and "\<And>a. within (pcb s) 1424 a \<Longrightarrow> \<not> within (fd_at (pcb s) (int fd) + 40) 4 a \<Longrightarrow> m a = mem s a"
  shows "reading l names fd xs i buf n (s\<lparr>mem := m\<rparr>)" "entry_inode (s\<lparr>mem := m\<rparr>) i = entry_inode s i"
    "file_bytes (s\<lparr>mem := m\<rparr>) (entry_inode s i) = file_bytes s (entry_inode s i)"
proof -
  let ?f = "fd_at (pcb s) (int fd)"
  note r = assms(1) [unfolded reading_def fs_ready_def]
  have img: "image_eq s m" using assms(2) by (simp add: image_eq_def)
  have i: "i < 63" using r first_index_Some [of xs names i] by (auto simp: directory_def)
  have fd8: "fd < 8" and L: "length xs < 32" using r by simp_all
  show ino: "entry_inode (s\<lparr>mem := m\<rparr>) i = entry_inode s i" using entry_inode_frame [OF _ i img] r by simp
  have mt: "mounted s" and ok: "file_ok s (entry_inode s i)" "0 < file_length s (entry_inode s i)" using r by simp_all
  note f = file_frame [OF mt ok(1) img ok(2)]
  then show "file_bytes (s\<lparr>mem := m\<rparr>) (entry_inode s i) = file_bytes s (entry_inode s i)" by simp
  have word: "load32 m (?f + of_nat k) = load32 (mem s) (?f + of_nat k)" if "k \<in> {0, 36, 44}" for k
  proof (rule word_at.local)
    fix a assume a: "within (?f + of_nat k) 4 a"
    have "within (pcb s) 1424 a" using a within_field [of ?f k a] fd_in_pcb [OF fd8] that by auto
    moreover have "\<not> within (?f + 40) 4 a" using a that apartD [OF apart_offsets [of k 4 40 4 ?f]] by auto
    ultimately show "m a = mem s a" using assms(3) by blast
  qed
  have name: "cstr (ptr m (?f + 4)) xs = cstr (ptr (mem s) (?f + 4)) xs"
  proof (rule string_at.local)
    fix a assume a: "within (?f + 4) (Suc (length xs)) a"
    have "within (pcb s) 1424 a" using a name_in_fd [of "Suc (length xs)" ?f a] fd_in_pcb [OF fd8] L by simp
    moreover have "\<not> within (?f + 40) 4 a" using a apartD [OF apart_offsets [of 4 "Suc (length xs)" 40 4 ?f]] L by auto
    ultimately show "m a = mem s a" using assms(3) by blast
  qed
  obtain d where d: "fd_view (mem s) (pcb s) fd = Some d" "ops_at l (d_table d) = Some File_ops" using r by blast
  have "fd_view m (pcb s) fd = Some (d\<lparr>d_pos := load32 m (?f + 40)\<rparr>)"
    using d(1) word [of 0] word [of 36] word [of 44] by (auto simp: fd_view_def Let_def split: if_splits)
  then have "\<exists>d. fd_view m (pcb s) fd = Some d \<and> ops_at l (d_table d) = Some File_ops" using d(2) by simp
  moreover have "directory (s\<lparr>mem := m\<rparr>) names" using directory_frame [OF mt _ img] r by blast
  ultimately show "reading l names fd xs i buf n (s\<lparr>mem := m\<rparr>)"
    using r f name by (simp add: reading_def fs_ready_def ino) (simp add: dentry_room_def buf_room_def)
qed


lemma reading_intr [simp]: "reading l names fd xs i buf n (s\<lparr>intr := b\<rparr>) = reading l names fd xs i buf n s"
  "reading l names fd xs i buf n (s\<lparr>length_of_file := x\<rparr>) = reading l names fd xs i buf n s"
  by (simp_all add: reading_def fs_ready_def)

text \<open>After the driver call the memory differs from before in the buffer and the local entry only; then
  the position is advanced.\<close>

lemma advance_position:
  assumes "reading l names fd xs i buf n s" and "k \<le> n"
    and "\<And>a. \<not> within (dentry_addr l) 64 a \<Longrightarrow> \<not> within buf k a \<Longrightarrow> m a = mem s a"
  defines "p \<equiv> fd_at (pcb s) (int fd) + 40"
  defines "m' \<equiv> store32 m p (load32 m p + of_nat k)"
  shows "reading l names fd xs i buf n (s\<lparr>mem := m'\<rparr>)" "load32 m' p = load32 (mem s) p + of_nat k"
    "bytes_at (ptr m' buf) k = bytes_at (ptr m buf) k"
    "entry_inode (s\<lparr>mem := m'\<rparr>) i = entry_inode s i" "file_bytes (s\<lparr>mem := m'\<rparr>) (entry_inode s i) = file_bytes s (entry_inode s i)"
proof -
  note r = assms(1) [unfolded reading_def fs_ready_def]
  have fd8: "fd < 8" using r by simp
  have pin: "within (pcb s) 1424 a" if "within p 4 a" for a
    using that within_field [of "fd_at (pcb s) (int fd)" 40 a] fd_in_pcb [OF fd8] by (simp add: p_def)
  have bk: "within buf n a" if "within buf k a" for a using that assms(2) by (auto simp: within_def)
  have mout: "m a = mem s a" if "within (pcb s) 1424 a" for a
    using assms(3) that r bk by (meson apartD)
  have same: "load32 m p = load32 (mem s) p" using mout pin by (intro word_at.local) blast
  then show "load32 m' p = load32 (mem s) p + of_nat k" by (simp add: m'_def)
  have a1: "m' a = mem s a" if "in_image s a" for a
  proof -
    have "\<not> within (pcb s) 1424 a" "\<not> within (dentry_addr l) 64 a" using that r dentry_room_within by blast+
    moreover have "\<not> within buf k a" using that r assms(2) by (auto simp: buf_room_def within_iff)
    ultimately show ?thesis using assms(3) pin store32_other [of p a m] by (auto simp: m'_def)
  qed
  have a2: "m' a = mem s a" if "within (pcb s) 1424 a" "\<not> within p 4 a" for a
    using mout that store32_other [of p a m] by (simp add: m'_def)
  note frame = reading_frame [OF assms(1) a1 a2 [unfolded p_def]]
  show "reading l names fd xs i buf n (s\<lparr>mem := m'\<rparr>)" "entry_inode (s\<lparr>mem := m'\<rparr>) i = entry_inode s i"
    "file_bytes (s\<lparr>mem := m'\<rparr>) (entry_inode s i) = file_bytes s (entry_inode s i)" using frame by blast+
  show "bytes_at (ptr m' buf) k = bytes_at (ptr m buf) k"
  proof (rule bytes_at_cong)
    fix j assume j: "j < k"
    have "within buf n (buf + of_nat j)" using j assms(2) r by (auto intro!: bk)
    then have "\<not> within p 4 (buf + of_nat j)" using pin r by (meson apartD)
    then show "ptr m' buf (of_nat j) = ptr m buf (of_nat j)" by (simp add: m'_def store32_other)
  qed
qed

lemma file_read_chunk:
  assumes "reading l names fd xs i buf n s"
  defines "off \<equiv> load32 (mem s) (fd_at (pcb s) (int fd) + 40)"
  defines "chunk \<equiv> take n (drop (unat off) (file_bytes s (entry_inode s i)))"
  shows "\<exists>m L. file_read (dentry_addr l) buf off (of_nat n) (fd_at (pcb s) (int fd) + 4) s =
      Some (int (length chunk), s\<lparr>mem := m, length_of_file := L\<rparr>) \<and> bytes_at (ptr m buf) (length chunk) = chunk \<and>
      (\<forall>a. \<not> within (dentry_addr l) 64 a \<longrightarrow> \<not> within buf (length chunk) a \<longrightarrow> m a = mem s a)"
proof -
  let ?k = "entry_inode s i" and ?d = "dentry_addr l" and ?name = "fd_at (pcb s) (int fd) + 4"
  note r = assms(1) [unfolded reading_def fs_ready_def]
  have fs: "mounted s" "directory s names" "dentry_room s ?d" "cstr (ptr (mem s) ?name) xs" "length xs < 2147483648" "xs \<noteq> []"
    "first_index xs names = Some i" "file_ok s ?k" using r by simp_all
  have nn: "unat (of_nat n :: u32) = n" "(of_nat n :: u32) \<noteq> 0" using r by (simp_all add: word_unat_eq_iff)
  show ?thesis
  proof (cases "unat off < file_length s ?k")
    case True
    have sl: "file_slice s ?k off (of_nat n) = chunk" by (simp only: file_slice_def chunk_def nn)
    have "length chunk \<le> n" by (simp add: chunk_def)
    then have "buf_room s buf (length chunk)" using r by (simp add: buf_room_def)
    then obtain m where m: "entry_copied s ?d i xs m"
      "file_read ?d buf off (of_nat n) ?name s = Some (int (length chunk), s\<lparr>mem := poke m buf chunk, length_of_file := int (length chunk)\<rparr>)"
      using file_read_slice [OF fs True tail_ok_mono, where len = "of_nat n" and buf = buf] r nn(2) sl by auto
    have "length chunk \<le> 4294967296" using \<open>length chunk \<le> n\<close> r by linarith
    then have "bytes_at (ptr (poke m buf chunk) buf) (length chunk) = chunk" by (rule bytes_at_poke)
    moreover have "poke m buf chunk a = mem s a" if "\<not> within ?d 64 a" "\<not> within buf (length chunk) a" for a
      using poke_other [OF that(2)] m(1) that(1) by (simp add: entry_copied_def)
    ultimately show ?thesis using m(2) by blast
  next
    case False
    then have "chunk = []" by (simp add: chunk_def)
    obtain m where m: "read_dentry_by_name ?name ?d s = Some (0, s\<lparr>mem := m\<rparr>)" "entry_copied s ?d i xs m"
      using read_dentry_by_name_correct [OF fs(1-5)] fs(6,7) by auto
    have "image_eq s m" using image_eq_outside [OF fs(3)] m(2) by (simp add: entry_copied_def)
    then have "file_length (s\<lparr>mem := m\<rparr>) ?k \<le> unat off" using file_frame(1) [OF fs(1,8)] r False by simp
    then have "file_read ?d buf off (of_nat n) ?name s = Some (0, s\<lparr>mem := m, length_of_file := length_of_file s\<rparr>)"
      using m read_data_eof [of "s\<lparr>mem := m\<rparr>" ?k off] r nn(2) by (simp add: file_read_def entry_copied_def)
    then show ?thesis using \<open>chunk = []\<close> m(2)
      by (intro exI [of _ m] exI [of _ "length_of_file s"]) (auto simp: entry_copied_def bytes_at_def)
  qed
qed

lemma sys_read_file:
  assumes "reading l names fd xs i buf n s"
  defines "k \<equiv> entry_inode s i"
  defines "chunk \<equiv> take n (drop (fd_pos fd s) (file_bytes s k))"
  shows "\<exists>s'. sys_read l irqs (int fd) buf (int n) s = Some (irqs, int (length chunk), s') \<and>
    bytes_at (ptr (mem s') buf) (length chunk) = chunk \<and> fd_pos fd s' = fd_pos fd s + length chunk \<and> intr s' \<and>
    reading l names fd xs i buf n s' \<and> entry_inode s' i = k \<and> file_bytes s' k = file_bytes s k \<and>
    (\<exists>m L. s' = s\<lparr>intr := True, mem := m, length_of_file := L\<rparr> \<and>
      (\<forall>a. \<not> within (dentry_addr l) 64 a \<longrightarrow> \<not> within buf n a \<longrightarrow> \<not> within (fd_at (pcb s) (int fd)) 48 a \<longrightarrow> m a = mem s a))"
proof -
  let ?f = "fd_at (pcb s) (int fd)" and ?d = "dentry_addr l" and ?s = "s\<lparr>intr := True\<rparr>"
  let ?off = "load32 (mem s) (?f + 40)"
  note r = assms(1) [unfolded reading_def fs_ready_def]
  have rs: "reading l names fd xs i buf n ?s" using assms(1) by simp
  obtain m L where m: "file_read ?d buf ?off (of_int (int n)) (?f + 4) ?s = Some (int (length chunk), ?s\<lparr>mem := m, length_of_file := L\<rparr>)"
    "bytes_at (ptr m buf) (length chunk) = chunk" "\<And>a. \<not> within ?d 64 a \<Longrightarrow> \<not> within buf (length chunk) a \<Longrightarrow> m a = mem ?s a"
    using file_read_chunk [OF rs] by (auto simp: chunk_def fd_pos_def k_def)
  have len: "length chunk \<le> n" by (simp add: chunk_def)
  let ?m' = "store32 m (?f + 40) (load32 m (?f + 40) + of_nat (length chunk))"
  let ?s' = "?s\<lparr>mem := ?m', length_of_file := L\<rparr>"
  note adv = advance_position [OF rs len m(3), simplified]
  obtain d where d: "fd_view (mem s) (pcb s) fd = Some d" "ops_at l (d_table d) = Some File_ops" using r by blast
  have f: "load32 (mem s) (?f + 44) \<noteq> 0" "load32 (mem s) ?f = d_table d" using d(1) by (auto simp: fd_view_def Let_def split: if_splits)
  have "sys_read l irqs (int fd) buf (int n) s = Some (irqs, int (length chunk), ?s')"
    using r f d(2) m(1) by (simp add: sys_read_def call_read_def sti_def Let_def)
  moreover have "fd_pos fd ?s' = fd_pos fd s + length chunk"
  proof (cases "chunk = []")
    case False
    then have lt: "fd_pos fd s < file_length s k" "length chunk \<le> file_length s k - fd_pos fd s" by (auto simp: chunk_def)
    have "file_length s k \<le> 4190208" using r by (simp add: file_ok_def k_def)
    then have "unat ?off + length chunk < 4294967296" using lt unfolding fd_pos_def by linarith
    then have "unat (?off + of_nat (length chunk)) = unat ?off + length chunk"
      using lt unat_add_lem [of ?off "of_nat (length chunk)"] by (simp add: fd_pos_def)
    then show ?thesis using adv(2) by (simp add: fd_pos_def)
  qed (use adv(2) in \<open>simp add: fd_pos_def\<close>)
  moreover have "\<exists>m L. ?s' = s\<lparr>intr := True, mem := m, length_of_file := L\<rparr> \<and>
      (\<forall>a. \<not> within ?d 64 a \<longrightarrow> \<not> within buf n a \<longrightarrow> \<not> within ?f 48 a \<longrightarrow> m a = mem s a)"
  proof (intro exI [of _ ?m'] exI [of _ L] conjI allI impI refl)
    fix a assume a: "\<not> within ?d 64 a" "\<not> within buf n a" "\<not> within ?f 48 a"
    then have "\<not> within buf (length chunk) a" "\<not> within (?f + 40) 4 a" using len within_field [of ?f 40 a] by (auto simp: within_def)
    then show "?m' a = mem s a" using a(1) m(3) [of a] by (simp add: store32_other)
  qed
  ultimately show ?thesis
    using adv(1,3-5) m(2) unfolding k_def by (intro exI [of _ ?s'] conjI) (assumption | simp)+
qed


text \<open>Reading from a descriptor until nothing is left, as the user programs do.\<close>

fun read_all :: "layout \<Rightarrow> 'a kernel_scheme handler list \<Rightarrow> int \<Rightarrow> u32 \<Rightarrow> int \<Rightarrow> nat \<Rightarrow> 'a kernel_scheme
    \<Rightarrow> (byte list \<times> 'a kernel_scheme) option" where
  "read_all l irqs fd buf n 0 s = None"
| "read_all l irqs fd buf n (Suc fuel) s = do {
     (irqs', c, s) \<leftarrow> sys_read l irqs fd buf n s;
     if c = 0 then Some ([], s)
     else if c = -1 then None
     else do {
       (rest, s') \<leftarrow> read_all l irqs' fd buf n fuel s;
       Some (bytes_at (ptr (mem s) buf) (nat c) @ rest, s')
     }
   }"

lemma chunk_append: "take n (drop p ys) @ drop (p + length (take n (drop p ys))) ys = drop p ys"
proof -
  have "drop (p + k) ys = drop k (drop p ys)" for k by (simp add: add.commute)
  moreover have "take n zs @ drop (length (take n zs)) zs = zs" for zs :: "'b list"
    by (cases "n \<le> length zs") simp_all
  ultimately show ?thesis by metis
qed

lemma read_all_rest:
  assumes "reading l names fd xs i buf n s" and "file_length s (entry_inode s i) - fd_pos fd s < fuel"
  shows "\<exists>s'. read_all l irqs (int fd) buf (int n) fuel s = Some (drop (fd_pos fd s) (file_bytes s (entry_inode s i)), s')"
  using assms
proof (induction fuel arbitrary: s irqs)
  case (Suc fuel)
  let ?k = "entry_inode s i"
  let ?chunk = "take n (drop (fd_pos fd s) (file_bytes s ?k))"
  obtain s' where s': "sys_read l irqs (int fd) buf (int n) s = Some (irqs, int (length ?chunk), s')"
    "bytes_at (ptr (mem s') buf) (length ?chunk) = ?chunk" "fd_pos fd s' = fd_pos fd s + length ?chunk"
    "reading l names fd xs i buf n s'" "entry_inode s' i = ?k" "file_bytes s' ?k = file_bytes s ?k"
    using sys_read_file [OF Suc.prems(1), of irqs] by blast
  show ?case
  proof (cases "fd_pos fd s < file_length s ?k")
    case False
    then show ?thesis using s'(1) by simp
  next
    case True
    have n: "0 < n" using Suc.prems(1) by (simp add: reading_def)
    have len: "file_length s' ?k = file_length s ?k" using arg_cong [OF s'(6), of length] by simp
    have "0 < length ?chunk" using True n by simp
    then have "file_length s' (entry_inode s' i) - fd_pos fd s' < fuel" using Suc.prems(2) s'(3,5) len True by simp
    from Suc.IH [OF s'(4) this] obtain t where
      t: "read_all l irqs (int fd) buf (int n) fuel s' = Some (drop (fd_pos fd s') (file_bytes s ?k), t)" using s'(5,6) by auto
    have "?chunk @ drop (fd_pos fd s') (file_bytes s ?k) = drop (fd_pos fd s) (file_bytes s ?k)"
      unfolding s'(3) by (rule chunk_append)
    then show ?thesis using s'(1,2) t \<open>0 < length ?chunk\<close> by auto
  qed
qed simp

end
