(* ===== verification/DescriptorsProps.thy ===== *)
theory DescriptorsProps
  imports Descriptors
begin

text \<open>
  The properties of the file system calls: opening, closing and reading files through descriptors,
  and what happens for descriptors that are not open or do not support the operation.
\<close>

unbundle bit_operations_syntax

section \<open>A file just opened is ready for reading\<close>

text \<open>The conditions under which a file can be read to its end: it is a regular file with valid
  blocks, and the buffer overlaps nothing the kernel uses.\<close>

definition readable :: "layout \<Rightarrow> nat \<Rightarrow> u32 \<Rightarrow> nat \<Rightarrow> 'a kernel_scheme \<Rightarrow> bool" where
  "readable l i buf n s \<longleftrightarrow> entry_type s i = 2 \<and> file_ok s (entry_inode s i) \<and> 0 < file_length s (entry_inode s i) \<and>
     tail_ok s (entry_inode s i) (Suc (file_length s (entry_inode s i))) \<and>
     buf \<noteq> 0 \<and> 0 < n \<and> n < 2147483648 \<and> buf_room s buf n \<and> apart buf n (pcb s) 1424 \<and> apart buf n (dentry_addr l) 64"

lemma opened_reading:
  assumes "fs_ready l names s" and "first_index xs names = Some i" and "xs \<noteq> []" and "length xs < 32" and "fd < 8"
    and "readable l i buf n s" and "ops_at l (file_t l) = Some File_ops" and "fd_at (pcb s) (int fd) + 4 \<noteq> 0"
    and "fd_view m (pcb s) fd = Some (fresh_fd l s i fd)" and "cstr (ptr m (fd_at (pcb s) (int fd) + 4)) xs"
    and "\<And>a. \<not> within (dentry_addr l) 64 a \<Longrightarrow> \<not> within (fd_at (pcb s) (int fd)) 48 a \<Longrightarrow> m a = mem s a"
  shows "reading l names fd xs i buf n (s\<lparr>mem := m\<rparr>)" "entry_inode (s\<lparr>mem := m\<rparr>) i = entry_inode s i"
    "file_bytes (s\<lparr>mem := m\<rparr>) (entry_inode s i) = file_bytes s (entry_inode s i)" "fd_pos fd (s\<lparr>mem := m\<rparr>) = 0"
proof -
  note fs = assms(1) [unfolded fs_ready_def] and rd = assms(6) [unfolded readable_def]
  have img: "image_eq s m"
    unfolding image_eq_def
  proof (intro allI impI)
    fix a assume a: "in_image s a"
    have "\<not> within (dentry_addr l) 64 a" using a fs dentry_room_within by blast
    moreover have "\<not> within (fd_at (pcb s) (int fd)) 48 a" using a fs fd_in_pcb [OF assms(5)] by blast
    ultimately show "m a = mem s a" by (rule assms(11))
  qed
  have i: "i < 63" using fs first_index_Some [OF assms(2)] by (auto simp: directory_def)
  have mt: "mounted s" using fs by simp
  show ino: "entry_inode (s\<lparr>mem := m\<rparr>) i = entry_inode s i" by (rule entry_inode_frame [OF mt i img])
  have ok: "file_ok s (entry_inode s i)" "0 < file_length s (entry_inode s i)" using rd by simp_all
  note f = file_frame [OF mt ok(1) img ok(2)]
  show "file_bytes (s\<lparr>mem := m\<rparr>) (entry_inode s i) = file_bytes s (entry_inode s i)" by (rule f(3))
  have "directory (s\<lparr>mem := m\<rparr>) names" using directory_frame [OF mt _ img] fs by blast
  moreover have "ops_at l (d_table (fresh_fd l s i fd)) = Some File_ops" using rd assms(7) by (simp add: fresh_fd_def ops_for_def)
  ultimately show "reading l names fd xs i buf n (s\<lparr>mem := m\<rparr>)"
    using fs rd assms(2-5,8-10) f ino
    by (simp add: reading_def fs_ready_def) (simp add: dentry_room_def buf_room_def)
  show "fd_pos fd (s\<lparr>mem := m\<rparr>) = 0"
    using assms(9) by (auto simp: fd_pos_def fd_view_def fresh_fd_def Let_def split: if_splits)
qed

section \<open>A sample process\<close>

definition lay_demo :: layout where
  "lay_demo = \<lparr>stdin_t = 0x420000, stdout_t = 0x420010, rtc_t = 0x420020, file_t = 0x420030, directory_t = 0x420040,
     page_table_shell = pt_demo, page_table_video = 0x417000, page_directories = pd_demo, printf_buf = 0x7FF000,
     dentry_addr = 0x200000, buf_local = 0x7FF100, arg_buf_local = 0x7FF200, command_name_local = 0x7FF800,
     temp_local = 0x7FF900, curr_esp = 0x7FFF80, curr_ebp = 0x7FFFA0\<rparr>"

definition sys_demo :: kernel where
  "sys_demo = paging.extend paging_demo \<lparr>counter = 1, shell_entry_addr = 0x8048000, arg_size = 0, page_dir_addr = 0, tss_esp0 = 0x7FFFFC\<rparr>"

lemma sys_demo_fields:
  "mem sys_demo = demo_mem" "counter sys_demo = 1" "pcb_of 1 = 0x7FE000"
  by (simp_all add: sys_demo_def paging.defs paging_demo_def idt_state.defs idt_demo_def keyboard.defs kb_demo_def files.defs demo_def pcb_of_def)

lemma sys_demo_fs:
  "my_boot_block sys_demo = my_boot_block demo" "file_addr sys_demo = file_addr demo" "dentries sys_demo = dentries demo"
  "inodes sys_demo = inodes demo"
  by (simp_all add: sys_demo_def paging.defs paging_demo_def idt_state.defs idt_demo_def keyboard.defs kb_demo_def files.defs)


lemma sys_demo_image: "in_image sys_demo a \<longleftrightarrow> in_image demo a"
  by (simp add: in_image_def fs_size_def sys_demo_fs)

lemma sys_demo_ready: "fs_ready lay_demo demo_names sys_demo"
proof -
  have "directory sys_demo demo_names"
    using demo_directory by (simp add: directory_def entry_name_def dentry_at_def sys_demo_fs sys_demo_fields)
  moreover have "dentry_room sys_demo 0x200000" using demo_room(1) by (simp add: dentry_room_def sys_demo_image)
  moreover have "\<not> in_image sys_demo a" if "within 0x7FE000 1424 a" for a
    using that separate_within [where p = "0x7FE000" and n = 1424 and q = "0x100000" and k = 12288 and a = a]
    by (auto simp: in_image_def fs_size_def sys_demo_fs separate_def)
  moreover have "apart 0x200000 64 0x7FE000 1424" by (rule separate_apart) (simp add: separate_def)
  ultimately show ?thesis
    using demo_mounted by (simp add: fs_ready_def mounted_def fs_size_def sys_demo_fs sys_demo_fields lay_demo_def)
qed

lemma sys_demo_entry:
  "entry_type sys_demo 0 = 2" "entry_inode sys_demo 0 = 0" "file_bytes sys_demo 0 = lit ''hello''" "file_length sys_demo 0 = 5"
  "file_ok sys_demo 0" "tail_ok sys_demo 0 n"
proof -
  have eq: "inode_length sys_demo = inode_length demo" "data_block sys_demo = data_block demo"
    by (simp_all add: inode_length_def data_block_def sys_demo_fs sys_demo_fields fun_eq_iff)
  have "file_byte sys_demo 0 = file_byte demo 0" by (simp add: file_byte_def eq sys_demo_fs sys_demo_fields fun_eq_iff)
  then show "file_bytes sys_demo 0 = lit ''hello''" using demo_file(1) by (simp add: file_bytes_def eq)
  show "entry_type sys_demo 0 = 2" "entry_inode sys_demo 0 = 0"
    using demo_inode by (simp_all add: entry_type_def entry_inode_def dentry_at_def sys_demo_fs sys_demo_fields)
  show "file_length sys_demo 0 = 5" by (simp add: eq demo_inode)
  show "file_ok sys_demo 0" using demo_file(2) by (simp add: file_ok_def eq sys_demo_fs)
  show "tail_ok sys_demo 0 n" using demo_tail by (simp add: tail_ok_def eq sys_demo_fs)
qed

lemma sys_demo_readable: "readable lay_demo 0 0x200100 3 sys_demo"
proof -
  have "buf_room sys_demo 0x200100 3" using demo_room(2) [of 3] by (simp add: buf_room_def sys_demo_image)
  moreover have "apart 0x200100 3 0x7FE000 1424" "apart 0x200100 3 0x200000 64"
    by (rule separate_apart, simp add: separate_def)+
  ultimately show ?thesis by (simp add: readable_def sys_demo_entry sys_demo_fields lay_demo_def)
qed

lemma sys_demo_free: "free_fd (mem sys_demo) (pcb sys_demo) = Some 2"
proof -
  have "fd_view demo_mem 0x7FE000 2 = None" by (simp add: fd_view_def fd_at_def load32_def join32_def demo_mem_def)
  moreover have "[2..<8] = 2 # [3..<8]" by (simp add: upt_conv_Cons)
  ultimately show ?thesis by (simp only: free_fd_def sys_demo_fields find.simps if_True simp_thms)
qed

lemma sys_demo_name:
  "cstr (ptr (mem sys_demo) 0x100040) (lit ''a'')" "first_index (lit ''a'') demo_names = Some 0" "\<not> reserved_name (lit ''a'')"
  "apart 0x100040 (Suc (length (lit ''a''))) (pcb sys_demo) 1424" "apart 0x100040 (Suc (length (lit ''a''))) (dentry_addr lay_demo) 64"
proof -
  show "cstr (ptr (mem sys_demo) 0x100040) (lit ''a'')" using demo_fname by (simp add: sys_demo_fields)
  show "first_index (lit ''a'') demo_names = Some 0" by (simp add: demo_names_def)
  show "\<not> reserved_name (lit ''a'')" by (simp add: reserved_name_def lit_def)
  show "apart 0x100040 (Suc (length (lit ''a''))) (pcb sys_demo) 1424"
    unfolding sys_demo_fields by (rule separate_apart) (simp add: separate_def lit_def)
  show "apart 0x100040 (Suc (length (lit ''a''))) (dentry_addr lay_demo) 64"
    by (rule separate_apart) (simp add: separate_def lit_def lay_demo_def)
qed

section \<open>Properties\<close>

text \<open>C16: \<open>open\<close>.  With the file system mounted, a name shorter than 32 characters that does not start with
  the five characters of a terminal name is looked up: an empty or unknown name gives -1 and changes
  nothing.  A known name gets the lowest free descriptor from 2 to 7: it is in use with the table of
  the file's type, the inode of the first directory entry with that name, position 0 and the name; every other
  descriptor and all memory outside the descriptor and the local directory entry stay as they
  were.  When no descriptor is free the result is -1 and no descriptor changes.\<close>

theorem open_correct:
  assumes "fs_ready l names s" and "cstr (ptr (mem s) filename) xs" and "length xs < 32" and "\<not> reserved_name xs"
    and "apart filename (Suc (length xs)) (pcb s) 1424" and "apart filename (Suc (length xs)) (dentry_addr l) 64"
  shows "case (if xs = [] then None else first_index xs names) of
      None \<Rightarrow> sys_open l filename s = Some (-1, s)
    | Some i \<Rightarrow> (\<exists>m'. sys_open l filename s = Some (case free_fd (mem s) (pcb s) of Some fd \<Rightarrow> int fd | None \<Rightarrow> -1, s\<lparr>mem := m'\<rparr>) \<and>
        (\<forall>fd. free_fd (mem s) (pcb s) = Some fd \<longrightarrow>
           fd_view m' (pcb s) fd = Some (fresh_fd l s i fd) \<and> cstr (ptr m' (fd_at (pcb s) (int fd) + 4)) xs) \<and>
        (\<forall>j < 8. free_fd (mem s) (pcb s) \<noteq> Some j \<longrightarrow> fd_view m' (pcb s) j = fd_view (mem s) (pcb s) j) \<and>
        (\<forall>a. \<not> within (dentry_addr l) 64 a \<and> (\<forall>fd. free_fd (mem s) (pcb s) = Some fd \<longrightarrow> \<not> within (fd_at (pcb s) (int fd)) 48 a) \<longrightarrow>
           m' a = mem s a))"
proof (cases "if xs = [] then None else first_index xs names")
  case None
  then show ?thesis using sys_open_missing [OF assms(1,2) _ assms(4)] assms(3) first_index_None [of xs names] by (auto split: if_splits)
next
  case (Some i)
  then have i: "xs \<noteq> []" "first_index xs names = Some i" by (auto split: if_splits)
  note found = sys_open_found [OF assms(1-4) i assms(5,6)]
  have off: "apart (dentry_addr l) 64 (pcb s) 1424" using assms(1) by (simp add: fs_ready_def)
  show ?thesis
  proof (cases "free_fd (mem s) (pcb s)")
    case None
    then obtain m' where m': "sys_open l filename s = Some (-1, s\<lparr>mem := m'\<rparr>)" "\<forall>a. \<not> within (dentry_addr l) 64 a \<longrightarrow> m' a = mem s a"
      using found by auto
    then have "fd_view m' (pcb s) j = fd_view (mem s) (pcb s) j" if "j < 8" for j using fd_view_kept [OF off that, of m' "mem s"] by blast
    then show ?thesis using m' i None by auto
  next
    case (Some fd)
    then obtain m' where m': "sys_open l filename s = Some (int fd, s\<lparr>mem := m'\<rparr>)"
      "fd_view m' (pcb s) fd = Some (fresh_fd l s i fd)" "cstr (ptr m' (fd_at (pcb s) (int fd) + 4)) xs"
      "\<And>a. \<not> within (dentry_addr l) 64 a \<Longrightarrow> \<not> within (fd_at (pcb s) (int fd)) 48 a \<Longrightarrow> m' a = mem s a"
      using found by auto
    have "fd_view m' (pcb s) j = fd_view (mem s) (pcb s) j" if "j < 8" "j \<noteq> fd" for j
      using other_fd_kept [OF off that free_fd_Some [OF Some, THEN conjunct2, THEN conjunct1] m'(4)] .
    then show ?thesis using m' i Some by auto
  qed
qed

theorem open_correct_witness:
  "\<exists>s'. sys_open lay_demo 0x100040 sys_demo = Some (2, s') \<and>
    fd_view (mem s') 0x7FE000 2 = Some \<lparr>d_table = 0x420030, d_inode = 0, d_pos = 0, d_flags = 1\<rparr>"
proof -
  have "fresh_fd lay_demo sys_demo 0 2 = \<lparr>d_table = 0x420030, d_inode = 0, d_pos = 0, d_flags = 1\<rparr>"
    by (simp add: fresh_fd_def sys_demo_entry ops_for_def lay_demo_def)
  moreover have "lit ''a'' \<noteq> []" "length (lit ''a'') < 32" by (simp_all add: lit_def)
  ultimately show ?thesis
    using open_correct [OF sys_demo_ready sys_demo_name(1) _ sys_demo_name(3-5)] sys_demo_name(2) sys_demo_free
    by (auto simp: sys_demo_fields)
qed


text \<open>C23: \<open>close\<close> undoes \<open>open\<close>.  When \<open>open\<close> has returned descriptor \<open>fd\<close> for a file of one of the three types,
  \<open>close\<close> returns 0, and then every descriptor of the process is as it was before \<open>open\<close>; a second
  \<open>close\<close> returns -1 and changes nothing.\<close>

theorem open_close_roundtrip:
  assumes "fs_ready l names s" and "cstr (ptr (mem s) filename) xs" and "length xs < 32" and "\<not> reserved_name xs"
    and "apart filename (Suc (length xs)) (pcb s) 1424" and "apart filename (Suc (length xs)) (dentry_addr l) 64"
    and "xs \<noteq> []" and "first_index xs names = Some i" and "free_fd (mem s) (pcb s) = Some fd"
    and "entry_type s i < 3" and "stdin_t l \<notin> {rtc_t l, file_t l, directory_t l}" and "stdout_t l \<notin> {rtc_t l, file_t l, directory_t l}"
  shows "\<exists>s1 s2. sys_open l filename s = Some (int fd, s1) \<and> sys_close l (int fd) s1 = Some (0, s2) \<and>
    (\<forall>j < 8. fd_view (mem s2) (pcb s) j = fd_view (mem s) (pcb s) j) \<and> sys_close l (int fd) s2 = Some (-1, s2)"
proof -
  have fd: "2 \<le> fd" "fd < 8" "fd_view (mem s) (pcb s) fd = None" using free_fd_Some [OF assms(9)] by simp_all
  have off: "apart (dentry_addr l) 64 (pcb s) 1424" using assms(1) by (simp add: fs_ready_def)
  obtain m1 where m1: "sys_open l filename s = Some (int fd, s\<lparr>mem := m1\<rparr>)" "fd_view m1 (pcb s) fd = Some (fresh_fd l s i fd)"
    "\<And>a. \<not> within (dentry_addr l) 64 a \<Longrightarrow> \<not> within (fd_at (pcb s) (int fd)) 48 a \<Longrightarrow> m1 a = mem s a"
    using sys_open_found [OF assms(1-4,7,8,5,6)] assms(9) by auto
  have "entry_type s i = 0 \<or> entry_type s i = 1 \<or> entry_type s i = 2" using assms(10) by (rule below_3)
  then have "ops_at l (d_table (fresh_fd l s i fd)) \<in> {Some Rtc_ops, Some File_ops, Some Directory_ops}"
    using assms(11,12) by (auto simp: fresh_fd_def ops_for_def ops_at_def)
  then obtain m2 where m2: "sys_close l (int fd) (s\<lparr>mem := m1\<rparr>) = Some (0, s\<lparr>mem := m2\<rparr>)" "fd_view m2 (pcb s) fd = None"
    "\<And>a. \<not> within (fd_at (pcb s) (int fd)) 48 a \<Longrightarrow> m2 a = m1 a"
    using sys_close_open [OF fd(1,2), of "s\<lparr>mem := m1\<rparr>" "fresh_fd l s i fd" l] m1(2) by (auto simp: fresh_fd_def)
  have "fd_view m2 (pcb s) j = fd_view (mem s) (pcb s) j" if "j < 8" for j
    using other_fd_kept [OF off that _ fd(2), of m2 "mem s"] m1(3) m2(2,3) fd(3) by (cases "j = fd") auto
  moreover have "sys_close l (int fd) (s\<lparr>mem := m2\<rparr>) = Some (-1, s\<lparr>mem := m2\<rparr>)"
    using sys_close_closed [OF fd(1,2), of "s\<lparr>mem := m2\<rparr>"] m2(2) by simp
  ultimately show ?thesis using m1(1) m2(1) by auto
qed

theorem open_close_roundtrip_witness:
  "\<exists>s1 s2. sys_open lay_demo 0x100040 sys_demo = Some (2, s1) \<and> sys_close lay_demo 2 s1 = Some (0, s2)"
proof -
  have "lit ''a'' \<noteq> []" "length (lit ''a'') < 32" "entry_type sys_demo 0 < 3"
    "stdin_t lay_demo \<notin> {rtc_t lay_demo, file_t lay_demo, directory_t lay_demo}"
    "stdout_t lay_demo \<notin> {rtc_t lay_demo, file_t lay_demo, directory_t lay_demo}"
    by (simp_all add: lit_def sys_demo_entry lay_demo_def)
  with open_close_roundtrip [OF sys_demo_ready sys_demo_name(1) _ sys_demo_name(3-5) _ sys_demo_name(2) sys_demo_free]
  show ?thesis by (auto simp: numeral_2_eq_2)
qed

text \<open>C12: a file opened and read to its end.  After \<open>open\<close> of a regular file, a user loop that reads \<open>n\<close> bytes at a time
  until \<open>read\<close> returns 0 ends, never gets -1, and the bytes it collects are exactly the contents of the
  file, for every buffer size \<open>n\<close> and every file length; the number of calls is at most one more
  than the length of the file.\<close>

theorem open_read_whole_file:
  assumes "fs_ready l names s" and "cstr (ptr (mem s) filename) xs" and "length xs < 32" and "\<not> reserved_name xs"
    and "apart filename (Suc (length xs)) (pcb s) 1424" and "apart filename (Suc (length xs)) (dentry_addr l) 64"
    and "xs \<noteq> []" and "first_index xs names = Some i" and "free_fd (mem s) (pcb s) = Some fd"
    and "readable l i buf n s" and "ops_at l (file_t l) = Some File_ops" and "fd_at (pcb s) (int fd) + 4 \<noteq> 0"
    and "file_length s (entry_inode s i) < fuel"
  shows "\<exists>s1 s2. sys_open l filename s = Some (int fd, s1) \<and>
    read_all l irqs (int fd) buf (int n) fuel s1 = Some (file_bytes s (entry_inode s i), s2)"
proof -
  have fd: "fd < 8" using free_fd_Some [OF assms(9)] by simp
  obtain m where m: "sys_open l filename s = Some (int fd, s\<lparr>mem := m\<rparr>)" "fd_view m (pcb s) fd = Some (fresh_fd l s i fd)"
    "cstr (ptr m (fd_at (pcb s) (int fd) + 4)) xs"
    "\<And>a. \<not> within (dentry_addr l) 64 a \<Longrightarrow> \<not> within (fd_at (pcb s) (int fd)) 48 a \<Longrightarrow> m a = mem s a"
    using sys_open_found [OF assms(1-4,7,8,5,6)] assms(9) by auto
  note o = opened_reading [OF assms(1,8,7,3) fd assms(10-12) m(2-4)]
  have "file_length (s\<lparr>mem := m\<rparr>) (entry_inode s i) = file_length s (entry_inode s i)" using arg_cong [OF o(3), of length] by simp
  then show ?thesis
    using read_all_rest [OF o(1), of fuel irqs] o(2-4) assms(13) m(1) by auto
qed

theorem open_read_whole_file_witness:
  "\<exists>s1 s2. sys_open lay_demo 0x100040 sys_demo = Some (2, s1) \<and> read_all lay_demo [] 2 0x200100 3 6 s1 = Some (lit ''hello'', s2)"
proof -
  have "lit ''a'' \<noteq> []" "length (lit ''a'') < 32" "ops_at lay_demo (file_t lay_demo) = Some File_ops"
    by (simp_all add: lit_def ops_at_def lay_demo_def)
  moreover have "fd_at (pcb sys_demo) (int 2) + 4 \<noteq> 0" by (simp add: sys_demo_fields fd_at_def)
  moreover have "file_length sys_demo (entry_inode sys_demo 0) < 6" by (simp add: sys_demo_entry)
  ultimately show ?thesis
    using open_read_whole_file [OF sys_demo_ready sys_demo_name(1) _ sys_demo_name(3-5) _ sys_demo_name(2) sys_demo_free sys_demo_readable,
      where fuel = 6 and irqs = "[]"] by (auto simp: sys_demo_entry numeral_2_eq_2)
qed

text \<open>C24: descriptors that cannot be used.  \<open>read\<close>, \<open>write\<close> and \<open>close\<close> return -1 for a number outside the table, for a
  null buffer and for a descriptor that is not open, and change nothing (\<open>read\<close> has enabled interrupts by
  then).  The terminal descriptors are guarded by nothing: reading standard output and writing
  standard input call the null entry of their table and have no result.\<close>

theorem descriptor_errors:
  fixes s :: "'a kernel_scheme"
  shows "(fd < 0 \<or> 7 < fd \<or> buf = 0 \<longrightarrow> sys_read l irqs fd buf n s = Some (irqs, -1, sti s) \<and> sys_write l dev fd buf n s = Some (-1, s)) \<and>
    (fd < 2 \<or> 7 < fd \<longrightarrow> sys_close l fd s = Some (-1, s)) \<and>
    (\<forall>j < 8. fd_view (mem s) (pcb s) j = None \<longrightarrow> sys_read l irqs (int j) buf n s = Some (irqs, -1, sti s) \<and>
       sys_write l dev (int j) buf n s = Some (-1, s) \<and> sys_close l (int j) s = Some (-1, s)) \<and>
    (\<forall>j < 8. \<forall>d. fd_view (mem s) (pcb s) j = Some d \<and> buf \<noteq> 0 \<longrightarrow>
       (ops_at l (d_table d) = Some Stdout_ops \<longrightarrow> sys_read l irqs (int j) buf n s = None) \<and>
       (ops_at l (d_table d) = Some Stdin_ops \<longrightarrow> sys_write l dev (int j) buf n s = None))"
proof (intro conjI allI impI)
  show "sys_read l irqs (int j) buf n s = Some (irqs, -1, sti s)" "sys_write l dev (int j) buf n s = Some (-1, s)"
    "sys_close l (int j) s = Some (-1, s)" if "j < 8" "fd_view (mem s) (pcb s) j = None" for j
    using that by (auto simp: sys_read_def sys_write_def sys_close_def sti_def fd_view_def Let_def split: if_splits)
  show "sys_read l irqs (int j) buf n s = None"
    if "j < 8" "fd_view (mem s) (pcb s) j = Some d \<and> buf \<noteq> 0" "ops_at l (d_table d) = Some Stdout_ops" for j d
    using that by (auto simp: sys_read_def call_read_def sti_def fd_view_def Let_def split: if_splits)
  show "sys_write l dev (int j) buf n s = None"
    if "j < 8" "fd_view (mem s) (pcb s) j = Some d \<and> buf \<noteq> 0" "ops_at l (d_table d) = Some Stdin_ops" for j d
    using that by (auto simp: sys_write_def call_write_def fd_view_def Let_def split: if_splits)
qed (auto simp: sys_read_def sys_write_def sys_close_def Let_def)

theorem descriptor_errors_witness: "sys_read lay_demo [] 8 0x200100 4 sys_demo = Some ([], -1, sti sys_demo)"
  using descriptor_errors [of 8 "0x200100" lay_demo "[]" 4 sys_demo "\<lambda>_ _. 0"] by simp

end
