(* ===== verification/Processes.thy ===== *)
theory Processes
  imports DescriptorsProps
begin

text \<open>
  Processes: parsing the command line, checking and loading a program, setting up its process
  control block, and returning to the parent when it halts.
\<close>

unbundle bit_operations_syntax

section \<open>The command line\<close>

lemma apart_mono:
  assumes "apart p n q k" and "n' \<le> n" and "k' \<le> k"
  shows "apart p n' q k'"
  using assms unfolding apart_def within_def by (meson order_less_le_trans)

lemma blit_update: "i < 4294967296 \<Longrightarrow> (blit m d src i)(d + of_nat i := m (src + of_nat i)) = blit m d src (Suc i)"
  by (auto simp: blit_def fun_eq_iff within_def) (metis less_antisym add_diff_cancel_left' unat_of_nat_u32 diff_add_cancel add.commute of_nat_unat ucast_id)

lemma parse_name_blit:
  assumes "\<And>j. j < p \<Longrightarrow> m (command + of_nat j) \<noteq> 32" and "p < 32 \<Longrightarrow> m (command + of_nat p) = 32" and "p \<le> 32"
    and "apart command 32 name 32" and "i \<le> p"
  shows "parse_name command name (int i) (blit m name command i) = (int p, blit m name command p)"
  using assms(5)
proof (induction "p - i" arbitrary: i)
  case 0
  then have i: "i = p" by simp
  have "blit m name command p (command + of_nat p) = 32" if "p < 32"
  proof -
    have "within command 32 (command + of_nat p)" using that by simp
    then have "\<not> within name 32 (command + of_nat p)" using apartD [OF assms(4)] by blast
    then have "\<not> within name p (command + of_nat p)" using that by (auto simp: within_def)
    then show ?thesis using assms(2) [OF that] by (simp add: blit_def)
  qed
  then show ?case unfolding i by (subst parse_name.simps) auto
next
  case (Suc d)
  then have i: "i < p" "i < 32" using assms(3) by simp_all
  have "within command 32 (command + of_nat i)" using i by simp
  then have "\<not> within name 32 (command + of_nat i)" using apartD [OF assms(4)] by blast
  then have "\<not> within name i (command + of_nat i)" using i by (auto simp: within_def)
  then have rd: "blit m name command i (command + of_nat i) = m (command + of_nat i)" by (simp add: blit_def)
  have "parse_name command name (int i) (blit m name command i) = parse_name command name (int (Suc i)) (blit m name command (Suc i))"
    using i rd assms(1) [OF i(1)] blit_update [of i m name command] by (subst parse_name.simps) (simp add: add.commute)
  then show ?case using Suc.hyps(1) [of "Suc i"] Suc.hyps(2) by simp
qed

lemma parse_args_blit:
  assumes "cstr (ptr m (command + of_nat q)) args" and "apart (command + of_nat q) (Suc (length args)) arg_buf (length args)" and "i \<le> length args"
  shows "parse_args command arg_buf (int (q + i)) (int i) (blit m arg_buf (command + of_nat q) i) =
    Some (int (length args), blit m arg_buf (command + of_nat q) (length args))"
  using assms(3)
proof (induction "length args - i" arbitrary: i)
  case 0
  then have i: "i = length args" by simp
  let ?src = "command + of_nat q" and ?n = "length args"
  have n: "?n < 4294967296" using assms(1) by (simp add: cstr_def)
  have "within ?src (Suc ?n) (?src + of_nat ?n)" using n by simp
  then have "\<not> within arg_buf ?n (?src + of_nat ?n)" using apartD [OF assms(2)] by blast
  then have "blit m arg_buf ?src ?n (?src + of_nat ?n) = 0" using cstr_end [OF assms(1)] by (simp add: blit_def)
  then show ?case unfolding i by (subst parse_args.simps) (simp add: add.assoc)
next
  case (Suc d)
  let ?src = "command + of_nat q" and ?n = "length args"
  have n: "?n < 4294967296" using assms(1) by (simp add: cstr_def)
  have i: "i < ?n" using Suc.hyps(2) by simp
  have "within ?src (Suc ?n) (?src + of_nat i)" using n i by simp
  then have "\<not> within arg_buf ?n (?src + of_nat i)" using apartD [OF assms(2)] by blast
  then have "\<not> within arg_buf i (?src + of_nat i)" using i by (auto simp: within_def)
  then have rd: "blit m arg_buf ?src i (?src + of_nat i) = m (?src + of_nat i)" by (simp add: blit_def)
  have nz: "m (?src + of_nat i) \<noteq> 0" using cstr_nonzero [OF assms(1) i] by simp
  have "parse_args command arg_buf (int (q + i)) (int i) (blit m arg_buf ?src i) =
      parse_args command arg_buf (int (q + Suc i)) (int (Suc i)) (blit m arg_buf ?src (Suc i))"
    using rd nz blit_update [of i m arg_buf ?src] i n by (subst parse_args.simps) (simp add: ac_simps)
  then show ?case using Suc.hyps(1) [of "Suc i"] Suc.hyps(2) by simp
qed


definition first_space :: "mem \<Rightarrow> u32 \<Rightarrow> nat \<Rightarrow> bool" where
  "first_space m command p \<longleftrightarrow> p \<le> 32 \<and> (\<forall>j < p. m (command + of_nat j) \<noteq> 32) \<and> (p < 32 \<longrightarrow> m (command + of_nat p) = 32)"

lemma parse_command_ok:
  assumes "first_space (mem s) command p" and "cstr (ptr (mem s) (command + of_nat (Suc p))) args" and "length args < 1024"
    and "apart command (34 + length args) (command_name_local l) 33" and "apart command (34 + length args) (arg_buf_local l) 1024"
    and "apart (command_name_local l) 33 (arg_buf_local l) 1024"
  shows "\<exists>m'. parse_command l command s = Some (s\<lparr>mem := m', arg_size := int (length args)\<rparr>) \<and>
    bytes_at (ptr m' (command_name_local l)) p = bytes_at (ptr (mem s) command) p \<and> m' (command_name_local l + of_nat p) = 0 \<and>
    cstr (ptr m' (arg_buf_local l)) args \<and>
    (\<forall>a. \<not> within (command_name_local l) 33 a \<longrightarrow> \<not> within (arg_buf_local l) 1024 a \<longrightarrow> m' a = mem s a)"
proof -
  let ?N = "command_name_local l" and ?A = "arg_buf_local l" and ?src = "command + of_nat (Suc p)" and ?k = "length args"
  note fs = assms(1) [unfolded first_space_def]
  have p32: "p \<le> 32" using fs by simp
  define m1 where "m1 = blit (mem s) ?N command p"
  define m2 where "m2 = m1(?N + of_nat p := 0)"
  define m3 where "m3 = blit m2 ?A ?src ?k"
  define m' where "m' = m3(?A + of_nat ?k := 0)"
  have "apart command 32 ?N 32" using assms(4) by (rule apart_mono) simp_all
  then have pn: "parse_name command ?N 0 (mem s) = (int p, m1)"
    using parse_name_blit [of p "mem s" command ?N 0] fs by (simp add: m1_def)
  have out2: "m2 a = mem s a" if "\<not> within ?N 33 a" for a
  proof -
    have "\<not> within ?N p a" "a \<noteq> ?N + of_nat p" using that p32 by (auto simp: within_def)
    then show ?thesis by (simp add: m2_def m1_def blit_def)
  qed
  have src_in: "within command (34 + ?k) a" if "within ?src (Suc ?k) a" for a
    using within_sub_block [OF that, of "34 + ?k"] p32 assms(3) by simp
  have src2: "cstr (ptr m2 ?src) args"
    using assms(2) string_at.local [of ?src args m2 "mem s"] out2 src_in assms(4) by (auto simp: apart_def)
  have "apart ?src (Suc ?k) ?A ?k" using apart_sub [OF apart_mono [OF assms(5)] src_in] assms(3) by simp
  then have pa: "parse_args command ?A (int p + 1) 0 m2 = Some (int ?k, m3)"
    using parse_args_blit [OF src2, of ?A 0] by (simp add: m3_def add.commute)
  have out: "m' a = m2 a" if "\<not> within ?A 1024 a" for a
  proof -
    have "\<not> within ?A ?k a" "a \<noteq> ?A + of_nat ?k" using that assms(3) by (auto simp: within_def)
    then show ?thesis by (simp add: m'_def m3_def blit_def)
  qed
  have "parse_command l command s = Some (s\<lparr>mem := m', arg_size := int ?k\<rparr>)"
    using pn pa by (simp add: parse_command_def m2_def m'_def)
  moreover have nb: "m' (?N + of_nat j) = (if j = p then 0 else mem s (command + of_nat j))" if "j \<le> p" for j
  proof -
    have "within ?N 33 (?N + of_nat j)" using that p32 by simp
    then have "\<not> within ?A 1024 (?N + of_nat j)" using apartD [OF assms(6)] by blast
    moreover have "(?N + of_nat j = ?N + of_nat p) = (j = p)" using that p32 add_of_nat_u32_inj [of j p ?N] by simp
    ultimately show ?thesis using out that p32 by (simp add: m2_def m1_def blit_offset)
  qed
  moreover have "bytes_at (ptr m' ?N) p = bytes_at (ptr (mem s) command) p" by (rule bytes_at_cong) (simp add: nb)
  moreover have "cstr (ptr m' ?A) args"
  proof (rule cstrI)
    show "?k < 4294967296" "0 \<notin> set args" using assms(2) by (simp_all add: cstr_def)
    show "ptr m' ?A (of_nat j) = args ! j" if "j < ?k" for j
      using that assms(3) add_of_nat_u32_inj [of j ?k ?A] cstr_nth [OF src2 that] by (simp add: m'_def m3_def blit_offset)
  qed (simp add: m'_def)
  moreover have "m' a = mem s a" if "\<not> within ?N 33 a" "\<not> within ?A 1024 a" for a using out out2 that by simp
  ultimately show ?thesis by auto
qed

section \<open>Checking a program\<close>

lemma check_executable_missing:
  assumes "directory s names" and "cstr (ptr (mem s) name) xs" and "length xs < 2147483648" and "xs = [] \<or> xs \<notin> set names"
  shows "check_executable l name s = Some (-1, s)"
  using file_missing(1) [OF assms] by (simp add: check_executable_def)


section \<open>The file system across states\<close>

text \<open>Two states with the same mounted image.\<close>

definition same_fs :: "'a files_scheme \<Rightarrow> 'b files_scheme \<Rightarrow> bool" where
  "same_fs s s' \<longleftrightarrow> my_boot_block s' = my_boot_block s \<and> file_addr s' = file_addr s \<and> dentries s' = dentries s \<and> inodes s' = inodes s \<and>
     (\<forall>a. in_image s a \<longrightarrow> mem s' a = mem s a)"

lemma same_fs_trans:
  assumes "same_fs s t" and "same_fs t u"
  shows "same_fs s u"
proof -
  have "in_image t = in_image s" using assms(1) by (simp add: same_fs_def in_image_def fs_size_def fun_eq_iff)
  then show ?thesis using assms by (simp add: same_fs_def)
qed

lemma same_fs_view:
  fixes s :: "'a files_scheme" and s' :: "'b files_scheme"
  assumes "my_boot_block s' = my_boot_block s" and "file_addr s' = file_addr s" and "dentries s' = dentries s" and "inodes s' = inodes s"
    and "mem s' = mem s"
  shows "mounted s' = mounted s" "in_image s' = in_image s" "inode_length s' = inode_length s" "data_block s' = data_block s"
    "entry_inode s' = entry_inode s" "entry_name s' = entry_name s" "file_byte s' = file_byte s"
proof -
  show "mounted s' = mounted s" using assms by (simp add: mounted_def fs_size_def)
  show "in_image s' = in_image s" using assms by (intro ext) (simp add: in_image_def fs_size_def)
  show "inode_length s' = inode_length s" using assms by (intro ext) (simp add: inode_length_def)
  show d: "data_block s' = data_block s" using assms by (intro ext) (simp add: data_block_def)
  show "entry_inode s' = entry_inode s" "entry_name s' = entry_name s"
    using assms by (intro ext; simp add: entry_inode_def entry_name_def dentry_at_def)+
  show "file_byte s' = file_byte s" using assms d by (intro ext) (simp add: file_byte_def)
qed

lemma same_fs_transfer:
  fixes s :: "'a files_scheme" and s' :: "'b files_scheme"
  assumes "same_fs s s'" and "mounted s"
  shows "mounted s'" "in_image s' = in_image s" "directory s names \<Longrightarrow> directory s' names"
    "i < 63 \<Longrightarrow> entry_inode s' i = entry_inode s i"
    "dentry_room s' d = dentry_room s d" "buf_room s' b n = buf_room s b n"
proof -
  have img: "image_eq s (mem s')" using assms(1) by (simp add: same_fs_def image_eq_def)
  let ?t = "s\<lparr>mem := mem s'\<rparr>"
  have v: "my_boot_block s' = my_boot_block ?t" "file_addr s' = file_addr ?t" "dentries s' = dentries ?t" "inodes s' = inodes ?t" "mem s' = mem ?t"
    using assms(1) by (simp_all add: same_fs_def)
  note e = same_fs_view [OF v]
  show "mounted s'" "in_image s' = in_image s" using e assms(2) by simp_all
  then show "dentry_room s' d = dentry_room s d" "buf_room s' b n = buf_room s b n" by (simp_all add: dentry_room_def buf_room_def)
  show "directory s' names" if "directory s names" using directory_frame [OF assms(2) that img] e by (simp add: directory_def)
  show "entry_inode s' i = entry_inode s i" if "i < 63" using entry_inode_frame [OF assms(2) that img] e by simp
qed

lemma same_fs_file:
  fixes s :: "'a files_scheme" and s' :: "'b files_scheme"
  assumes "same_fs s s'" and "mounted s" and "file_ok s k" and "0 < file_length s k"
  shows "file_length s' k = file_length s k" "file_ok s' k" "file_bytes s' k = file_bytes s k" "tail_ok s' k stop = tail_ok s k stop"
proof -
  have img: "image_eq s (mem s')" using assms(1) by (simp add: same_fs_def image_eq_def)
  let ?t = "s\<lparr>mem := mem s'\<rparr>"
  have v: "my_boot_block s' = my_boot_block ?t" "file_addr s' = file_addr ?t" "dentries s' = dentries ?t" "inodes s' = inodes ?t" "mem s' = mem ?t"
    using assms(1) by (simp_all add: same_fs_def)
  note e = same_fs_view [OF v] and f = file_frame [OF assms(2,3) img assms(4)]
  show "file_length s' k = file_length s k" "file_ok s' k" "tail_ok s' k stop = tail_ok s k stop"
    using f v e by (simp_all add: file_ok_def tail_ok_def)
  show "file_bytes s' k = file_bytes s k" using f(3) e by (simp add: file_bytes_def)
qed


section \<open>Loading a program\<close>

text \<open>\<open>xs\<close> is the name of directory entry \<open>i\<close>, a file with valid blocks of at least 28 bytes.  \<open>program\<close>:
  its name stands at \<open>name\<close>.\<close>

definition stored :: "u32 \<Rightarrow> byte list list \<Rightarrow> byte list \<Rightarrow> nat \<Rightarrow> 'a files_scheme \<Rightarrow> bool" where
  "stored d names xs i s \<longleftrightarrow> mounted s \<and> directory s names \<and> dentry_room s d \<and> xs \<noteq> [] \<and>
     length xs \<le> 32 \<and> first_index xs names = Some i \<and> file_ok s (entry_inode s i) \<and>
     tail_ok s (entry_inode s i) (Suc (file_length s (entry_inode s i))) \<and> 28 \<le> file_length s (entry_inode s i)"

definition program :: "u32 \<Rightarrow> byte list list \<Rightarrow> u32 \<Rightarrow> byte list \<Rightarrow> nat \<Rightarrow> 'a files_scheme \<Rightarrow> bool" where
  "program d names name xs i s \<longleftrightarrow> stored d names xs i s \<and> cstr (ptr (mem s) name) xs \<and> name \<noteq> 0"

definition contents :: "nat \<Rightarrow> 'a files_scheme \<Rightarrow> byte list" where
  "contents i s = file_bytes s (entry_inode s i)"

lemma stored_keep:
  assumes "stored d names xs i s" and "same_fs s s'"
  shows "stored d names xs i s'" and "contents i s' = contents i s"
proof -
  note p = assms(1) [unfolded stored_def]
  have i: "i < 63" using p first_index_Some [of xs names i] by (auto simp: directory_def)
  have mt: "mounted s" and ok: "file_ok s (entry_inode s i)" "0 < file_length s (entry_inode s i)" using p by auto
  note t = same_fs_transfer [OF assms(2) mt] and f = same_fs_file [OF assms(2) mt ok]
  show "stored d names xs i s'" using p t f i by (simp add: stored_def)
  show "contents i s' = contents i s" using t(4) [OF i] f(3) by (simp add: contents_def)
qed

lemma program_read:
  assumes "program d names name xs i s" and "off + 4 \<le> length (contents i s)" and "buf_room s b 4" and "b \<noteq> 0"
  shows "\<exists>m. file_read d b (of_nat off) 4 name s = Some (4, s\<lparr>mem := m, length_of_file := 4\<rparr>) \<and>
    (\<forall>j < 4. m (b + of_nat j) = contents i s ! (off + j)) \<and> (\<forall>a. \<not> within d 64 a \<longrightarrow> \<not> within b 4 a \<longrightarrow> m a = mem s a)"
proof -
  note p = assms(1) [unfolded program_def stored_def]
  let ?k = "entry_inode s i" and ?sl = "take 4 (drop off (contents i s))"
  have L: "file_length s ?k \<le> 4190208" using p by (simp add: file_ok_def)
  have off: "unat (of_nat off :: u32) = off" using assms(2) L by (intro unat_of_nat_u32) (simp add: contents_def)
  have sl: "file_slice s ?k (of_nat off) 4 = ?sl" "length ?sl = 4" using assms(2) off by (simp_all add: file_slice_def contents_def)
  have "unat (of_nat off :: u32) < file_length s ?k" using assms(2) off by (simp add: contents_def)
  moreover have "tail_ok s ?k (unat (of_nat off :: u32) + unat (4 :: u32))" using p tail_ok_mono by blast
  moreover have "buf_room s b (length (file_slice s ?k (of_nat off) 4))" unfolding sl by (rule assms(3))
  ultimately obtain m where m: "entry_copied s d i xs m"
    "file_read d b (of_nat off) 4 name s = Some (4, s\<lparr>mem := poke m b ?sl, length_of_file := 4\<rparr>)"
    using file_read_slice [of s names d name xs i "of_nat off" 4 b] p assms(4) sl by auto
  have "poke m b ?sl (b + of_nat j) = contents i s ! (off + j)" if "j < 4" for j
    using that assms(2) sl(2) poke_at [where i = j and bs = ?sl and m = m and p = b] by simp
  moreover have "poke m b ?sl a = mem s a" if "\<not> within d 64 a" "\<not> within b 4 a" for a
    using poke_other [of b ?sl a m] m(1) that sl(2) by (simp add: entry_copied_def)
  ultimately show ?thesis using m(2) by blast
qed

lemma program_load:
  assumes "program d names name xs i s" and "buf_room s addr (length (contents i s))"
  shows "\<exists>m L. file_load d name addr s = Some (int (length (contents i s)), s\<lparr>mem := m, length_of_file := L\<rparr>) \<and>
    bytes_at (ptr m addr) (length (contents i s)) = contents i s \<and>
    (\<forall>a. \<not> within d 64 a \<longrightarrow> \<not> within addr (length (contents i s)) a \<longrightarrow> m a = mem s a)"
proof -
  note p = assms(1) [unfolded program_def stored_def]
  have len: "length (contents i s) = file_length s (entry_inode s i)" by (simp add: contents_def)
  have "length (contents i s) \<le> 4294967296" using p len by (simp add: file_ok_def)
  moreover obtain m where "entry_copied s d i xs m"
    "file_load d name addr s = Some (int (length (contents i s)), s\<lparr>mem := poke m addr (contents i s), length_of_file := int (length (contents i s))\<rparr>)"
    using file_load_whole [of s names d name xs i addr] p assms(2) len by (auto simp: contents_def)
  ultimately show ?thesis
    using bytes_at_poke [of "contents i s" m addr] poke_other [of addr "contents i s" _ m] by (auto simp: entry_copied_def)
qed

definition elf_magic :: "byte list \<Rightarrow> bool" where
  "elf_magic xs \<longleftrightarrow> take 4 xs = [0x7F, 0x45, 0x4C, 0x46]"

lemma check_executable_program:
  assumes "program (dentry_addr l) names name xs i s" and "buf_room s (temp_local l) 4" and "temp_local l \<noteq> 0"
  shows "\<exists>m. check_executable l name s = Some (if elf_magic (contents i s) then 0 else -1, s\<lparr>mem := m, length_of_file := 4\<rparr>) \<and>
    (\<forall>a. \<not> within (dentry_addr l) 64 a \<longrightarrow> \<not> within (temp_local l) 4 a \<longrightarrow> m a = mem s a)"
proof -
  have len: "0 + 4 \<le> length (contents i s)" using assms(1) by (simp add: program_def stored_def contents_def)
  obtain m where m: "file_read (dentry_addr l) (temp_local l) 0 4 name s = Some (4, s\<lparr>mem := m, length_of_file := 4\<rparr>)"
    "\<forall>j < 4. m (temp_local l + of_nat j) = contents i s ! j"
    "\<forall>a. \<not> within (dentry_addr l) 64 a \<longrightarrow> \<not> within (temp_local l) 4 a \<longrightarrow> m a = mem s a"
    using program_read [OF assms(1) len assms(2,3)] by auto
  have "take 4 (contents i s) = [contents i s ! 0, contents i s ! 1, contents i s ! 2, contents i s ! 3]"
    using len by (intro nth_equalityI) (auto simp: nth_Cons numeral_2_eq_2 numeral_3_eq_3 split: nat.splits)
  then have "elf_magic (contents i s) \<longleftrightarrow> m (temp_local l) = 0x7F \<and> m (temp_local l + 1) = 0x45 \<and> m (temp_local l + 2) = 0x4C \<and> m (temp_local l + 3) = 0x46"
    using m(2) [rule_format, of 0] m(2) [rule_format, of 1] m(2) [rule_format, of 2] m(2) [rule_format, of 3] by (auto simp: elf_magic_def)
  then show ?thesis using m(1,3) by (auto simp: check_executable_def)
qed


section \<open>The process control block\<close>

lemma set_fd_other: "length name < 32 \<Longrightarrow> \<not> within f 48 a \<Longrightarrow> set_fd f table name flags m a = m a"
proof -
  assume "length name < 32" and a: "\<not> within f 48 a"
  then have "\<not> within (f + 4) (length (lit name @ [0])) a" using name_in_fd [of "Suc (length name)" f a] by (auto simp: lit_def)
  then show ?thesis using stores_field [OF a] by (simp add: set_fd_def Let_def strcpy_literal_def poke_other)
qed

lemma set_fd_fields:
  assumes "length name < 32"
  shows "load32 (set_fd f table name flags m) f = table" "load32 (set_fd f table name flags m) (f + 36) = 0"
    "load32 (set_fd f table name flags m) (f + 40) = 0" "load32 (set_fd f table name flags m) (f + 44) = flags"
  using assms by (simp_all add: set_fd_def Let_def strcpy_literal_def lit_def field_simps_fd)

lemma fd_view_set_fd:
  assumes "length name < 32" and "0 \<le> i" and "i < 8" and "j < 8"
  shows "fd_view (set_fd (fd_at p i) table name flags m) p j =
    (if i = int j then (if flags = 0 then None else Some \<lparr>d_table = table, d_inode = 0, d_pos = 0, d_flags = flags\<rparr>) else fd_view m p j)"
proof (cases "i = int j")
  case True
  then show ?thesis using set_fd_fields [OF assms(1)] by (simp add: fd_view_def Let_def)
next
  case False
  obtain k where k: "i = int k" "k < 8" using assms(2,3) zero_le_imp_eq_int [of i] by auto
  then show ?thesis
    using False fd.frame [OF fd_apart [OF assms(4) k(2)] set_fd_other [OF assms(1)]] by auto
qed

lemma set_fd_header:
  assumes "length name < 32" and "0 \<le> i" and "i < 8" and "within p 16 a"
  shows "set_fd (fd_at p i) table name flags m a = m a"
proof (rule set_fd_other [OF assms(1)])
  obtain k where k: "i = int k" "k < 8" using assms(2,3) zero_le_imp_eq_int [of i] by auto
  have "apart p 16 (p + of_nat (16 + 48 * k)) 48" using apart_offsets [of 0 16 "16 + 48 * k" 48 p] k(2) by simp
  then show "\<not> within (fd_at p i) 48 a" using assms(4) k apartD by (auto simp: fd_at_nat)
qed

lemma set_fd_outside:
  assumes "length name < 32" and "0 \<le> i" and "i < 8" and "\<not> within p 400 a"
  shows "set_fd (fd_at p i) table name flags m a = m a"
proof (rule set_fd_other [OF assms(1)])
  obtain k where k: "i = int k" "k < 8" using assms(2,3) zero_le_imp_eq_int [of i] by auto
  then show "\<not> within (fd_at p i) 48 a"
    using assms(4) within_sub_block [of p "16 + 48 * k" 48 a 400] by (auto simp: fd_at_nat)
qed

definition pcb_fresh :: "layout \<Rightarrow> int \<Rightarrow> byte \<Rightarrow> mem \<Rightarrow> bool" where
  "pcb_fresh l n parent m \<longleftrightarrow> m (pcb_of n) = of_int n \<and> m (pcb_of n + 1) = parent \<and>
     load32 m (pcb_of n + 4) = curr_esp l \<and> load32 m (pcb_of n + 8) = curr_ebp l \<and>
     fd_view m (pcb_of n) 0 = Some \<lparr>d_table = stdin_t l, d_inode = 0, d_pos = 0, d_flags = 1\<rparr> \<and>
     fd_view m (pcb_of n) 1 = Some \<lparr>d_table = stdout_t l, d_inode = 0, d_pos = 0, d_flags = 1\<rparr> \<and>
     (\<forall>j < 8. 2 \<le> j \<longrightarrow> fd_view m (pcb_of n) j = None)"

definition init_header :: "layout \<Rightarrow> int \<Rightarrow> mem \<Rightarrow> mem" where
  "init_header l n m =
     (let p = pcb_of n;
          m = m(p := of_int n);
          m = (if n = 1 then m(p + 1 := 0) else m(p + 1 := m (curr_esp l AND 0xffffe000)));
          m = store32 m (p + 4) (curr_esp l)
      in store32 m (p + 8) (curr_ebp l))"

lemma init_header_fields:
  fixes m :: mem
  assumes "n = 1 \<or> curr_esp l AND 0xffffe000 \<noteq> pcb_of n"
  defines "m' \<equiv> init_header l n m"
  shows "m' (pcb_of n) = of_int n" "m' (pcb_of n + 1) = (if n = 1 then 0 else m (curr_esp l AND 0xffffe000))"
    "load32 m' (pcb_of n + 4) = curr_esp l" "load32 m' (pcb_of n + 8) = curr_ebp l"
    "\<not> within (pcb_of n) 400 a \<Longrightarrow> m' a = m a"
proof -
  let ?p = "pcb_of n"
  have in4: "\<not> within (?p + 4) 4 (?p + of_nat k)" "\<not> within (?p + 8) 4 (?p + of_nat k)" if "k < 2" for k
    using apartD [OF apart_offsets [of k 1 4 4 ?p], of "?p + of_nat k"] apartD [OF apart_offsets [of k 1 8 4 ?p], of "?p + of_nat k"] that by auto
  show "m' ?p = of_int n" using in4 [of 0] by (simp add: m'_def init_header_def Let_def store32_other)
  show "m' (?p + 1) = (if n = 1 then 0 else m (curr_esp l AND 0xffffe000))"
    using in4 [of 1] assms(1) by (auto simp: m'_def init_header_def Let_def store32_other)
  have "apart (?p + 4) 4 (?p + 8) 4" using apart_offsets [of 4 4 8 4 ?p] by simp
  then show "load32 m' (?p + 4) = curr_esp l" "load32 m' (?p + 8) = curr_ebp l"
    by (simp_all add: m'_def init_header_def Let_def word_at.frame_store32)
  assume a: "\<not> within ?p 400 a"
  have "\<not> within (?p + 4) 4 a" "\<not> within (?p + 8) 4 a" "a \<noteq> ?p" "a \<noteq> ?p + 1"
    using a within_sub_block [of ?p 4 4 a 400] within_sub_block [of ?p 8 4 a 400] within_sub_block [of ?p 0 1 a 400]
      within_sub_block [of ?p 1 1 a 400] by auto
  then show "m' a = m a" by (auto simp: m'_def init_header_def Let_def store32_other)
qed

lemma init_pcb_header: "init_pcb l n m =
    fold (\<lambda>i. set_fd (fd_at (pcb_of n) i) 0 [] 0) [2, 3, 4, 5, 6, 7]
      (set_fd (fd_at (pcb_of n) 1) (stdout_t l) ''STDOUT'' 1 (set_fd (fd_at (pcb_of n) 0) (stdin_t l) ''STDIN'' 1 (init_header l n m)))"
  by (simp add: init_pcb_def init_header_def Let_def)

lemma init_pcb_fresh:
  assumes "n = 1 \<or> curr_esp l AND 0xffffe000 \<noteq> pcb_of n"
  shows "pcb_fresh l n (if n = 1 then 0 else m (curr_esp l AND 0xffffe000)) (init_pcb l n m)"
    and "\<not> within (pcb_of n) 400 a \<Longrightarrow> init_pcb l n m a = m a"
proof -
  let ?p = "pcb_of n" and ?m = "init_pcb l n m" and ?h = "init_header l n m"
  note h = init_header_fields [OF assms, where m = m]
  have hdr: "?m a = ?h a" if "within ?p 16 a" for a
    using that by (simp add: init_pcb_header set_fd_header)
  have w: "within ?p 16 (?p + of_nat k)" if "k < 16" for k using that by simp
  have "?m ?p = of_int n" "?m (?p + 1) = (if n = 1 then 0 else m (curr_esp l AND 0xffffe000))"
    using h(1,2) hdr w [of 0] w [of 1] by simp_all
  moreover have "load32 ?m (?p + 4) = curr_esp l" "load32 ?m (?p + 8) = curr_ebp l"
    using word_at.local [of "?p + 4" ?m ?h] word_at.local [of "?p + 8" ?m ?h] h(3,4) hdr
      within_sub_block [of ?p 4 4 _ 16] within_sub_block [of ?p 8 4 _ 16] by auto
  moreover have "fd_view ?m ?p 0 = Some \<lparr>d_table = stdin_t l, d_inode = 0, d_pos = 0, d_flags = 1\<rparr>"
    "fd_view ?m ?p 1 = Some \<lparr>d_table = stdout_t l, d_inode = 0, d_pos = 0, d_flags = 1\<rparr>"
    by (simp_all add: init_pcb_header fd_view_set_fd)
  moreover have "fd_view ?m ?p j = None" if "j < 8" "2 \<le> j" for j
  proof -
    have "j \<in> {2, 3, 4, 5, 6, 7}" using that by auto
    then show ?thesis by (auto simp: init_pcb_header fd_view_set_fd)
  qed
  ultimately show "pcb_fresh l n (if n = 1 then 0 else m (curr_esp l AND 0xffffe000)) ?m" by (simp add: pcb_fresh_def)
  show "?m a = m a" if "\<not> within ?p 400 a"
    using h(5) [OF that] that by (simp add: init_pcb_header set_fd_outside)
qed


interpretation pcb_block: local_view "pcb_of n" 400 "\<lambda>m. pcb_fresh l n parent m" for n l parent
proof unfold_locales
  fix m m' :: mem assume eq: "\<And>a. within (pcb_of n) 400 a \<Longrightarrow> m a = m' a"
  let ?p = "pcb_of n"
  have "m (?p + of_nat k) = m' (?p + of_nat k)" if "k < 400" for k using eq that by simp
  from this [of 0] this [of 1] have b: "m ?p = m' ?p" "m (?p + 1) = m' (?p + 1)" by simp_all
  have w: "load32 m (?p + 4) = load32 m' (?p + 4)" "load32 m (?p + 8) = load32 m' (?p + 8)"
    using eq within_sub_block [of ?p 4 4 _ 400] within_sub_block [of ?p 8 4 _ 400] by (auto intro!: word_at.local)
  have "fd_view m ?p j = fd_view m' ?p j" if "j < 8" for j
  proof (rule fd.local)
    fix a assume "within (fd_at ?p (int j)) 48 a"
    then have "within ?p 400 a" using within_sub_block [of ?p "16 + 48 * j" 48 a 400] that by (simp add: fd_at_nat)
    then show "m a = m' a" by (rule eq)
  qed
  then show "pcb_fresh l n parent m = pcb_fresh l n parent m'" using b w by (simp add: pcb_fresh_def)
qed

lemma enter_program_ok:
  fixes l :: layout
  assumes "cstr (ptr (mem s) (arg_buf_local l)) args" and "length args < 1024" and "arg_size s = int (length args)"
    and "apart (arg_buf_local l) 1024 (pcb s) 1424" and "counter s = 1 \<or> curr_esp l AND 0xffffe000 \<noteq> pcb s"
  shows "\<exists>m'. enter_program l e s = (Entered_user e PROGRAM_ENDING_ADDR,
        s\<lparr>mem := m', tss_esp0 := BOTTOM_STACK - of_int (counter s - 1) * 0x2000 - 4, intr := False\<rparr>) \<and>
    pcb_fresh l (counter s) (if counter s = 1 then 0 else mem s (curr_esp l AND 0xffffe000)) m' \<and>
    cstr (ptr m' (pcb s + 400)) args \<and> (\<forall>a. \<not> within (pcb s) 1424 a \<longrightarrow> m' a = mem s a)"
proof -
  let ?p = "pcb s" and ?A = "arg_buf_local l" and ?k = "length args"
  define m1 where "m1 = init_pcb l (counter s) (mem s)"
  define m2 where "m2 = fill m1 (?p + 400) 1024 0"
  define m3 where "m3 = strncpy m2 (?p + 400) ?A (of_int (int ?k))"
  note pcb = init_pcb_fresh [OF assms(5), where m = "mem s", folded m1_def]
  have args_in: "within ?p 1424 a" if "within (?p + 400) 1024 a" for a using within_sub_block [of ?p 400 1024 a 1424] that by simp
  have hdr_in: "within ?p 1424 a" if "within ?p 400 a" for a using within_sub_block [of ?p 0 400 a 1424] that by simp
  have out2: "m2 a = mem s a" if "\<not> within ?p 1424 a" for a
    using that args_in hdr_in pcb(2) by (auto simp: m2_def fill_def)
  have "apart ?A (Suc ?k) ?p 1424" using assms(2,4) by (auto intro: apart_mono)
  then have src: "cstr (ptr m2 ?A) args" using assms(1) string_at.frame [of ?A args ?p 1424 m2 "mem s"] out2 by simp
  have k: "unat (of_int (int ?k) :: u32) = ?k" using assms(2) by simp
  have "apart (?p + 400) 1024 ?A 1024" using assms(4) args_in by (auto simp: apart_def)
  then have safe: "forward_safe (?p + 400) ?A (min (unat (of_int (int ?k) :: u32)) (Suc ?k))"
    unfolding k using assms(2) by (auto intro!: apart_forward_safe intro: apart_mono)
  have m3: "m3 = (\<lambda>a. if within (?p + 400) ?k a then m2 (?A + (a - (?p + 400))) else m2 a)"
    unfolding m3_def strncpy_spec [OF src safe] k by (auto simp: within_def)
  have off: "m3 a = m1 a" if "\<not> within (?p + 400) 1024 a" for a
    using that assms(2) by (auto simp: m3 m2_def fill_def within_def)
  have "apart ?p 400 (?p + 400) 1024" using apart_offsets [of 0 400 400 1024 ?p] by simp
  then have "pcb_fresh l (counter s) (if counter s = 1 then 0 else mem s (curr_esp l AND 0xffffe000)) m3"
    using pcb_block.frame off pcb(1) by blast
  moreover have "cstr (ptr m3 (?p + 400)) args"
  proof (rule cstrI)
    show "?k < 4294967296" "0 \<notin> set args" using assms(1) by (simp_all add: cstr_def)
    show "ptr m3 (?p + 400) (of_nat j) = args ! j" if "j < ?k" for j
      using that assms(2) cstr_nth [OF src that] by (simp add: m3)
    show "ptr m3 (?p + 400) (of_nat ?k) = 0" using assms(2) by (simp add: m3 m2_def fill_def)
  qed
  moreover have "m3 a = mem s a" if "\<not> within ?p 1424 a" for a
    using off [of a] pcb(2) [of a] that args_in [of a] hdr_in [of a] by argo
  moreover have "enter_program l e s = (Entered_user e PROGRAM_ENDING_ADDR,
        s\<lparr>mem := m3, tss_esp0 := BOTTOM_STACK - of_int (counter s - 1) * 0x2000 - 4, intr := False\<rparr>)"
    using assms(3) by (simp add: enter_program_def Let_def cli_def m1_def m2_def m3_def)
  ultimately show ?thesis by blast
qed

end
