(* ===== verification/Execute.thy ===== *)
theory Execute
  imports Processes
begin

text \<open>
  \<open>execute\<close> and \<open>halt\<close> as a whole: a program is found, checked, loaded into a fresh address space and
  entered with its descriptors and arguments; when it halts, the parent goes on where it
  called \<open>execute\<close>, with its own memory.
\<close>

unbundle bit_operations_syntax

section \<open>Blocks of memory\<close>

definition all_apart :: "(u32 \<times> nat) list \<Rightarrow> bool" where
  "all_apart bs \<longleftrightarrow> sorted_wrt (\<lambda>(p, n) (q, k). apart p n q k) bs"

definition off_image :: "(u32 \<times> nat) list \<Rightarrow> 'a files_scheme \<Rightarrow> bool" where
  "off_image bs s \<longleftrightarrow> (\<forall>(p, n) \<in> set bs. \<forall>a. within p n a \<longrightarrow> \<not> in_image s a)"

text \<open>Memory unchanged outside a list of blocks.\<close>

definition only :: "(u32 \<times> nat) list \<Rightarrow> mem \<Rightarrow> mem \<Rightarrow> bool" where
  "only bs m m' \<longleftrightarrow> (\<forall>a. (\<forall>(p, n) \<in> set bs. \<not> within p n a) \<longrightarrow> m' a = m a)"

lemma onlyD: "only bs m m' \<Longrightarrow> (\<And>p n. (p, n) \<in> set bs \<Longrightarrow> \<not> within p n a) \<Longrightarrow> m' a = m a"
  by (auto simp: only_def)

lemma only_trans: "only bs m m' \<Longrightarrow> only cs m' m'' \<Longrightarrow> only (bs @ cs) m m''"
  by (auto simp: only_def)

lemma only_mono: "only bs m m' \<Longrightarrow> set bs \<subseteq> set cs \<Longrightarrow> only cs m m'"
  unfolding only_def by blast

lemma only_keeps:
  assumes "only bs m m'" and "\<And>p n. (p, n) \<in> set bs \<Longrightarrow> apart q k p n" and "within q k a"
  shows "m' a = m a"
  using onlyD [OF assms(1)] assms(2,3) apartD by blast

lemma only_same_fs:
  assumes "only bs (mem s) (mem s')" and "off_image bs s"
    and "my_boot_block s' = my_boot_block s" and "file_addr s' = file_addr s" and "dentries s' = dentries s" and "inodes s' = inodes s"
  shows "same_fs s s'"
  unfolding same_fs_def using assms onlyD [OF assms(1)] by (fastforce simp: off_image_def)

lemma cstr_takeWhile:
  assumes "bytes_at (ptr m q) p = bs" and "m (q + of_nat p) = 0" and "p < 4294967296"
  shows "cstr (ptr m q) (takeWhile (\<lambda>b. b \<noteq> 0) bs)"
proof (rule cstrI)
  let ?xs = "takeWhile (\<lambda>b. b \<noteq> 0) bs"
  have len: "length bs = p" using assms(1) by auto
  have le: "length ?xs \<le> p" using length_takeWhile_le [of _ bs] len by simp
  show "length ?xs < 4294967296" using le assms(3) by simp
  show "0 \<notin> set ?xs" using set_takeWhileD by fastforce
  have at: "m (q + of_nat j) = bs ! j" if "j < p" for j using that assms(1) by auto
  show "ptr m q (of_nat j) = ?xs ! j" if "j < length ?xs" for j
    using that le at [of j] by (simp add: takeWhile_nth)
  show "ptr m q (of_nat (length ?xs)) = 0"
  proof (cases "length ?xs < p")
    case True
    then have "bs ! length ?xs = 0" using nth_length_takeWhile [of "\<lambda>b. b \<noteq> 0" bs] len by simp
    then show ?thesis using at [OF True] by simp
  next
    case False
    then show ?thesis using le assms(2) by simp
  qed
qed

section \<open>The drivers' part of the state\<close>

definition drivers where
  "drivers s = (io s, screen_x s, screen_y s, master_mask s, slave_mask s, rtc_interrupt_occurred s, kb_fields s, count s, index_file s, idt s, idtr s,
     my_boot_block s, file_addr s, dentries s, inodes s)"

lemma drivers_mem [simp]:
  "drivers (s\<lparr>mem := m\<rparr>) = drivers s" "drivers (s\<lparr>intr := b\<rparr>) = drivers s" "drivers (s\<lparr>length_of_file := n\<rparr>) = drivers s"
  "drivers (s\<lparr>frames := f\<rparr>) = drivers s" "drivers (s\<lparr>shown := w\<rparr>) = drivers s" "drivers (s\<lparr>page_dir_address := a\<rparr>) = drivers s"
  "drivers (s\<lparr>cr0 := a\<rparr>) = drivers s" "drivers (s\<lparr>cr3 := a\<rparr>) = drivers s" "drivers (s\<lparr>cr4 := a\<rparr>) = drivers s"
  by (simp_all add: drivers_def kb_fields_def)

lemma drivers_kernel [simp]:
  fixes s :: "'a kernel_scheme"
  shows "drivers (s\<lparr>counter := c\<rparr>) = drivers s" "drivers (s\<lparr>shell_entry_addr := a\<rparr>) = drivers s" "drivers (s\<lparr>arg_size := i\<rparr>) = drivers s"
    "drivers (s\<lparr>page_dir_addr := a\<rparr>) = drivers s" "drivers (s\<lparr>tss_esp0 := a\<rparr>) = drivers s"
  by (simp_all add: drivers_def kb_fields_def)

lemma drivers_paging [simp]:
  "drivers (load_cr3 v s) = drivers s" "drivers (set_control_registers dir s) = drivers s" "drivers (create_paging pt pd p s) = drivers s"
  by (simp_all add: create_paging_def set_control_registers_def load_cr3_def show_window_def save_window_def Let_def split: option.splits)

section \<open>The new address space\<close>

lemma create_paging_fields [simp]:
  "my_boot_block (create_paging pt pd p s) = my_boot_block s" "file_addr (create_paging pt pd p s) = file_addr s"
  "dentries (create_paging pt pd p s) = dentries s" "inodes (create_paging pt pd p s) = inodes s"
  by (simp_all add: create_paging_def set_control_registers_def load_cr3_def show_window_def save_window_def Let_def split: option.splits)

lemma create_paging_kernel [simp]:
  fixes s :: "'a kernel_scheme"
  shows "counter (create_paging pt pd p s) = counter s" "arg_size (create_paging pt pd p s) = arg_size s"
    "shell_entry_addr (create_paging pt pd p s) = shell_entry_addr s"
  by (simp_all add: create_paging_def set_control_registers_def load_cr3_def show_window_def save_window_def Let_def split: option.splits)

lemma dir_in_array: "is_process p \<Longrightarrow> within (dir_of pd p) 4096 a \<Longrightarrow> within pd 24576 a"
proof -
  assume p: "is_process p" and a: "within (dir_of pd p) 4096 a"
  have "dir_of pd p = pd + of_nat (4096 * nat (p - 1))" by (simp add: dir_of_def page_dir_def)
  then show ?thesis using within_sub_block [of pd "4096 * nat (p - 1)" 4096 a 24576] a p by (auto simp: is_process_def)
qed

lemma create_paging_only:
  assumes "tables_ok pt pd" and "is_process p"
  shows "only [(pt, 4096), (pd, 24576), (WINDOW, WINDOW_SIZE)] (mem s) (mem (create_paging pt pd p s))"
  unfolding only_def using create_paging_mem [OF assms] dir_in_array [OF assms(2)] by auto

lemma create_paging_tables:
  assumes "tables_ok pt pd" and "reserved_clear pd (mem s)" and "is_process p"
  shows "directory_ok pt (Some (take_bit 10 (of_int (p + 1)))) (dir_of pd p) (mem (create_paging pt pd p s))"
    and "page_table_ok pt (mem (create_paging pt pd p s))"
proof -
  let ?m = "create_tables pt (dir_of pd p) p (mem s)" and ?m' = "mem (create_paging pt pd p s)"
  have "?m' a = ?m a" if "within (dir_of pd p) 4096 a \<or> within pt 4096 a" for a
    using that separate_within tables_off_window [OF assms(1) dir_index [OF assms(3)]]
    by (auto simp: create_paging_process [OF assms(3)] dir_of_def)
  then show "directory_ok pt (Some (take_bit 10 (of_int (p + 1)))) (dir_of pd p) ?m'" "page_table_ok pt ?m'"
    using create_tables_ok [OF assms(1,2) dir_index [OF assms(3)] dir_of_def, where process = p]
      directory_ok_cong [of "dir_of pd p" ?m' ?m] page_table_ok_cong [of pt ?m' ?m] by blast+
qed

lemma create_paging_control:
  assumes "tables_ok pt pd" and "is_process p"
  shows "cr3 (create_paging pt pd p s) = dir_of pd p" "bit (cr0 (create_paging pt pd p s)) 31" "bit (cr4 (create_paging pt pd p s)) 4"
proof -
  have "take_bit 12 (dir_of pd p) = 0" using assms(1) aligned_directory by (simp add: tables_ok_def dir_of_def)
  then show "cr3 (create_paging pt pd p s) = dir_of pd p" by (simp add: create_paging_process [OF assms(2)] cr3_of_aligned)
  show "bit (cr0 (create_paging pt pd p s)) 31" "bit (cr4 (create_paging pt pd p s)) 4"
    by (simp_all add: create_paging_process [OF assms(2)] set_control_registers_on)
qed

text \<open>A state whose tables are those of process \<open>p\<close> translates as process \<open>p\<close> should.\<close>

lemma translate_process:
  assumes "tables_ok pt pd" and "is_process p" and "directory_ok pt (Some (take_bit 10 (of_int (p + 1)))) (dir_of pd p) (mem s)"
    and "page_table_ok pt (mem s)" and "cr3 s = dir_of pd p" and "bit (cr0 s) 31" and "bit (cr4 s) 4"
  shows "translate s va = space_of (Some (frame_of p)) va"
proof -
  have al: "take_bit 12 (dir_of pd p) = 0" "take_bit 12 pt = 0" using assms(1) aligned_directory by (simp_all add: tables_ok_def dir_of_def)
  have "push_bit 22 (take_bit 10 (of_int (p + 1))) = frame_of p" using frame_field(1) assms(2) by (simp add: is_process_def)
  then show ?thesis using walk_space [OF al assms(3,4), of va] assms(5-7) by (simp add: translate_def)
qed

text \<open>Process \<open>p\<close> runs: its directory is in \<open>cr3\<close> with paging on, and the program window shows its frame.\<close>

definition runs :: "layout \<Rightarrow> int \<Rightarrow> 'a paging_scheme \<Rightarrow> bool" where
  "runs l p s \<longleftrightarrow> directory_ok (page_table_shell l) (Some (take_bit 10 (of_int (p + 1)))) (dir_of (page_directories l) p) (mem s) \<and>
     page_table_ok (page_table_shell l) (mem s) \<and> cr3 s = dir_of (page_directories l) p \<and> bit (cr0 s) 31 \<and> bit (cr4 s) 4 \<and>
     shown s = Some (frame_of p)"

lemma runs_translate:
  "runs l p s \<Longrightarrow> tables_ok (page_table_shell l) (page_directories l) \<Longrightarrow> is_process p \<Longrightarrow> translate s va = space_of (Some (frame_of p)) va"
  using translate_process by (auto simp: runs_def)


section \<open>Launching a program\<close>

definition launch_blocks :: "layout \<Rightarrow> int \<Rightarrow> (u32 \<times> nat) list" where
  "launch_blocks l n = [(command_name_local l, 33), (arg_buf_local l, 1024), (buf_local l, 4), (temp_local l, 4), (dentry_addr l, 64),
     (pcb_of n, 1424), (page_table_shell l, 4096), (page_directories l, 24576), (WINDOW, WINDOW_SIZE)]"

text \<open>The command line at \<open>command\<close> has its first space (or its character 32) at \<open>p\<close>, its name is \<open>xs\<close> and what follows is
  \<open>args\<close>; \<open>xs\<close> is the stored file \<open>i\<close>, which fits into the window; the blocks \<open>execute\<close> writes are apart from each
  other, from the command, from the image and, unless there is none, from the process control block of the parent.\<close>

definition launch_ok :: "layout \<Rightarrow> byte list list \<Rightarrow> u32 \<Rightarrow> nat \<Rightarrow> byte list \<Rightarrow> byte list \<Rightarrow> nat \<Rightarrow> 'a kernel_scheme \<Rightarrow> bool" where
  "launch_ok l names command p xs args i s \<longleftrightarrow>
     tables_ok (page_table_shell l) (page_directories l) \<and> reserved_clear (page_directories l) (mem s) \<and>
     0 \<le> counter s \<and> counter s < 6 \<and> command \<noteq> 0 \<and> first_space (mem s) command p \<and>
     xs = takeWhile (\<lambda>b. b \<noteq> 0) (bytes_at (ptr (mem s) command) p) \<and>
     cstr (ptr (mem s) (command + of_nat (Suc p))) args \<and> length args < 1024 \<and>
     apart command (34 + length args) (command_name_local l) 33 \<and> apart command (34 + length args) (arg_buf_local l) 1024 \<and>
     all_apart (launch_blocks l (counter s + 1)) \<and> off_image (launch_blocks l (counter s + 1)) s \<and>
     command_name_local l \<noteq> 0 \<and> temp_local l \<noteq> 0 \<and> buf_local l \<noteq> 0 \<and>
     (counter s = 0 \<or> (\<forall>(q, n) \<in> set (launch_blocks l (counter s + 1)). \<not> within q n (curr_esp l AND 0xffffe000))) \<and>
     stored (dentry_addr l) names xs i s \<and> 0x48000 + length (contents i s) \<le> WINDOW_SIZE"

lemma off_image_room: "off_image bs s \<Longrightarrow> (q, n) \<in> set bs \<Longrightarrow> k \<le> n \<Longrightarrow> k \<le> 4294967296 \<Longrightarrow> buf_room s q k"
  unfolding buf_room_def
proof (intro allI impI)
  fix j assume off: "off_image bs s" "(q, n) \<in> set bs" and j: "j < k" "k \<le> n" "k \<le> 4294967296"
  then have "within q n (q + of_nat j)" by simp
  then show "\<not> in_image s (q + of_nat j)" using off by (auto simp: off_image_def)
qed

lemma off_image_sub: "off_image bs s \<Longrightarrow> set cs \<subseteq> set bs \<Longrightarrow> off_image cs s"
  by (auto simp: off_image_def)

text \<open>Up to the check of the magic number.\<close>

lemma execute_front:
  assumes "launch_ok l names command p xs args i s"
  shows "\<exists>m. execute l command s =
      (if elf_magic (contents i s) then start_program l (command_name_local l) (s\<lparr>mem := m, arg_size := int (length args), length_of_file := 4\<rparr>)
       else Some (Returned (-1), s\<lparr>mem := m, arg_size := int (length args), length_of_file := 4\<rparr>)) \<and>
    only [(command_name_local l, 33), (arg_buf_local l, 1024), (temp_local l, 4), (dentry_addr l, 64)] (mem s) m \<and>
    program (dentry_addr l) names (command_name_local l) xs i (s\<lparr>mem := m, arg_size := int (length args), length_of_file := 4\<rparr>) \<and>
    contents i (s\<lparr>mem := m, arg_size := int (length args), length_of_file := 4\<rparr>) = contents i s \<and>
    cstr (ptr m (arg_buf_local l)) args"
proof -
  let ?N = "command_name_local l" and ?A = "arg_buf_local l" and ?T = "temp_local l" and ?D = "dentry_addr l"
  note ok = assms [unfolded launch_ok_def]
  have ap: "apart ?N 33 ?A 1024" "apart ?N 33 ?T 4" "apart ?N 33 ?D 64" "apart ?A 1024 ?T 4" "apart ?A 1024 ?D 64"
    using ok by (auto simp: all_apart_def launch_blocks_def)
  have p32: "p \<le> 32" using ok by (simp add: first_space_def)
  have st: "stored ?D names xs i s" and nz: "?N \<noteq> 0" "?T \<noteq> 0" using ok by blast+
  obtain m1 where m1: "parse_command l command s = Some (s\<lparr>mem := m1, arg_size := int (length args)\<rparr>)"
    "bytes_at (ptr m1 ?N) p = bytes_at (ptr (mem s) command) p" "m1 (?N + of_nat p) = 0" "cstr (ptr m1 ?A) args"
    "\<And>a. \<not> within ?N 33 a \<Longrightarrow> \<not> within ?A 1024 a \<Longrightarrow> m1 a = mem s a"
    using parse_command_ok [of s command p args l] ok ap(1) by auto
  let ?s1 = "s\<lparr>mem := m1, arg_size := int (length args)\<rparr>"
  have o1: "only [(?N, 33), (?A, 1024)] (mem s) m1" using m1(5) by (auto simp: only_def)
  have name1: "cstr (ptr m1 ?N) xs" using cstr_takeWhile [OF m1(2,3)] p32 ok by simp
  have off: "off_image bs s" if "set bs \<subseteq> set (launch_blocks l (counter s + 1))" for bs using off_image_sub [OF _ that] ok by blast
  have fs1: "same_fs s ?s1"
    by (rule only_same_fs [OF _ off, of "[(?N, 33), (?A, 1024)]"]) (use o1 in \<open>simp_all add: launch_blocks_def\<close>)
  have prog1: "program ?D names ?N xs i ?s1" "contents i ?s1 = contents i s"
    using stored_keep [OF st fs1] nz name1 by (simp_all add: program_def)
  have room: "buf_room ?s1 ?T 4"
    using off_image_room [of "launch_blocks l (counter s + 1)" s ?T 4 4] ok same_fs_transfer(6) [OF fs1] st
    by (simp add: launch_blocks_def stored_def)
  obtain m2 where m2: "check_executable l ?N ?s1 = Some (if elf_magic (contents i s) then 0 else -1, ?s1\<lparr>mem := m2, length_of_file := 4\<rparr>)"
    "\<And>a. \<not> within ?D 64 a \<Longrightarrow> \<not> within ?T 4 a \<Longrightarrow> m2 a = m1 a"
    using check_executable_program [OF prog1(1) room nz(2)] prog1(2) by auto
  let ?s2 = "s\<lparr>mem := m2, arg_size := int (length args), length_of_file := 4\<rparr>"
  have eq: "?s1\<lparr>mem := m2, length_of_file := 4\<rparr> = ?s2" by simp
  have o12: "only [(?T, 4), (?D, 64)] m1 m2" using m2(2) by (auto simp: only_def)
  have o2: "only [(?N, 33), (?A, 1024), (?T, 4), (?D, 64)] (mem s) m2" using only_trans [OF o1 o12] by simp
  have fs2: "same_fs s ?s2"
    by (rule only_same_fs [OF _ off, of "[(?N, 33), (?A, 1024), (?T, 4), (?D, 64)]"]) (use o2 in \<open>simp_all add: launch_blocks_def\<close>)
  have len: "length xs \<le> 32" using st by (simp add: stored_def)
  have name2: "cstr (ptr m2 ?N) xs"
    using name1 string_at.local [of ?N xs m2 m1] only_keeps [OF o12, of ?N 33] ap(2,3) len within_sub_block [of ?N 0 "Suc (length xs)" _ 33] by auto
  have args2: "cstr (ptr m2 ?A) args"
    using m1(4) string_at.local [of ?A args m2 m1] only_keeps [OF o12, of ?A 1024] ap(4,5) ok within_sub_block [of ?A 0 "Suc (length args)" _ 1024] by auto
  have "program ?D names ?N xs i ?s2" "contents i ?s2 = contents i s"
    using stored_keep [OF st fs2] nz name2 by (simp_all add: program_def)
  moreover have "\<not> counter s \<ge> 6" "command \<noteq> 0" using ok by simp_all
  ultimately show ?thesis
    using m1(1) m2(1) [unfolded eq] o2 args2 by (intro exI [of _ m2]) (simp add: execute_def)
qed


text \<open>The state \<open>execute\<close> has reached when it reads the entry address.\<close>

definition checked :: "layout \<Rightarrow> byte list list \<Rightarrow> byte list \<Rightarrow> byte list \<Rightarrow> nat \<Rightarrow> 'a kernel_scheme \<Rightarrow> bool" where
  "checked l names xs args i s \<longleftrightarrow>
     tables_ok (page_table_shell l) (page_directories l) \<and> reserved_clear (page_directories l) (mem s) \<and>
     0 \<le> counter s \<and> counter s < 6 \<and> all_apart (launch_blocks l (counter s + 1)) \<and> off_image (launch_blocks l (counter s + 1)) s \<and>
     buf_local l \<noteq> 0 \<and>
     (counter s = 0 \<or> (\<forall>(q, n) \<in> set (launch_blocks l (counter s + 1)). \<not> within q n (curr_esp l AND 0xffffe000))) \<and>
     program (dentry_addr l) names (command_name_local l) xs i s \<and> 0x48000 + length (contents i s) \<le> WINDOW_SIZE \<and>
     cstr (ptr (mem s) (arg_buf_local l)) args \<and> length args < 1024 \<and> arg_size s = int (length args)"

definition entry_address :: "byte list \<Rightarrow> u32" where
  "entry_address xs = join32 (xs ! 24) (xs ! 25) (xs ! 26) (xs ! 27)"

lemma image_in_window: "0x48000 + n \<le> WINDOW_SIZE \<Longrightarrow> within PROGRAM_STARTING_ADDR n a \<Longrightarrow> within WINDOW WINDOW_SIZE a"
  using within_sub_block [of WINDOW 294912 n a WINDOW_SIZE] by simp

text \<open>Reading the entry address and switching to the address space of the new process.\<close>

lemma start_program_paging:
  assumes "checked l names xs args i s"
  defines "n \<equiv> counter s + 1"
  shows "\<exists>t s4. start_program l (command_name_local l) s =
      (do { (a, u) \<leftarrow> file_load (dentry_addr l) (command_name_local l) PROGRAM_STARTING_ADDR s4;
            if a = -1 then Some (Returned (-1), u) else Some (enter_program l (entry_address (contents i s)) u) }) \<and>
    s4 = create_paging (page_table_shell l) (page_directories l) n t \<and> counter t = n \<and> arg_size t = int (length args) \<and>
    (n = 1 \<longrightarrow> shell_entry_addr t = entry_address (contents i s)) \<and>
    shown t = shown s \<and> frames t = frames s \<and> same_fs s t \<and> drivers t = drivers s \<and>
    only [(buf_local l, 4), (dentry_addr l, 64)] (mem s) (mem t)"
proof -
  let ?N = "command_name_local l" and ?B = "buf_local l" and ?D = "dentry_addr l"
  note ok = assms(1) [unfolded checked_def, folded n_def]
  have prog: "program ?D names ?N xs i s" and nz: "?B \<noteq> 0" using ok by blast+
  have mt: "mounted s" using prog by (simp add: program_def stored_def)
  have off: "off_image bs s" if "set bs \<subseteq> set (launch_blocks l n)" for bs using off_image_sub [OF _ that] ok by blast
  have room: "buf_room s ?B 4" using off_image_room [OF off, of "launch_blocks l n" ?B 4 4] by (simp add: launch_blocks_def)
  have len: "24 + 4 \<le> length (contents i s)" using prog by (simp add: program_def stored_def contents_def)
  obtain m where m: "file_read ?D ?B 24 4 ?N s = Some (4, s\<lparr>mem := m, length_of_file := 4\<rparr>)"
    "\<forall>j < 4. m (?B + of_nat j) = contents i s ! (24 + j)" "\<forall>a. \<not> within ?D 64 a \<longrightarrow> \<not> within ?B 4 a \<longrightarrow> m a = mem s a"
    using program_read [OF prog len room nz] by auto
  have e: "join32 (m ?B) (m (?B + 1)) (m (?B + 2)) (m (?B + 3)) = entry_address (contents i s)"
    using m(2) [rule_format, of 0] m(2) [rule_format, of 1] m(2) [rule_format, of 2] m(2) [rule_format, of 3] by (simp add: entry_address_def)
  define t where "t = (if n = 1 then s\<lparr>mem := m, length_of_file := 4, counter := n, shell_entry_addr := entry_address (contents i s)\<rparr>
    else s\<lparr>mem := m, length_of_file := 4, counter := n\<rparr>)"
  have f: "mem t = m" "counter t = n" "arg_size t = arg_size s" "shown t = shown s" "frames t = frames s"
    "my_boot_block t = my_boot_block s" "file_addr t = file_addr s" "dentries t = dentries s" "inodes t = inodes s"
    "n = 1 \<longrightarrow> shell_entry_addr t = entry_address (contents i s)" "drivers t = drivers s"
    by (simp_all add: t_def)
  have o: "only [(?B, 4), (?D, 64)] (mem s) (mem t)" using m(3) f(1) by (auto simp: only_def)
  have "same_fs s t" by (rule only_same_fs [OF o off]) (use f in \<open>simp_all add: launch_blocks_def\<close>)
  moreover have "start_program l ?N s =
      (do { (a, u) \<leftarrow> file_load ?D ?N PROGRAM_STARTING_ADDR (create_paging (page_table_shell l) (page_directories l) n t);
            if a = -1 then Some (Returned (-1), u) else Some (enter_program l (entry_address (contents i s)) u) })"
    using m(1) by (simp add: start_program_def t_def n_def Let_def e cong: if_cong)
  ultimately show ?thesis using f o ok by auto
qed


lemma reserved_clear_only:
  assumes "only bs m m'" and "\<And>q k. (q, k) \<in> set bs \<Longrightarrow> apart pd 24576 q k"
  shows "reserved_clear pd m' = reserved_clear pd m"
proof (rule reserved_clear_cong)
  fix d a assume "d < 6" and "within (page_dir pd d) 4096 a"
  then have "within pd 24576 a" using within_sub_block [of pd "4096 * d" 4096 a 24576] by (simp add: page_dir_def)
  then show "m' a = m a" using only_keeps [OF assms] by blast
qed

lemma directory_only:
  assumes "only bs m m'" and "\<And>q k. (q, k) \<in> set bs \<Longrightarrow> apart pd 24576 q k" and "is_process p"
  shows "directory_ok pt frame (dir_of pd p) m' = directory_ok pt frame (dir_of pd p) m"
  by (rule directory_ok_cong) (use only_keeps [OF assms(1,2)] dir_in_array [OF assms(3)] in blast)

lemma string_only:
  assumes "only bs m m'" and "\<And>q k. (q, k) \<in> set bs \<Longrightarrow> apart p n q k" and "length xs < n" and "n \<le> 4294967296"
  shows "cstr (ptr m' p) xs = cstr (ptr m p) xs"
  by (rule string_at.local) (use only_keeps [OF assms(1,2)] within_sub_block [of p 0 "Suc (length xs)" _ n] assms(3,4) in auto)

text \<open>Loading the program and entering it.\<close>

lemma start_program_ok:
  assumes "checked l names xs args i s"
  defines "n \<equiv> counter s + 1"
  shows "\<exists>s'. start_program l (command_name_local l) s = Some (Entered_user (entry_address (contents i s)) PROGRAM_ENDING_ADDR, s') \<and>
    counter s' = n \<and> \<not> intr s' \<and> drivers s' = drivers s \<and> tss_esp0 s' = BOTTOM_STACK - of_int (n - 1) * 0x2000 - 4 \<and>
    (n = 1 \<longrightarrow> shell_entry_addr s' = entry_address (contents i s)) \<and>
    runs l n s' \<and> reserved_clear (page_directories l) (mem s') \<and>
    (\<forall>q frame. is_process q \<and> q \<noteq> n \<and> directory_ok (page_table_shell l) frame (dir_of (page_directories l) q) (mem s) \<longrightarrow>
      directory_ok (page_table_shell l) frame (dir_of (page_directories l) q) (mem s')) \<and>
    bytes_at (ptr (mem s') PROGRAM_STARTING_ADDR) (length (contents i s)) = contents i s \<and>
    pcb_fresh l n (if n = 1 then 0 else mem s (curr_esp l AND 0xffffe000)) (mem s') \<and> cstr (ptr (mem s') (pcb_of n + 400)) args \<and>
    (\<forall>f off. shown s = Some f \<and> unat off < WINDOW_SIZE \<longrightarrow> frames s' (f + off) = mem s (WINDOW + off)) \<and>
    only [(buf_local l, 4), (dentry_addr l, 64), (page_table_shell l, 4096), (page_directories l, 24576), (WINDOW, WINDOW_SIZE), (pcb_of n, 1424)]
      (mem s) (mem s')"
proof -
  let ?N = "command_name_local l" and ?A = "arg_buf_local l" and ?B = "buf_local l" and ?D = "dentry_addr l" and ?P = "pcb_of n"
    and ?pt = "page_table_shell l" and ?pd = "page_directories l" and ?c = "contents i s"
  note ok = assms(1) [unfolded checked_def, folded n_def]
  have tabs: "tables_ok ?pt ?pd" and res: "reserved_clear ?pd (mem s)" and prog: "program ?D names ?N xs i s"
    and fits: "0x48000 + length ?c \<le> WINDOW_SIZE" using ok by blast+
  have np: "is_process n" using ok by (simp add: is_process_def n_def)
  have ap: "apart ?N 33 ?B 4" "apart ?N 33 ?D 64" "apart ?N 33 ?pt 4096" "apart ?N 33 ?pd 24576" "apart ?N 33 WINDOW WINDOW_SIZE"
    "apart ?A 1024 ?B 4" "apart ?A 1024 ?D 64" "apart ?A 1024 ?pt 4096" "apart ?A 1024 ?pd 24576" "apart ?A 1024 WINDOW WINDOW_SIZE"
    "apart ?A 1024 ?P 1424" "apart ?pd 24576 ?B 4" "apart ?pd 24576 ?D 64" "apart ?pd 24576 WINDOW WINDOW_SIZE" "apart ?pd 24576 ?P 1424"
    "apart ?pt 4096 ?D 64" "apart ?pt 4096 WINDOW WINDOW_SIZE" "apart ?pt 4096 ?P 1424"
    "apart WINDOW WINDOW_SIZE ?P 1424" "apart WINDOW WINDOW_SIZE ?B 4" "apart WINDOW WINDOW_SIZE ?D 64"
    using ok apart_sym by (auto simp: all_apart_def launch_blocks_def)
  have off: "off_image bs s" if "set bs \<subseteq> set (launch_blocks l n)" for bs using off_image_sub [OF _ that] ok by blast
  obtain t s4 where t: "start_program l ?N s =
      (do { (a, u) \<leftarrow> file_load ?D ?N PROGRAM_STARTING_ADDR s4;
            if a = -1 then Some (Returned (-1), u) else Some (enter_program l (entry_address ?c) u) })"
    "s4 = create_paging ?pt ?pd n t" "counter t = n" "arg_size t = int (length args)"
    "n = 1 \<longrightarrow> shell_entry_addr t = entry_address ?c" "shown t = shown s" "frames t = frames s" "same_fs s t"
    "only [(?B, 4), (?D, 64)] (mem s) (mem t)" "drivers t = drivers s"
    using start_program_paging [OF assms(1)] unfolding n_def by blast
  have o4: "only [(?pt, 4096), (?pd, 24576), (WINDOW, WINDOW_SIZE)] (mem t) (mem s4)" unfolding t(2) by (rule create_paging_only [OF tabs np])
  have rest: "reserved_clear ?pd (mem t)" using reserved_clear_only [OF t(9)] ap res by auto
  let ?b4 = "[(?B, 4), (?D, 64), (?pt, 4096), (?pd, 24576), (WINDOW, WINDOW_SIZE)]"
  have os4: "only ?b4 (mem s) (mem s4)" using only_trans [OF t(9) o4] by simp
  have fs4: "same_fs s s4"
    by (rule only_same_fs [OF os4 off]) (use t(8) in \<open>simp_all add: launch_blocks_def t(2) same_fs_def\<close>)
  have len: "length xs \<le> 32" and mt: "mounted s" and nz: "?N \<noteq> 0" and st: "stored ?D names xs i s" and nm: "cstr (ptr (mem s) ?N) xs"
    using prog by (simp_all add: program_def stored_def)
  have name4: "cstr (ptr (mem s4) ?N) xs" using string_only [OF os4, of ?N 33 xs] nm len ap by auto
  have prog4: "program ?D names ?N xs i s4" and c4: "contents i s4 = ?c"
    using stored_keep [OF st fs4] nz name4 by (simp_all add: program_def)
  have room: "buf_room s4 PROGRAM_STARTING_ADDR (length (contents i s4))"
    unfolding buf_room_def same_fs_transfer(2) [OF fs4 mt] c4
  proof (intro allI impI)
    fix j assume "j < length ?c"
    then have "within PROGRAM_STARTING_ADDR (length ?c) (PROGRAM_STARTING_ADDR + of_nat j)" using fits by simp
    then have "within WINDOW WINDOW_SIZE (PROGRAM_STARTING_ADDR + of_nat j)" by (rule image_in_window [OF fits])
    then show "\<not> in_image s (PROGRAM_STARTING_ADDR + of_nat j)" using off [of "[(WINDOW, WINDOW_SIZE)]"] by (simp add: off_image_def launch_blocks_def)
  qed
  obtain m5 L where m5: "file_load ?D ?N PROGRAM_STARTING_ADDR s4 = Some (int (length ?c), s4\<lparr>mem := m5, length_of_file := L\<rparr>)"
    "bytes_at (ptr m5 PROGRAM_STARTING_ADDR) (length ?c) = ?c"
    "\<And>a. \<not> within ?D 64 a \<Longrightarrow> \<not> within PROGRAM_STARTING_ADDR (length ?c) a \<Longrightarrow> m5 a = mem s4 a"
    using program_load [OF prog4 room] unfolding c4 by blast
  let ?s5 = "s4\<lparr>mem := m5, length_of_file := L\<rparr>"
  have o5: "only [(?D, 64), (WINDOW, WINDOW_SIZE)] (mem s4) m5"
    using m5(3) image_in_window [OF fits] by (auto simp: only_def)
  have os5: "only ?b4 (mem s) m5" using only_mono [OF only_trans [OF os4 o5], of ?b4] by auto
  have args5: "cstr (ptr m5 ?A) args" using string_only [OF os5, of ?A 1024 args] ok ap by auto
  have esp: "(if n = 1 then 0 else m5 (curr_esp l AND 0xffffe000)) = (if n = 1 then 0 else mem s (curr_esp l AND 0xffffe000))"
    "n = 1 \<or> curr_esp l AND 0xffffe000 \<noteq> ?P"
    using onlyD [OF os5, of "curr_esp l AND 0xffffe000"] ok by (auto simp: launch_blocks_def within_def n_def)
  have c5: "counter ?s5 = n" "arg_size ?s5 = int (length args)" using t(2-4) by simp_all
  obtain m6 where m6: "enter_program l (entry_address ?c) ?s5 = (Entered_user (entry_address ?c) PROGRAM_ENDING_ADDR,
        ?s5\<lparr>mem := m6, tss_esp0 := BOTTOM_STACK - of_int (n - 1) * 0x2000 - 4, intr := False\<rparr>)"
    "pcb_fresh l n (if n = 1 then 0 else mem s (curr_esp l AND 0xffffe000)) m6" "cstr (ptr m6 (?P + 400)) args"
    "\<forall>a. \<not> within ?P 1424 a \<longrightarrow> m6 a = m5 a"
  proof -
    have mem5: "mem ?s5 = m5" by simp
    have size: "length args < 1024" using ok by blast
    show thesis using enter_program_ok [of ?s5 l args "entry_address ?c", unfolded c5 mem5 esp(1), OF args5 size refl ap(11) esp(2)] that by blast
  qed
  let ?s' = "?s5\<lparr>mem := m6, tss_esp0 := BOTTOM_STACK - of_int (n - 1) * 0x2000 - 4, intr := False\<rparr>"
  have o6: "only [(?P, 1424)] m5 m6" using m6(4) by (auto simp: only_def)
  have o46: "only [(?D, 64), (WINDOW, WINDOW_SIZE), (?P, 1424)] (mem s4) (mem ?s')" using only_trans [OF o5 o6] by simp
  have run: "start_program l ?N s = Some (Entered_user (entry_address ?c) PROGRAM_ENDING_ADDR, ?s')"
    using t(1) m5(1) m6(1) by simp
  note tb = create_paging_tables [OF tabs rest np, folded t(2)] and cr = create_paging_control [OF tabs np, where s = t, folded t(2)]
  have sh: "shown ?s' = Some (frame_of n)" using create_paging_shows(1) [OF tabs rest np] t(2) by simp
  have "page_table_ok ?pt (mem ?s')" using tb(2) page_table_ok_cong [of ?pt "mem ?s'" "mem s4"] only_keeps [OF o46, of ?pt 4096] ap by auto
  moreover have "directory_ok ?pt (Some (take_bit 10 (of_int (n + 1)))) (dir_of ?pd n) (mem ?s')" using tb(1) directory_only [OF o46 _ np] ap by auto
  ultimately have tr: "runs l n ?s'" using cr sh by (simp add: runs_def)
  have od: "directory_ok ?pt frame (dir_of ?pd q) (mem ?s')" if "is_process q \<and> q \<noteq> n \<and> directory_ok ?pt frame (dir_of ?pd q) (mem s)" for q frame
  proof -
    have "directory_ok ?pt frame (dir_of ?pd q) (mem ?s') = directory_ok ?pt frame (dir_of ?pd q) (mem s4)"
      by (rule directory_only [OF o46]) (use ap that in auto)
    also have "\<dots> = directory_ok ?pt frame (dir_of ?pd q) (mem t)" unfolding t(2) by (rule other_directory_kept [OF tabs np]) (use that in auto)
    also have "\<dots> = directory_ok ?pt frame (dir_of ?pd q) (mem s)" by (rule directory_only [OF t(9)]) (use ap that in auto)
    finally show ?thesis using that by blast
  qed
  have rc: "reserved_clear ?pd (mem ?s')"
    using reserved_clear_only [OF o46] reserved_clear_after [OF tabs rest np, folded t(2)] ap by auto
  have img: "bytes_at (ptr m6 PROGRAM_STARTING_ADDR) (length ?c) = ?c"
  proof -
    have "m6 (PROGRAM_STARTING_ADDR + of_nat j) = m5 (PROGRAM_STARTING_ADDR + of_nat j)" if "j < length ?c" for j
      using only_keeps [OF o6, of WINDOW WINDOW_SIZE] ap(19) image_in_window [OF fits, of "PROGRAM_STARTING_ADDR + of_nat j"] that fits by auto
    then show ?thesis using m5(2) bytes_at_cong [of "length ?c" "ptr m6 PROGRAM_STARTING_ADDR" "ptr m5 PROGRAM_STARTING_ADDR"] by simp
  qed
  have fr: "frames ?s' (f + off) = mem s (WINDOW + off)" if "shown s = Some f" "unat off < WINDOW_SIZE" for f off
  proof -
    have "within WINDOW WINDOW_SIZE (WINDOW + off)" using that(2) by (simp add: within_def)
    then have "mem t (WINDOW + off) = mem s (WINDOW + off)" using only_keeps [OF t(9), of WINDOW WINDOW_SIZE] ap by auto
    then show ?thesis using create_paging_saves [OF tabs np _ that(2), of t f] t(2,6) that(1) by simp
  qed
  have oend: "only [(?B, 4), (?D, 64), (?pt, 4096), (?pd, 24576), (WINDOW, WINDOW_SIZE), (?P, 1424)] (mem s) (mem ?s')"
    using only_trans [OF os5 o6] by simp
  have se: "n = 1 \<longrightarrow> shell_entry_addr ?s' = entry_address ?c" "counter ?s' = n" "drivers ?s' = drivers s" using t(2,3,5,10) by simp_all
  show ?thesis
    by (intro exI [of _ ?s'] conjI allI impI) (use run se tr rc od img m6(2,3) fr oend in simp_all)
qed



lemma checked_after_front:
  assumes "launch_ok l names command p xs args i s"
    and "only [(command_name_local l, 33), (arg_buf_local l, 1024), (temp_local l, 4), (dentry_addr l, 64)] (mem s) m"
    and "program (dentry_addr l) names (command_name_local l) xs i (s\<lparr>mem := m, arg_size := int (length args), length_of_file := 4\<rparr>)"
    and "contents i (s\<lparr>mem := m, arg_size := int (length args), length_of_file := 4\<rparr>) = contents i s"
    and "cstr (ptr m (arg_buf_local l)) args"
  shows "checked l names xs args i (s\<lparr>mem := m, arg_size := int (length args), length_of_file := 4\<rparr>)"
proof -
  let ?s = "s\<lparr>mem := m, arg_size := int (length args), length_of_file := 4\<rparr>"
  note ok = assms(1) [unfolded launch_ok_def]
  have fs: "same_fs s ?s"
    by (rule only_same_fs [OF _ off_image_sub, of "[(command_name_local l, 33), (arg_buf_local l, 1024), (temp_local l, 4), (dentry_addr l, 64)]"
      _ _ "launch_blocks l (counter s + 1)"]) (use ok assms(2) in \<open>simp_all add: launch_blocks_def\<close>)
  have mt: "mounted s" using ok by (simp add: stored_def)
  have "off_image (launch_blocks l (counter s + 1)) ?s"
    using ok same_fs_transfer(2) [OF fs mt] by (simp add: off_image_def)
  moreover have "reserved_clear (page_directories l) m"
    using reserved_clear_only [OF assms(2), of "page_directories l"] ok apart_sym by (auto simp: all_apart_def launch_blocks_def)
  ultimately show ?thesis using ok assms(3-5) unfolding checked_def by simp
qed

text \<open>\<open>execute\<close> as a whole.\<close>

lemma execute_ok:
  assumes "launch_ok l names command p xs args i s" and "elf_magic (contents i s)"
  defines "n \<equiv> counter s + 1"
  shows "\<exists>s'. execute l command s = Some (Entered_user (entry_address (contents i s)) PROGRAM_ENDING_ADDR, s') \<and>
    counter s' = n \<and> \<not> intr s' \<and> drivers s' = drivers s \<and> tss_esp0 s' = BOTTOM_STACK - of_int (n - 1) * 0x2000 - 4 \<and>
    (n = 1 \<longrightarrow> shell_entry_addr s' = entry_address (contents i s)) \<and>
    runs l n s' \<and> reserved_clear (page_directories l) (mem s') \<and>
    (\<forall>q frame. is_process q \<and> q \<noteq> n \<and> directory_ok (page_table_shell l) frame (dir_of (page_directories l) q) (mem s) \<longrightarrow>
      directory_ok (page_table_shell l) frame (dir_of (page_directories l) q) (mem s')) \<and>
    bytes_at (ptr (mem s') PROGRAM_STARTING_ADDR) (length (contents i s)) = contents i s \<and>
    pcb_fresh l n (if n = 1 then 0 else mem s (curr_esp l AND 0xffffe000)) (mem s') \<and> cstr (ptr (mem s') (pcb_of n + 400)) args \<and>
    (\<forall>f off. shown s = Some f \<and> unat off < WINDOW_SIZE \<longrightarrow> frames s' (f + off) = mem s (WINDOW + off)) \<and>
    only (launch_blocks l n) (mem s) (mem s')"
proof -
  let ?F = "[(command_name_local l, 33), (arg_buf_local l, 1024), (temp_local l, 4), (dentry_addr l, 64)]"
  note ok = assms(1) [unfolded launch_ok_def, folded n_def]
  obtain m where m: "execute l command s = start_program l (command_name_local l) (s\<lparr>mem := m, arg_size := int (length args), length_of_file := 4\<rparr>)"
    "only ?F (mem s) m" "contents i (s\<lparr>mem := m, arg_size := int (length args), length_of_file := 4\<rparr>) = contents i s"
    "checked l names xs args i (s\<lparr>mem := m, arg_size := int (length args), length_of_file := 4\<rparr>)"
    using execute_front [OF assms(1)] checked_after_front [OF assms(1)] assms(2) by auto
  have esp: "(if n = 1 then 0 else m (curr_esp l AND 0xffffe000)) = (if n = 1 then 0 else mem s (curr_esp l AND 0xffffe000))"
    using onlyD [OF m(2), of "curr_esp l AND 0xffffe000"] ok by (auto simp: launch_blocks_def n_def)
  have win: "m (WINDOW + off) = mem s (WINDOW + off)" if "unat off < WINDOW_SIZE" for off
  proof (rule only_keeps [OF m(2)])
    show "within WINDOW WINDOW_SIZE (WINDOW + off)" using that by (simp add: within_def)
    show "apart WINDOW WINDOW_SIZE q k" if "(q, k) \<in> set ?F" for q k using that ok apart_sym by (auto simp: all_apart_def launch_blocks_def)
  qed
  have dirs: "directory_ok (page_table_shell l) frame (dir_of (page_directories l) q) m =
      directory_ok (page_table_shell l) frame (dir_of (page_directories l) q) (mem s)" if "is_process q" for q frame
    by (rule directory_only [OF m(2) _ that]) (use ok apart_sym in \<open>auto simp: all_apart_def launch_blocks_def\<close>)
  obtain s' where s': "start_program l (command_name_local l) (s\<lparr>mem := m, arg_size := int (length args), length_of_file := 4\<rparr>) =
      Some (Entered_user (entry_address (contents i s)) PROGRAM_ENDING_ADDR, s')"
    "counter s' = n" "\<not> intr s'" "drivers s' = drivers s" "tss_esp0 s' = BOTTOM_STACK - of_int (n - 1) * 0x2000 - 4"
    "n = 1 \<longrightarrow> shell_entry_addr s' = entry_address (contents i s)"
    "runs l n s'" "reserved_clear (page_directories l) (mem s')"
    "\<forall>q frame. is_process q \<and> q \<noteq> n \<and> directory_ok (page_table_shell l) frame (dir_of (page_directories l) q) m \<longrightarrow>
      directory_ok (page_table_shell l) frame (dir_of (page_directories l) q) (mem s')"
    "bytes_at (ptr (mem s') PROGRAM_STARTING_ADDR) (length (contents i s)) = contents i s"
    "pcb_fresh l n (if n = 1 then 0 else m (curr_esp l AND 0xffffe000)) (mem s')" "cstr (ptr (mem s') (pcb_of n + 400)) args"
    "\<forall>f off. shown s = Some f \<and> unat off < WINDOW_SIZE \<longrightarrow> frames s' (f + off) = m (WINDOW + off)"
    "only [(buf_local l, 4), (dentry_addr l, 64), (page_table_shell l, 4096), (page_directories l, 24576), (WINDOW, WINDOW_SIZE), (pcb_of n, 1424)] m (mem s')"
    using start_program_ok [OF m(4)] m(3) unfolding n_def by (auto cong: if_cong)
  have "only (launch_blocks l n) (mem s) (mem s')"
    by (rule only_mono [OF only_trans [OF m(2) s'(14)]]) (simp add: launch_blocks_def)
  then show ?thesis using m(1) s' [unfolded esp] win dirs by (intro exI [of _ s']) (simp split del: if_split)
qed



section \<open>Halting a program\<close>

lemma load_cr3_runs:
  assumes "tables_ok (page_table_shell l) (page_directories l)" and "is_process p"
    and "directory_ok (page_table_shell l) (Some (take_bit 10 (of_int (p + 1)))) (dir_of (page_directories l) p) (mem s)"
    and "page_table_ok (page_table_shell l) (mem s)" and "bit (cr0 s) 31" and "bit (cr4 s) 4"
  shows "runs l p (load_cr3 (dir_of (page_directories l) p) s)"
    and "unat off < WINDOW_SIZE \<Longrightarrow> mem (load_cr3 (dir_of (page_directories l) p) s) (WINDOW + off) = frames (save_window s) (frame_of p + off)"
proof -
  let ?pt = "page_table_shell l" and ?pd = "page_directories l" and ?dir = "dir_of (page_directories l) p"
  let ?m = "mem (load_cr3 ?dir s)"
  have al: "take_bit 12 ?dir = 0" "take_bit 12 ?pt = 0" using assms(1) aligned_directory by (simp_all add: tables_ok_def dir_of_def)
  have "push_bit 22 (take_bit 10 (of_int (p + 1))) = frame_of p" using frame_field(1) assms(2) by (simp add: is_process_def)
  then have "walk True (mem s) ?dir WINDOW = Some (frame_of p, True, True)"
    using walk_space [OF al assms(3,4)] by (simp add: space_of_def)
  note w = load_cr3_window [OF this]
  have same: "?m a = mem s a" if "within ?dir 4096 a \<or> within ?pt 4096 a" for a
    using that separate_within tables_off_window [OF assms(1) dir_index [OF assms(2)]] unfolding dir_of_def by auto
  have "directory_ok ?pt (Some (take_bit 10 (of_int (p + 1)))) ?dir ?m" "page_table_ok ?pt ?m"
    using directory_ok_cong [of ?dir ?m "mem s"] page_table_ok_cong [of ?pt ?m "mem s"] same assms(3,4) by blast+
  then show "runs l p (load_cr3 ?dir s)" using w(1) assms(5,6) by (simp add: runs_def)
  show "?m (WINDOW + off) = frames (save_window s) (frame_of p + off)" if "unat off < WINDOW_SIZE" using w(2) [OF that] .
qed

lemma load_cr3_kernel [simp]:
  fixes s :: "'a kernel_scheme"
  shows "counter (load_cr3 v s) = counter s" "tss_esp0 (load_cr3 v s) = tss_esp0 s" "page_dir_addr (load_cr3 v s) = page_dir_addr s"
  by (simp_all add: load_cr3_def show_window_def save_window_def split: option.splits)

lemma load_cr3_only: "only [(WINDOW, WINDOW_SIZE)] (mem s) (mem (load_cr3 v s))"
  by (simp add: only_def)

text \<open>\<open>halt\<close> of a process other than the shell: back to process \<open>p\<close>.\<close>

lemma halt_ok:
  fixes s :: "'a kernel_scheme"
  defines "P \<equiv> pcb_of (counter s)"
  assumes "tables_ok (page_table_shell l) (page_directories l)" and "is_process p"
    and "directory_ok (page_table_shell l) (Some (take_bit 10 (of_int (p + 1)))) (dir_of (page_directories l) p) (mem s)"
    and "page_table_ok (page_table_shell l) (mem s)" and "bit (cr0 s) 31" and "bit (cr4 s) 4"
    and "mem s P \<noteq> 1" and "mem s (P + 1) = of_int p" and "apart P 16 WINDOW WINDOW_SIZE"
  shows "\<exists>s'. halt l status s = (Resumed (load32 (mem s) (P + 4)) (load32 (mem s) (P + 8)) status, s') \<and>
    counter s' = counter s - 1 \<and> tss_esp0 s' = BOTTOM_STACK - of_int (counter s - 2) * 0x2000 - 4 \<and> runs l p s' \<and>
    (\<forall>off. unat off < WINDOW_SIZE \<longrightarrow> mem s' (WINDOW + off) = frames (save_window s) (frame_of p + off)) \<and>
    only [(WINDOW, WINDOW_SIZE)] (mem s) (mem s') \<and> drivers s' = drivers s"
proof -
  let ?pd = "page_directories l"
  let ?t = "s\<lparr>counter := counter s - 1, page_dir_addr := dir_of ?pd p\<rparr>"
  let ?u = "load_cr3 (dir_of ?pd p) ?t"
  have "uint (mem s (P + 1)) = p" using assms(3,9) by (simp add: is_process_def uint_word_of_int)
  moreover obtain k where k: "p - 1 = int k" using assms(3) zero_le_imp_eq_int [of "p - 1"] by (auto simp: is_process_def)
  have "?pd + 4096 * of_int (p - 1) = dir_of ?pd p" unfolding dir_of_def page_dir_def k by simp
  ultimately have d: "?pd + 4096 * of_int (uint (mem s (P + 1)) - 1) = dir_of ?pd p" by simp
  have "dir_of ?pd p AND 0xFFFFFFE7 = dir_of ?pd p"
    using cr3_of_aligned(1) aligned_directory assms(2) by (simp add: tables_ok_def dir_of_def)
  then have h: "halt l status s = (Resumed (load32 (mem ?u) (P + 4)) (load32 (mem ?u) (P + 8)) status,
      ?u\<lparr>tss_esp0 := BOTTOM_STACK - of_int (counter s - 1 - 1) * 0x2000 - 4\<rparr>)"
    using assms(8) d by (simp add: halt_def Let_def P_def)
  note o = load_cr3_only [of ?t "dir_of ?pd p"] and r = load_cr3_runs [OF assms(2,3), of ?t]
  have "apart (P + 4) 4 WINDOW WINDOW_SIZE" "apart (P + 8) 4 WINDOW WINDOW_SIZE"
    using apart_sub [OF assms(10)] within_sub_block [of P 4 4 _ 16] within_sub_block [of P 8 4 _ 16] by auto
  then have "load32 (mem ?u) (P + 4) = load32 (mem s) (P + 4)" "load32 (mem ?u) (P + 8) = load32 (mem s) (P + 8)"
    using word_at.local [of "P + 4" "mem ?u" "mem s"] word_at.local [of "P + 8" "mem ?u" "mem s"] only_keeps [OF o] by auto
  then show ?thesis
    using h r assms(4-7) o by (intro exI [of _ "?u\<lparr>tss_esp0 := BOTTOM_STACK - of_int (counter s - 1 - 1) * 0x2000 - 4\<rparr>"])
      (simp add: runs_def save_window_def split: option.splits)
qed

end
