(* ===== verification/ExecuteProps.thy ===== *)
theory ExecuteProps
  imports Execute
begin

text \<open>
  The properties of \<open>execute\<close> and \<open>halt\<close>: a program is started in its own address space, every failure returns -1
  to the caller, and when a program halts its parent goes on where it was.
\<close>

unbundle bit_operations_syntax

section \<open>Starting a program\<close>

text \<open>C6: a program is started.  For a command line that names a stored file with the ELF magic number, when fewer
  than six processes run, \<open>execute\<close> leaves the kernel for user mode at the entry address of bytes 24 to 27 of the
  file, on the user stack.  The new process \<open>n\<close> has an address space in which its 4 MB of memory lie at the frame of
  process \<open>n\<close>, the whole file lies at \<open>PROGRAM_STARTING_ADDR\<close>, its control block names its parent, saves the
  stack registers of \<open>execute\<close> and has the two terminal descriptors open and the other six closed, and its arguments are
  what followed the name.  The memory of the caller is kept in its own frame, and nothing outside the blocks of
  \<open>launch_blocks\<close> has changed.\<close>

theorem execute_starts_program:
  fixes s :: "'a kernel_scheme"
  assumes "launch_ok l names command p xs args i s" and "elf_magic (contents i s)"
  defines "n \<equiv> counter s + 1"
  shows "\<exists>s'. execute l command s = Some (Entered_user (entry_address (contents i s)) PROGRAM_ENDING_ADDR, s') \<and>
    counter s' = n \<and> tss_esp0 s' = BOTTOM_STACK - of_int (n - 1) * 0x2000 - 4 \<and>
    (n = 1 \<longrightarrow> shell_entry_addr s' = entry_address (contents i s)) \<and>
    (\<forall>va. translate s' va = space_of (Some (frame_of n)) va) \<and>
    bytes_at (ptr (mem s') PROGRAM_STARTING_ADDR) (length (contents i s)) = contents i s \<and>
    pcb_fresh l n (if n = 1 then 0 else mem s (curr_esp l AND 0xffffe000)) (mem s') \<and> cstr (ptr (mem s') (pcb_of n + 400)) args \<and>
    shown s' = Some (frame_of n) \<and> (\<forall>f off. shown s = Some f \<and> unat off < WINDOW_SIZE \<longrightarrow> frames s' (f + off) = mem s (WINDOW + off)) \<and>
    only (launch_blocks l n) (mem s) (mem s')"
proof -
  have "tables_ok (page_table_shell l) (page_directories l)" "is_process n"
    using assms(1) by (simp_all add: launch_ok_def n_def is_process_def)
  then have "(\<forall>va. translate s' va = space_of (Some (frame_of n)) va) \<and> shown s' = Some (frame_of n)" if "runs l n s'" for s' :: "'a kernel_scheme"
    using runs_translate [OF that] that by (simp add: runs_def)
  then show ?thesis using execute_ok [OF assms(1,2), folded n_def] by blast
qed

text \<open>A sample: the shell, process 1, runs the program \<open>a\<close> (28 bytes, entry address \<open>0x08048010\<close>) with the argument \<open>b\<close>;
  the command line is at \<open>0x300000\<close>.\<close>

definition exec_mem :: mem where
  "exec_mem = demo_mem(0x101000 := 28, 0x102000 := 0x7F, 0x102001 := 0x45, 0x102002 := 0x4C, 0x102003 := 0x46, 0x102004 := 0,
     0x102018 := 0x10, 0x102019 := 0x80, 0x10201A := 4, 0x10201B := 8,
     0x300000 := 97, 0x300001 := 32, 0x300002 := 98, 0x7FE000 := 1)"

definition exec_demo :: kernel where
  "exec_demo = sys_demo\<lparr>mem := exec_mem\<rparr>"

lemma exec_demo_fields [simp]:
  "mem exec_demo = exec_mem" "counter exec_demo = 1" "my_boot_block exec_demo = my_boot_block demo"
  "file_addr exec_demo = file_addr demo" "dentries exec_demo = dentries demo" "inodes exec_demo = inodes demo"
  by (simp_all add: exec_demo_def sys_demo_fs sys_demo_fields)

lemma exec_demo_inode:
  "inode_length exec_demo 0 = 28" "data_block exec_demo 0 0 = 0" "entry_inode exec_demo 0 = 0" "entry_type exec_demo 0 = 2"
  by (simp_all add: inode_length_def data_block_def entry_inode_def entry_type_def dentry_at_def exec_mem_def demo_mem_def load32_def join32_def)

lemma exec_demo_contents: 
  "contents 0 exec_demo = [0x7F, 0x45, 0x4C, 0x46, 0, 0, 0, 0, 0, 0, 0, 0, 0, 0, 0, 0, 0, 0, 0, 0, 0, 0, 0, 0, 0x10, 0x80, 4, 8]"
  by (simp add: contents_def file_bytes_def exec_demo_inode file_byte_def upt_conv_Cons exec_mem_def demo_mem_def)

lemma exec_demo_stored: "stored 0x200000 demo_names (lit ''a'') 0 exec_demo"
proof -
  have img: "in_image exec_demo a \<longleftrightarrow> in_image demo a" for a by (simp add: in_image_def fs_size_def)
  have mt: "mounted exec_demo" using demo_mounted by (simp add: mounted_def fs_size_def)
  have keep: "exec_mem (0x100040 + of_nat x) = demo_mem (0x100040 + of_nat x)" if "x < 4032" for x
  proof -
    have "unat (0x100040 + of_nat x :: u32) = 0x100040 + x" using that by (simp add: unat_word_ariths)
    then show ?thesis using that by (auto simp: exec_mem_def)
  qed
  have "entry_name exec_demo i (demo_names ! i) \<and> length (demo_names ! i) < 64" if "i < 63" for i
  proof (cases i)
    case 0
    then show ?thesis using keep [of 0] keep [of 1]
      by (simp add: demo_names_def entry_name_def cstr_def demo_mem_def dentry_at_def bytes_at_def lit_def)
  next
    case (Suc j)
    have "exec_mem (0x100040 + of_nat (64 * i)) = demo_mem (0x100040 + of_nat (64 * i))" by (rule keep) (use that in simp)
    also have "\<dots> = 0" by (rule demo_mem_zero) (use that Suc in auto)
    finally have "exec_mem (0x100040 + of_nat (64 * i)) = 0" .
    then show ?thesis using Suc that by (simp add: demo_names_def entry_name_def cstr_def dentry_at_def bytes_at_def mult.commute)
  qed
  then have "directory exec_demo demo_names" by (simp add: directory_def demo_names_def)
  moreover have "data_block exec_demo 0 (of_nat j) = 0" if "4096 * j < (28 :: nat)" for j
  proof -
    have "j = 0" using that by simp
    then show ?thesis by (simp add: exec_demo_inode)
  qed
  then have "file_ok exec_demo 0" "tail_ok exec_demo 0 n" for n by (simp_all add: file_ok_def tail_ok_def exec_demo_inode)
  moreover have "dentry_room exec_demo 0x200000" using demo_room(1) by (simp add: dentry_room_def img)
  ultimately show ?thesis using mt by (simp add: stored_def exec_demo_inode demo_names_def lit_def)
qed



lemma exec_demo_blocks:
  "all_apart (launch_blocks lay_demo 2)" "off_image (launch_blocks lay_demo 2) exec_demo"
  "\<forall>(q, n) \<in> set (launch_blocks lay_demo 2). \<not> within q n (curr_esp lay_demo AND 0xffffe000)"
proof -
  show "all_apart (launch_blocks lay_demo 2)"
    unfolding all_apart_def launch_blocks_def
    by (simp add: lay_demo_def pcb_of_def) (intro conjI; rule separate_apart; simp add: separate_def)
  have "\<forall>(q, n) \<in> set (launch_blocks lay_demo 2). separate q n 0x100000 12288"
    by (simp add: launch_blocks_def lay_demo_def pcb_of_def separate_def)
  then show "off_image (launch_blocks lay_demo 2) exec_demo"
    unfolding off_image_def in_image_def using separate_within by (fastforce simp: fs_size_def)
  show "\<forall>(q, n) \<in> set (launch_blocks lay_demo 2). \<not> within q n (curr_esp lay_demo AND 0xffffe000)"
    by (simp add: launch_blocks_def lay_demo_def pcb_of_def within_def)
qed

lemma exec_demo_launch: "launch_ok lay_demo demo_names 0x300000 1 (lit ''a'') (lit ''b'') 0 exec_demo"
proof -
  have "reserved_clear pd_demo exec_mem"
  proof -
    have "reserved_clear pd_demo (exec_mem(0x7FE000 := 0))"
      by (rule reserved_clear_zero [OF tables_demo]) (auto simp: exec_mem_def demo_mem_def)
    moreover have "only [(0x7FE000, 1)] (exec_mem(0x7FE000 := 0)) exec_mem" by (auto simp: only_def within_def)
    moreover have "apart pd_demo 24576 0x7FE000 1" by (rule separate_apart) (simp add: separate_def)
    ultimately show ?thesis using reserved_clear_only [of "[(0x7FE000, 1)]" "exec_mem(0x7FE000 := 0)" exec_mem pd_demo] by simp
  qed
  moreover have "first_space exec_mem 0x300000 1" by (simp add: first_space_def exec_mem_def)
  moreover have "lit ''a'' = takeWhile (\<lambda>b. b \<noteq> 0) (bytes_at (ptr exec_mem 0x300000) 1)"
    by (simp add: bytes_at_def exec_mem_def lit_def)
  moreover have "cstr (ptr exec_mem (0x300000 + of_nat (Suc 1))) (lit ''b'')"
    by (simp add: cstr_def bytes_at_def exec_mem_def demo_mem_def lit_def)
  moreover have "apart 0x300000 (34 + length (lit ''b'')) (command_name_local lay_demo) 33"
    "apart 0x300000 (34 + length (lit ''b'')) (arg_buf_local lay_demo) 1024"
    by (rule separate_apart, simp add: separate_def lay_demo_def lit_def)+
  moreover have "length (contents 0 exec_demo) = 28" by (simp add: exec_demo_contents)
  ultimately show ?thesis
    using exec_demo_blocks exec_demo_stored tables_demo by (simp add: launch_ok_def lay_demo_def lit_def)
qed



theorem execute_starts_program_witness:
  "\<exists>s'. execute lay_demo 0x300000 exec_demo = Some (Entered_user 0x08048010 PROGRAM_ENDING_ADDR, s') \<and> counter s' = 2 \<and>
    mem s' 0x08048001 = 0x45 \<and> mem s' 0x7FC001 = 1 \<and> cstr (ptr (mem s') 0x7FC190) (lit ''b'')"
proof -
  have "elf_magic (contents 0 exec_demo)" by (simp add: elf_magic_def exec_demo_contents)
  from execute_starts_program [OF exec_demo_launch this] obtain s' where
    "execute lay_demo 0x300000 exec_demo = Some (Entered_user (entry_address (contents 0 exec_demo)) PROGRAM_ENDING_ADDR, s')"
    "counter s' = 2" and img: "bytes_at (ptr (mem s') PROGRAM_STARTING_ADDR) (length (contents 0 exec_demo)) = contents 0 exec_demo"
    and "pcb_fresh lay_demo 2 (exec_mem (curr_esp lay_demo AND 0xffffe000)) (mem s')" "cstr (ptr (mem s') (pcb_of 2 + 400)) (lit ''b'')"
    by auto
  moreover have "mem s' 0x08048001 = 0x45" using arg_cong [OF img, of "\<lambda>xs. xs ! 1"] by (simp add: exec_demo_contents)
  moreover have "entry_address (contents 0 exec_demo) = 0x08048010" by (simp add: entry_address_def exec_demo_contents join32_def)
  ultimately show ?thesis
    by (auto simp: pcb_fresh_def pcb_of_def lay_demo_def exec_mem_def)
qed



section \<open>Returning to the parent\<close>

lemma small_byte: "is_process n \<Longrightarrow> n \<noteq> 1 \<Longrightarrow> (of_int n :: byte) \<noteq> 1"
proof
  assume n: "is_process n" "n \<noteq> 1" and "(of_int n :: byte) = 1"
  then have "uint (of_int n :: byte) = 1" by simp
  then show False using n by (simp add: is_process_def uint_word_of_int)
qed

text \<open>C7: \<open>execute\<close> and \<open>halt\<close> belong together.  A running process \<open>p\<close> executes a program; the program runs and
  leaves any memory \<open>m\<close>, except that it cannot have changed the paging tables and the head of its own control block, which
  lie in the kernel page.  When it halts, the kernel goes on with the stack registers \<open>p\<close> had in \<open>execute\<close> and the
  status as the return value; \<open>p\<close> is the running process again, with the address space, the kernel stack and every byte
  of program memory it had before, and no other memory has changed.\<close>

theorem execute_halt_roundtrip:
  fixes s :: "'a kernel_scheme"
  assumes "launch_ok l names command q xs args i s" and "elf_magic (contents i s)"
    and "1 \<le> counter s" and "runs l (counter s) s" and "mem s (curr_esp l AND 0xffffe000) = of_int (counter s)"
  shows "\<exists>e s1. execute l command s = Some (Entered_user e PROGRAM_ENDING_ADDR, s1) \<and>
    (\<forall>m. (\<forall>a. within (page_table_shell l) 4096 a \<or> within (page_directories l) 24576 a \<or> within (pcb s1) 16 a \<longrightarrow> m a = mem s1 a) \<longrightarrow>
      (\<exists>s2. halt l status (s1\<lparr>mem := m\<rparr>) = (Resumed (curr_esp l) (curr_ebp l) status, s2) \<and>
        counter s2 = counter s \<and> tss_esp0 s2 = BOTTOM_STACK - of_int (counter s - 1) * 0x2000 - 4 \<and>
        (\<forall>va. translate s2 va = translate s va) \<and>
        (\<forall>off. unat off < WINDOW_SIZE \<longrightarrow> mem s2 (WINDOW + off) = mem s (WINDOW + off)) \<and>
        (\<forall>a. \<not> within WINDOW WINDOW_SIZE a \<longrightarrow> mem s2 a = m a)))"
proof -
  let ?p = "counter s" and ?n = "counter s + 1" and ?pt = "page_table_shell l" and ?pd = "page_directories l"
  note ok = assms(1) [unfolded launch_ok_def]
  have tabs: "tables_ok ?pt ?pd" and pr: "is_process ?p" "is_process ?n" "?p \<noteq> ?n" using ok assms(3) by (auto simp: is_process_def)
  have ap: "apart (pcb_of ?n) 16 WINDOW WINDOW_SIZE" using ok by (auto simp: all_apart_def launch_blocks_def intro: apart_mono)
  let ?e = "entry_address (contents i s)"
  obtain s1 where s1: "execute l command s = Some (Entered_user ?e PROGRAM_ENDING_ADDR, s1)" "counter s1 = ?n" "runs l ?n s1"
    "\<forall>q frame. is_process q \<and> q \<noteq> ?n \<and> directory_ok ?pt frame (dir_of ?pd q) (mem s) \<longrightarrow> directory_ok ?pt frame (dir_of ?pd q) (mem s1)"
    "pcb_fresh l ?n (of_int ?p) (mem s1)"
    "\<forall>f off. shown s = Some f \<and> unat off < WINDOW_SIZE \<longrightarrow> frames s1 (f + off) = mem s (WINDOW + off)"
    using execute_ok [OF assms(1,2)] assms(3,5) by auto
  have dir1: "directory_ok ?pt (Some (take_bit 10 (of_int (?p + 1)))) (dir_of ?pd ?p) (mem s1)"
    using s1(4) pr assms(4) by (simp add: runs_def)
  show ?thesis
  proof (rule exI [of _ ?e], rule exI [of _ s1], intro conjI allI impI)
    show "execute l command s = Some (Entered_user ?e PROGRAM_ENDING_ADDR, s1)" by (rule s1(1))
    fix m assume m: "\<forall>a. within ?pt 4096 a \<or> within ?pd 24576 a \<or> within (pcb s1) 16 a \<longrightarrow> m a = mem s1 a"
    let ?t = "s1\<lparr>mem := m\<rparr>" and ?P = "pcb_of ?n"
    have hd: "m (?P + of_nat k) = mem s1 (?P + of_nat k)" if "k < 16" for k using m s1(2) that by simp
    have "m ?P = of_int ?n" "m (?P + 1) = of_int ?p" using hd [of 0] hd [of 1] s1(5) by (simp_all add: pcb_fresh_def)
    moreover have regs: "load32 m (?P + 4) = curr_esp l" "load32 m (?P + 8) = curr_ebp l"
      using word_at.local [of "?P + 4" m "mem s1"] word_at.local [of "?P + 8" m "mem s1"] m s1(2,5)
        within_sub_block [of ?P 4 4 _ 16] within_sub_block [of ?P 8 4 _ 16] by (auto simp: pcb_fresh_def)
    moreover have "directory_ok ?pt (Some (take_bit 10 (of_int (?p + 1)))) (dir_of ?pd ?p) m"
      using directory_ok_cong [of "dir_of ?pd ?p" m "mem s1"] dir_in_array [OF pr(1)] m dir1 by blast
    moreover have "page_table_ok ?pt m" using page_table_ok_cong [of ?pt m "mem s1"] m s1(3) by (auto simp: runs_def)
    ultimately obtain s2 where s2: "halt l status ?t = (Resumed (curr_esp l) (curr_ebp l) status, s2)"
      "counter s2 = ?p" "tss_esp0 s2 = BOTTOM_STACK - of_int (?n - 2) * 0x2000 - 4" "runs l ?p s2"
      "\<forall>off. unat off < WINDOW_SIZE \<longrightarrow> mem s2 (WINDOW + off) = frames (save_window ?t) (frame_of ?p + off)"
      "only [(WINDOW, WINDOW_SIZE)] m (mem s2)"
      using halt_ok [OF tabs pr(1), of ?t status] s1(2,3) small_byte [OF pr(2)] assms(3) ap by (auto simp: runs_def)
    have "translate s2 va = translate s va" for va
      using runs_translate [OF s2(4) tabs pr(1)] runs_translate [OF assms(4) tabs pr(1)] by simp
    moreover have "mem s2 (WINDOW + off) = mem s (WINDOW + off)" if "unat off < WINDOW_SIZE" for off
      using s2(5) that s1(3,6) assms(4) frames_disjoint [OF pr that]
      by (simp add: runs_def save_window_def copy_frame_other)
    ultimately show "\<exists>s2. halt l status ?t = (Resumed (curr_esp l) (curr_ebp l) status, s2) \<and>
        counter s2 = ?p \<and> tss_esp0 s2 = BOTTOM_STACK - of_int (?p - 1) * 0x2000 - 4 \<and> (\<forall>va. translate s2 va = translate s va) \<and>
        (\<forall>off. unat off < WINDOW_SIZE \<longrightarrow> mem s2 (WINDOW + off) = mem s (WINDOW + off)) \<and>
        (\<forall>a. \<not> within WINDOW WINDOW_SIZE a \<longrightarrow> mem s2 a = m a)"
      using s2 by (intro exI [of _ s2]) (simp add: only_def)
  qed
qed



text \<open>The sample with the address space of the shell in place.\<close>

definition run_demo :: kernel where
  "run_demo = create_paging pt_demo pd_demo 1 exec_demo"

lemma run_demo_only: "only [(pt_demo, 4096), (pd_demo, 24576), (WINDOW, WINDOW_SIZE)] exec_mem (mem run_demo)"
  using create_paging_only [OF tables_demo, of 1 exec_demo] by (simp add: run_demo_def is_process_def)

lemma run_demo_low: "unat a < 4194304 \<or> a = 0x7FE000 \<Longrightarrow> mem run_demo a = exec_mem a"
  by (rule onlyD [OF run_demo_only]) (auto simp: within_def unat_sub_if_size word_size)

lemma run_demo_runs: "runs lay_demo 1 run_demo"
proof -
  have p: "is_process 1" by (simp add: is_process_def)
  have r: "reserved_clear pd_demo (mem exec_demo)" using exec_demo_launch by (simp add: launch_ok_def lay_demo_def)
  show ?thesis
    using create_paging_tables [OF tables_demo r p] create_paging_control [OF tables_demo p, where s = exec_demo] create_paging_shows(1) [OF tables_demo r p]
    by (simp add: runs_def run_demo_def lay_demo_def)
qed

lemma run_demo_fields:
  "counter run_demo = 1" "my_boot_block run_demo = my_boot_block exec_demo" "file_addr run_demo = file_addr exec_demo"
  "dentries run_demo = dentries exec_demo" "inodes run_demo = inodes exec_demo"
  by (simp_all add: run_demo_def)

lemma run_demo_launch: "launch_ok lay_demo demo_names 0x300000 1 (lit ''a'') (lit ''b'') 0 run_demo" (is ?launch)
  and run_demo_contents: "contents 0 run_demo = contents 0 exec_demo"
proof -
  have p: "is_process 1" by (simp add: is_process_def)
  note ok = exec_demo_launch [unfolded launch_ok_def]
  have "off_image [(pt_demo, 4096), (pd_demo, 24576), (WINDOW, WINDOW_SIZE)] exec_demo"
    using off_image_sub [OF exec_demo_blocks(2)] by (simp add: launch_blocks_def lay_demo_def)
  then have fs: "same_fs exec_demo run_demo" by (rule only_same_fs [rotated]) (simp_all add: run_demo_only run_demo_fields)
  have mt: "mounted exec_demo" using exec_demo_stored by (simp add: stored_def)
  have st: "stored 0x200000 demo_names (lit ''a'') 0 run_demo" "contents 0 run_demo = contents 0 exec_demo"
    using stored_keep [OF exec_demo_stored fs] by simp_all
  then show "contents 0 run_demo = contents 0 exec_demo" by simp
  have off: "off_image (launch_blocks lay_demo 2) run_demo"
    using exec_demo_blocks(2) same_fs_transfer(2) [OF fs mt] by (simp add: off_image_def)
  have "reserved_clear pd_demo (mem exec_demo)" using ok by (simp add: lay_demo_def)
  then have rc: "reserved_clear pd_demo (mem run_demo)" unfolding run_demo_def by (rule reserved_clear_after [OF tables_demo _ p])
  have b: "mem run_demo 0x300000 = 97" "mem run_demo 0x300001 = 32" "mem run_demo 0x300002 = 98" "mem run_demo 0x300003 = 0"
    by (simp_all add: run_demo_low exec_mem_def demo_mem_def)
  show ?launch
    using ok off rc st b exec_demo_blocks
    by (simp add: launch_ok_def lay_demo_def run_demo_fields first_space_def bytes_at_def cstr_def lit_def)
qed

theorem execute_halt_roundtrip_witness:
  "\<exists>e s1 s2. execute lay_demo 0x300000 run_demo = Some (Entered_user e PROGRAM_ENDING_ADDR, s1) \<and>
    halt lay_demo 7 s1 = (Resumed 0x7FFF80 0x7FFFA0 7, s2) \<and> counter s2 = 1 \<and> mem s2 0x08048000 = mem run_demo 0x08048000"
proof -
  have "elf_magic (contents 0 run_demo)" by (simp add: run_demo_contents elf_magic_def exec_demo_contents)
  moreover have "1 \<le> counter run_demo" "runs lay_demo (counter run_demo) run_demo"
    "mem run_demo (curr_esp lay_demo AND 0xffffe000) = of_int (counter run_demo)"
    using run_demo_runs run_demo_low [of "0x7FE000"] by (simp_all add: run_demo_fields lay_demo_def exec_mem_def)
  ultimately obtain e s1 where e: "execute lay_demo 0x300000 run_demo = Some (Entered_user e PROGRAM_ENDING_ADDR, s1)"
    and h: "\<exists>s2. halt lay_demo 7 (s1\<lparr>mem := mem s1\<rparr>) = (Resumed (curr_esp lay_demo) (curr_ebp lay_demo) 7, s2) \<and> counter s2 = counter run_demo \<and>
      (\<forall>off. unat off < WINDOW_SIZE \<longrightarrow> mem s2 (WINDOW + off) = mem run_demo (WINDOW + off))"
    using execute_halt_roundtrip [OF run_demo_launch, of 7] by blast
  obtain s2 where s2: "halt lay_demo 7 s1 = (Resumed 0x7FFF80 0x7FFFA0 7, s2)" "counter s2 = 1"
    "\<forall>off. unat off < WINDOW_SIZE \<longrightarrow> mem s2 (WINDOW + off) = mem run_demo (WINDOW + off)"
    using h by (auto simp: lay_demo_def run_demo_fields)
  then show ?thesis using e s2(3) [rule_format, of "0x48000"] by auto
qed



section \<open>Failures\<close>

text \<open>The command line of \<open>launch_ok\<close> alone: name \<open>xs\<close>, arguments \<open>args\<close>, and the buffers it is copied to.\<close>

definition command_ok :: "layout \<Rightarrow> u32 \<Rightarrow> nat \<Rightarrow> byte list \<Rightarrow> byte list \<Rightarrow> 'a kernel_scheme \<Rightarrow> bool" where
  "command_ok l command p xs args s \<longleftrightarrow>
     command \<noteq> 0 \<and> first_space (mem s) command p \<and> xs = takeWhile (\<lambda>b. b \<noteq> 0) (bytes_at (ptr (mem s) command) p) \<and>
     cstr (ptr (mem s) (command + of_nat (Suc p))) args \<and> length args < 1024 \<and>
     apart command (34 + length args) (command_name_local l) 33 \<and> apart command (34 + length args) (arg_buf_local l) 1024 \<and>
     apart (command_name_local l) 33 (arg_buf_local l) 1024 \<and>
     off_image [(command_name_local l, 33), (arg_buf_local l, 1024)] s"

lemma execute_unknown:
  assumes "command_ok l command p xs args s" and "counter s < 6" and "mounted s" and "directory s names" and "xs = [] \<or> xs \<notin> set names"
  shows "\<exists>m. execute l command s = Some (Returned (-1), s\<lparr>mem := m, arg_size := int (length args)\<rparr>) \<and>
    only [(command_name_local l, 33), (arg_buf_local l, 1024)] (mem s) m"
proof -
  let ?N = "command_name_local l" and ?A = "arg_buf_local l"
  note ok = assms(1) [unfolded command_ok_def]
  have p32: "p \<le> 32" using ok by (simp add: first_space_def)
  obtain m where m: "parse_command l command s = Some (s\<lparr>mem := m, arg_size := int (length args)\<rparr>)"
    "bytes_at (ptr m ?N) p = bytes_at (ptr (mem s) command) p" "m (?N + of_nat p) = 0"
    "\<And>a. \<not> within ?N 33 a \<Longrightarrow> \<not> within ?A 1024 a \<Longrightarrow> m a = mem s a"
    using parse_command_ok [of s command p args l] ok by auto
  let ?s = "s\<lparr>mem := m, arg_size := int (length args)\<rparr>"
  have o: "only [(?N, 33), (?A, 1024)] (mem s) m" using m(4) by (auto simp: only_def)
  have "same_fs s ?s" by (rule only_same_fs [of "[(?N, 33), (?A, 1024)]"]) (use ok o in simp_all)
  then have dir: "directory ?s names" using same_fs_transfer(3) [of s ?s] assms(3,4) by simp
  have name: "cstr (ptr (mem ?s) ?N) xs" using cstr_takeWhile [OF m(2,3)] p32 ok by simp
  have "length xs \<le> p" using ok length_takeWhile_le [of "\<lambda>b. b \<noteq> 0" "bytes_at (ptr (mem s) command) p"] by simp
  then have "length xs < 2147483648" using p32 by simp
  then have "check_executable l ?N ?s = Some (-1, ?s)" by (rule check_executable_missing [OF dir name _ assms(5)])
  then show ?thesis using m(1) o assms(2) ok by (intro exI [of _ m]) (simp add: execute_def)
qed



end
