(* ===== verification/Vidmap.thy ===== *)
theory Vidmap
  imports ExecuteProps
begin

text \<open>
  \<open>vidmap\<close>: the page of video memory becomes visible to the program at 132 MB, and nothing else in its address
  space changes.
\<close>

unbundle bit_operations_syntax

lemma video_pte_view:
  "get_field 0 1 (set_fields (video_pte_fields i) x) = (if i = 0 then 1 else 0)"
  "get_field 1 1 (set_fields (video_pte_fields 0) x) = 1" "get_field 2 1 (set_fields (video_pte_fields 0) x) = 1"
  "get_field 12 20 (set_fields (video_pte_fields i) x) = 184"
  by (simp_all add: set_fields_def video_pte_fields_def)

lemma video_index: "drop_bit 12 (va :: u32) = 0x8400 \<longleftrightarrow> drop_bit 22 va = 33 \<and> get_field 12 10 va = 0"
proof
  assume v: "drop_bit 12 va = 0x8400"
  have "drop_bit 22 va = drop_bit 10 (drop_bit 12 va)" by (simp add: drop_bit_drop_bit)
  then show "drop_bit 22 va = 33 \<and> get_field 12 10 va = 0" unfolding get_field_def v by simp
next
  assume v: "drop_bit 22 va = 33 \<and> get_field 12 10 va = 0"
  have "drop_bit 12 va = push_bit 10 (drop_bit 22 va) OR get_field 12 10 va"
    by (rule bit_word_eqI) (auto simp: bit_simps bit_get_field)
  then show "drop_bit 12 va = 0x8400" using v by simp
qed

lemma walk_video:
  assumes "take_bit 12 dir = 0" and "take_bit 12 vt = 0" and "drop_bit 22 va = 33"
    and "entry m dir 33 = set_fields (pde0_fields vt) x" and "\<And>i. i < 1024 \<Longrightarrow> entry m vt i = set_fields (video_pte_fields i) (y i)"
  shows "walk True m dir va = (if drop_bit 12 va = 0x8400 then Some (0xB8000 + take_bit 12 va, True, True) else None)"
proof -
  let ?i = "unat (get_field 12 10 va)"
  have pde: "entry m dir (unat (drop_bit 22 va)) = set_fields (pde0_fields vt) x" using assms(3,4) by simp
  have pte: "entry m vt ?i = set_fields (video_pte_fields ?i) (y ?i)" using assms(5) [OF pte_index] .
  have idx: "?i = 0 \<longleftrightarrow> drop_bit 12 va = 0x8400" using video_index [of va] assms(3) by (simp add: unat_eq_0)
  have "push_bit 12 184 OR take_bit 12 va = 0xB8000 + take_bit 12 va" using base_or_offset [of 12 184 va] by simp
  then show ?thesis using idx pte
    by (auto simp: walk_entries [OF assms(1)] pde pde0_view video_pte_view table_base [OF assms(2)] Let_def simp del: One_nat_def)
qed

text \<open>An address outside the changed directory entry is translated as before.\<close>

lemma walk_other:
  assumes "take_bit 12 dir = 0" and "take_bit 12 pt = 0" and "directory_ok pt frame dir m"
    and "\<And>i. i < 1024 \<Longrightarrow> i \<noteq> 33 \<Longrightarrow> entry m' dir i = entry m dir i" and "\<And>i. i < 1024 \<Longrightarrow> entry m' pt i = entry m pt i"
    and "drop_bit 22 va \<noteq> 33"
  shows "walk True m' dir va = walk True m dir va"
proof -
  let ?i = "unat (drop_bit 22 va)"
  have "?i \<noteq> 33" using assms(6) by (simp add: word_unat_eq_iff)
  then have e: "entry m' dir ?i = entry m dir ?i" using assms(4) pde_index by blast
  show ?thesis
  proof (cases "?i = 0")
    case True
    obtain x where "entry m dir 0 = set_fields (pde0_fields pt) x" using assms(3) by (auto simp: directory_ok_def)
    then have "push_bit 12 (get_field 12 20 (entry m dir ?i)) = pt" using True table_base [OF assms(2)] by (simp add: pde0_view)
    then show ?thesis using e assms(5) pte_index by (simp add: walk_entries [OF assms(1)] Let_def)
  next
    case False
    have "get_field 0 1 (entry m dir ?i) = 0 \<or> get_field 7 1 (entry m dir ?i) = 1"
    proof (cases "?i = 1 \<or> ?i = 32")
      case True
      then show ?thesis using assms(3) by (auto simp: directory_ok_def maps_4MB_def simp del: One_nat_def split: option.splits)
    next
      case other: False
      then show ?thesis using assms(3) False pde_index by (auto simp: directory_ok_def simp del: One_nat_def)
    qed
    then show ?thesis using e by (auto simp: walk_entries [OF assms(1)] Let_def)
  qed
qed

section \<open>The system call\<close>

text \<open>The table for the video page lies aligned in the kernel page, apart from the other tables.\<close>

definition video_ok :: "layout \<Rightarrow> bool" where
  "video_ok l \<longleftrightarrow> tables_ok (page_table_shell l) (page_directories l) \<and> take_bit 12 (page_table_video l) = 0 \<and>
     4194304 \<le> unat (page_table_video l) \<and> unat (page_table_video l) + 4096 \<le> 8388608 \<and>
     (unat (page_table_video l) + 4096 \<le> unat (page_table_shell l) \<or> unat (page_table_shell l) + 4096 \<le> unat (page_table_video l)) \<and>
     (unat (page_table_video l) + 4096 \<le> unat (page_directories l) \<or> unat (page_directories l) + 24576 \<le> unat (page_table_video l))"

lemma kernel_page_apart:
  assumes "unat p + n \<le> 8388608" and "0 < n" and "0x08000000 \<le> q" and "q < 0x08400000"
  shows "apart p n q 4"
proof -
  have "0x8000000 \<le> unat q" "unat q < 0x8400000" using assms(3,4) by (simp_all add: word_le_nat_alt word_less_nat_alt)
  then show ?thesis using assms(1,2) by (intro separate_apart separateI) auto
qed

lemma vidmap_tables:
  fixes s :: "'a kernel_scheme"
  assumes "video_ok l" and "is_process (counter s)" and "0x08000000 \<le> screen_start" and "screen_start < 0x08400000"
  defines "dir \<equiv> dir_of (page_directories l) (counter s)" and "m' \<equiv> mem (snd (vidmap l screen_start s))"
  shows "i < 1024 \<Longrightarrow> entry m' dir i = (if i = 33 then set_fields (pde0_fields (page_table_video l)) (entry (mem s) dir i) else entry (mem s) dir i)"
    and "i < 1024 \<Longrightarrow> entry m' (page_table_video l) i = set_fields (video_pte_fields i) (entry (mem s) (page_table_video l) i)"
    and "i < 1024 \<Longrightarrow> entry m' (page_table_shell l) i = entry (mem s) (page_table_shell l) i"
    and "\<not> within (page_table_video l) 4096 a \<Longrightarrow> \<not> within (dir + 132) 4 a \<Longrightarrow> \<not> within screen_start 4 a \<Longrightarrow> m' a = mem s a"
    and "load32 m' screen_start = VIDEO_ADDR" and "snd (vidmap l screen_start s) = s\<lparr>mem := m'\<rparr>" and "fst (vidmap l screen_start s) = 0"
proof -
  let ?vt = "page_table_video l" and ?pt = "page_table_shell l" and ?pd = "page_directories l"
  note v = assms(1) [unfolded video_ok_def]
  have tabs: "tables_ok ?pt ?pd" using v by blast
  obtain k where k: "counter s - 1 = int k" using assms(2) zero_le_imp_eq_int [of "counter s - 1"] by (auto simp: is_process_def)
  have dir: "?pd + 4096 * of_int (counter s - 1) = dir" unfolding dir_def dir_of_def page_dir_def k by simp
  define m1 where "m1 = entry_loop video_pte_fields ?vt 0 (mem s)"
  define m2 where "m2 = put_fields (dir + 4 * of_nat 33) (pde0_fields ?vt) m1"
  have "\<not> screen_start < 0x08000000" "\<not> 0x08400000 \<le> screen_start" using assms(3,4) by auto
  then have run: "vidmap l screen_start s = (0, s\<lparr>mem := store32 m2 screen_start VIDEO_ADDR\<rparr>)"
    using dir by (simp add: vidmap_def Let_def m1_def m2_def)
  then have m': "m' = store32 m2 screen_start VIDEO_ADDR" by (simp add: m'_def)
  show "snd (vidmap l screen_start s) = s\<lparr>mem := m'\<rparr>" "fst (vidmap l screen_start s) = 0" using run m' by simp_all
  show "load32 m' screen_start = VIDEO_ADDR" unfolding m' by simp
  have in_pd: "within ?pd 24576 b" if "within dir 4096 b" for b using that dir_in_array [OF assms(2)] by (simp add: dir_def)
  have vd: "separate ?vt 4096 dir 4096" "separate dir 4096 ?vt 4096"
    and pv: "separate ?pt 4096 ?vt 4096" "separate ?pt 4096 dir 4096"
    using v unat_directory [OF tabs dir_index [OF assms(2)]] dir_index [OF assms(2)] table_separate(1) [OF tabs dir_index [OF assms(2)]]
    by (auto intro!: separateI simp: tables_ok_def dir_def dir_of_def)
  have store: "entry m' p i = entry m2 p i" if "unat p + 4096 \<le> 8388608" "i < 1024" for p i
  proof (rule entry_same [OF _ that(2)])
    fix b assume "within p 4096 b"
    then have "\<not> within screen_start 4 b" using apartD [OF kernel_page_apart [OF that(1) _ assms(3,4)]] by simp
    then show "m' b = m2 b" by (simp add: m' store32_other)
  qed
  have u: "unat dir + 4096 \<le> 8388608" "unat ?pt + 4096 \<le> 8388608" "unat ?vt + 4096 \<le> 8388608"
    using unat_directory [OF tabs dir_index [OF assms(2)]] dir_index [OF assms(2)] tabs v by (simp_all add: dir_def dir_of_def tables_ok_def)
  show "entry m' dir i = (if i = 33 then set_fields (pde0_fields ?vt) (entry (mem s) dir i) else entry (mem s) dir i)" if "i < 1024"
    using store [OF u(1) that] entry_put_fields [of 33 i dir "pde0_fields ?vt" m1] entry_off_table(1) [OF vd(2) that, of video_pte_fields 0 "mem s"] that
    by (auto simp: m2_def m1_def)
  show "entry m' ?vt i = set_fields (video_pte_fields i) (entry (mem s) ?vt i)" if "i < 1024"
    using store [OF u(3) that] entry_off_table(3) [OF vd(1) that, of 33] entry_loop_entry [OF that, of video_pte_fields ?vt 0 "mem s"]
    by (simp add: m2_def m1_def)
  show "entry m' ?pt i = entry (mem s) ?pt i" if "i < 1024"
    using store [OF u(2) that] entry_off_table(3) [OF pv(2) that, of 33] entry_off_table(1) [OF pv(1) that] by (simp add: m2_def m1_def)
  show "m' a = mem s a" if "\<not> within ?vt 4096 a" "\<not> within (dir + 132) 4 a" "\<not> within screen_start 4 a"
    using that by (simp add: m' m2_def m1_def store32_other put_fields_other entry_loop_other)
qed

lemma vidmap_registers [simp]:
  "cr0 (snd (vidmap l p s)) = cr0 s" "cr3 (snd (vidmap l p s)) = cr3 s" "cr4 (snd (vidmap l p s)) = cr4 s"
  by (simp_all add: vidmap_def Let_def)

text \<open>C22: \<open>vidmap\<close>.  A pointer outside the program window is refused with -1.  Otherwise the pointer receives the
  address 132 MB, the 4 KB from there on are the video memory, readable and writable by the program, every other
  address is translated as before, and only the video page table, one directory entry of the
  process and the pointer have changed.\<close>

theorem vidmap_maps_video:
  fixes s :: "'a kernel_scheme"
  assumes "video_ok l" and "is_process (counter s)" and "runs l (counter s) s"
  shows "if 0x08000000 \<le> screen_start \<and> screen_start < 0x08400000
    then \<exists>s'. vidmap l screen_start s = (0, s') \<and> load32 (mem s') screen_start = VIDEO_ADDR \<and>
      (\<forall>va. translate s' va = (if drop_bit 12 va = 0x8400 then Some (0xB8000 + take_bit 12 va, True, True) else translate s va)) \<and>
      (\<forall>a. \<not> within (page_table_video l) 4096 a \<and> \<not> within (dir_of (page_directories l) (counter s) + 132) 4 a \<and>
        \<not> within screen_start 4 a \<longrightarrow> mem s' a = mem s a)
    else vidmap l screen_start s = (-1, s)"
proof (cases "0x08000000 \<le> screen_start \<and> screen_start < 0x08400000")
  case True
  let ?dir = "dir_of (page_directories l) (counter s)" and ?vt = "page_table_video l" and ?pt = "page_table_shell l" and ?s = "snd (vidmap l screen_start s)"
  note v = assms(1) [unfolded video_ok_def] and r = assms(3) [unfolded runs_def]
  note t = vidmap_tables [OF assms(1,2) conjunct1 [OF True] conjunct2 [OF True]]
  have al: "take_bit 12 ?dir = 0" "take_bit 12 ?pt = 0" "take_bit 12 ?vt = 0" using v aligned_directory by (simp_all add: tables_ok_def dir_of_def)
  have dir: "directory_ok ?pt (Some (take_bit 10 (of_int (counter s + 1)))) ?dir (mem s)" using r by blast
  have tr: "translate ?s va = walk True (mem ?s) ?dir va" "translate s va = walk True (mem s) ?dir va" for va
    using r by (simp_all add: translate_def)
  have "walk True (mem ?s) ?dir va = (if drop_bit 12 va = 0x8400 then Some (0xB8000 + take_bit 12 va, True, True) else walk True (mem s) ?dir va)" for va
  proof (cases "drop_bit 22 va = 33")
    case True
    then have "walk True (mem s) ?dir va = None" using dir by (intro walk_absent [OF al(1)]) (simp add: directory_ok_def)
    then show ?thesis using walk_video [OF al(1,3) True, of "mem ?s"] t(1) [of 33] t(2) by simp
  next
    case False
    then show ?thesis using walk_other [OF al(1,2) dir _ _ False, of "mem ?s"] t(1,3) video_index [of va] by simp
  qed
  then have "translate ?s va = (if drop_bit 12 va = 0x8400 then Some (0xB8000 + take_bit 12 va, True, True) else translate s va)" for va
    by (simp add: tr)
  then show ?thesis using True t(4,5,7) by (intro if_P [THEN iffD2] exI [of _ ?s]) (simp_all add: prod_eq_iff)
next
  case False
  then show ?thesis by (auto simp: vidmap_def not_le not_less)
qed

theorem vidmap_maps_video_witness:
  "\<exists>s'. vidmap lay_demo 0x08048010 run_demo = (0, s') \<and> load32 (mem s') 0x08048010 = 0x08400000 \<and>
    translate s' 0x08400004 = Some (0xB8004, True, True)"
proof -
  have "video_ok lay_demo" using tables_demo by (simp add: video_ok_def lay_demo_def)
  moreover have "is_process (counter run_demo)" "runs lay_demo (counter run_demo) run_demo"
    using run_demo_runs by (simp_all add: run_demo_fields is_process_def)
  ultimately show ?thesis using vidmap_maps_video [of lay_demo run_demo "0x08048010"] by auto
qed

end
