(* ===== verification/Talker.thy ===== *)
theory Talker
  imports FilesTest
begin

text \<open>
  Programs that only produce output.  \<open>says\<close> is total correctness of such a program: from every state that
  satisfies \<open>ok\<close> it returns, and the states are related by \<open>out\<close> for the text produced.  The locale \<open>talker\<close> has the
  rules for sequence, choice and skipping; it is interpreted here for the console routines of the kernel, and later for
  user programs that write to the terminal.
\<close>

definition says :: "('s \<Rightarrow> bool) \<Rightarrow> (byte list \<Rightarrow> 's \<Rightarrow> 's \<Rightarrow> bool) \<Rightarrow> ('s \<Rightarrow> 's option) \<Rightarrow> bool" where
  "says ok out f \<longleftrightarrow> (\<forall>s. ok s \<longrightarrow> (\<exists>t xs. f s = Some t \<and> out xs s t))"

definition says_text :: "('s \<Rightarrow> bool) \<Rightarrow> (byte list \<Rightarrow> 's \<Rightarrow> 's \<Rightarrow> bool) \<Rightarrow> byte list \<Rightarrow> ('s \<Rightarrow> 's option) \<Rightarrow> bool" where
  "says_text ok out xs f \<longleftrightarrow> (\<forall>s. ok s \<longrightarrow> (\<exists>t. f s = Some t \<and> out xs s t))"

lemma saysD: "says ok out f \<Longrightarrow> ok s \<Longrightarrow> \<exists>t xs. f s = Some t \<and> out xs s t"
  by (simp add: says_def)

lemma says_textD: "says_text ok out xs f \<Longrightarrow> ok s \<Longrightarrow> \<exists>t. f s = Some t \<and> out xs s t"
  by (simp add: says_text_def)

lemma says_text_says: "says_text ok out xs f \<Longrightarrow> says ok out f"
  unfolding says_def says_text_def by blast

lemma says_if: "says ok out f \<Longrightarrow> says ok out g \<Longrightarrow> says ok out (\<lambda>s. if b s then f s else g s)"
  by (simp add: says_def)

locale talker =
  fixes ok :: "'s \<Rightarrow> bool" and out :: "byte list \<Rightarrow> 's \<Rightarrow> 's \<Rightarrow> bool"
  assumes out_nil: "ok s \<Longrightarrow> out [] s s"
    and out_append: "out xs s t \<Longrightarrow> out ys t u \<Longrightarrow> out (xs @ ys) s u"
    and out_ok: "ok s \<Longrightarrow> out xs s t \<Longrightarrow> ok t"
begin

lemma skip: "says ok out Some"
  using out_nil by (auto simp: says_def)

lemma skip_text: "says_text ok out [] Some"
  using out_nil by (simp add: says_text_def)

lemma seq:
  assumes "says ok out f" and "says ok out g"
  shows "says ok out (\<lambda>s. Option.bind (f s) g)"
  unfolding says_def
proof (intro allI impI)
  fix s assume s: "ok s"
  obtain t xs where t: "f s = Some t" "out xs s t" using saysD [OF assms(1) s] by blast
  obtain u ys where u: "g t = Some u" "out ys t u" using saysD [OF assms(2) out_ok [OF s t(2)]] by blast
  show "\<exists>t xs. Option.bind (f s) g = Some t \<and> out xs s t" using t(1) u(1) out_append [OF t(2) u(2)] by auto
qed

lemma seq_text:
  assumes "says_text ok out xs f" and "says_text ok out ys g"
  shows "says_text ok out (xs @ ys) (\<lambda>s. Option.bind (f s) g)"
  unfolding says_text_def
proof (intro allI impI)
  fix s assume s: "ok s"
  obtain t where t: "f s = Some t" "out xs s t" using says_textD [OF assms(1) s] by blast
  obtain u where u: "g t = Some u" "out ys t u" using says_textD [OF assms(2) out_ok [OF s t(2)]] by blast
  show "\<exists>t. Option.bind (f s) g = Some t \<and> out (xs @ ys) s t" using t u out_append by auto
qed

end

section \<open>Console output of the kernel\<close>

text \<open>\<open>m\<close> agrees with \<open>m0\<close> outside video memory and the conversion buffer at \<open>cb\<close>.\<close>

definition quiet_eq :: "u32 \<Rightarrow> mem \<Rightarrow> mem \<Rightarrow> bool" where
  "quiet_eq cb m0 m \<longleftrightarrow> (\<forall>a. \<not> vram a \<longrightarrow> \<not> within cb 64 a \<longrightarrow> m a = m0 a)"

definition printing :: "u32 \<Rightarrow> mem \<Rightarrow> 'a console_scheme \<Rightarrow> bool" where
  "printing cb m0 s \<longleftrightarrow> on_screen s \<and> off_vram cb 64 \<and> quiet_eq cb m0 (mem s)"

interpretation printer: talker "printing cb m0" "prints cb" for cb m0
  by unfold_locales (simp add: printing_def prints_refl, erule (1) prints_trans, auto simp: printing_def prints_def quiet_eq_def)

lemma kprintf_says:
  assumes "CHR 0x00 \<notin> set str" and "length str < 4294967296" and "\<And>s. complete {} None (lit str) (args s)"
  shows "says (printing cb m0) (prints cb) (\<lambda>s. kprintf cb str (args s) s)"
  unfolding says_def printing_def using kprintf_prints [OF _ _ assms] by blast

lemma kprintf_says_text:
  assumes "CHR 0x00 \<notin> set str" and "length str < 4294967296" and "complete {} None (lit str) args"
  shows "says_text (printing cb m0) (prints cb) (render (\<lambda>_. []) None (lit str) args) (kprintf cb str args)"
  unfolding says_text_def printing_def using kprintf_prints [OF _ _ assms] by blast

text \<open>Blocks that console output does not change.\<close>

definition quiet :: "u32 \<Rightarrow> u32 \<Rightarrow> nat \<Rightarrow> bool" where
  "quiet cb p n \<longleftrightarrow> (\<forall>a. within p n a \<longrightarrow> \<not> vram a \<and> \<not> within cb 64 a)"

lemma quiet_load32:
  assumes "quiet_eq cb m0 m" and "quiet cb p n" and "i + 4 \<le> n" and "n \<le> 4294967296"
  shows "load32 m (p + of_nat i) = load32 m0 (p + of_nat i)"
proof (rule load32_cong)
  fix k :: nat assume "k < 4"
  then have "i + k < n" "i + k < 4294967296" using assms(3,4) by simp_all
  then have "within p n (p + of_nat (i + k))" by (simp only: within_offset)
  then show "m (p + of_nat i + of_nat k) = m0 (p + of_nat i + of_nat k)"
    using assms(1,2) by (simp add: quiet_def quiet_eq_def add.assoc)
qed

end
