(* ===== verification/Kernel.thy ===== *)
theory Kernel
  imports Vidmap Talker
begin

text \<open>
  The start of the kernel: \<open>start\<close> of \<^verbatim>\<open>student-distrib/boot.S\<close> and \<open>entry\<close> of \<^verbatim>\<open>student-distrib/kernel.c\<close>, with the
  structures of \<^verbatim>\<open>student-distrib/multiboot.h\<close> read from memory at their offsets.

  \<open>boot_layout\<close> holds the addresses the linker chooses: the local descriptor table, the task state
  segment and the string literal \<open>shell\<close>.  \<open>kernel_entry\<close> ends in one of three ways: it returns to
  \<^verbatim>\<open>boot.S\<close>, which then halts; it halts itself, after \<open>execute\<close> has returned; or \<open>execute\<close> leaves the kernel.
\<close>

unbundle bit_operations_syntax

section \<open>State\<close>

record booted = kernel +
  ldt_desc_ptr :: seg_desc
  tss_desc_ptr :: seg_desc
  ldtr :: u16
  tr :: u16
  tss_ldt_segment_selector :: u16
  tss_ss0 :: u16

record boot_layout =
  ldt_addr :: u32
  ldt_size :: u32
  tss_addr :: u32
  tss_size :: u32
  shell_lit :: u32

datatype boot_outcome = Entry_returned | Entry_halts | Left_kernel outcome

abbreviation MULTIBOOT_BOOTLOADER_MAGIC :: u32 where "MULTIBOOT_BOOTLOADER_MAGIC \<equiv> 0x2BADB002"
abbreviation KERNEL_DS :: u16 where "KERNEL_DS \<equiv> 0x0018"
abbreviation KERNEL_TSS :: u16 where "KERNEL_TSS \<equiv> 0x0030"
abbreviation KERNEL_LDT :: u16 where "KERNEL_LDT \<equiv> 0x0038"
abbreviation TSS_SIZE :: u32 where "TSS_SIZE \<equiv> 104"

section \<open>The multiboot structures\<close>

definition mbi_flags :: "mem \<Rightarrow> u32 \<Rightarrow> u32" where "mbi_flags m mbi = load32 m mbi"
definition mbi_mem_lower :: "mem \<Rightarrow> u32 \<Rightarrow> u32" where "mbi_mem_lower m mbi = load32 m (mbi + 4)"
definition mbi_mem_upper :: "mem \<Rightarrow> u32 \<Rightarrow> u32" where "mbi_mem_upper m mbi = load32 m (mbi + 8)"
definition mbi_boot_device :: "mem \<Rightarrow> u32 \<Rightarrow> u32" where "mbi_boot_device m mbi = load32 m (mbi + 12)"
definition mbi_cmdline :: "mem \<Rightarrow> u32 \<Rightarrow> u32" where "mbi_cmdline m mbi = load32 m (mbi + 16)"
definition mbi_mods_count :: "mem \<Rightarrow> u32 \<Rightarrow> u32" where "mbi_mods_count m mbi = load32 m (mbi + 20)"
definition mbi_mods_addr :: "mem \<Rightarrow> u32 \<Rightarrow> u32" where "mbi_mods_addr m mbi = load32 m (mbi + 24)"
definition mbi_elf_sec :: "u32 \<Rightarrow> u32" where "mbi_elf_sec mbi = mbi + 28"
definition mbi_mmap_length :: "mem \<Rightarrow> u32 \<Rightarrow> u32" where "mbi_mmap_length m mbi = load32 m (mbi + 44)"
definition mbi_mmap_addr :: "mem \<Rightarrow> u32 \<Rightarrow> u32" where "mbi_mmap_addr m mbi = load32 m (mbi + 48)"

definition mod_start :: "mem \<Rightarrow> u32 \<Rightarrow> u32" where "mod_start m md = load32 m md"
definition mod_end :: "mem \<Rightarrow> u32 \<Rightarrow> u32" where "mod_end m md = load32 m (md + 4)"

definition CHECK_FLAG :: "u32 \<Rightarrow> nat \<Rightarrow> bool" where
  "CHECK_FLAG flags n \<longleftrightarrow> flags AND push_bit n 1 \<noteq> 0"

section \<open>What entry prints\<close>

definition show_basic :: "u32 \<Rightarrow> u32 \<Rightarrow> 'a console_scheme \<Rightarrow> 'a console_scheme option" where
  "show_basic cb mbi s = do {
     s \<leftarrow> kprintf cb (''flags = 0x%#x'' @ [CHR 0x0A]) [mbi_flags (mem s) mbi] s;
     s \<leftarrow> (if CHECK_FLAG (mbi_flags (mem s) mbi) 0
           then kprintf cb (''mem_lower = %uKB, mem_upper = %uKB'' @ [CHR 0x0A]) [mbi_mem_lower (mem s) mbi, mbi_mem_upper (mem s) mbi] s
           else Some s);
     s \<leftarrow> (if CHECK_FLAG (mbi_flags (mem s) mbi) 1
           then kprintf cb (''boot_device = 0x%#x'' @ [CHR 0x0A]) [mbi_boot_device (mem s) mbi] s else Some s);
     if CHECK_FLAG (mbi_flags (mem s) mbi) 2
     then kprintf cb (''cmdline = %s'' @ [CHR 0x0A]) [mbi_cmdline (mem s) mbi] s else Some s
   }"

function show_bytes :: "u32 \<Rightarrow> u32 \<Rightarrow> int \<Rightarrow> 'a console_scheme \<Rightarrow> 'a console_scheme option" where
  "show_bytes cb md i s =
     (if i < 16 then do {
        s \<leftarrow> kprintf cb ''0x%x '' [scast (mem s (mod_start (mem s) md + of_int i))] s;
        show_bytes cb md (i + 1) s
      } else Some s)"
  by pat_completeness auto
termination
  by (relation "measure (\<lambda>(cb, md, i, s). nat (16 - i))") auto

text \<open>\<^verbatim>\<open>while (mod_count < mbi->mods_count)\<close>: the comparison is unsigned.\<close>

partial_function (option) show_modules :: "u32 \<Rightarrow> u32 \<Rightarrow> u32 \<Rightarrow> u32 \<Rightarrow> 'a console_scheme \<Rightarrow> 'a console_scheme option" where
  "show_modules cb mbi mod_count md s =
     (if mod_count < mbi_mods_count (mem s) mbi then do {
        s \<leftarrow> kprintf cb (''Module %d loaded at address: 0x%#x'' @ [CHR 0x0A]) [mod_count, mod_start (mem s) md] s;
        s \<leftarrow> kprintf cb (''Module %d ends at address: 0x%#x'' @ [CHR 0x0A]) [mod_count, mod_end (mem s) md] s;
        s \<leftarrow> kprintf cb (''First few bytes of module:'' @ [CHR 0x0A]) [] s;
        s \<leftarrow> show_bytes cb md 0 s;
        s \<leftarrow> kprintf cb [CHR 0x0A] [] s;
        show_modules cb mbi (mod_count + 1) (md + 16) s
      } else Some s)"

definition show_elf :: "u32 \<Rightarrow> u32 \<Rightarrow> 'a console_scheme \<Rightarrow> 'a console_scheme option" where
  "show_elf cb mbi s =
     (if CHECK_FLAG (mbi_flags (mem s) mbi) 5 then
        (let elf_sec = mbi_elf_sec mbi in
         kprintf cb (''elf_sec: num = %u, size = 0x%#x, addr = 0x%#x, shndx = 0x%#x'' @ [CHR 0x0A])
           [load32 (mem s) elf_sec, load32 (mem s) (elf_sec + 4), load32 (mem s) (elf_sec + 8), load32 (mem s) (elf_sec + 12)] s)
      else Some s)"

text \<open>An entry of the memory map: \<open>size\<close> 0, \<open>base_addr_low\<close> 4, \<open>base_addr_high\<close> 8, \<open>length_low\<close> 12, \<open>length_high\<close> 16, \<open>type\<close> 20;
  the next entry starts \<open>size + 4\<close> bytes further on.\<close>

partial_function (option) show_mmap_from :: "u32 \<Rightarrow> u32 \<Rightarrow> u32 \<Rightarrow> 'a console_scheme \<Rightarrow> 'a console_scheme option" where
  "show_mmap_from cb mbi mmap s =
     (if mmap < mbi_mmap_addr (mem s) mbi + mbi_mmap_length (mem s) mbi then do {
        s \<leftarrow> kprintf cb ('' size = 0x%x,     base_addr = 0x%#x%#x'' @ [CHR 0x0A] @ ''     type = 0x%x,  length    = 0x%#x%#x'' @ [CHR 0x0A])
              [load32 (mem s) mmap, load32 (mem s) (mmap + 8), load32 (mem s) (mmap + 4), load32 (mem s) (mmap + 20),
               load32 (mem s) (mmap + 16), load32 (mem s) (mmap + 12)] s;
        show_mmap_from cb mbi (mmap + load32 (mem s) mmap + 4) s
      } else Some s)"

definition show_mmap :: "u32 \<Rightarrow> u32 \<Rightarrow> 'a console_scheme \<Rightarrow> 'a console_scheme option" where
  "show_mmap cb mbi s =
     (if CHECK_FLAG (mbi_flags (mem s) mbi) 6 then do {
        s \<leftarrow> kprintf cb (''mmap_addr = 0x%#x, mmap_length = 0x%x'' @ [CHR 0x0A]) [mbi_mmap_addr (mem s) mbi, mbi_mmap_length (mem s) mbi] s;
        show_mmap_from cb mbi (mbi_mmap_addr (mem s) mbi) s
      } else Some s)"

section \<open>Descriptors and devices\<close>

definition the_ldt_desc :: "boot_layout \<Rightarrow> seg_desc" where
  "the_ldt_desc b = SET_LDT_PARAMS
     \<lparr>seg_lim_15_00 = 0, base_15_00 = 0, base_23_16 = 0, seg_type = 0x2, sys = 0, seg_dpl = 0, seg_present = 1, seg_lim_19_16 = 0,
      avail = 0, seg_reserved = 0, opsize = 1, granularity = 0, base_31_24 = 0\<rparr> (ldt_addr b) (ldt_size b)"

definition the_tss_desc :: "boot_layout \<Rightarrow> seg_desc" where
  "the_tss_desc b = SET_TSS_PARAMS
     \<lparr>seg_lim_15_00 = ucast (TSS_SIZE AND 0x0000FFFF), base_15_00 = 0, base_23_16 = 0, seg_type = 0x9, sys = 0, seg_dpl = 0, seg_present = 1,
      seg_lim_19_16 = unat (TSS_SIZE AND 0x000F0000) mod 16, avail = 0, seg_reserved = 0, opsize = 0, granularity = 0, base_31_24 = 0\<rparr>
     (tss_addr b) (tss_size b)"

definition init_descriptors :: "boot_layout \<Rightarrow> 'a booted_scheme \<Rightarrow> 'a booted_scheme" where
  "init_descriptors b s =
     (let s = s\<lparr>ldt_desc_ptr := the_ldt_desc b\<rparr>;
          s = s\<lparr>ldtr := KERNEL_LDT\<rparr>;
          s = s\<lparr>tss_desc_ptr := the_tss_desc b\<rparr>;
          s = s\<lparr>tss_ldt_segment_selector := KERNEL_LDT, tss_ss0 := KERNEL_DS, tss_esp0 := 0x800000\<rparr>
      in s\<lparr>tr := KERNEL_TSS\<rparr>)"

definition init_devices :: "layout \<Rightarrow> device \<Rightarrow> u32 \<Rightarrow> 'a kernel_scheme \<Rightarrow> 'a kernel_scheme" where
  "init_devices l dev mbi s =
     (let s = i8259_init s;
          md = mbi_mods_addr (mem s) mbi;
          s = snd (filesystem_init (mod_start (mem s) md) (mod_end (mem s) md) s);
          s = rtc_init dev s;
          s = init_paging (page_table_shell l) (page_directories l) s;
          s = sti s;
          s = clear_screen s
      in keyboard_init s)"

section \<open>The whole of it\<close>

definition kernel_entry :: "layout \<Rightarrow> boot_layout \<Rightarrow> device \<Rightarrow> u32 \<Rightarrow> u32 \<Rightarrow> 'a booted_scheme \<Rightarrow> (boot_outcome \<times> 'a booted_scheme) option" where
  "kernel_entry l b dev magic addr s = do {
     let cb = printf_buf l;
     let s = clear s;
     if magic \<noteq> MULTIBOOT_BOOTLOADER_MAGIC then do {
       s \<leftarrow> kprintf cb (''Invalid magic number: 0x%#x'' @ [CHR 0x0A]) [magic] s;
       Some (Entry_returned, s)
     }
     else do {
       let mbi = addr;
       s \<leftarrow> show_basic cb mbi s;
       s \<leftarrow> (if CHECK_FLAG (mbi_flags (mem s) mbi) 3 then show_modules cb mbi 0 (mbi_mods_addr (mem s) mbi) s else Some s);
       if CHECK_FLAG (mbi_flags (mem s) mbi) 4 \<and> CHECK_FLAG (mbi_flags (mem s) mbi) 5 then do {
         s \<leftarrow> kprintf cb (''Both bits 4 and 5 are set.'' @ [CHR 0x0A]) [] s;
         Some (Entry_returned, s)
       }
       else do {
         s \<leftarrow> show_elf cb mbi s;
         s \<leftarrow> show_mmap cb mbi s;
         let s = init_descriptors b s;
         let s = init_devices l dev mbi s;
         (r, s) \<leftarrow> execute l (shell_lit b) s;
         Some (case r of Returned _ \<Rightarrow> Entry_halts | _ \<Rightarrow> Left_kernel r, s)
       }
     }
   }"

text \<open>\<open>start\<close> of \<^verbatim>\<open>boot.S\<close>: interrupts off, the interrupt table, then \<open>entry\<close>.  Loading the segment registers and the stack
  pointer has no counterpart in the state.\<close>

definition start :: "layout \<Rightarrow> boot_layout \<Rightarrow> device \<Rightarrow> u32 \<Rightarrow> (entry_point \<Rightarrow> u32) \<Rightarrow> u32 \<Rightarrow> u32 \<Rightarrow> 'a booted_scheme \<Rightarrow> (boot_outcome \<times> 'a booted_scheme) option" where
  "start l b dev idt_desc_ptr entry_of eax ebx s =
     (let s = cli s;
          s = IDT_init idt_desc_ptr entry_of s
      in kernel_entry l b dev eax ebx s)"

text \<open>\<open>test_paging\<close> is not called.  It reads address 0, which no table maps, so it never returns.\<close>

definition test_paging :: "u32 \<Rightarrow> 'a paging_scheme \<Rightarrow> 'a paging_scheme option" where
  "test_paging cb s = do {
     s \<leftarrow> kprintf cb (''--------------Page test---------------'' @ [CHR 0x0A]) [] s;
     s \<leftarrow> kprintf cb (''Expected outout: page falut exception!'' @ [CHR 0x0A]) [] s;
     _ \<leftarrow> translate s 0;
     Some s
   }"

declare show_bytes.simps [simp del]

end
