(* ===== verification/KernelProps.thy ===== *)
theory KernelProps
  imports Kernel
begin

text \<open>
  The start of the kernel: with a boot loader that honours the multiboot protocol and a boot module that
  contains the program \<open>shell\<close>, the kernel sets up its devices and address space and enters the shell as process 1.
\<close>

unbundle bit_operations_syntax

section \<open>Printing the boot information\<close>

lemmas fmt_simps = lit_def takes_arg_def

text \<open>The fields of the information structure are the same whatever has been printed.\<close>

lemma quiet_mbi:
  assumes "quiet_eq cb m0 m" and "quiet cb mbi 52"
  shows "mbi_flags m mbi = mbi_flags m0 mbi" "mbi_cmdline m mbi = mbi_cmdline m0 mbi" "mbi_mods_count m mbi = mbi_mods_count m0 mbi"
    "mbi_mods_addr m mbi = mbi_mods_addr m0 mbi" "mbi_mmap_addr m mbi = mbi_mmap_addr m0 mbi" "mbi_mmap_length m mbi = mbi_mmap_length m0 mbi"
  using quiet_load32 [OF assms, of 0] quiet_load32 [OF assms, of 16] quiet_load32 [OF assms, of 20] quiet_load32 [OF assms, of 24]
    quiet_load32 [OF assms, of 48] quiet_load32 [OF assms, of 44]
  by (simp_all add: mbi_flags_def mbi_cmdline_def mbi_mods_count_def mbi_mods_addr_def mbi_mmap_addr_def mbi_mmap_length_def)

lemma str_args_quiet:
  assumes "str_args cb {p} (\<lambda>_. cs) m0" and "quiet_eq cb m0 m"
  shows "str_args cb {p} (\<lambda>_. cs) m"
proof -
  have s: "cstr (ptr m0 p) cs" "off_vram p (Suc (length cs))" "separate p (Suc (length cs)) cb 64"
    using assms(1) by (simp_all add: str_args_def)
  have "m a = m0 a" if "within p (Suc (length cs)) a" for a
    using assms(2) separate_within [OF s(3) that] s(2) separate_within [of p "Suc (length cs)" VIDEO 4000 a] that
    by (auto simp: quiet_eq_def off_vram_def vram_def)
  then show ?thesis using s string_at.local [of p cs m m0] by (simp add: str_args_def)
qed

lemma show_cmdline_says:
  assumes "quiet cb mbi 52" and "CHECK_FLAG (mbi_flags m0 mbi) 2 \<Longrightarrow> str_args cb {mbi_cmdline m0 mbi} (\<lambda>_. cs) m0"
  shows "says (printing cb m0) (prints cb) (\<lambda>s. if CHECK_FLAG (mbi_flags (mem s) mbi) 2
    then kprintf cb (''cmdline = %s'' @ [CHR 0x0A]) [mbi_cmdline (mem s) mbi] s else Some s)"
  unfolding says_def
proof (intro allI impI)
  fix s :: "'a console_scheme" assume s: "printing cb m0 s"
  then have on: "on_screen s" "off_vram cb 64" "quiet_eq cb m0 (mem s)" by (simp_all add: printing_def)
  note q = quiet_mbi [OF on(3) assms(1)]
  let ?fmt = "''cmdline = %s'' @ [CHR 0x0A]"
  show "\<exists>t xs. (if CHECK_FLAG (mbi_flags (mem s) mbi) 2 then kprintf cb ?fmt [mbi_cmdline (mem s) mbi] s else Some s) = Some t \<and> prints cb xs s t"
  proof (cases "CHECK_FLAG (mbi_flags m0 mbi) 2")
    case True
    have "cstr (lit_ptr ?fmt) (lit ?fmt)" by (rule cstr_lit_ptr) simp_all
    moreover have "complete {mbi_cmdline m0 mbi} None (lit ?fmt) [mbi_cmdline m0 mbi]" by (simp add: fmt_simps)
    ultimately show ?thesis
      using printf_prints [OF on(1,2) str_args_quiet [OF assms(2) [OF True] on(3)]] True q by (fastforce simp: kprintf_def)
  next
    case False
    then show ?thesis using q prints_refl [OF on(1)] by auto
  qed
qed

lemma show_basic_says:
  assumes "quiet cb mbi 52" and "CHECK_FLAG (mbi_flags m0 mbi) 2 \<Longrightarrow> str_args cb {mbi_cmdline m0 mbi} (\<lambda>_. cs) m0"
  shows "says (printing cb m0) (prints cb) (show_basic cb mbi)"
  unfolding show_basic_def
  by (intro printer.seq says_if printer.skip kprintf_says show_cmdline_says [OF assms]) (simp_all add: fmt_simps)

lemma show_bytes_says: "says (printing cb m0) (prints cb) (show_bytes cb md i :: 'a console_scheme \<Rightarrow> _)"
proof (induction "nat (16 - i)" arbitrary: i)
  case 0
  then have "(show_bytes cb md i :: 'a console_scheme \<Rightarrow> _) = Some" by (intro ext) (subst show_bytes.simps, simp)
  then show ?case using printer.skip by simp
next
  case (Suc n)
  then have "(show_bytes cb md i :: 'a console_scheme \<Rightarrow> _) = (\<lambda>s. Option.bind (kprintf cb ''0x%x '' [scast (mem s (mod_start (mem s) md + of_int i))] s) (show_bytes cb md (i + 1)))"
    using Suc.hyps(2) by (intro ext) (subst show_bytes.simps, auto)
  moreover have "says (printing cb m0) (prints cb) (show_bytes cb md (i + 1) :: 'a console_scheme \<Rightarrow> _)" using Suc by simp
  ultimately show ?case by (simp only:) (intro printer.seq kprintf_says; simp add: fmt_simps)
qed

definition show_module :: "u32 \<Rightarrow> u32 \<Rightarrow> u32 \<Rightarrow> 'a console_scheme \<Rightarrow> 'a console_scheme option" where
  "show_module cb mod_count md s = do {
     s \<leftarrow> kprintf cb (''Module %d loaded at address: 0x%#x'' @ [CHR 0x0A]) [mod_count, mod_start (mem s) md] s;
     s \<leftarrow> kprintf cb (''Module %d ends at address: 0x%#x'' @ [CHR 0x0A]) [mod_count, mod_end (mem s) md] s;
     s \<leftarrow> kprintf cb (''First few bytes of module:'' @ [CHR 0x0A]) [] s;
     s \<leftarrow> show_bytes cb md 0 s;
     kprintf cb [CHR 0x0A] [] s
   }"

lemma show_module_says: "says (printing cb m0) (prints cb) (show_module cb c md)"
  unfolding show_module_def
  by (intro printer.seq kprintf_says show_bytes_says) (simp_all add: fmt_simps)

lemma show_modules_says:
  assumes "quiet cb mbi 52"
  shows "says (printing cb m0) (prints cb) (show_modules cb mbi c md)"
proof (induction "unat (mbi_mods_count m0 mbi) - unat c" arbitrary: c md rule: less_induct)
  case less
  let ?N = "mbi_mods_count m0 mbi"
  show ?case
    unfolding says_def
  proof (intro allI impI)
    fix s :: "'a console_scheme" assume s: "printing cb m0 s"
    then have q: "mbi_mods_count (mem s) mbi = ?N" using quiet_mbi(3) [OF _ assms] by (simp add: printing_def)
    show "\<exists>t xs. show_modules cb mbi c md s = Some t \<and> prints cb xs s t"
    proof (cases "c < ?N")
      case True
      then have lt: "unat c < unat ?N" by (simp add: word_less_nat_alt)
      then have "Suc (unat c) < 4294967296" using unat_lt_u32 [of ?N] by linarith
      then have "unat (c + 1) = Suc (unat c)" by (simp add: unat_word_ariths)
      then have dec: "unat ?N - unat (c + 1) < unat ?N - unat c" using lt by simp
      have "show_modules cb mbi c md s = Option.bind (show_module cb c md s) (show_modules cb mbi (c + 1) (md + 16))"
        using q True by (subst show_modules.simps) (simp add: show_module_def)
      then show ?thesis using saysD [OF printer.seq [OF show_module_says less [OF dec]] s] by simp
    next
      case False
      then have "show_modules cb mbi c md s = Some s" using q by (subst show_modules.simps) simp
      then show ?thesis using saysD [OF printer.skip s] by simp
    qed
  qed
qed

lemma show_elf_says: "says (printing cb m0) (prints cb) (show_elf cb mbi)"
  unfolding show_elf_def Let_def by (intro says_if printer.skip kprintf_says) (simp_all add: fmt_simps)

text \<open>The walk over the memory map ends after at most \<open>k\<close> entries.\<close>

primrec mmap_ends :: "u32 \<Rightarrow> nat \<Rightarrow> mem \<Rightarrow> u32 \<Rightarrow> u32 \<Rightarrow> bool" where
  "mmap_ends cb 0 m p stop \<longleftrightarrow> \<not> p < stop"
| "mmap_ends cb (Suc k) m p stop \<longleftrightarrow> (p < stop \<longrightarrow> quiet cb p 4 \<and> mmap_ends cb k m (p + load32 m p + 4) stop)"

lemma show_mmap_from_says:
  assumes "quiet cb mbi 52" and "mmap_ends cb k m0 p (mbi_mmap_addr m0 mbi + mbi_mmap_length m0 mbi)"
  shows "says (printing cb m0) (prints cb) (show_mmap_from cb mbi p)"
  using assms(2)
proof (induction k arbitrary: p)
  case 0
  have "show_mmap_from cb mbi p s = Some s" if "printing cb m0 s" for s :: "'a console_scheme"
    using quiet_mbi(5,6) [OF _ assms(1), of m0 "mem s"] that 0 by (subst show_mmap_from.simps) (simp add: printing_def)
  then show ?case using printer.skip by (simp add: says_def)
next
  case (Suc k)
  let ?stop = "mbi_mmap_addr m0 mbi + mbi_mmap_length m0 mbi"
  let ?line = "\<lambda>s. kprintf cb ('' size = 0x%x,     base_addr = 0x%#x%#x'' @ [CHR 0x0A] @ ''     type = 0x%x,  length    = 0x%#x%#x'' @ [CHR 0x0A])
    [load32 (mem s) p, load32 (mem s) (p + 8), load32 (mem s) (p + 4), load32 (mem s) (p + 20), load32 (mem s) (p + 16), load32 (mem s) (p + 12)] s"
  have line: "says (printing cb m0) (prints cb) ?line" by (rule kprintf_says) (simp_all add: fmt_simps)
  show ?case
    unfolding says_def
  proof (intro allI impI)
    fix s :: "'a console_scheme" assume s: "printing cb m0 s"
    note q = quiet_mbi(5,6) [OF _ assms(1)]
    show "\<exists>t xs. show_mmap_from cb mbi p s = Some t \<and> prints cb xs s t"
    proof (cases "p < ?stop")
      case True
      then have nxt: "quiet cb p 4" "mmap_ends cb k m0 (p + load32 m0 p + 4) ?stop" using Suc.prems by simp_all
      obtain t xs where t: "?line s = Some t" "prints cb xs s t" using saysD [OF line s] by blast
      then have tq: "printing cb m0 t" using printer.out_ok [OF s] by blast
      have sz: "load32 (mem t) p = load32 m0 p" using quiet_load32 [OF _ nxt(1), of m0 "mem t" 0] tq by (simp add: printing_def)
      obtain u ys where u: "show_mmap_from cb mbi (p + load32 m0 p + 4) t = Some u" "prints cb ys t u"
        using saysD [OF Suc.IH [OF nxt(2)] tq] by blast
      have "show_mmap_from cb mbi p s = Some u"
        using True q [of m0 "mem s"] s t(1) u(1) sz by (subst show_mmap_from.simps) (simp add: printing_def)
      then show ?thesis using prints_trans [OF t(2) u(2)] by blast
    next
      case False
      then have "show_mmap_from cb mbi p s = Some s" using q [of m0 "mem s"] s by (subst show_mmap_from.simps) (simp add: printing_def)
      then show ?thesis using saysD [OF printer.skip s] by simp
    qed
  qed
qed

lemma show_mmap_says:
  assumes "quiet cb mbi 52"
    and "CHECK_FLAG (mbi_flags m0 mbi) 6 \<Longrightarrow> mmap_ends cb k m0 (mbi_mmap_addr m0 mbi) (mbi_mmap_addr m0 mbi + mbi_mmap_length m0 mbi)"
  shows "says (printing cb m0) (prints cb) (show_mmap cb mbi)"
  unfolding says_def
proof (intro allI impI)
  fix s :: "'a console_scheme" assume s: "printing cb m0 s"
  note q = quiet_mbi [OF _ assms(1)]
  let ?line = "\<lambda>s. kprintf cb (''mmap_addr = 0x%#x, mmap_length = 0x%x'' @ [CHR 0x0A]) [mbi_mmap_addr (mem s) mbi, mbi_mmap_length (mem s) mbi] s"
  have line: "says (printing cb m0) (prints cb) ?line" by (rule kprintf_says) (simp_all add: fmt_simps)
  show "\<exists>t xs. show_mmap cb mbi s = Some t \<and> prints cb xs s t"
  proof (cases "CHECK_FLAG (mbi_flags m0 mbi) 6")
    case True
    obtain t xs where t: "?line s = Some t" "prints cb xs s t" using saysD [OF line s] by blast
    then have tq: "printing cb m0 t" using printer.out_ok [OF s] by blast
    obtain u ys where u: "show_mmap_from cb mbi (mbi_mmap_addr m0 mbi) t = Some u" "prints cb ys t u"
      using saysD [OF show_mmap_from_says [OF assms(1) assms(2) [OF True]] tq] by blast
    have "show_mmap cb mbi s = Some u"
      using True q [of m0 "mem s"] q [of m0 "mem t"] s tq t(1) u(1) by (simp add: show_mmap_def printing_def)
    then show ?thesis using prints_trans [OF t(2) u(2)] by blast
  next
    case False
    then have "show_mmap cb mbi s = Some s" using q [of m0 "mem s"] s by (simp add: show_mmap_def printing_def)
    then show ?thesis using saysD [OF printer.skip s] by simp
  qed
qed



section \<open>The initialisation functions\<close>

text \<open>What none of them but \<open>filesystem_init\<close> changes.\<close>

definition settled :: "'a kernel_scheme \<Rightarrow> _" where
  "settled s = (my_boot_block s, file_addr s, dentries s, inodes s, counter s, idt s, idtr s,
     (caps_flag s, shift_left_flag s, shift_right_flag s, storage_buffer_counter s))"

lemma settledD:
  "settled s = settled t \<Longrightarrow> my_boot_block s = my_boot_block t \<and> file_addr s = file_addr t \<and> dentries s = dentries t \<and> inodes s = inodes t \<and>
    counter s = counter t \<and> idt s = idt t \<and> idtr s = idtr t \<and> caps_flag s = caps_flag t \<and> shift_left_flag s = shift_left_flag t \<and>
    shift_right_flag s = shift_right_flag t \<and> storage_buffer_counter s = storage_buffer_counter t"
  by (simp add: settled_def)

lemma settled_ops [simp]:
  fixes s :: "'a kernel_scheme"
  shows "settled (i8259_init s) = settled s" "settled (rtc_init dev s) = settled s" "settled (init_paging pt pd s) = settled s"
    "settled (sti s) = settled s" "settled (clear_screen s) = settled s" "settled (keyboard_init s) = settled s"
proof -
  show "settled (i8259_init s) = settled s" "settled (sti s) = settled s" "settled (clear_screen s) = settled s"
    by (simp_all add: settled_def i8259_init_def sti_def clear_screen_def clear_def outb_def Let_def)
  show "settled (rtc_init dev s) = settled s"
    by (simp add: settled_def rtc_init_def enable_irq_def set_master_mask_def set_slave_mask_def outb_def inb_def cli_def sti_def Let_def)
  show "settled (init_paging pt pd s) = settled s"
    by (simp add: settled_def init_paging_def set_control_registers_def load_cr3_def show_window_def save_window_def Let_def split: option.splits)
  show "settled (keyboard_init s) = settled s"
    by (simp add: settled_def keyboard_init_def enable_irq_def set_master_mask_def init_screen_x_and_y_def update_terminal_cursor_def outb_def Let_def)
qed

lemma ops_mem [simp]:
  "mem (i8259_init s) = mem s" "mem (rtc_init dev t) = mem t" "mem (sti s) = mem s" "mem (keyboard_init u) = mem u"
  by (simp_all add: i8259_init_def rtc_init_def keyboard_init_def enable_irq_def set_master_mask_def set_slave_mask_def
      init_screen_x_and_y_def update_terminal_cursor_def outb_def inb_def cli_def sti_def Let_def)

lemma mem_clear_screen: "\<not> vram a \<Longrightarrow> mem (clear_screen s) a = mem s a"
  unfolding clear_screen_clear using hide_vram_eqD [OF off_screen_mem [OF off_screen_clear]] by blast

lemma mem_init_paging:
  "\<not> within pt 4096 a \<Longrightarrow> \<not> within pd 4096 a \<Longrightarrow> \<not> within WINDOW WINDOW_SIZE a \<Longrightarrow> mem (init_paging pt pd s) a = mem s a"
  by (simp add: init_paging_def init_tables_other)

lemma reserved_clear_init:
  assumes "tables_ok pt pd" and "reserved_clear pd m"
  shows "reserved_clear pd (init_tables pt pd m)"
proof -
  let ?m = "init_tables pt pd m"
  have dir: "page_dir pd 0 = pd" by (simp add: page_dir_def)
  have "get_field 13 9 (entry ?m (page_dir pd e) i) = 0" if e: "e < 6" and i: "i = 1 \<or> i = 32" for e i
  proof (cases "e = 0")
    case True
    then show ?thesis
      using init_tables_entry(1) [OF table_separate(1) [OF assms(1), of 0, unfolded dir], of i m] reserved_clearD [OF assms(2), of 0 i] i dir
      by (auto simp: reserved_view simp del: One_nat_def)
  next
    case False
    have "?m a = m a" if "within (page_dir pd e) 4096 a" for a
      using init_tables_other [of pt a pd m] separate_within [OF directories_separate [OF assms(1) e _ False] that]
        separate_within [OF table_separate(2) [OF assms(1) e] that] dir by simp
    then show ?thesis using entry_same [of "page_dir pd e" ?m m i] reserved_clearD [OF assms(2) e i] i by auto
  qed
  then show ?thesis by (simp add: reserved_clear_def del: One_nat_def)
qed

lemma reserved_clear_init_paging:
  assumes "tables_ok pt pd" and "reserved_clear pd (mem s)"
  shows "reserved_clear pd (mem (init_paging pt pd s))"
proof -
  have "mem (init_paging pt pd s) a = init_tables pt pd (mem s) a" if "d < 6" "within (page_dir pd d) 4096 a" for d a
    using separate_within [OF tables_off_window(2) [OF assms(1) that(1)] that(2)] by (simp add: init_paging_def)
  then show ?thesis using reserved_clear_cong reserved_clear_init [OF assms] by metis
qed

lemma irq_enabled_masks: "master_mask s = master_mask t \<Longrightarrow> slave_mask s = slave_mask t \<Longrightarrow> irq_enabled s k = irq_enabled t k"
  by (simp add: irq_enabled_def)

lemma irqs_after_init:
  fixes s :: "'a kernel_scheme"
  shows "irq_enabled (init_devices l dev mbi s) k \<longleftrightarrow> irq_enabled s k \<or> k \<in> {1, 2, 8}"
proof -
  define s1 where "s1 = i8259_init s"
  define s2 where "s2 = snd (filesystem_init (mod_start (mem s1) (mbi_mods_addr (mem s1) mbi)) (mod_end (mem s1) (mbi_mods_addr (mem s1) mbi)) s1)"
  define s3 where "s3 = rtc_init dev s2"
  define s4 where "s4 = clear_screen (sti (init_paging (page_table_shell l) (page_directories l) s3))"
  have "init_devices l dev mbi s = keyboard_init s4" by (simp add: init_devices_def s1_def s2_def s3_def s4_def Let_def)
  also have "irq_enabled \<dots> k \<longleftrightarrow> irq_enabled s4 k \<or> k = 1"
  proof -
    let ?t = "(update_terminal_cursor (init_screen_x_and_y (s4\<lparr>buffer := replicate BUF_SIZE 0, storage_buffer := replicate BUF_SIZE 0,
      buffer_content_counter := 0, readable_flag := 0, backspacable_counter := 0\<rparr>)))\<lparr>index_file := 0, count := 1\<rparr>"
    have "keyboard_init s4 = enable_irq (of_nat 1) ?t" by (simp add: keyboard_init_def Let_def)
    moreover have "irq_enabled ?t k = irq_enabled s4 k"
      by (rule irq_enabled_masks) (simp_all add: init_screen_x_and_y_def update_terminal_cursor_def outb_def Let_def)
    ultimately show ?thesis using irq_enabled_enable [of 1 ?t k] by simp
  qed
  also have "irq_enabled s4 k = irq_enabled s3 k"
    by (rule irq_enabled_masks) (simp_all add: s4_def clear_screen_def clear_def sti_def init_paging_def set_control_registers_def load_cr3_def
        show_window_def save_window_def Let_def split: option.splits)
  also have "irq_enabled s3 k \<longleftrightarrow> irq_enabled s2 k \<or> k = 2 \<or> k = 8" using rtc_init_correct [of dev s2 k] by (simp add: s3_def)
  also have "irq_enabled s2 k = irq_enabled s k"
    by (rule irq_enabled_masks) (simp_all add: s2_def s1_def filesystem_init_def i8259_init_def outb_def Let_def)
  finally show ?thesis by auto
qed

lemma keyboard_after_init:
  fixes s :: "'a kernel_scheme"
  assumes "caps_flag s \<in> {0, 1}" and "shift_left_flag s \<in> {0, 1}" and "shift_right_flag s \<in> {0, 1}"
    and "0 \<le> storage_buffer_counter s" and "storage_buffer_counter s \<le> 129"
  shows "kb_ok (keyboard_init s)" "line_of (keyboard_init s) = []" "ready_of (keyboard_init s) = None"
    "col (term_of (keyboard_init s)) = 0" "row (term_of (keyboard_init s)) = 0" "cells (term_of (keyboard_init s)) = cells (term_of s)"
  using assms
  by (simp_all add: keyboard_init_def kb_ok_def line_of_def ready_of_def on_screen_def enable_irq_def set_master_mask_def init_screen_x_and_y_def
      update_terminal_cursor_def outb_def Let_def term_of_def)



text \<open>The state \<open>execute\<close> is called in.\<close>

lemma init_devices_ok:
  fixes s :: "'a kernel_scheme" and mbi :: u32
  defines "ms \<equiv> mod_start (mem s) (mbi_mods_addr (mem s) mbi)" and "me \<equiv> mod_end (mem s) (mbi_mods_addr (mem s) mbi)"
  assumes "tables_ok (page_table_shell l) (page_directories l)" and "reserved_clear (page_directories l) (mem s)"
    and "caps_flag s \<in> {0, 1}" and "shift_left_flag s \<in> {0, 1}" and "shift_right_flag s \<in> {0, 1}"
    and "0 \<le> storage_buffer_counter s" and "storage_buffer_counter s \<le> 129"
  shows "settled (init_devices l dev mbi s) = settled (snd (filesystem_init ms me s))"
    and "only [(VIDEO, 4000), (page_table_shell l, 4096), (page_directories l, 24576), (WINDOW, WINDOW_SIZE)] (mem s) (mem (init_devices l dev mbi s))"
    and "reserved_clear (page_directories l) (mem (init_devices l dev mbi s))"
    and "kb_ok (init_devices l dev mbi s)" and "line_of (init_devices l dev mbi s) = []" and "ready_of (init_devices l dev mbi s) = None"
    and "term_of (init_devices l dev mbi s) = t_clear t"
proof -
  let ?pt = "page_table_shell l" and ?pd = "page_directories l"
  define s1 where "s1 = i8259_init s"
  define s2 where "s2 = snd (filesystem_init ms me s1)"
  define s3 where "s3 = rtc_init dev s2"
  define s4 where "s4 = init_paging ?pt ?pd s3"
  define s6 where "s6 = clear_screen (sti s4)"
  have d: "init_devices l dev mbi s = keyboard_init s6"
    by (simp add: init_devices_def s1_def s2_def s3_def s4_def s6_def ms_def me_def Let_def)
  have m3: "mem s3 = mem s" by (simp add: s3_def s2_def s1_def filesystem_init_def Let_def)
  have st: "settled s2 = settled (snd (filesystem_init ms me s))"
    by (simp add: s2_def s1_def settled_def filesystem_init_def i8259_init_def outb_def Let_def)
  then show "settled (init_devices l dev mbi s) = settled (snd (filesystem_init ms me s))"
    by (simp add: d s6_def s4_def s3_def)
  have sub: "within ?pd 24576 a" if "within ?pd 4096 a" for a using within_sub_block [of ?pd 0 4096 a 24576] that by simp
  show "only [(VIDEO, 4000), (?pt, 4096), (?pd, 24576), (WINDOW, WINDOW_SIZE)] (mem s) (mem (init_devices l dev mbi s))"
    unfolding only_def d s6_def using mem_init_paging [of ?pt _ ?pd s3] sub m3 by (auto simp: mem_clear_screen vram_def s4_def)
  have "mem s6 a = mem s4 a" if "e < 6" "within (page_dir ?pd e) 4096 a" for e a
  proof -
    have "separate (page_dir ?pd e) 4096 VIDEO 4000"
      using unat_directory [OF assms(3) that(1)] assms(3) that(1) by (intro separateI) (auto simp: tables_ok_def)
    then have "\<not> vram a" using separate_within that(2) by (auto simp: vram_def)
    then show ?thesis by (simp add: s6_def mem_clear_screen)
  qed
  then have "reserved_clear ?pd (mem s6) = reserved_clear ?pd (mem s4)" by (rule reserved_clear_cong)
  then show "reserved_clear ?pd (mem (init_devices l dev mbi s))"
    using reserved_clear_init_paging [OF assms(3), of s3] assms(4) m3 by (simp add: d s4_def)
  have "settled s6 = settled s2" by (simp add: s6_def s4_def s3_def)
  moreover have "caps_flag s2 = caps_flag s" "shift_left_flag s2 = shift_left_flag s" "shift_right_flag s2 = shift_right_flag s"
    "storage_buffer_counter s2 = storage_buffer_counter s"
    by (simp_all add: s2_def s1_def filesystem_init_def i8259_init_def outb_def Let_def)
  ultimately have "caps_flag s6 = caps_flag s" "shift_left_flag s6 = shift_left_flag s" "shift_right_flag s6 = shift_right_flag s"
    "storage_buffer_counter s6 = storage_buffer_counter s" by (auto dest: settledD)
  then have "caps_flag s6 \<in> {0, 1}" "shift_left_flag s6 \<in> {0, 1}" "shift_right_flag s6 \<in> {0, 1}" "0 \<le> storage_buffer_counter s6"
    "storage_buffer_counter s6 \<le> 129" using assms(5-9) by simp_all
  note k = keyboard_after_init [OF this]
  show "kb_ok (init_devices l dev mbi s)" "line_of (init_devices l dev mbi s) = []" "ready_of (init_devices l dev mbi s) = None"
    using k by (simp_all add: d)
  have "term_of s6 = t_clear (term_of (sti s4))" by (simp add: s6_def clear_screen_clear clear_refines)
  then show "term_of (init_devices l dev mbi s) = t_clear t" using k(4-6) by (simp add: d t_clear_def)
qed

text \<open>A command that could be launched can still be launched when other memory has changed.\<close>

lemma launch_ok_keep:
  fixes s :: "'a kernel_scheme" and s' :: "'b kernel_scheme"
  assumes "launch_ok l names c p xs args i s" and "only bs (mem s) (mem s')" and "off_image bs s"
    and "my_boot_block s' = my_boot_block s" and "file_addr s' = file_addr s" and "dentries s' = dentries s" and "inodes s' = inodes s"
    and "counter s' = counter s" and "reserved_clear (page_directories l) (mem s')"
    and "\<And>q k. (q, k) \<in> set bs \<Longrightarrow> apart c (34 + length args) q k"
  shows "launch_ok l names c p xs args i s'" and "contents i s' = contents i s"
proof -
  note ok = assms(1) [unfolded launch_ok_def]
  have p: "p \<le> 32" "length args < 1024" using ok by (simp_all add: first_space_def)
  have same: "mem s' a = mem s a" if "within c (34 + length args) a" for a using only_keeps [OF assms(2,10) that] .
  have at: "mem s' (c + of_nat j) = mem s (c + of_nat j)" if "j \<le> 32" for j using same that p(2) by simp
  have "first_space (mem s') c p" using ok at p by (simp add: first_space_def)
  moreover have "bytes_at (ptr (mem s') c) p = bytes_at (ptr (mem s) c) p" using at p by (intro bytes_at_cong) simp
  moreover have "cstr (ptr (mem s') (c + of_nat (Suc p))) args"
  proof -
    have "within c (34 + length args) a" if "within (c + of_nat (Suc p)) (Suc (length args)) a" for a
      using within_sub_block [OF that, of "34 + length args"] p by simp
    then show ?thesis using ok same string_at.local [of "c + of_nat (Suc p)" args "mem s'" "mem s"] by blast
  qed
  moreover have fs: "same_fs s s'" by (rule only_same_fs [OF assms(2,3)]) (use assms(4-7) in simp_all)
  have st: "stored (dentry_addr l) names xs i s" using ok by blast
  then have mt: "mounted s" by (simp add: stored_def)
  note k = stored_keep [OF st fs]
  then show "contents i s' = contents i s" by simp
  have "off_image (launch_blocks l (counter s + 1)) s'" using ok same_fs_transfer(2) [OF fs mt] by (simp add: off_image_def)
  ultimately show "launch_ok l names c p xs args i s'" unfolding launch_ok_def using ok k assms(8,9) by simp
qed

end
