(* ===== verification/Boot.thy ===== *)
theory Boot
  imports KernelProps
begin

text \<open>
  From the boot loader to the shell: what \<open>start\<close> does when the boot information is well formed and the boot module
  contains the program \<open>shell\<close>, and what it does when the boot information is rejected.
\<close>

unbundle bit_operations_syntax

section \<open>The boot information\<close>

text \<open>What \<open>entry\<close> relies on while it prints the boot information: the structure, the command line and the entries of the
  memory map lie outside video memory and the conversion buffer of \<open>printf\<close>, and the memory map has an end.\<close>

definition info_ok :: "u32 \<Rightarrow> u32 \<Rightarrow> byte list \<Rightarrow> nat \<Rightarrow> mem \<Rightarrow> bool" where
  "info_ok cb mbi cs k m \<longleftrightarrow> off_vram cb 64 \<and> quiet cb mbi 52 \<and>
     (CHECK_FLAG (mbi_flags m mbi) 2 \<longrightarrow> str_args cb {mbi_cmdline m mbi} (\<lambda>_. cs) m) \<and>
     (CHECK_FLAG (mbi_flags m mbi) 6 \<longrightarrow> mmap_ends cb k m (mbi_mmap_addr m mbi) (mbi_mmap_addr m mbi + mbi_mmap_length m mbi))"

text \<open>\<open>info\<close> is the part of \<open>entry\<close> before the check of bits 4 and 5, and \<open>more_info\<close> the part after it.\<close>

definition info :: "u32 \<Rightarrow> u32 \<Rightarrow> 'a console_scheme \<Rightarrow> 'a console_scheme option" where
  "info cb mbi s = Option.bind (show_basic cb mbi s)
     (\<lambda>s. if CHECK_FLAG (mbi_flags (mem s) mbi) 3 then show_modules cb mbi 0 (mbi_mods_addr (mem s) mbi) s else Some s)"

definition more_info :: "u32 \<Rightarrow> u32 \<Rightarrow> 'a console_scheme \<Rightarrow> 'a console_scheme option" where
  "more_info cb mbi s = Option.bind (show_elf cb mbi s) (show_mmap cb mbi)"

lemma says_param: "(\<And>x. says ok out (g x)) \<Longrightarrow> says ok out (\<lambda>s. g (f s) s)"
  by (simp add: says_def)

lemma info_says: "info_ok cb mbi cs k m0 \<Longrightarrow> says (printing cb m0) (prints cb) (info cb mbi)"
  unfolding info_def info_ok_def
  by (rule printer.seq [OF show_basic_says [where cs = cs] says_if [OF says_param [of _ _ "show_modules cb mbi 0", OF show_modules_says] printer.skip]]) simp_all

lemma more_info_says: "info_ok cb mbi cs k m0 \<Longrightarrow> says (printing cb m0) (prints cb) (more_info cb mbi)"
  unfolding more_info_def info_ok_def
  by (rule printer.seq [OF show_elf_says show_mmap_says [where k = k]]) simp_all

lemma printing_clear: "off_vram cb 64 \<Longrightarrow> printing cb (mem s) (clear s)"
  using hide_vram_eqD [OF off_screen_mem [OF off_screen_clear]] by (auto simp: printing_def on_screen_clear quiet_eq_def)

text \<open>The shape of \<open>entry\<close> when the magic number is right.\<close>

lemma kernel_entry_shape:
  "kernel_entry l b dev MULTIBOOT_BOOTLOADER_MAGIC mbi s = Option.bind (info (printf_buf l) mbi (clear s)) (\<lambda>s.
     if CHECK_FLAG (mbi_flags (mem s) mbi) 4 \<and> CHECK_FLAG (mbi_flags (mem s) mbi) 5
     then Option.bind (kprintf (printf_buf l) (''Both bits 4 and 5 are set.'' @ [CHR 0x0A]) [] s) (\<lambda>s. Some (Entry_returned, s))
     else Option.bind (more_info (printf_buf l) mbi s) (\<lambda>s.
       Option.bind (execute l (shell_lit b) (init_devices l dev mbi (init_descriptors b s)))
         (\<lambda>(r, s). Some (case r of Returned _ \<Rightarrow> Entry_halts | _ \<Rightarrow> Left_kernel r, s))))"
  by (simp add: kernel_entry_def info_def more_info_def Let_def cong: if_cong)

lemma kernel_entry_info:
  fixes s :: "'a booted_scheme"
  assumes "info_ok (printf_buf l) mbi cs k (mem s)"
  defines "both \<equiv> CHECK_FLAG (mbi_flags (mem s) mbi) 4 \<and> CHECK_FLAG (mbi_flags (mem s) mbi) 5"
  shows "\<exists>t xs. prints (printf_buf l) (xs @ (if both then lit (''Both bits 4 and 5 are set.'' @ [CHR 0x0A]) else [])) (clear s) t \<and> quiet_eq (printf_buf l) (mem s) (mem t) \<and>
    kernel_entry l b dev MULTIBOOT_BOOTLOADER_MAGIC mbi s =
      (if both then Some (Entry_returned, t)
       else Option.bind (execute l (shell_lit b) (init_devices l dev mbi (init_descriptors b t)))
         (\<lambda>(r, s). Some (case r of Returned _ \<Rightarrow> Entry_halts | _ \<Rightarrow> Left_kernel r, s)))"
proof -
  let ?cb = "printf_buf l"
  have cb: "off_vram ?cb 64" "quiet ?cb mbi 52" using assms(1) by (simp_all add: info_ok_def)
  have p0: "printing ?cb (mem s) (clear s)" by (rule printing_clear [OF cb(1)])
  obtain t1 xs1 where t1: "info ?cb mbi (clear s) = Some t1" "prints ?cb xs1 (clear s) t1" using saysD [OF info_says [OF assms(1)] p0] by blast
  have p1: "printing ?cb (mem s) t1" by (rule printer.out_ok [OF p0 t1(2)])
  then have f: "mbi_flags (mem t1) mbi = mbi_flags (mem s) mbi" using quiet_mbi(1) [OF _ cb(2)] by (simp add: printing_def)
  show ?thesis
  proof (cases both)
    case True
    let ?msg = "''Both bits 4 and 5 are set.'' @ [CHR 0x0A]"
    obtain t where t: "kprintf ?cb ?msg [] t1 = Some t" "prints ?cb (lit ?msg) t1 t"
      using kprintf_plain [of t1 ?cb ?msg] p1 by (auto simp: printing_def lit_def)
    have "printing ?cb (mem s) t" by (rule printer.out_ok [OF p1 t(2)])
    moreover have "prints ?cb (xs1 @ lit ?msg) (clear s) t" by (rule prints_trans [OF t1(2) t(2)])
    moreover have "kernel_entry l b dev MULTIBOOT_BOOTLOADER_MAGIC mbi s = Some (Entry_returned, t)"
      using True t1(1) t(1) f by (simp add: kernel_entry_shape both_def)
    ultimately show ?thesis using True unfolding printing_def by (intro exI [of _ t] exI [of _ xs1]) simp
  next
    case False
    obtain t xs where t: "more_info ?cb mbi t1 = Some t" "prints ?cb xs t1 t" using saysD [OF more_info_says [OF assms(1)] p1] by blast
    have "printing ?cb (mem s) t" by (rule printer.out_ok [OF p1 t(2)])
    moreover have "prints ?cb (xs1 @ xs) (clear s) t" by (rule prints_trans [OF t1(2) t(2)])
    moreover have "kernel_entry l b dev MULTIBOOT_BOOTLOADER_MAGIC mbi s =
        Option.bind (execute l (shell_lit b) (init_devices l dev mbi (init_descriptors b t)))
         (\<lambda>(r, s). Some (case r of Returned _ \<Rightarrow> Entry_halts | _ \<Rightarrow> Left_kernel r, s))"
      using False t1(1) t(1) f unfolding kernel_entry_shape both_def by auto
    ultimately show ?thesis using False unfolding printing_def by (intro exI [of _ t] exI [of _ "xs1 @ xs"]) simp
  qed
qed

section \<open>The file system in the boot module\<close>

lemma boot_block_keep:
  assumes "only bs (mem s) m" and "off_image bs s" and "mounted s"
  shows "boot_block_at m (fs_base s) = boot_block_at (mem s) (fs_base s)"
proof -
  have same: "m (fs_base s + of_nat x) = mem s (fs_base s + of_nat x)" if "x < 64" for x
  proof (rule onlyD [OF assms(1)])
    fix q n assume "(q, n) \<in> set bs"
    moreover have "in_image s (fs_base s + of_nat x)" by (rule in_image_offset [OF assms(3)]) (use that in \<open>simp add: fs_size_def\<close>)
    ultimately show "\<not> within q n (fs_base s + of_nat x)" using assms(2) by (auto simp: off_image_def)
  qed
  have word: "load32 m (fs_base s + of_nat x) = load32 (mem s) (fs_base s + of_nat x)" if "x \<le> 60" for x
    by (rule load32_cong) (use same [of "x + _"] that in \<open>simp add: add.assoc\<close>)
  have "bytes_at (ptr m (fs_base s + 12)) 52 = bytes_at (ptr (mem s) (fs_base s + 12)) 52"
  proof (rule bytes_at_cong)
    fix k :: nat assume "k < 52"
    then show "ptr m (fs_base s + 12) (of_nat k) = ptr (mem s) (fs_base s + 12) (of_nat k)" using same [of "12 + k"] by (simp add: add.assoc)
  qed
  then show ?thesis using word [of 0] word [of 4] word [of 8] by (simp add: boot_block_at_def)
qed


lemma settled_others: "settled (others s) = settled s"
  by (simp add: settled_def others_def)

lemma others_settled: "others t = others s \<Longrightarrow> settled t = settled s"
  using settled_others by metis

lemma others_irq:
  fixes s t :: "'a pic_scheme"
  shows "others t = others s \<Longrightarrow> irq_enabled t k = irq_enabled s k"
proof -
  have "irq_enabled (others u) k = irq_enabled u k" for u :: "'a pic_scheme" by (simp add: irq_enabled_def others_def)
  then show "others t = others s \<Longrightarrow> irq_enabled t k = irq_enabled s k" by metis
qed

lemma filesystem_init_settled:
  fixes s t :: "'a kernel_scheme"
  assumes "settled t = settled s" and "ms \<noteq> me" and "boot_block_at (mem t) ms = boot_block_at (mem s) ms"
  shows "settled (snd (filesystem_init ms me t)) = settled (snd (filesystem_init ms me s))"
  using assms by (simp add: filesystem_init_def settled_def Let_def)

section \<open>Booting\<close>

text \<open>What the boot loader and the linker provide: the boot information is well formed, its first module holds a file system
  with the program \<open>shell\<close>, the blocks of memory the kernel uses lie apart from it, and the globals have their initial values.\<close>

definition boot_blocks :: "layout \<Rightarrow> (u32 \<times> nat) list" where
  "boot_blocks l = [(VIDEO, 4000), (printf_buf l, 64), (page_table_shell l, 4096), (page_directories l, 24576), (WINDOW, WINDOW_SIZE)]"

definition module_state :: "u32 \<Rightarrow> 'a kernel_scheme \<Rightarrow> 'a kernel_scheme" where
  "module_state mbi s = (let md = mbi_mods_addr (mem s) mbi in snd (filesystem_init (mod_start (mem s) md) (mod_end (mem s) md) s))"

definition boot_ok :: "layout \<Rightarrow> boot_layout \<Rightarrow> u32 \<Rightarrow> byte list \<Rightarrow> nat \<Rightarrow> byte list list \<Rightarrow> nat \<Rightarrow> byte list \<Rightarrow> nat \<Rightarrow> 'a kernel_scheme \<Rightarrow> bool" where
  "boot_ok l b mbi cs k names p args i s \<longleftrightarrow>
     info_ok (printf_buf l) mbi cs k (mem s) \<and> \<not> (CHECK_FLAG (mbi_flags (mem s) mbi) 4 \<and> CHECK_FLAG (mbi_flags (mem s) mbi) 5) \<and>
     quiet (printf_buf l) (mbi_mods_addr (mem s) mbi) 8 \<and>
     mod_start (mem s) (mbi_mods_addr (mem s) mbi) \<noteq> mod_end (mem s) (mbi_mods_addr (mem s) mbi) \<and>
     counter s = 0 \<and> caps_flag s \<in> {0, 1} \<and> shift_left_flag s \<in> {0, 1} \<and> shift_right_flag s \<in> {0, 1} \<and>
     0 \<le> storage_buffer_counter s \<and> storage_buffer_counter s \<le> 129 \<and>
     launch_ok l names (shell_lit b) p (lit ''shell'') args i (module_state mbi s) \<and> elf_magic (contents i (module_state mbi s)) \<and>
     off_image (boot_blocks l) (module_state mbi s) \<and>
     apart (page_directories l) 24576 VIDEO 4000 \<and> apart (page_directories l) 24576 (printf_buf l) 64 \<and>
     (\<forall>(q, n) \<in> set (boot_blocks l). apart (shell_lit b) (34 + length args) q n) \<and>
     (\<forall>(q, n) \<in> set (launch_blocks l 1). apart VIDEO 4000 q n)"

lemma mem_module_state [simp]: "mem (module_state mbi s) = mem s" "counter (module_state mbi s) = counter s"
  by (simp_all add: module_state_def filesystem_init_def Let_def)

lemma fs_base_module:
  "ms \<noteq> me \<Longrightarrow> fs_base (snd (filesystem_init ms me s)) = ms"
  by (simp add: filesystem_init_def Let_def)

text \<open>The state in which \<open>entry\<close> calls \<open>execute\<close>, after printing has led to \<open>t\<close>.\<close>

lemma boot_devices:
  fixes s t :: "'a booted_scheme" and dev :: device
  assumes "boot_ok l b mbi cs k names p args i s" and "others t = others s" and "quiet_eq (printf_buf l) (mem s) (mem t)"
  defines "u \<equiv> init_devices l dev mbi (init_descriptors b t)"
  shows "launch_ok l names (shell_lit b) p (lit ''shell'') args i u" and "contents i u = contents i (module_state mbi s)"
    and "counter u = 0" and "idt u = idt s" and "idtr u = idtr s"
    and "irq_enabled u n \<longleftrightarrow> irq_enabled s n \<or> n \<in> {1, 2, 8}"
    and "kb_ok u" and "line_of u = []" and "ready_of u = None" and "term_of u = t_clear x"
proof -
  let ?cb = "printf_buf l" and ?pd = "page_directories l" and ?s0 = "module_state mbi s" and ?t = "init_descriptors b t"
  note ok = assms(1) [unfolded boot_ok_def]
  let ?md = "mbi_mods_addr (mem s) mbi"
  let ?ms = "mod_start (mem s) ?md" and ?me = "mod_end (mem s) ?md"
  have lo: "launch_ok l names (shell_lit b) p (lit ''shell'') args i ?s0" using ok by blast
  have tabs: "tables_ok (page_table_shell l) ?pd" "reserved_clear ?pd (mem s)" "mounted ?s0" "counter s = 0"
    using lo ok by (simp_all add: launch_ok_def stored_def)
  have m: "mem ?t = mem t" by (simp add: init_descriptors_def)
  have q: "quiet_eq ?cb (mem s) (mem ?t)" using assms(3) m by simp
  have o1: "only [(VIDEO, 4000), (?cb, 64)] (mem s) (mem ?t)" using q by (auto simp: only_def quiet_eq_def vram_def)
  have st: "settled ?t = settled s" using others_settled [OF assms(2)] by (simp add: init_descriptors_def settled_def)
  have md: "mbi_mods_addr (mem ?t) mbi = ?md" using quiet_mbi(4) [OF q] ok by (simp add: info_ok_def)
  have mod: "mod_start (mem ?t) ?md = ?ms" "mod_end (mem ?t) ?md = ?me"
    using quiet_load32 [OF q, of ?md 8 0] quiet_load32 [OF q, of ?md 8 4] ok by (simp_all add: mod_start_def mod_end_def)
  have ne: "?ms \<noteq> ?me" using ok by blast
  have s0: "?s0 = snd (filesystem_init ?ms ?me s)" by (simp add: module_state_def Let_def)
  have off1: "off_image [(VIDEO, 4000), (?cb, 64)] ?s0" using off_image_sub [of "boot_blocks l" ?s0] ok by (simp add: boot_blocks_def)
  have bb: "boot_block_at (mem ?t) ?ms = boot_block_at (mem s) ?ms"
    using boot_block_keep [of _ ?s0 "mem ?t", OF _ off1 tabs(3)] o1 fs_base_module [OF ne, of s, folded s0] by simp
  have rc: "reserved_clear ?pd (mem ?t)" using reserved_clear_only [OF o1, of ?pd] tabs(2) ok by auto
  have fl: "caps_flag ?t \<in> {0, 1}" "shift_left_flag ?t \<in> {0, 1}" "shift_right_flag ?t \<in> {0, 1}" "0 \<le> storage_buffer_counter ?t"
    "storage_buffer_counter ?t \<le> 129" using settledD [OF st] ok by simp_all
  note d = init_devices_ok [OF tabs(1) rc fl, where mbi = mbi and dev = dev, folded u_def, unfolded md mod]
  have set: "settled u = settled ?s0" using d(1) filesystem_init_settled [OF st ne bb] s0 by simp
  note f = settledD [OF set]
  have o: "only (boot_blocks l) (mem ?s0) (mem u)"
    using only_mono [OF only_trans [OF o1 d(2)], of "boot_blocks l"] by (auto simp: boot_blocks_def)
  have "off_image (boot_blocks l) ?s0" using ok by blast
  note keep = launch_ok_keep [OF lo o this, simplified f, OF refl refl refl refl refl d(3)]
  show "launch_ok l names (shell_lit b) p (lit ''shell'') args i u" "contents i u = contents i ?s0" by (rule keep; use ok in fast)+
  show "counter u = 0" "idt u = idt s" "idtr u = idtr s" using f tabs(4) by (simp_all add: module_state_def filesystem_init_def Let_def)
  have "irq_enabled ?t n = irq_enabled t n" by (rule irq_enabled_masks) (simp_all add: init_descriptors_def)
  then have "irq_enabled ?t n = irq_enabled s n" using others_irq [OF assms(2)] by simp
  then show "irq_enabled u n \<longleftrightarrow> irq_enabled s n \<or> n \<in> {1, 2, 8}" using irqs_after_init [of l dev mbi ?t n] by (simp add: u_def)
  show "kb_ok u" "line_of u = []" "ready_of u = None" "term_of u = t_clear x" using d(4-7) by simp_all
qed


text \<open>\<open>start\<close> changes only the interrupt flag and the interrupt table before it calls \<open>entry\<close>.\<close>

lemma init_gates_frame: "\<exists>xs. init_gates e c s = s\<lparr>idt := xs\<rparr>"
proof (induction e c s rule: init_gates.induct)
  case (1 e c s)
  show ?case
  proof (cases "c < NUM_VEC")
    case True
    then show ?thesis using 1 by (subst init_gates.simps) auto
  next
    case False
    then have "init_gates e c s = s\<lparr>idt := idt s\<rparr>" by (subst init_gates.simps) simp
    then show ?thesis by blast
  qed
qed

lemma set_gates_frame: "\<exists>xs. fold (\<lambda>(v, h). set_gate v (f h)) gs s = s\<lparr>idt := xs\<rparr>"
proof (induction gs arbitrary: s)
  case Nil
  have "s = s\<lparr>idt := idt s\<rparr>" by simp
  then show ?case by (metis fold_Nil id_apply)
next
  case (Cons g gs)
  obtain v h where g: "g = (v, h)" by (cases g)
  show ?case using Cons [of "set_gate v (f h) s"] by (simp add: g set_gate_def)
qed

lemma IDT_init_frame: "\<exists>xs. IDT_init d e s = s\<lparr>idtr := Some d, idt := xs\<rparr>"
proof -
  obtain xs where "init_gates e 0 (s\<lparr>idtr := Some d\<rparr>) = s\<lparr>idtr := Some d, idt := xs\<rparr>" using init_gates_frame by blast
  moreover obtain ys where "fold (\<lambda>(v, h). set_gate v (e h)) handler_table (s\<lparr>idtr := Some d, idt := xs\<rparr>) = s\<lparr>idtr := Some d, idt := xs\<rparr>\<lparr>idt := ys\<rparr>"
    using set_gates_frame by blast
  ultimately show ?thesis by (auto simp: IDT_init_def)
qed

lemma boot_ok_start:
  fixes s :: "'a booted_scheme" and d :: "u32 option" and xs :: "idt_desc list"
  assumes "boot_ok l b mbi cs k names p args i s"
  defines "s1 \<equiv> s\<lparr>intr := False, idtr := d, idt := xs\<rparr>"
  shows "boot_ok l b mbi cs k names p args i s1" and "contents i (module_state mbi s1) = contents i (module_state mbi s)"
proof -
  let ?m = "module_state mbi s" and ?n = "module_state mbi s1"
  have f: "mem ?n = mem ?m" "my_boot_block ?n = my_boot_block ?m" "file_addr ?n = file_addr ?m" "dentries ?n = dentries ?m"
    "inodes ?n = inodes ?m" "counter ?n = counter ?m" "mem s1 = mem s"
    by (simp_all add: s1_def module_state_def filesystem_init_def Let_def)
  have "only [] (mem ?m) (mem ?n)" "off_image [] ?m" by (simp_all add: only_def off_image_def f)
  moreover have "launch_ok l names (shell_lit b) p (lit ''shell'') args i ?m" using assms(1) by (simp add: boot_ok_def)
  moreover have "reserved_clear (page_directories l) (mem ?n)" using calculation(3) by (simp add: launch_ok_def f)
  ultimately have "launch_ok l names (shell_lit b) p (lit ''shell'') args i ?n" and c: "contents i ?n = contents i ?m"
    using launch_ok_keep [of l names "shell_lit b" p _ args i ?m "[]" ?n] f by auto
  moreover have "off_image (boot_blocks l) ?n = off_image (boot_blocks l) ?m" by (simp add: off_image_def in_image_def fs_size_def f)
  ultimately show "boot_ok l b mbi cs k names p args i s1" using assms(1) f by (simp add: boot_ok_def s1_def)
  show "contents i ?n = contents i ?m" by (rule c)
qed

text \<open>C1: the kernel boots.  When the boot information is accepted and the boot module holds the program
  \<open>shell\<close>, \<open>start\<close> ends by leaving the kernel for user mode at the entry address of the shell.  Then process 1 runs, in the address
  space of frame 1, with the whole of the shell at \<open>PROGRAM_STARTING_ADDR\<close>, a fresh control block without parent and the
  arguments that follow the name.  The interrupt table is the one of \<open>IDT_init\<close>; the interrupts of keyboard,
  cascade and clock are enabled besides those that were; the screen is blank, and no typed line is pending.\<close>

theorem boot_starts_shell:
  fixes s :: "'a booted_scheme"
  assumes "boot_ok l b mbi cs k names p args i s"
  defines "c \<equiv> contents i (module_state mbi s)"
  shows "\<exists>s'. start l b dev desc entry_of MULTIBOOT_BOOTLOADER_MAGIC mbi s = Some (Left_kernel (Entered_user (entry_address c) PROGRAM_ENDING_ADDR), s') \<and>
    counter s' = 1 \<and> shell_entry_addr s' = entry_address c \<and> (\<forall>va. translate s' va = space_of (Some (frame_of 1)) va) \<and>
    bytes_at (ptr (mem s') PROGRAM_STARTING_ADDR) (length c) = c \<and> pcb_fresh l 1 0 (mem s') \<and> cstr (ptr (mem s') (pcb_of 1 + 400)) args \<and>
    idt s' = idt (IDT_init desc entry_of (cli s)) \<and> idtr s' = Some desc \<and>
    (\<forall>n. irq_enabled s' n \<longleftrightarrow> irq_enabled s n \<or> n \<in> {1, 2, 8}) \<and>
    kb_ok s' \<and> line_of s' = [] \<and> ready_of s' = None \<and> term_of s' = t_clear (term_of s)"
proof -
  define s1 where "s1 = IDT_init desc entry_of (cli s)"
  have st: "start l b dev desc entry_of MULTIBOOT_BOOTLOADER_MAGIC mbi s = kernel_entry l b dev MULTIBOOT_BOOTLOADER_MAGIC mbi s1"
    by (simp add: start_def s1_def)
  obtain xs where s1: "s1 = s\<lparr>intr := False, idtr := Some desc, idt := xs\<rparr>" using IDT_init_frame [of desc entry_of "cli s"] by (auto simp: s1_def cli_def)
  have b1: "boot_ok l b mbi cs k names p args i s1" and c1: "contents i (module_state mbi s1) = c"
    using boot_ok_start [OF assms(1), where d = "Some desc" and xs = xs] by (simp_all add: s1 c_def)
  have irq: "irq_enabled s1 n = irq_enabled s n" and idtr: "idtr s1 = Some desc" for n by (simp_all add: s1 irq_enabled_def)
  have info: "info_ok (printf_buf l) mbi cs k (mem s1)" and fl: "\<not> (CHECK_FLAG (mbi_flags (mem s1) mbi) 4 \<and> CHECK_FLAG (mbi_flags (mem s1) mbi) 5)"
    using b1 by (simp_all add: boot_ok_def)
  obtain t ys where t: "prints (printf_buf l) ys (clear s1) t" "quiet_eq (printf_buf l) (mem s1) (mem t)"
    and e: "kernel_entry l b dev MULTIBOOT_BOOTLOADER_MAGIC mbi s1 =
       Option.bind (execute l (shell_lit b) (init_devices l dev mbi (init_descriptors b t)))
         (\<lambda>(r, s). Some (case r of Returned _ \<Rightarrow> Entry_halts | _ \<Rightarrow> Left_kernel r, s))"
    using kernel_entry_info [OF info, of b dev] unfolding if_not_P [OF fl] by blast
  have "others t = others (clear s1)" using t(1) by (simp add: prints_def)
  also have "\<dots> = others s1" by (rule others_off_screen [OF off_screen_clear])
  finally have oth: "others t = others s1" .
  let ?u = "init_devices l dev mbi (init_descriptors b t)"
  note u = boot_devices [OF b1 oth t(2), where dev = dev]
  have "elf_magic (contents i ?u)" using u(2) b1 by (simp add: boot_ok_def)
  from execute_ok [OF u(1) this] obtain s' where s': "execute l (shell_lit b) ?u = Some (Entered_user (entry_address c) PROGRAM_ENDING_ADDR, s')"
    "counter s' = 1" "drivers s' = drivers ?u" "shell_entry_addr s' = entry_address c" "runs l 1 s'"
    "bytes_at (ptr (mem s') PROGRAM_STARTING_ADDR) (length c) = c" "pcb_fresh l 1 0 (mem s')" "cstr (ptr (mem s') (pcb_of 1 + 400)) args"
    "only (launch_blocks l 1) (mem ?u) (mem s')"
    using u(2,3) c1 by auto
  have tabs: "tables_ok (page_table_shell l) (page_directories l)" "is_process 1" using u(1) by (simp_all add: launch_ok_def is_process_def)
  have "mem s' a = mem ?u a" if "vram a" for a
    by (rule only_keeps [OF s'(9)]) (use that b1 in \<open>auto simp: boot_ok_def vram_def\<close>)
  then have "cell (mem s') j = cell (mem ?u) j" if "j < 2000" for j using that vram_video_at by (simp add: cell_def)
  moreover note d = s'(3) [unfolded drivers_def prod.inject kb_fields_def]
  ultimately have tm: "term_of s' = term_of ?u" by (simp add: term_of_def)
  have "kb_ok s' = kb_ok ?u" "line_of s' = line_of ?u" "ready_of s' = ready_of ?u" "irq_enabled s' n = irq_enabled ?u n" for n
    using d by (simp_all add: kb_ok_def line_of_def ready_of_def on_screen_def irq_enabled_def)
  then show ?thesis
    unfolding st e using s' d tm u(4-10) runs_translate [OF s'(5) tabs] irq idtr by (simp add: s1_def)
qed

text \<open>A sample: the image of \<open>exec_demo\<close> with the program under the name \<open>shell\<close>, loaded as the first module; the boot
  information is at \<open>0x310000\<close>, the module structure at \<open>0x310040\<close> and the literal at \<open>0x300000\<close>.\<close>

definition boot_mem :: mem where
  "boot_mem = exec_mem(0x100004 := 1, 0x100008 := 1,
     0x100040 := 115, 0x100041 := 104, 0x100042 := 101, 0x100043 := 108, 0x100044 := 108,
     0x300000 := 115, 0x300001 := 104, 0x300002 := 101, 0x300003 := 108, 0x300004 := 108, 0x7FE000 := 0,
     0x310018 := 0x40, 0x31001A := 0x31, 0x310042 := 0x10, 0x310045 := 0x30, 0x310046 := 0x10)"

definition boot_demo :: booted where
  "boot_demo = kernel.extend (exec_demo\<lparr>mem := boot_mem, counter := 0\<rparr>)
     \<lparr>ldt_desc_ptr = the_ldt_desc \<lparr>ldt_addr = 0, ldt_size = 0, tss_addr = 0, tss_size = 0, shell_lit = 0\<rparr>,
      tss_desc_ptr = the_tss_desc \<lparr>ldt_addr = 0, ldt_size = 0, tss_addr = 0, tss_size = 0, shell_lit = 0\<rparr>,
      ldtr = 0, tr = 0, tss_ldt_segment_selector = 0, tss_ss0 = 0\<rparr>"

definition boot_lay :: boot_layout where
  "boot_lay = \<lparr>ldt_addr = 0x430000, ldt_size = 8, tss_addr = 0x430100, tss_size = 104, shell_lit = 0x300000\<rparr>"

definition boot_names :: "byte list list" where
  "boot_names = lit ''shell'' # replicate 62 []"

lemma boot_demo_fields:
  "mem boot_demo = boot_mem" "counter boot_demo = 0" "caps_flag boot_demo = 0" "shift_left_flag boot_demo = 0" "shift_right_flag boot_demo = 0"
  "storage_buffer_counter boot_demo = 0" "irq_enabled boot_demo 0"
  by (simp_all add: boot_demo_def kernel.defs exec_demo_def sys_demo_def paging.defs paging_demo_def idt_state.defs idt_demo_def keyboard.defs kb_demo_def
      files.defs demo_def irq_enabled_def)

lemma boot_demo_info:
  "mbi_flags boot_mem 0x310000 = 0" "mbi_mods_addr boot_mem 0x310000 = 0x310040" "mod_start boot_mem 0x310040 = 0x100000" "mod_end boot_mem 0x310040 = 0x103000"
  by (simp_all add: mbi_flags_def mbi_mods_addr_def mod_start_def mod_end_def load32_def join32_def boot_mem_def exec_mem_def demo_mem_def)

lemma boot_mem_zero:
  assumes "0x10000C \<le> unat a \<and> unat a < 0x100040 \<or> 0x100080 \<le> unat a \<and> unat a < 0x101000 \<or> 0x300005 \<le> unat a \<and> unat a < 0x310000"
  shows "boot_mem a = 0"
  using assms by (auto simp: boot_mem_def exec_mem_def demo_mem_def)

lemma boot_mem_zeros:
  assumes "unat p + n \<le> 0x400000" and "\<And>k. unat p \<le> k \<Longrightarrow> k < unat p + n \<Longrightarrow>
    0x10000C \<le> k \<and> k < 0x100040 \<or> 0x100080 \<le> k \<and> k < 0x101000 \<or> 0x300005 \<le> k \<and> k < 0x310000"
  shows "bytes_at (ptr boot_mem p) n = replicate n 0"
proof (rule nth_equalityI)
  fix k assume "k < length (bytes_at (ptr boot_mem p) n)"
  then have k: "k < n" by simp
  then have "unat (p + of_nat k) = unat p + k" using assms(1) by (simp add: unat_word_ariths)
  then show "bytes_at (ptr boot_mem p) n ! k = replicate n 0 ! k" using boot_mem_zero [of "p + of_nat k"] assms(2) [of "unat p + k"] k by simp
qed simp

lemma boot_demo_module:
  "my_boot_block (module_state 0x310000 boot_demo) = \<lparr>dentries_num = 0, inodes_num = 1, datablocks_num = 1, reserved = replicate 52 0\<rparr>"
  "file_addr (module_state 0x310000 boot_demo) = \<lparr>st_boot_block = 0x100000, st_inode = 0x101000, st_data = 0x102000\<rparr>"
  "dentries (module_state 0x310000 boot_demo) = 0x100040" "inodes (module_state 0x310000 boot_demo) = 0x101000"
proof -
  have "boot_block_at boot_mem 0x100000 = \<lparr>dentries_num = 0, inodes_num = 1, datablocks_num = 1, reserved = replicate 52 0\<rparr>"
    using boot_mem_zeros [of "0x10000C" 52] by (simp add: boot_block_at_def load32_def join32_def boot_mem_def exec_mem_def demo_mem_def)
  then show "my_boot_block (module_state 0x310000 boot_demo) = \<lparr>dentries_num = 0, inodes_num = 1, datablocks_num = 1, reserved = replicate 52 0\<rparr>"
    "file_addr (module_state 0x310000 boot_demo) = \<lparr>st_boot_block = 0x100000, st_inode = 0x101000, st_data = 0x102000\<rparr>"
    "dentries (module_state 0x310000 boot_demo) = 0x100040" "inodes (module_state 0x310000 boot_demo) = 0x101000"
    by (simp_all add: module_state_def boot_demo_fields boot_demo_info filesystem_init_def Let_def)
qed

lemma boot_demo_inode:
  "inode_length (module_state 0x310000 boot_demo) 0 = 28" "data_block (module_state 0x310000 boot_demo) 0 0 = 0"
  "entry_inode (module_state 0x310000 boot_demo) 0 = 0"
  by (simp_all add: inode_length_def data_block_def entry_inode_def dentry_at_def boot_mem_def exec_mem_def demo_mem_def load32_def join32_def
    boot_demo_fields boot_demo_module)

lemma boot_demo_contents: "contents 0 (module_state 0x310000 boot_demo) = contents 0 exec_demo"
  unfolding exec_demo_contents
  by (simp add: contents_def file_bytes_def boot_demo_inode file_byte_def upt_conv_Cons boot_mem_def exec_mem_def demo_mem_def boot_demo_fields boot_demo_module)

lemma boot_demo_stored: "stored 0x200000 boot_names (lit ''shell'') 0 (module_state 0x310000 boot_demo)"
proof -
  let ?s = "module_state 0x310000 boot_demo"
  have img: "in_image ?s a \<longleftrightarrow> in_image demo a" for a by (simp add: in_image_def fs_size_def boot_demo_module)
  have mt: "mounted ?s" by (simp add: mounted_def fs_size_def boot_demo_module)
  have "entry_name ?s i (boot_names ! i) \<and> length (boot_names ! i) < 64" if "i < 63" for i
  proof (cases i)
    case 0
    then show ?thesis
      by (simp add: boot_names_def entry_name_def cstr_def boot_mem_def exec_mem_def demo_mem_def dentry_at_def bytes_at_def lit_def boot_demo_fields
          boot_demo_module)
  next
    case (Suc j)
    have "unat (0x100040 + of_nat (64 * i) :: u32) = 0x100040 + 64 * i" using that by (simp add: unat_word_ariths)
    then have "boot_mem (0x100040 + of_nat (64 * i)) = 0" using that Suc by (intro boot_mem_zero) simp
    then show ?thesis using Suc that
      by (simp add: boot_names_def entry_name_def cstr_def dentry_at_def bytes_at_def mult.commute boot_demo_fields boot_demo_module)
  qed
  then have "directory ?s boot_names" by (simp add: directory_def boot_names_def)
  moreover have "data_block ?s 0 (of_nat j) = 0" if "4096 * j < (28 :: nat)" for j
  proof -
    have "j = 0" using that by simp
    then show ?thesis by (simp add: boot_demo_inode)
  qed
  then have "file_ok ?s 0" "tail_ok ?s 0 n" for n by (simp_all add: file_ok_def tail_ok_def boot_demo_inode boot_demo_module)
  moreover have "dentry_room ?s 0x200000" using demo_room(1) by (simp add: dentry_room_def img)
  ultimately show ?thesis using mt by (simp add: stored_def boot_demo_inode boot_names_def lit_def)
qed

lemma boot_demo_blocks:
  "all_apart (launch_blocks lay_demo 1)" "off_image (launch_blocks lay_demo 1 @ boot_blocks lay_demo) (module_state 0x310000 boot_demo)"
proof -
  show "all_apart (launch_blocks lay_demo 1)"
    unfolding all_apart_def launch_blocks_def
    by (simp add: lay_demo_def pcb_of_def) (intro conjI; rule separate_apart; simp add: separate_def)
  have "\<forall>(q, n) \<in> set (launch_blocks lay_demo 1 @ boot_blocks lay_demo). separate q n 0x100000 12288"
    by (simp add: launch_blocks_def boot_blocks_def lay_demo_def pcb_of_def separate_def)
  then show "off_image (launch_blocks lay_demo 1 @ boot_blocks lay_demo) (module_state 0x310000 boot_demo)"
    unfolding off_image_def in_image_def using separate_within by (fastforce simp: fs_size_def boot_demo_module)
qed

lemma bytes_at_append: "bytes_at (ptr m p) (j + n) = bytes_at (ptr m p) j @ bytes_at (ptr m (p + of_nat j)) n"
  by (rule nth_equalityI) (auto simp: nth_append add.assoc)

lemma boot_demo_launch: "launch_ok lay_demo boot_names 0x300000 32 (lit ''shell'') [] 0 (module_state 0x310000 boot_demo)"
proof -
  let ?s = "module_state 0x310000 boot_demo"
  have "reserved_clear pd_demo boot_mem"
    by (rule reserved_clear_zero [OF tables_demo]) (auto simp: boot_mem_def exec_mem_def demo_mem_def)
  moreover have "bytes_at (ptr boot_mem 0x300000) 5 = lit ''shell''"
    by (simp add: bytes_at_def boot_mem_def lit_def upt_conv_Cons)
  then have bytes: "bytes_at (ptr boot_mem 0x300000) 32 = lit ''shell'' @ replicate 27 0"
    using bytes_at_append [of boot_mem "0x300000" 5 27] boot_mem_zeros [of "0x300005" 27] by simp
  have "first_space boot_mem 0x300000 32"
  proof -
    have "boot_mem (0x300000 + of_nat j) \<noteq> 32" if "j < 32" for j
    proof -
      have "boot_mem (0x300000 + of_nat j) \<in> set (bytes_at (ptr boot_mem 0x300000) 32)"
        using nth_mem [of j "bytes_at (ptr boot_mem 0x300000) 32"] that by simp
      then show ?thesis unfolding bytes by (auto simp: lit_def)
    qed
    then show ?thesis by (simp add: first_space_def)
  qed
  moreover have "lit ''shell'' = takeWhile (\<lambda>b. b \<noteq> 0) (bytes_at (ptr boot_mem 0x300000) 32)"
    unfolding bytes by (simp add: lit_def)
  moreover have "cstr (ptr boot_mem (0x300000 + of_nat (Suc 32))) []"
    by (simp add: cstr_def bytes_at_def boot_mem_def exec_mem_def demo_mem_def)
  moreover have "apart 0x300000 34 (command_name_local lay_demo) 33" "apart 0x300000 34 (arg_buf_local lay_demo) 1024"
    by (rule separate_apart, simp add: separate_def lay_demo_def)+
  moreover have "length (contents 0 ?s) = 28" by (simp add: boot_demo_contents exec_demo_contents)
  moreover have "off_image (launch_blocks lay_demo 1) ?s" using off_image_sub [OF boot_demo_blocks(2)] by simp
  ultimately show ?thesis
    using boot_demo_blocks(1) boot_demo_stored tables_demo boot_demo_fields by (simp add: launch_ok_def lay_demo_def)
qed

lemma boot_demo_ok: "boot_ok lay_demo boot_lay 0x310000 [] 0 boot_names 32 [] 0 boot_demo"
proof -
  have q: "quiet 0x7FF000 0x310000 52" "quiet 0x7FF000 0x310040 8"
    using separate_within [of "0x310000" 52 VIDEO 4000] separate_within [of "0x310000" 52 "0x7FF000" 64]
      separate_within [of "0x310040" 8 VIDEO 4000] separate_within [of "0x310040" 8 "0x7FF000" 64]
    by (simp_all add: quiet_def vram_def separate_def)
  have "off_vram 0x7FF000 64" by (simp add: off_vram_def separate_def)
  then have info: "info_ok 0x7FF000 0x310000 [] 0 boot_mem" using q by (simp add: info_ok_def boot_demo_info CHECK_FLAG_def)
  have "apart pd_demo 24576 VIDEO 4000" "apart pd_demo 24576 0x7FF000 64" by (rule separate_apart, simp add: separate_def)+
  moreover have "\<forall>(q, n) \<in> set (boot_blocks lay_demo). apart 0x300000 34 q n"
    by (simp add: boot_blocks_def lay_demo_def) (intro conjI; rule separate_apart; simp add: separate_def)
  moreover have "\<forall>(q, n) \<in> set (launch_blocks lay_demo 1). apart VIDEO 4000 q n"
    by (simp add: launch_blocks_def lay_demo_def pcb_of_def) (intro conjI; rule separate_apart; simp add: separate_def)
  moreover have "off_image (boot_blocks lay_demo) (module_state 0x310000 boot_demo)" using off_image_sub [OF boot_demo_blocks(2)] by simp
  moreover have "elf_magic (contents 0 (module_state 0x310000 boot_demo))" by (simp add: elf_magic_def boot_demo_contents exec_demo_contents)
  ultimately show ?thesis
    using info q(2) boot_demo_launch by (simp add: boot_ok_def boot_demo_fields boot_demo_info boot_lay_def lay_demo_def CHECK_FLAG_def)
qed

theorem boot_starts_shell_witness:
  "\<exists>s'. start lay_demo boot_lay (\<lambda>_ _. 0) 0x40A000 demo_entry MULTIBOOT_BOOTLOADER_MAGIC 0x310000 boot_demo =
      Some (Left_kernel (Entered_user 0x08048010 PROGRAM_ENDING_ADDR), s') \<and> counter s' = 1 \<and> mem s' 0x08048001 = 0x45 \<and> irq_enabled s' 1"
proof -
  from boot_starts_shell [OF boot_demo_ok, of "\<lambda>_ _. 0" "0x40A000" demo_entry] obtain s' where
    s': "start lay_demo boot_lay (\<lambda>_ _. 0) 0x40A000 demo_entry MULTIBOOT_BOOTLOADER_MAGIC 0x310000 boot_demo =
      Some (Left_kernel (Entered_user (entry_address (contents 0 exec_demo)) PROGRAM_ENDING_ADDR), s')" "counter s' = 1"
    and img: "bytes_at (ptr (mem s') PROGRAM_STARTING_ADDR) (length (contents 0 exec_demo)) = contents 0 exec_demo" and "irq_enabled s' 1"
    by (auto simp: boot_demo_contents)
  moreover have "mem s' 0x08048001 = 0x45" using arg_cong [OF img, of "\<lambda>xs. xs ! 1"] by (simp add: exec_demo_contents)
  moreover have "entry_address (contents 0 exec_demo) = 0x08048010" by (simp add: entry_address_def exec_demo_contents join32_def)
  ultimately show ?thesis by auto
qed

section \<open>Rejected boot information\<close>

text \<open>C18: boot information that is not accepted stops the kernel.  With another magic number, and with bits 4 and 5 of the
  flags both set, \<open>entry\<close> returns to \<^verbatim>\<open>boot.S\<close> after a message on the cleared screen.  The interrupt table is loaded and
  interrupts stay off, but no device, no paging table and no other memory has been touched.\<close>

theorem boot_rejects:
  fixes s :: "'a booted_scheme" and desc :: u32 and entry_of :: "entry_point \<Rightarrow> u32"
  defines "s1 \<equiv> IDT_init desc entry_of (cli s)"
  shows "(magic \<noteq> MULTIBOOT_BOOTLOADER_MAGIC \<and> off_vram (printf_buf l) 64 \<longrightarrow>
      (\<exists>s'. start l b dev desc entry_of magic mbi s = Some (Entry_returned, s') \<and> \<not> intr s' \<and>
        prints (printf_buf l) (render (\<lambda>_. []) None (lit (''Invalid magic number: 0x%#x'' @ [CHR 0x0A])) [magic]) (clear s1) s')) \<and>
    (info_ok (printf_buf l) mbi cs k (mem s) \<and> CHECK_FLAG (mbi_flags (mem s) mbi) 4 \<and> CHECK_FLAG (mbi_flags (mem s) mbi) 5 \<longrightarrow>
      (\<exists>s' xs. start l b dev desc entry_of MULTIBOOT_BOOTLOADER_MAGIC mbi s = Some (Entry_returned, s') \<and> \<not> intr s' \<and>
        prints (printf_buf l) (xs @ lit (''Both bits 4 and 5 are set.'' @ [CHR 0x0A])) (clear s1) s'))"
proof -
  obtain xs where "s1 = s\<lparr>intr := False, idtr := Some desc, idt := xs\<rparr>" using IDT_init_frame [of desc entry_of "cli s"] by (auto simp: s1_def cli_def)
  then have f: "mem s1 = mem s" "\<not> intr (clear s1)" by (simp_all add: clear_def)
  have off: "\<not> intr s'" if "prints cb xs (clear s1) s'" for cb xs and s' :: "'a booted_scheme"
  proof -
    have "intr (others s') = intr (others (clear s1))" using that by (simp add: prints_def)
    then show ?thesis using f(2) by (simp add: others_def)
  qed
  show ?thesis
  proof (intro conjI impI; elim conjE)
    assume a: "magic \<noteq> MULTIBOOT_BOOTLOADER_MAGIC" "off_vram (printf_buf l) 64"
    let ?fmt = "''Invalid magic number: 0x%#x'' @ [CHR 0x0A]"
    have "complete {} None (lit ?fmt) [magic]" by (simp add: fmt_simps)
    then obtain s' where "kprintf (printf_buf l) ?fmt [magic] (clear s1) = Some s'"
      "prints (printf_buf l) (render (\<lambda>_. []) None (lit ?fmt) [magic]) (clear s1) s'"
      using kprintf_prints [OF on_screen_clear [of s1] a(2), of ?fmt "[magic]"] by auto
    then show "\<exists>s'. start l b dev desc entry_of magic mbi s = Some (Entry_returned, s') \<and> \<not> intr s' \<and>
        prints (printf_buf l) (render (\<lambda>_. []) None (lit ?fmt) [magic]) (clear s1) s'"
      using a(1) off by (auto simp: start_def kernel_entry_def s1_def [symmetric])
  next
    assume "info_ok (printf_buf l) mbi cs k (mem s)" "CHECK_FLAG (mbi_flags (mem s) mbi) 4" "CHECK_FLAG (mbi_flags (mem s) mbi) 5"
    then show "\<exists>s' xs. start l b dev desc entry_of MULTIBOOT_BOOTLOADER_MAGIC mbi s = Some (Entry_returned, s') \<and> \<not> intr s' \<and>
        prints (printf_buf l) (xs @ lit (''Both bits 4 and 5 are set.'' @ [CHR 0x0A])) (clear s1) s'"
      using kernel_entry_info [of l mbi cs k s1 b dev] off f(1) by (auto simp: start_def s1_def [symmetric])
  qed
qed

theorem boot_rejects_witness:
  "\<exists>s'. start lay_demo boot_lay (\<lambda>_ _. 0) 0x40A000 demo_entry 0x1BADB002 0x310000 boot_demo = Some (Entry_returned, s') \<and> \<not> intr s' \<and>
    (\<exists>xs. term_of s' = fold t_putc xs (t_clear (term_of (IDT_init 0x40A000 demo_entry (cli boot_demo)))))"
proof -
  have "off_vram (printf_buf lay_demo) 64" by (simp add: off_vram_def separate_def lay_demo_def)
  then show ?thesis
    using boot_rejects [of "0x1BADB002" lay_demo boot_lay "\<lambda>_ _. 0" "0x40A000" demo_entry "0x310000" boot_demo "[]" 0]
    by (auto simp: prints_def clear_refines)
qed

end
