(* ===== verification/UserLib.thy ===== *)
theory UserLib
  imports Vidmap Talker
begin

text \<open>
  The library of the user programs: the string routines of \<^verbatim>\<open>syscalls/ece391support.c\<close> and the system call
  stubs of \<^verbatim>\<open>syscalls/ece391syscall.S\<close>.

  A user program runs on the memory the kernel sees: its stack and its data lie in the window at 128 MB.  \<open>mach\<close> is the
  machine it runs on, the kernel state together with the interrupts that will arrive.  Programs run with
  interrupts disabled, as \<open>execute\<close> starts them, so interrupts arrive only inside a system call.  The record \<open>user\<close> holds what the
  linker and the hardware choose: the kernel layout, the devices and the addresses of the string literals of the program.
\<close>

unbundle bit_operations_syntax

section \<open>String routines\<close>

partial_function (option) ece391_strlen_from :: "mem \<Rightarrow> u32 \<Rightarrow> u32 \<Rightarrow> u32 option" where
  "ece391_strlen_from m s len = (if 0 \<noteq> m s then ece391_strlen_from m (s + 1) (len + 1) else Some len)"

definition ece391_strlen :: "mem \<Rightarrow> u32 \<Rightarrow> u32 option" where
  "ece391_strlen m s = ece391_strlen_from m s 0"

text \<open>\<open>while ('\0' != (*dst++ = *src++));\<close>\<close>

partial_function (option) ece391_strcpy :: "mem \<Rightarrow> u32 \<Rightarrow> u32 \<Rightarrow> mem option" where
  "ece391_strcpy m dst src =
     (let c = m src; m = m(dst := c) in if 0 \<noteq> c then ece391_strcpy m (dst + 1) (src + 1) else Some m)"

text \<open>The characters are unsigned here.\<close>

partial_function (option) ece391_strcmp :: "mem \<Rightarrow> u32 \<Rightarrow> u32 \<Rightarrow> int option" where
  "ece391_strcmp m s1 s2 =
     (if m s1 = m s2 then (if m s1 = 0 then Some 0 else ece391_strcmp m (s1 + 1) (s2 + 1))
      else Some (uint (m s1) - uint (m s2)))"

function ece391_strncmp_loop :: "mem \<Rightarrow> u32 \<Rightarrow> u32 \<Rightarrow> u32 \<Rightarrow> int" where
  "ece391_strncmp_loop m s1 s2 n =
     (if m s1 = m s2 then
        (if m s1 = 0 \<or> n - 1 = 0 then 0 else ece391_strncmp_loop m (s1 + 1) (s2 + 1) (n - 1))
      else uint (m s1) - uint (m s2))"
  by pat_completeness auto
termination
proof (relation "measure (\<lambda>(m, s1, s2, n). unat (n - 1))")
  fix m :: mem and s1 s2 n :: u32
  assume "\<not> (m s1 = 0 \<or> n - 1 = 0)"
  then have "unat (n - 1 - 1) < unat (n - 1)" using unat_Suc_pred [of "n - 1"] by simp
  then show "((m, s1 + 1, s2 + 1, n - 1), m, s1, s2, n) \<in> measure (\<lambda>(m, s1, s2, n). unat (n - 1))" by simp
qed simp

declare ece391_strncmp_loop.simps [simp del]

definition ece391_strncmp :: "mem \<Rightarrow> u32 \<Rightarrow> u32 \<Rightarrow> u32 \<Rightarrow> int" where
  "ece391_strncmp m s1 s2 n = (if 0 = n then 0 else ece391_strncmp_loop m s1 s2 n)"

function ece391_strrev_loop :: "mem \<Rightarrow> u32 \<Rightarrow> int \<Rightarrow> int \<Rightarrow> mem" where
  "ece391_strrev_loop m s beg fin =
     (if beg < fin then
        (let tmp = m (s + of_int fin);
             m = m(s + of_int fin := m (s + of_int beg));
             m = m(s + of_int beg := tmp)
         in ece391_strrev_loop m s (beg + 1) (fin - 1))
      else m)"
  by pat_completeness auto
termination
  by (relation "measure (\<lambda>(m, s, beg, fin). nat (fin - beg))") auto

declare ece391_strrev_loop.simps [simp del]

definition ece391_strrev :: "mem \<Rightarrow> u32 \<Rightarrow> mem option" where
  "ece391_strrev m s = do {
     len \<leftarrow> ece391_strlen m s;
     let fin = sint (len - 1);
     if fin \<le> 0 then Some m else Some (ece391_strrev_loop m s 0 fin)
   }"

text \<open>The table \<open>lookup\<close> has the same characters as the one of the kernel.\<close>

partial_function (option) ece391_itoa_loop :: "mem \<Rightarrow> u32 \<Rightarrow> u32 \<Rightarrow> u32 \<Rightarrow> (mem \<times> u32) option" where
  "ece391_itoa_loop m newbuf newval radix =
     (if 0 < newval then
        (if radix = 0 \<or> length lookup_digits \<le> unat (newval mod radix) then None
         else ece391_itoa_loop (m(newbuf := lookup_digits ! unat (newval mod radix))) (newbuf + 1) (newval div radix) radix)
      else Some (m, newbuf))"

definition ece391_itoa :: "mem \<Rightarrow> u32 \<Rightarrow> u32 \<Rightarrow> u32 \<Rightarrow> mem option" where
  "ece391_itoa m value buf radix =
     (if value = 0 then Some (m(buf := 48, buf + 1 := 0))
      else do {
        (m, newbuf) \<leftarrow> ece391_itoa_loop m buf value radix;
        ece391_strrev (m(newbuf := 0)) buf
      })"

section \<open>System calls\<close>

record user =
  u_layout :: layout
  u_device :: device
  u_literal :: "string \<Rightarrow> u32"

type_synonym 'a mach = "'a kernel_scheme handler list \<times> 'a kernel_scheme"

definition umem :: "'a mach \<Rightarrow> mem" where
  "umem t = mem (snd t)"

definition ustore :: "u32 \<Rightarrow> byte \<Rightarrow> 'a mach \<Rightarrow> 'a mach" where
  "ustore a b = (\<lambda>(irqs, s). (irqs, s\<lparr>mem := (mem s)(a := b)\<rparr>))"

definition uset :: "mem \<Rightarrow> 'a mach \<Rightarrow> 'a mach" where
  "uset m = (\<lambda>(irqs, s). (irqs, s\<lparr>mem := m\<rparr>))"

text \<open>\<open>int $0x80\<close> for a call that returns to the program.\<close>

definition int_0x80 :: "user \<Rightarrow> u32 \<Rightarrow> u32 \<Rightarrow> u32 \<Rightarrow> u32 \<Rightarrow> 'a mach \<Rightarrow> (int \<times> 'a mach) option" where
  "int_0x80 u eax ebx ecx edx = (\<lambda>(irqs, s).
     case asm_linkage (u_layout u) (u_device u) irqs eax ebx ecx edx s of
       Some (irqs', Returned v, s') \<Rightarrow> Some (v, irqs', s')
     | _ \<Rightarrow> None)"

text \<open>The stubs load three registers from the stack; a call with fewer arguments does not use the others.\<close>

definition ece391_read :: "user \<Rightarrow> int \<Rightarrow> u32 \<Rightarrow> int \<Rightarrow> 'a mach \<Rightarrow> (int \<times> 'a mach) option" where
  "ece391_read u fd buf nbytes = int_0x80 u 3 (of_int fd) buf (of_int nbytes)"

definition ece391_write :: "user \<Rightarrow> int \<Rightarrow> u32 \<Rightarrow> int \<Rightarrow> 'a mach \<Rightarrow> (int \<times> 'a mach) option" where
  "ece391_write u fd buf nbytes = int_0x80 u 4 (of_int fd) buf (of_int nbytes)"

definition ece391_open :: "user \<Rightarrow> u32 \<Rightarrow> 'a mach \<Rightarrow> (int \<times> 'a mach) option" where
  "ece391_open u filename = int_0x80 u 5 filename 0 0"

definition ece391_close :: "user \<Rightarrow> int \<Rightarrow> 'a mach \<Rightarrow> (int \<times> 'a mach) option" where
  "ece391_close u fd = int_0x80 u 6 (of_int fd) 0 0"

definition ece391_getargs :: "user \<Rightarrow> u32 \<Rightarrow> int \<Rightarrow> 'a mach \<Rightarrow> (int \<times> 'a mach) option" where
  "ece391_getargs u buf nbytes = int_0x80 u 7 buf (of_int nbytes) 0"

definition ece391_vidmap :: "user \<Rightarrow> u32 \<Rightarrow> 'a mach \<Rightarrow> (int \<times> 'a mach) option" where
  "ece391_vidmap u screen_start = int_0x80 u 8 screen_start 0 0"

text \<open>\<open>execute\<close> returns when the program it started halts.  \<open>child\<close> is what that program does in between, from the state in which the
  kernel enters it to its call of \<open>halt\<close>, with the status it passes.  The \<^verbatim>\<open>iret\<close> of the caller restores its interrupt flag.\<close>

definition ece391_execute :: "user \<Rightarrow> (u32 \<Rightarrow> 'a mach \<Rightarrow> (u32 \<times> 'a mach) option) \<Rightarrow> u32 \<Rightarrow> 'a mach \<Rightarrow> (int \<times> 'a mach) option" where
  "ece391_execute u child command = (\<lambda>(irqs, s).
     case asm_linkage (u_layout u) (u_device u) irqs 2 command 0 0 s of
       Some (irqs', Returned v, s') \<Rightarrow> Some (v, irqs', s')
     | Some (irqs', Entered_user entry_addr esp, s') \<Rightarrow> do {
         (status, irqs'', s'') \<leftarrow> child entry_addr (irqs', s');
         case asm_linkage (u_layout u) (u_device u) irqs'' 1 status 0 0 s'' of
           Some (irqs3, Resumed esp ebp st, s3) \<Rightarrow> Some (uint st, irqs3, s3\<lparr>intr := intr s\<rparr>)
         | _ \<Rightarrow> None
       }
     | _ \<Rightarrow> None)"

definition ece391_fdputs :: "user \<Rightarrow> int \<Rightarrow> u32 \<Rightarrow> 'a mach \<Rightarrow> 'a mach option" where
  "ece391_fdputs u fd s t = do {
     n \<leftarrow> ece391_strlen (umem t) s;
     (_, t) \<leftarrow> ece391_write u fd s (uint n) t;
     Some t
   }"

text \<open>\<open>ece391_fdputs\<close> of a string literal.\<close>

definition say :: "user \<Rightarrow> string \<Rightarrow> 'a mach \<Rightarrow> 'a mach option" where
  "say u str = ece391_fdputs u 1 (u_literal u str)"

text \<open>\<open>_start\<close>: the program halts with what \<open>main\<close> returns.\<close>

definition user_start :: "user \<Rightarrow> ('a mach \<Rightarrow> (int \<times> 'a mach) option) \<Rightarrow> 'a mach
    \<Rightarrow> ('a kernel_scheme handler list \<times> outcome \<times> 'a kernel_scheme) option" where
  "user_start u main t = do {
     (v, irqs, s) \<leftarrow> main t;
     asm_linkage (u_layout u) (u_device u) irqs 1 (of_int v) 0 0 s
   }"

section \<open>The string routines agree with those of the kernel\<close>

lemma ece391_strlen_scan:
  assumes "k \<le> n" and "n < 4294967296" and "\<And>i. k \<le> i \<Longrightarrow> i < n \<Longrightarrow> m (s + of_nat i) \<noteq> 0" and "m (s + of_nat n) = 0"
  shows "ece391_strlen_from m (s + of_nat k) (of_nat k) = Some (of_nat n)"
  using assms(1,3)
proof (induction "n - k" arbitrary: k)
  case 0
  then show ?case using assms(4) by (subst ece391_strlen_from.simps) simp
next
  case (Suc d)
  then have "m (s + of_nat k) \<noteq> 0" by simp
  moreover have "ece391_strlen_from m (s + of_nat (Suc k)) (of_nat (Suc k)) = Some (of_nat n)" using Suc by (intro Suc.hyps(1)) auto
  ultimately show ?case by (subst ece391_strlen_from.simps) (simp add: add.commute add.left_commute)
qed

lemma ece391_strlen_cstr: "cstr (ptr m s) xs \<Longrightarrow> ece391_strlen m s = Some (of_nat (length xs))"
  using ece391_strlen_scan [of 0 "length xs" m s] cstr_nonzero [of "ptr m s" xs] cstr_end [of "ptr m s" xs]
  by (simp add: ece391_strlen_def cstr_def)

lemma ece391_strcpy_Some:
  assumes "ece391_strcpy m a b = Some r"
  shows "\<forall>d s. a - d = b - s \<longrightarrow> strcpy_from m d s (b - s) = Some r"
  using assms
proof (induction rule: ece391_strcpy.raw_induct [rotated, consumes 1])
  case (1 f m a b r)
  show ?case
  proof (intro allI impI)
    fix d s assume e: "a - d = b - s"
    have at: "d + (b - s) = a" "s + (b - s) = b" "b + 1 - s = b - s + 1" "a + 1 - d = b + 1 - s"
      using e by (simp_all add: algebra_simps)
    show "strcpy_from m d s (b - s) = Some r"
    proof (cases "m b = 0")
      case True
      then show ?thesis using 1(2) at by (subst strcpy_from.simps) (simp add: Let_def)
    next
      case False
      then have "strcpy_from (m(a := m b)) d s (b + 1 - s) = Some r" using 1 at(4) by (simp add: Let_def)
      then show ?thesis using False at by (subst strcpy_from.simps) simp
    qed
  qed
qed

lemma strcpy_from_Some:
  assumes "strcpy_from m d s i = Some r"
  shows "ece391_strcpy m (d + i) (s + i) = Some r"
  using assms
proof (induction rule: strcpy_from.raw_induct [rotated, consumes 1])
  case (1 f m d s i r)
  then show ?case by (subst ece391_strcpy.simps) (auto simp: Let_def add.assoc fun_upd_idem split: if_splits)
qed

lemma ece391_strcpy_eq: "ece391_strcpy m dst src = strcpy m dst src"
proof (cases "ece391_strcpy m dst src")
  case None
  then show ?thesis using strcpy_from_Some [of m dst src 0] by (cases "strcpy m dst src") (auto simp: strcpy_def)
next
  case (Some r)
  then show ?thesis using ece391_strcpy_Some [of m dst src r, rule_format, of dst src] by (simp add: strcpy_def)
qed

lemma ece391_strrev_loop_eq: "ece391_strrev_loop m s beg fin = strrev_loop m s beg fin"
proof (induction "nat (fin - beg)" arbitrary: m beg fin rule: less_induct)
  case less
  show ?case
  proof (cases "beg < fin")
    case True
    then have "nat (fin - 1 - (beg + 1)) < nat (fin - beg)" by simp
    from less [OF this] show ?thesis by (subst ece391_strrev_loop.simps, subst strrev_loop.simps) (simp add: Let_def)
  qed (subst ece391_strrev_loop.simps, subst strrev_loop.simps, simp)
qed

lemma ece391_itoa_loop_eq:
  assumes "2 \<le> unat radix"
  shows "ece391_itoa_loop m p v radix = itoa_loop m p v radix"
proof (induction "unat v" arbitrary: m p v rule: less_induct)
  case less
  show ?case
  proof (cases "0 < v")
    case True
    then have "unat (v div radix) < unat v" using assms by (simp add: unat_div_distrib word_gt_0 unat_gt_0)
    then show ?thesis using less by (subst ece391_itoa_loop.simps, subst itoa_loop.simps) simp
  next
    case False
    then show ?thesis by (subst ece391_itoa_loop.simps, subst itoa_loop.simps) simp
  qed
qed

lemma ece391_strrev_eq:
  assumes "cstr (ptr m s) xs"
  shows "ece391_strrev m s = strrev m s"
proof -
  have "strrev_loop m s 0 fin = m" if "fin \<le> 0" for fin using that by (subst strrev_loop.simps) simp
  then show ?thesis using ece391_strlen_cstr [OF assms] strlen_cstr [OF assms]
    by (simp add: ece391_strrev_def strrev_def ece391_strrev_loop_eq Let_def)
qed

lemma ece391_strcmp_at:
  assumes "cstr (ptr m p) xs" and "cstr (ptr m q) ys" and "i \<le> length xs" and "i \<le> length ys" and "take i xs = take i ys"
  shows "\<exists>r. ece391_strcmp m (p + of_nat i) (q + of_nat i) = Some r \<and> (r = 0 \<longleftrightarrow> xs = ys)"
  using assms(3-5)
proof (induction "length xs - i" arbitrary: i rule: less_induct)
  case less
  have x: "m (p + of_nat i) = (xs @ [0]) ! i" and y: "m (q + of_nat i) = (ys @ [0]) ! i"
    using cstr_nth [OF assms(1), of i] cstr_end [OF assms(1)] cstr_nth [OF assms(2), of i] cstr_end [OF assms(2)] less.prems
    by (auto simp: nth_append)
  have end0: "(xs @ [0]) ! i = 0 \<longleftrightarrow> i = length xs" "(ys @ [0]) ! i = 0 \<longleftrightarrow> i = length ys"
    using cstr_nonzero [OF assms(1), of i] cstr_nonzero [OF assms(2), of i] x y less.prems by (auto simp: nth_append)
  show ?case
  proof (cases "m (p + of_nat i) = m (q + of_nat i)")
    case True
    show ?thesis
    proof (cases "i = length xs")
      case stop: True
      then have "xs = ys" "m (p + of_nat i) = 0" using True x y end0 less.prems(3) by auto
      then show ?thesis using True by (subst ece391_strcmp.simps) simp
    next
      case False
      then have i: "i < length xs" "i < length ys" using True x y end0 less.prems by auto
      then have "take (Suc i) xs = take (Suc i) ys" using True x y less.prems(3) by (simp add: take_Suc_conv_app_nth nth_append)
      then have "\<exists>r. ece391_strcmp m (p + of_nat (Suc i)) (q + of_nat (Suc i)) = Some r \<and> (r = 0 \<longleftrightarrow> xs = ys)"
        using i by (intro less.hyps) auto
      then obtain r where "ece391_strcmp m (p + of_nat (Suc i)) (q + of_nat (Suc i)) = Some r" "r = 0 \<longleftrightarrow> xs = ys" by blast
      moreover have "m (p + of_nat i) \<noteq> 0" using x end0 False by simp
      ultimately show ?thesis using True by (subst ece391_strcmp.simps) (simp add: ac_simps)
    qed
  next
    case False
    then have "xs \<noteq> ys" using x y by auto
    moreover have "uint (m (p + of_nat i)) - uint (m (q + of_nat i)) \<noteq> 0" using False by (simp add: word_uint_eq_iff)
    ultimately show ?thesis using False by (subst ece391_strcmp.simps) auto
  qed
qed

lemma ece391_strcmp_cstr:
  "cstr (ptr m p) xs \<Longrightarrow> cstr (ptr m q) ys \<Longrightarrow> \<exists>r. ece391_strcmp m p q = Some r \<and> (r = 0 \<longleftrightarrow> xs = ys)"
  using ece391_strcmp_at [of m p xs q ys 0] by simp

lemma ece391_strncmp_at:
  assumes "cstr (ptr m p) xs" and "cstr (ptr m q) ys" and "i < n" and "n < 4294967296" and "i \<le> length xs" and "i \<le> length ys" and "take i xs = take i ys"
  shows "ece391_strncmp_loop m (p + of_nat i) (q + of_nat i) (of_nat (n - i)) = 0 \<longleftrightarrow> take n xs = take n ys"
  using assms(3,5-7)
proof (induction "n - i" arbitrary: i rule: less_induct)
  case less
  have x: "m (p + of_nat i) = (xs @ [0]) ! i" and y: "m (q + of_nat i) = (ys @ [0]) ! i"
    using cstr_nth [OF assms(1), of i] cstr_end [OF assms(1)] cstr_nth [OF assms(2), of i] cstr_end [OF assms(2)] less.prems
    by (auto simp: nth_append)
  have end0: "(xs @ [0]) ! i = 0 \<longleftrightarrow> i = length xs" "(ys @ [0]) ! i = 0 \<longleftrightarrow> i = length ys"
    using cstr_nonzero [OF assms(1), of i] cstr_nonzero [OF assms(2), of i] x y less.prems by (auto simp: nth_append)
  have n1: "(of_nat (n - i) :: u32) - 1 = of_nat (n - Suc i)" using less.prems(1) by (simp add: of_nat_diff)
  have last: "(of_nat (n - i) :: u32) - 1 = 0 \<longleftrightarrow> n = Suc i" unfolding n1 using less.prems(1) assms(4) of_nat_u32_inj [of "n - Suc i" 0] by auto
  show ?case
  proof (cases "m (p + of_nat i) = m (q + of_nat i)")
    case True
    show ?thesis
    proof (cases "i = length xs")
      case stop: True
      then have "xs = ys" "m (p + of_nat i) = 0" using True x y end0 less.prems(4) by auto
      then show ?thesis using True by (subst ece391_strncmp_loop.simps) simp
    next
      case False
      then have i: "i < length xs" "i < length ys" using True x y end0 less.prems by auto
      then have eq: "take (Suc i) xs = take (Suc i) ys" using True x y less.prems(4) by (simp add: take_Suc_conv_app_nth nth_append)
      have nz: "m (p + of_nat i) \<noteq> 0" using x end0 False by simp
      show ?thesis
      proof (cases "n = Suc i")
        case n: True
        then show ?thesis using True last eq by (subst ece391_strncmp_loop.simps) simp
      next
        case more: False
        then have "ece391_strncmp_loop m (p + of_nat (Suc i)) (q + of_nat (Suc i)) (of_nat (n - Suc i)) = 0 \<longleftrightarrow> take n xs = take n ys"
          using less.hyps [of "Suc i"] i eq less.prems by auto
        then show ?thesis using True nz more last n1 by (subst ece391_strncmp_loop.simps) (simp add: ac_simps)
      qed
    qed
  next
    case False
    have "take n xs \<noteq> take n ys"
    proof
      assume e: "take n xs = take n ys"
      have "min (length xs) n = min (length ys) n" using arg_cong [OF e, of length] unfolding length_take .
      then have "i < length xs \<longleftrightarrow> i < length ys" using less.prems(1) by (auto simp: min_def split: if_splits)
      then show False
        using False x y less.prems e nth_take [of i n xs] nth_take [of i n ys] by (auto simp: nth_append)
    qed
    then show ?thesis using False by (subst ece391_strncmp_loop.simps) (simp add: word_uint_eq_iff)
  qed
qed


lemma ece391_strncmp_eq_0:
  assumes "cstr (ptr m p) xs" and "cstr (ptr m q) ys"
  shows "ece391_strncmp m p q n = 0 \<longleftrightarrow> take (unat n) xs = take (unat n) ys"
proof (cases "n = 0")
  case False
  then have "0 < unat n" by (simp add: unat_gt_0)
  then show ?thesis using ece391_strncmp_at [OF assms, of 0 "unat n"] False by (simp add: ece391_strncmp_def)
qed (simp add: ece391_strncmp_def)

lemma ece391_itoa_eq:
  assumes "2 \<le> unat radix" and "unat radix \<le> 36"
  shows "ece391_itoa m v buf radix = itoa m v buf radix"
proof (cases "v = 0")
  case False
  let ?ds = "map (\<lambda>d. lookup_digits ! d) (digits (unat radix) (unat v))"
  have len: "length ?ds \<le> 32" using digits_length_u32 [OF assms(1)] by simp
  have nz: "0 \<notin> set ?ds" using lookup_digits_nonzero digits_lt [OF assms(1)] assms(2) by fastforce
  have "poke (poke m buf ?ds) (buf + of_nat (length ?ds)) [0] = poke m buf (?ds @ [0])" using poke_append [of ?ds "[0]" m buf] len by simp
  then have "cstr (ptr ((poke m buf ?ds)(buf + of_nat (length ?ds) := 0)) buf) ?ds" using cstr_poke [OF nz, of m buf] len by (simp add: poke_single)
  then show ?thesis
    using False ece391_strrev_eq [of _ buf ?ds] itoa_loop_poke [OF assms, of m buf v] by (simp add: ece391_itoa_def itoa_def ece391_itoa_loop_eq [OF assms(1)])
qed (simp add: ece391_itoa_def itoa_def)

text \<open>C28: the string library of the user programs agrees with the one of the kernel, although its loops are written differently:
  on terminated strings \<open>strlen\<close> and \<open>strrev\<close> give the same result, \<open>strncmp\<close> is 0 in the same cases, \<open>strcpy\<close> is the same
  for all arguments, and \<open>itoa\<close> is for every radix from 2 to 36.  \<open>strcmp\<close>, which the kernel does not have, ends on terminated strings
  and is 0 exactly for equal ones.\<close>

theorem support_library_agrees:
  assumes "cstr (ptr m s) xs" and "cstr (ptr m t) ys" and "2 \<le> unat radix" and "unat radix \<le> 36"
  shows "ece391_strlen m s = strlen (ptr m s) \<and> ece391_strrev m s = strrev m s \<and>
    (ece391_strncmp m s t n = 0 \<longleftrightarrow> strncmp (ptr m s) (ptr m t) n = 0) \<and> ece391_strcpy m d s = strcpy m d s \<and>
    ece391_itoa m v d radix = itoa m v d radix \<and> (\<exists>r. ece391_strcmp m s t = Some r \<and> (r = 0 \<longleftrightarrow> xs = ys))"
  using ece391_strlen_cstr [OF assms(1)] strlen_cstr [OF assms(1)] ece391_strrev_eq [OF assms(1)] ece391_strncmp_eq_0 [OF assms(1,2)]
    strncmp_eq_0 [OF assms(1,2)] ece391_strcpy_eq ece391_itoa_eq [OF assms(3,4)] ece391_strcmp_cstr [OF assms(1,2)] by simp

theorem support_library_agrees_witness:
  "ece391_strlen demo_mem 0x102000 = Some 5 \<and> (\<exists>r. ece391_strcmp demo_mem 0x102000 0x100040 = Some r \<and> r \<noteq> 0)"
proof -
  have s: "cstr (ptr demo_mem 0x102000) (lit ''hello'')" "cstr (ptr demo_mem 0x100040) (lit ''a'')"
    by (simp_all add: cstr_def bytes_at_def demo_mem_def lit_def upt_conv_Cons)
  have "strlen (ptr demo_mem 0x102000) = Some 5" using strlen_cstr [OF s(1)] by (simp add: lit_def)
  then show ?thesis
    using support_library_agrees [OF s, of 10 1 0 0] by (auto simp: lit_def)
qed

end
