(* ===== verification/UserTerm.thy ===== *)
theory UserTerm
  imports UserLib
begin

text \<open>
  User programs that write to the terminal.  \<open>off_terminal\<close> is the state without what a write to the terminal may
  change; the locale \<open>talker\<close> is interpreted for programs whose only effect is such output.
\<close>

unbundle bit_operations_syntax

section \<open>What a write to the terminal leaves alone\<close>

definition off_terminal :: "'a keyboard_scheme \<Rightarrow> 'a keyboard_scheme" where
  "off_terminal s = s\<lparr>mem := hide_vram (mem s), io := [], screen_x := 0, screen_y := 0, buffer := [], buffer_content_counter := 0,
     backspacable_counter := 0\<rparr>"

lemma off_terminal_upd [simp]:
  "off_terminal (s\<lparr>buffer := b\<rparr>) = off_terminal s" "off_terminal (s\<lparr>buffer_content_counter := n\<rparr>) = off_terminal s"
  "off_terminal (s\<lparr>backspacable_counter := n\<rparr>) = off_terminal s" "off_terminal (update_terminal_cursor s) = off_terminal s"
  by (simp_all add: off_terminal_def update_terminal_cursor_def outb_def Let_def)

lemma off_terminal_intr: "off_terminal (s\<lparr>intr := b\<rparr>) = (off_terminal s)\<lparr>intr := b\<rparr>"
  by (rule keyboard.equality) (simp_all add: off_terminal_def)

lemma off_terminal_off_screen: "off_screen s = off_screen s' \<Longrightarrow> off_terminal s = off_terminal s'"
proof -
  have "off_terminal (off_screen s) = off_terminal s" for s :: "'a keyboard_scheme"
    by (simp add: off_terminal_def off_screen_def hide_vram_def fun_eq_iff)
  then show "off_screen s = off_screen s' \<Longrightarrow> off_terminal s = off_terminal s'" by metis
qed

lemma fill_buffer_frame: "fill_buffer buf n i s = Some s' \<Longrightarrow> off_terminal s' = off_terminal s \<and> (on_screen s' \<longleftrightarrow> on_screen s)"
proof (induction buf n i s arbitrary: s' rule: fill_buffer.induct)
  case (1 buf n i s)
  then show ?case by (subst (asm) fill_buffer.simps) (auto simp: set_buffer_def split: if_splits bind_splits)
qed

lemma print_buf_from_frame: "print_buf_from i s = Some (n, s') \<Longrightarrow> on_screen s \<Longrightarrow> off_terminal s' = off_terminal s"
proof (induction i s arbitrary: s' rule: print_buf_from.induct)
  case (1 i s)
  have "off_terminal (putc c s) = off_terminal s" "on_screen (putc c s)" for c
    using con.ok_put [OF 1(3)] con.rest_put [OF 1(3)] off_terminal_off_screen by blast+
  then show ?case using 1 by (subst (asm) print_buf_from.simps) (auto split: if_splits bind_splits)
qed

lemma terminal_write_frame:
  assumes "terminal_write fd buf n s = Some (r, s')" and "on_screen s"
  shows "off_terminal s' = off_terminal s"
proof -
  obtain s1 b s2 where s1: "fill_buffer buf n 0 s = Some s1" and s2: "print_buf s1 = Some (b, s2)" and s': "s' = (clear_buf s2)\<lparr>backspacable_counter := 0\<rparr>"
    using assms(1) by (auto simp: terminal_write_def split: bind_splits)
  obtain s3 where s3: "print_buf_from 0 s1 = Some (b, s3)" "s2 = (update_terminal_cursor s3)\<lparr>backspacable_counter := 0\<rparr>"
    using s2 by (auto simp: print_buf_def split: bind_splits)
  show ?thesis
    using fill_buffer_frame [OF s1] print_buf_from_frame [OF s3(1)] assms(2) by (simp add: s' s3(2) clear_buf_def)
qed

definition sysview :: "'a kernel_scheme \<Rightarrow> _" where
  "sysview s = (counter s, hide_vram (mem s), intr s, arg_size s, (my_boot_block s, file_addr s, dentries s, inodes s, entry_counter s),
     (caps_flag s, shift_left_flag s, shift_right_flag s, ctrl_left_flag s, ctrl_right_flag s, readable_flag s, storage_buffer s, storage_buffer_counter s))"

lemma off_terminal_sysview: "off_terminal s' = off_terminal s \<Longrightarrow> sysview s' = sysview s"
proof -
  have "sysview (off_terminal s) = sysview s" for s :: "'a kernel_scheme"
    by (simp add: sysview_def off_terminal_def hide_vram_def fun_eq_iff)
  then show "off_terminal s' = off_terminal s \<Longrightarrow> sysview s' = sysview s" by metis
qed

lemmas off_terminal_fields = off_terminal_sysview [unfolded sysview_def prod.inject]

section \<open>A process whose standard output is the terminal\<close>

text \<open>No line is pending, and descriptor 1 is the terminal.\<close>

definition tty_ready :: "layout \<Rightarrow> 'a kernel_scheme \<Rightarrow> bool" where
  "tty_ready l s \<longleftrightarrow> kb_ok s \<and> line_of s = [] \<and> (\<exists>d. fd_view (mem s) (pcb s) 1 = Some d \<and> ops_at l (d_table d) = Some Stdout_ops) \<and>
     (\<forall>a. within (pcb s) 1424 a \<longrightarrow> \<not> vram a)"

lemma fd_view_hide:
  assumes "hide_vram m = hide_vram m'" and "\<forall>a. within p 1424 a \<longrightarrow> \<not> vram a" and "j < 8"
  shows "fd_view m p j = fd_view m' p j"
  by (rule fd.local) (use assms fd_in_pcb [OF assms(3)] hide_vram_eqD [OF assms(1)] in blast)

definition talking :: "layout \<Rightarrow> mem \<Rightarrow> 'a mach \<Rightarrow> bool" where
  "talking l m0 t \<longleftrightarrow> tty_ready l (snd t) \<and> hide_vram (umem t) = hide_vram m0"

definition tty_shows :: "layout \<Rightarrow> byte list \<Rightarrow> 'a mach \<Rightarrow> 'a mach \<Rightarrow> bool" where
  "tty_shows l xs t t' \<longleftrightarrow> fst t' = fst t \<and> term_of (snd t') = fold t_putc xs (term_of (snd t)) \<and>
     off_terminal (snd t') = off_terminal (snd t) \<and> tty_ready l (snd t')"

lemma tty_shows_hide: "tty_shows l xs t t' \<Longrightarrow> hide_vram (umem t') = hide_vram (umem t)"
  using off_terminal_fields [of "snd t'" "snd t"] by (simp add: tty_shows_def umem_def)

interpretation tty: talker "talking l m0" "tty_shows l" for l m0
proof unfold_locales
  show "tty_shows l [] t t" if "talking l m0 t" for t :: "'a mach" using that by (simp add: tty_shows_def talking_def)
  show "tty_shows l (xs @ ys) t v" if "tty_shows l xs t w" "tty_shows l ys w v" for xs ys and t w v :: "'a mach"
    using that by (simp add: tty_shows_def)
  show "talking l m0 t'" if "talking l m0 t" "tty_shows l xs t t'" for xs and t t' :: "'a mach"
    using that tty_shows_hide [OF that(2)] by (simp add: talking_def) (simp add: tty_shows_def)
qed

lemma ece391_write_tty:
  fixes t :: "'a mach"
  assumes "tty_ready (u_layout u) (snd t)" and "n \<le> 1024" and "buf \<noteq> 0"
  shows "\<exists>t'. ece391_write u 1 buf (int n) t = Some (int n, t') \<and> tty_shows (u_layout u) (bytes_at (ptr (umem t) buf) n) t t'"
proof -
  obtain irqs s where t: "t = (irqs, s)" by (cases t)
  note r = assms(1) [unfolded tty_ready_def t snd_conv]
  let ?s = "s\<lparr>intr := False\<rparr>"
  have k: "kb_ok ?s" "line_of ?s = []" "on_screen ?s" using r by (simp_all add: line_of_def kb_ok_def on_screen_def)
  have c: "buffer_content_counter ?s = 0" using k by (auto simp: line_of_def kb_ok_def)
  obtain s' where s': "terminal_write 1 buf (int n) ?s = Some (int n, s')" "kb_ok s'" "term_of s' = fold t_putc (written buf n ?s) (term_of ?s)" "line_of s' = []"
    using terminal_write_shows [OF k(1), of n 1 buf] assms(2) c by auto
  have fr: "off_terminal s' = off_terminal ?s" by (rule terminal_write_frame [OF s'(1) k(3)])
  note f = off_terminal_fields [OF fr]
  obtain d where d: "fd_view (mem s) (pcb s) 1 = Some d" "ops_at (u_layout u) (d_table d) = Some Stdout_ops" using r by blast
  have "load32 (mem s) (fd_at (pcb s) 1 + 44) \<noteq> 0" "load32 (mem s) (fd_at (pcb s) 1) = d_table d"
    using d(1) by (auto simp: fd_view_def Let_def split: if_splits)
  then have "sys_write (u_layout u) (u_device u) 1 buf (int n) ?s = Some (int n, s')"
    using s'(1) d(2) assms(3) by (simp add: sys_write_def call_write_def Let_def)
  moreover have "sint (of_int (int n) :: u32) = int n" using assms(2) by (simp add: signed_of_nat signed_take_bit_int_eq_self)
  ultimately have w: "ece391_write u 1 buf (int n) t = Some (int n, irqs, s'\<lparr>intr := intr s\<rparr>)"
    by (simp add: ece391_write_def int_0x80_def t asm_linkage_def iret_to_caller_def cli_def Let_def)
  have "off_terminal (s'\<lparr>intr := intr s\<rparr>) = off_terminal s"
    using fr off_terminal_intr [where s = s and b = "intr s"] by (simp add: off_terminal_intr)
  moreover have "tty_ready (u_layout u) (s'\<lparr>intr := intr s\<rparr>)"
    using r s'(2,4) f fd_view_hide [of "mem s'" "mem s" "pcb s" 1] by (simp add: tty_ready_def line_of_def)
  ultimately show ?thesis
    using w s'(3) written_fresh [OF k(2,1)] by (intro exI [of _ "(irqs, s'\<lparr>intr := intr s\<rparr>)"]) (simp add: tty_shows_def t umem_def term_of_def)
qed


text \<open>A string the program prints: at most 1024 characters, outside video memory.\<close>

definition printable :: "mem \<Rightarrow> u32 \<Rightarrow> byte list \<Rightarrow> bool" where
  "printable m p xs \<longleftrightarrow> cstr (ptr m p) xs \<and> length xs \<le> 1024 \<and> p \<noteq> 0 \<and> (\<forall>a. within p (Suc (length xs)) a \<longrightarrow> \<not> vram a)"

lemma printable_hide: "hide_vram m = hide_vram m' \<Longrightarrow> printable m p xs \<longleftrightarrow> printable m' p xs"
  using string_at.local [of p xs m m'] hide_vram_eqD [of m m'] by (auto simp: printable_def)

lemma fdputs_says:
  assumes "printable m0 p xs"
  shows "says_text (talking (u_layout u) m0) (tty_shows (u_layout u)) xs (ece391_fdputs u 1 p)"
  unfolding says_text_def
proof (intro allI impI)
  fix t :: "'a mach" assume t: "talking (u_layout u) m0 t"
  then have p: "cstr (ptr (umem t) p) xs" "length xs \<le> 1024" "p \<noteq> 0"
    using assms printable_hide [of "umem t" m0 p xs] by (simp_all add: talking_def printable_def)
  obtain t' where "ece391_write u 1 p (int (length xs)) t = Some (int (length xs), t')" "tty_shows (u_layout u) (bytes_at (ptr (umem t) p) (length xs)) t t'"
    using ece391_write_tty [of u t "length xs" p] t p(2,3) by (auto simp: talking_def)
  moreover have "uint (of_nat (length xs) :: u32) = int (length xs)" using p(2) by (simp add: unsigned_of_nat take_bit_nat_eq_self)
  moreover have "bytes_at (ptr (umem t) p) (length xs) = xs" using p(1) by (simp add: cstr_def)
  ultimately show "\<exists>t'. ece391_fdputs u 1 p t = Some t' \<and> tty_shows (u_layout u) xs t t'"
    using ece391_strlen_cstr [OF p(1)] by (simp add: ece391_fdputs_def)
qed

text \<open>The literals \<open>strs\<close> of a program are in place.\<close>

definition has_literals :: "user \<Rightarrow> string set \<Rightarrow> mem \<Rightarrow> bool" where
  "has_literals u strs m \<longleftrightarrow> (\<forall>str \<in> strs. printable m (u_literal u str) (lit str))"

lemma has_literals_hide: "hide_vram m = hide_vram m' \<Longrightarrow> has_literals u strs m \<longleftrightarrow> has_literals u strs m'"
  by (simp add: has_literals_def printable_hide [of m m'])

lemma say_says:
  "has_literals u strs m0 \<Longrightarrow> str \<in> strs \<Longrightarrow> says_text (talking (u_layout u) m0) (tty_shows (u_layout u)) (lit str) (say u str)"
  unfolding say_def by (rule fdputs_says) (simp add: has_literals_def)

end
