(* ===== verification/UserProgs.thy ===== *)
theory UserProgs
  imports UserTerm
begin

text \<open>
  The user programs of \<^verbatim>\<open>src/syscalls\<close>, one \<open>main\<close> each.  A program is a function on the machine that gives the value \<open>main\<close>
  returns, \<open>None\<close> when it never returns or the kernel never returns from one of its calls.  The addresses of local
  arrays are arguments.  \<open>say\<close> is \<open>ece391_fdputs (1, literal)\<close>.
\<close>

unbundle bit_operations_syntax

abbreviation nl :: string where "nl \<equiv> [CHR 0x0A]"

section \<open>cat, ls, hello, testprint\<close>

text \<open>\<open>while (0 != (cnt = ece391_read (fd, buf, 1024)))\<close>\<close>

partial_function (option) cat_loop :: "user \<Rightarrow> int \<Rightarrow> u32 \<Rightarrow> 'a mach \<Rightarrow> (int \<times> 'a mach) option" where
  "cat_loop u fd buf t = do {
     (cnt, t) \<leftarrow> ece391_read u fd buf 1024 t;
     if cnt = 0 then Some (0, t)
     else if cnt = -1 then do { t \<leftarrow> say u (''file read failed'' @ nl) t; Some (3, t) }
     else do {
       (r, t) \<leftarrow> ece391_write u 1 buf cnt t;
       if r = -1 then Some (3, t) else cat_loop u fd buf t
     }
   }"

definition cat_main :: "user \<Rightarrow> u32 \<Rightarrow> 'a mach \<Rightarrow> (int \<times> 'a mach) option" where
  "cat_main u buf t = do {
     (r, t) \<leftarrow> ece391_getargs u buf 1024 t;
     if r \<noteq> 0 then do { t \<leftarrow> say u (''could not read arguments'' @ nl) t; Some (3, t) }
     else do {
       (fd, t) \<leftarrow> ece391_open u buf t;
       if fd = -1 then do { t \<leftarrow> say u (''file not found'' @ nl) t; Some (2, t) }
       else cat_loop u fd buf t
     }
   }"

partial_function (option) ls_loop :: "user \<Rightarrow> int \<Rightarrow> u32 \<Rightarrow> 'a mach \<Rightarrow> (int \<times> 'a mach) option" where
  "ls_loop u fd buf t = do {
     (cnt, t) \<leftarrow> ece391_read u fd buf 32 t;
     if cnt = 0 then Some (0, t)
     else if cnt = -1 then do { t \<leftarrow> say u (''directory entry read failed'' @ nl) t; Some (3, t) }
     else do {
       let t = ustore (buf + of_int cnt) 10 t;
       (r, t) \<leftarrow> ece391_write u 1 buf (cnt + 1) t;
       if r = -1 then Some (3, t) else ls_loop u fd buf t
     }
   }"

definition ls_main :: "user \<Rightarrow> u32 \<Rightarrow> 'a mach \<Rightarrow> (int \<times> 'a mach) option" where
  "ls_main u buf t = do {
     (fd, t) \<leftarrow> ece391_open u (u_literal u ''.'') t;
     if fd = -1 then do { t \<leftarrow> say u (''directory open failed'' @ nl) t; Some (2, t) }
     else ls_loop u fd buf t
   }"

definition hello_main :: "user \<Rightarrow> u32 \<Rightarrow> 'a mach \<Rightarrow> (int \<times> 'a mach) option" where
  "hello_main u buf t = do {
     t \<leftarrow> say u (''Hi, what'' @ [CHR 0x27] @ ''s your name? '') t;
     (cnt, t) \<leftarrow> ece391_read u 0 buf 1023 t;
     if cnt = -1 then do { t \<leftarrow> say u (''Can'' @ [CHR 0x27] @ ''t read name from keyboard.'' @ nl) t; Some (3, t) }
     else do {
       let t = ustore (buf + of_int cnt) 0 t;
       t \<leftarrow> say u ''Hello, '' t;
       t \<leftarrow> ece391_fdputs u 1 buf t;
       Some (0, t)
     }
   }"

definition testprint_main :: "user \<Rightarrow> 'a mach \<Rightarrow> (int \<times> 'a mach) option" where
  "testprint_main u t = do {
     t \<leftarrow> say u (''Hello, if this ran, the program was correct. Yay!'' @ nl) t;
     Some (0, t)
   }"

section \<open>counter\<close>

function counter_loop :: "user \<Rightarrow> u32 \<Rightarrow> u32 \<Rightarrow> u32 \<Rightarrow> 'a mach \<Rightarrow> 'a mach option" where
  "counter_loop u buf limit i t =
     (if i < limit then do {
        m \<leftarrow> ece391_itoa (umem t) (i + 1) buf 10;
        t \<leftarrow> ece391_fdputs u 1 buf (uset m t);
        t \<leftarrow> say u nl t;
        counter_loop u buf limit (i + 1) t
      } else Some t)"
  by pat_completeness auto
termination
  by (relation "measure (\<lambda>(u, buf, limit, i, t). unat limit - unat i)") (auto simp: unat_succ_less word_less_nat_alt)

declare counter_loop.simps [simp del]

definition counter_max :: "byte \<Rightarrow> u32" where
  "counter_max c = (if c = 48 then 100 else if c = 49 then 10000 else if c = 50 then 100000 else 0)"

definition counter_main :: "user \<Rightarrow> u32 \<Rightarrow> 'a mach \<Rightarrow> (int \<times> 'a mach) option" where
  "counter_main u buf t = do {
     t \<leftarrow> say u (''Enter the Test Number: (0): 100, (1): 10000, (2): 100000'' @ nl) t;
     (cnt, t) \<leftarrow> ece391_read u 0 buf 1023 t;
     if cnt = -1 then do { t \<leftarrow> say u (''Can'' @ [CHR 0x27] @ ''t read the number from keyboard.'' @ nl) t; Some (3, t) }
     else do {
       let t = ustore (buf + of_int cnt) 0 t;
       n \<leftarrow> ece391_strlen (umem t) buf;
       let c = umem t buf;
       if n > 2 \<or> n = 2 \<and> (c < 48 \<or> c > 50) then do { t \<leftarrow> say u (''Wrong Choice!'' @ nl) t; Some (0, t) }
       else do {
         t \<leftarrow> counter_loop u buf (counter_max c) 0 t;
         Some (0, t)
       }
     }
   }"

section \<open>grep\<close>

text \<open>The scan for the end of the line at \<open>line_end\<close>.\<close>

function find_line_end :: "mem \<Rightarrow> u32 \<Rightarrow> int \<Rightarrow> int \<Rightarrow> int" where
  "find_line_end m data lim line_end =
     (if line_end < lim \<and> 10 \<noteq> m (data + of_int line_end) then find_line_end m data lim (line_end + 1) else line_end)"
  by pat_completeness auto
termination
  by (relation "measure (\<lambda>(m, data, lim, line_end). nat (lim - line_end))") auto

declare find_line_end.simps [simp del]

text \<open>The loop over \<open>check\<close>: the first match prints the line and ends it.  \<open>s[0]\<close> is a signed character, \<open>data[check]\<close> is not.\<close>

function grep_line :: "user \<Rightarrow> u32 \<Rightarrow> u32 \<Rightarrow> u32 \<Rightarrow> u32 \<Rightarrow> int \<Rightarrow> int \<Rightarrow> int \<Rightarrow> 'a mach \<Rightarrow> 'a mach option" where
  "grep_line u s fname data s_len line_start line_end check t =
     (if check < line_end then
        (if sint (umem t s) = uint (umem t (data + of_int check)) \<and> 0 = ece391_strncmp (umem t) (data + of_int check) s s_len then do {
           t \<leftarrow> ece391_fdputs u 1 fname t;
           t \<leftarrow> say u '':'' t;
           t \<leftarrow> ece391_fdputs u 1 (data + of_int line_start) t;
           say u nl t
         }
         else grep_line u s fname data s_len line_start line_end (check + 1) t)
      else Some t)"
  by pat_completeness auto
termination
  by (relation "measure (\<lambda>(u, s, fname, data, s_len, line_start, line_end, check, t). nat (line_end - check))") auto

declare grep_line.simps [simp del]

text \<open>The inner \<open>while (1)\<close>: the lines of what has been read.  The result is the new value of \<open>last\<close>.\<close>

partial_function (option) grep_lines :: "user \<Rightarrow> u32 \<Rightarrow> u32 \<Rightarrow> u32 \<Rightarrow> u32 \<Rightarrow> int \<Rightarrow> int \<Rightarrow> int \<Rightarrow> 'a mach \<Rightarrow> (int \<times> 'a mach) option" where
  "grep_lines u s fname data s_len cnt lim line_start t =
     (let line_end = find_line_end (umem t) data lim line_start in
      if 10 \<noteq> umem t (data + of_int line_end) \<and> 0 \<noteq> cnt \<and> line_start \<noteq> 0 then do {
        let t = ustore (data + of_int line_end) 0 t;
        m \<leftarrow> ece391_strcpy (umem t) data (data + of_int line_start);
        Some (lim - line_start, uset m t)
      }
      else do {
        let t = ustore (data + of_int line_end) 0 t;
        t \<leftarrow> grep_line u s fname data s_len line_start line_end line_start t;
        let line_start = line_end + 1;
        if line_start \<ge> lim then Some (0, t) else grep_lines u s fname data s_len cnt lim line_start t
      })"

text \<open>The outer \<open>while (1)\<close> of \<open>do_one_file\<close>; \<open>False\<close> when a read failed.\<close>

partial_function (option) grep_reads :: "user \<Rightarrow> u32 \<Rightarrow> u32 \<Rightarrow> u32 \<Rightarrow> u32 \<Rightarrow> int \<Rightarrow> int \<Rightarrow> 'a mach \<Rightarrow> (bool \<times> 'a mach) option" where
  "grep_reads u s fname data s_len fd lim t = do {
     (cnt, t) \<leftarrow> ece391_read u fd (data + of_int lim) (1024 - lim) t;
     if cnt = -1 then do { t \<leftarrow> say u (''file read failed'' @ nl) t; Some (False, t) }
     else do {
       (lim, t) \<leftarrow> grep_lines u s fname data s_len cnt (lim + cnt) 0 t;
       if 0 = cnt then Some (True, t) else grep_reads u s fname data s_len fd lim t
     }
   }"

definition do_one_file :: "user \<Rightarrow> u32 \<Rightarrow> u32 \<Rightarrow> u32 \<Rightarrow> 'a mach \<Rightarrow> (int \<times> 'a mach) option" where
  "do_one_file u data s fname t = do {
     s_len \<leftarrow> ece391_strlen (umem t) s;
     (fd, t) \<leftarrow> ece391_open u fname t;
     if fd = -1 then do { t \<leftarrow> say u (''file open failed'' @ nl) t; Some (-1, t) }
     else do {
       (ok, t) \<leftarrow> grep_reads u s fname data s_len fd 0 t;
       if \<not> ok then Some (-1, t)
       else do {
         (r, t) \<leftarrow> ece391_close u fd t;
         if r = -1 then do { t \<leftarrow> say u (''file close failed'' @ nl) t; Some (-1, t) } else Some (0, t)
       }
     }
   }"

partial_function (option) grep_loop :: "user \<Rightarrow> int \<Rightarrow> u32 \<Rightarrow> u32 \<Rightarrow> u32 \<Rightarrow> 'a mach \<Rightarrow> (int \<times> 'a mach) option" where
  "grep_loop u fd buf search data t = do {
     (cnt, t) \<leftarrow> ece391_read u fd buf 32 t;
     if cnt = 0 then Some (0, t)
     else if cnt = -1 then do { t \<leftarrow> say u (''directory entry read failed'' @ nl) t; Some (3, t) }
     else if 46 = umem t buf then grep_loop u fd buf search data t
     else do {
       let t = ustore (buf + of_int cnt) 0 t;
       (r, t) \<leftarrow> do_one_file u data search buf t;
       if 0 \<noteq> r then Some (3, t) else grep_loop u fd buf search data t
     }
   }"

definition grep_main :: "user \<Rightarrow> u32 \<Rightarrow> u32 \<Rightarrow> u32 \<Rightarrow> 'a mach \<Rightarrow> (int \<times> 'a mach) option" where
  "grep_main u buf search data t = do {
     (r, t) \<leftarrow> ece391_getargs u search 1024 t;
     if r \<noteq> 0 then do { t \<leftarrow> say u (''could not read argument'' @ nl) t; Some (3, t) }
     else do {
       (fd, t) \<leftarrow> ece391_open u (u_literal u ''.'') t;
       if fd = -1 then do { t \<leftarrow> say u (''directory open failed'' @ nl) t; Some (2, t) }
       else grep_loop u fd buf search data t
     }
   }"

section \<open>shell\<close>

text \<open>The body of the loop: \<open>Some (Inl v)\<close> when \<open>main\<close> returns, \<open>Some (Inr ())\<close> when it goes on.\<close>

definition shell_round :: "user \<Rightarrow> (u32 \<Rightarrow> 'a mach \<Rightarrow> (u32 \<times> 'a mach) option) \<Rightarrow> u32 \<Rightarrow> 'a mach \<Rightarrow> ((int + unit) \<times> 'a mach) option" where
  "shell_round u child buf t = do {
     t \<leftarrow> say u ''391OS> '' t;
     (cnt, t) \<leftarrow> ece391_read u 0 buf 1023 t;
     if cnt = -1 then do { t \<leftarrow> say u (''read from keyboard failed'' @ nl) t; Some (Inl 3, t) }
     else do {
       let cnt = (if cnt > 0 \<and> 10 = umem t (buf + of_int (cnt - 1)) then cnt - 1 else cnt);
       let t = ustore (buf + of_int cnt) 0 t;
       r \<leftarrow> ece391_strcmp (umem t) buf (u_literal u ''exit'');
       if 0 = r then Some (Inl 0, t)
       else if 0 = umem t buf then Some (Inr (), t)
       else do {
         (rval, t) \<leftarrow> ece391_execute u child buf t;
         t \<leftarrow> (if rval = -1 then say u (''no such command'' @ nl) t
               else if rval = 256 then say u (''program terminated by exception'' @ nl) t
               else if rval \<noteq> 0 then say u (''program terminated abnormally'' @ nl) t
               else Some t);
         Some (Inr (), t)
       }
     }
   }"

partial_function (option) shell_loop :: "user \<Rightarrow> (u32 \<Rightarrow> 'a mach \<Rightarrow> (u32 \<times> 'a mach) option) \<Rightarrow> u32 \<Rightarrow> 'a mach \<Rightarrow> (int \<times> 'a mach) option" where
  "shell_loop u child buf t = do {
     (r, t) \<leftarrow> shell_round u child buf t;
     case r of Inl v \<Rightarrow> Some (v, t) | Inr _ \<Rightarrow> shell_loop u child buf t
   }"

definition shell_main :: "user \<Rightarrow> (u32 \<Rightarrow> 'a mach \<Rightarrow> (u32 \<times> 'a mach) option) \<Rightarrow> u32 \<Rightarrow> 'a mach \<Rightarrow> (int \<times> 'a mach) option" where
  "shell_main u child buf t = do {
     t \<leftarrow> say u (''Starting 391 Shell'' @ nl) t;
     shell_loop u child buf t
   }"

end
