(* ===== verification/UserTests.thy ===== *)
theory UserTests
  imports UserProgs
begin

text \<open>
  The remaining programs of \<^verbatim>\<open>src/syscalls\<close>: the system call test \<open>syserr\<close>, the signal test \<open>sigtest\<close> and the
  animation \<open>pingpong\<close>.
\<close>

unbundle bit_operations_syntax

section \<open>syserr\<close>

abbreviation NEG_FD :: int where "NEG_FD \<equiv> -1073741823"
abbreviation BIG_FD :: int where "BIG_FD \<equiv> 1073741823"
abbreviation BIG_NUM :: int where "BIG_NUM \<equiv> 1073741823"
abbreviation NEG_NUM :: int where "NEG_NUM \<equiv> -1073741823"

text \<open>\<open>call_sys\<close> loads \<^verbatim>\<open>eax\<close> only; the other registers are what they are.\<close>

definition call_sys :: "user \<Rightarrow> u32 \<times> u32 \<times> u32 \<Rightarrow> int \<Rightarrow> 'a mach \<Rightarrow> (int \<times> 'a mach) option" where
  "call_sys u = (\<lambda>(ebx, ecx, edx) num. int_0x80 u (of_int num) ebx ecx edx)"

text \<open>The two statements each test is made of: \<open>if (-1 != call) { fail = 2; ece391_fdputs (1, msg); }\<close> and the report at the
  end.\<close>

definition expect_error :: "user \<Rightarrow> string \<Rightarrow> ('a mach \<Rightarrow> (int \<times> 'a mach) option) \<Rightarrow> int \<times> 'a mach \<Rightarrow> (int \<times> 'a mach) option" where
  "expect_error u msg call = (\<lambda>(fail, t). do {
     (r, t) \<leftarrow> call t;
     if -1 \<noteq> r then do { t \<leftarrow> say u (msg @ nl) t; Some (2, t) } else Some (fail, t)
   })"

definition report :: "user \<Rightarrow> string \<Rightarrow> int \<times> 'a mach \<Rightarrow> (int \<times> 'a mach) option" where
  "report u name = (\<lambda>(fail, t). do {
     t \<leftarrow> say u (name @ (if fail \<noteq> 0 then '': FAIL'' else '': PASS'') @ nl) t;
     Some (fail, t)
   })"

definition err_neg_fd :: "user \<Rightarrow> u32 \<Rightarrow> 'a mach \<Rightarrow> (int \<times> 'a mach) option" where
  "err_neg_fd u buf t = do {
     r \<leftarrow> expect_error u ''read fail'' (ece391_read u NEG_FD buf 31) (0, t);
     r \<leftarrow> expect_error u ''write fail'' (ece391_write u NEG_FD buf 31) r;
     r \<leftarrow> expect_error u ''close fail'' (ece391_close u NEG_FD) r;
     report u ''err_neg_fd'' r
   }"

definition err_big_fd :: "user \<Rightarrow> u32 \<Rightarrow> 'a mach \<Rightarrow> (int \<times> 'a mach) option" where
  "err_big_fd u buf t = do {
     r \<leftarrow> expect_error u ''read fail'' (ece391_read u BIG_FD buf 31) (0, t);
     r \<leftarrow> expect_error u ''write fail'' (ece391_write u BIG_FD buf 31) r;
     r \<leftarrow> expect_error u ''close fail'' (ece391_close u BIG_FD) r;
     report u ''err_big_fd'' r
   }"

text \<open>\<open>open_lots\<close>: \<open>n\<close> more turns of the first loop; \<open>close_all\<close>: the second loop.\<close>

primrec open_lots :: "user \<Rightarrow> nat \<Rightarrow> int \<Rightarrow> 'a mach \<Rightarrow> (int \<times> 'a mach) option" where
  "open_lots u 0 cnt t = Some (cnt, t)"
| "open_lots u (Suc n) cnt t = do {
     (r, t) \<leftarrow> ece391_open u (u_literal u ''.'') t;
     open_lots u n (if -1 = r then cnt + 1 else cnt) t
   }"

primrec close_all :: "user \<Rightarrow> int list \<Rightarrow> 'a mach \<Rightarrow> 'a mach option" where
  "close_all u [] t = Some t"
| "close_all u (i # is) t = do { (_, t) \<leftarrow> ece391_close u i t; close_all u is t }"

definition err_open_lots :: "user \<Rightarrow> 'a mach \<Rightarrow> (int \<times> 'a mach) option" where
  "err_open_lots u t = do {
     (cnt, t) \<leftarrow> open_lots u 7 0 t;
     t \<leftarrow> close_all u [2, 3, 4, 5, 6, 7] t;
     if cnt = 1 then do { t \<leftarrow> say u (''err_open_lots: PASS'' @ nl) t; Some (0, t) }
     else do { t \<leftarrow> say u (''err_open_lots: FAIL'' @ nl) t; Some (2, t) }
   }"

definition err_open :: "user \<Rightarrow> 'a mach \<Rightarrow> (int \<times> 'a mach) option" where
  "err_open u t = do {
     r \<leftarrow> expect_error u ([CHR 0x27] @ ''helloo'' @ [CHR 0x27] @ '' fail'') (ece391_open u (u_literal u ''helloo'')) (0, t);
     r \<leftarrow> expect_error u ([CHR 0x27] @ ''shel'' @ [CHR 0x27] @ '' fail'') (ece391_open u (u_literal u ''shel'')) r;
     r \<leftarrow> expect_error u ''empty string fail'' (ece391_open u (u_literal u '''')) r;
     report u ''err_open'' r
   }"

primrec expect_errors :: "user \<Rightarrow> string \<Rightarrow> (int \<Rightarrow> 'a mach \<Rightarrow> (int \<times> 'a mach) option) \<Rightarrow> int list \<Rightarrow> int \<times> 'a mach \<Rightarrow> (int \<times> 'a mach) option" where
  "expect_errors u msg call [] r = Some r"
| "expect_errors u msg call (i # is) r = do { r \<leftarrow> expect_error u msg (call i) r; expect_errors u msg call is r }"

definition err_unopened :: "user \<Rightarrow> u32 \<Rightarrow> 'a mach \<Rightarrow> (int \<times> 'a mach) option" where
  "err_unopened u buf t = do {
     r \<leftarrow> expect_errors u ''close unopened or invalid fd fail'' (ece391_close u) [0, 1, 2, 3, 4, 5, 6, 7] (0, t);
     r \<leftarrow> expect_errors u ''read from unopened fd fail'' (\<lambda>i. ece391_read u i buf 31) [2, 3, 4, 5, 6, 7] r;
     r \<leftarrow> expect_errors u ''write to unopened fd fail'' (\<lambda>i. ece391_write u i buf 31) [2, 3, 4, 5, 6, 7] r;
     report u ''err_unopened'' r
   }"

definition err_vidmap :: "user \<Rightarrow> 'a mach \<Rightarrow> (int \<times> 'a mach) option" where
  "err_vidmap u t = do {
     r \<leftarrow> expect_error u ''Null pointer fail'' (ece391_vidmap u 0) (0, t);
     r \<leftarrow> expect_error u ''Kernel pointer fail fail'' (ece391_vidmap u 0x400000) r;
     report u ''err_vidmap'' r
   }"

definition err_stdin_out :: "user \<Rightarrow> u32 \<Rightarrow> 'a mach \<Rightarrow> (int \<times> 'a mach) option" where
  "err_stdin_out u buf t = do {
     r \<leftarrow> expect_error u ''write to stdin fail'' (ece391_write u 0 buf 31) (0, t);
     r \<leftarrow> expect_error u ''read from stdout fail'' (ece391_read u 1 buf 31) r;
     report u ''err_stdin_out'' r
   }"

definition err_syscall_num :: "user \<Rightarrow> u32 \<times> u32 \<times> u32 \<Rightarrow> 'a mach \<Rightarrow> (int \<times> 'a mach) option" where
  "err_syscall_num u regs t = do {
     r \<leftarrow> expect_error u ''syscall 0 fail'' (call_sys u regs BIG_NUM) (0, t);
     r \<leftarrow> expect_error u ''big num syscall fail'' (call_sys u regs NEG_NUM) r;
     r \<leftarrow> expect_error u ''neg num syscall fail'' (call_sys u regs 0) r;
     report u ''err_syscall_num'' r
   }"

text \<open>\<open>fail += test();\<close> for each test in turn.\<close>

primrec run_tests :: "('a mach \<Rightarrow> (int \<times> 'a mach) option) list \<Rightarrow> int \<Rightarrow> 'a mach \<Rightarrow> (int \<times> 'a mach) option" where
  "run_tests [] fail t = Some (fail, t)"
| "run_tests (f # fs) fail t = do { (r, t) \<leftarrow> f t; run_tests fs (fail + r) t }"

definition syserr_main :: "user \<Rightarrow> u32 \<Rightarrow> u32 \<Rightarrow> u32 \<times> u32 \<times> u32 \<Rightarrow> 'a mach \<Rightarrow> (int \<times> 'a mach) option" where
  "syserr_main u buf buf32 regs t = do {
     t \<leftarrow> say u ''Choose from tests 1-8. 0 to run all: '' t;
     (cnt, t) \<leftarrow> ece391_read u 0 buf 127 t;
     if cnt = -1 then do { t \<leftarrow> say u (''Can'' @ [CHR 0x27] @ ''t read test #'' @ nl) t; Some (2, t) }
     else
       let select = uint (umem t buf) - 48 in
       if select = 0 then do {
         (fail, t) \<leftarrow> run_tests [err_neg_fd u buf32, err_big_fd u buf32, err_open_lots u, err_open u, err_unopened u buf32, err_vidmap u,
           err_stdin_out u buf32, err_syscall_num u regs] 0 t;
         t \<leftarrow> say u (nl @ (if fail \<noteq> 0 then ''Overall Tests: FAIL'' else ''Overall Tests: PASS'') @ nl) t;
         Some (fail, t)
       }
       else if select = 1 then err_neg_fd u buf32 t
       else if select = 2 then err_big_fd u buf32 t
       else if select = 3 then err_open_lots u t
       else if select = 4 then err_open u t
       else if select = 5 then err_unopened u buf32 t
       else if select = 6 then err_vidmap u t
       else if select = 7 then err_stdin_out u buf32 t
       else if select = 8 then err_syscall_num u regs t
       else do { t \<leftarrow> say u ''Invalid test number. Choose from tests 1-8 or 0'' t; Some (0, t) }
   }"

section \<open>sigtest\<close>

text \<open>A store of user code: without a writable user mapping it is a page fault, whose handler does not return.\<close>

definition user_store :: "u32 \<Rightarrow> byte \<Rightarrow> 'a mach \<Rightarrow> 'a mach option" where
  "user_store a b t = (case translate (snd t) a of Some (_, True, True) \<Rightarrow> Some (ustore a b t) | _ \<Rightarrow> None)"

definition ece391_set_handler :: "user \<Rightarrow> u32 \<Rightarrow> u32 \<Rightarrow> 'a mach \<Rightarrow> (int \<times> 'a mach) option" where
  "ece391_set_handler u signum handler = int_0x80 u 9 signum handler 0"

text \<open>The static variables \<open>badbuf\<close> and \<open>charbuf\<close> are given by their addresses; \<open>h1\<close> and \<open>h3\<close> are the addresses of the two handlers.\<close>

definition sigtest_main :: "user \<Rightarrow> u32 \<Rightarrow> u32 \<Rightarrow> u32 \<Rightarrow> u32 \<Rightarrow> u32 \<Rightarrow> 'a mach \<Rightarrow> (int \<times> 'a mach) option" where
  "sigtest_main u buf charbuf badbuf h1 h3 t = do {
     (r, t) \<leftarrow> ece391_getargs u buf 1024 t;
     if 0 \<noteq> r then do { t \<leftarrow> say u (''could not read argument'' @ nl) t; Some (3, t) }
     else do {
       t \<leftarrow> (if umem t buf = 49 then do {
              t \<leftarrow> say u (''Installing signal handlers'' @ nl) t;
              (_, t) \<leftarrow> ece391_set_handler u 1 h1 t;
              (_, t) \<leftarrow> ece391_set_handler u 3 h3 t;
              Some t
            } else Some t);
       t \<leftarrow> say u (''Hi, what'' @ [CHR 0x27] @ ''s your name? '') t;
       (cnt, t) \<leftarrow> ece391_read u 0 buf 1023 t;
       if cnt = -1 then do { t \<leftarrow> say u (''Can'' @ [CHR 0x27] @ ''t read name from keyboard.'' @ nl) t; Some (3, t) }
       else do {
         t \<leftarrow> user_store (load32 (umem t) badbuf) 1 t;
         let t = ustore (buf + of_int cnt) 0 t;
         t \<leftarrow> say u ''Hello, '' t;
         t \<leftarrow> ece391_fdputs u 1 buf t;
         t \<leftarrow> (if umem t charbuf = 1 then say u (''success'' @ nl) t else say u (''failure'' @ nl) t);
         Some (0, t)
       }
     }
   }"

text \<open>The two handlers.  \<open>signum_at\<close> is the address of the argument on the stack; the saved \<^verbatim>\<open>eax\<close> lies 28 bytes above it.\<close>

definition say_signum :: "user \<Rightarrow> int \<Rightarrow> 'a mach \<Rightarrow> 'a mach option" where
  "say_signum u signum =
     say u ((if signum = 0 then ''0'' else if signum = 1 then ''1'' else if signum = 2 then ''2'' else if signum = 3 then ''3'' else ''invalid'') @ nl)"

definition segfault_sighandler :: "user \<Rightarrow> u32 \<Rightarrow> u32 \<Rightarrow> u32 \<Rightarrow> u32 \<Rightarrow> 'a mach \<Rightarrow> 'a mach option" where
  "segfault_sighandler u buf charbuf badbuf signum_at t = do {
     t \<leftarrow> say u ''Segfault signal handler called, signum: '' t;
     t \<leftarrow> say_signum u (sint (load32 (umem t) signum_at)) t;
     t \<leftarrow> say u (''Press enter to continue...'' @ nl) t;
     (_, t) \<leftarrow> ece391_read u 0 buf 1 t;
     let t = uset (store32 (umem t) badbuf charbuf) t;
     let t = uset (store32 (umem t) (signum_at + 28) charbuf) t;
     say u (''Signal handler returning'' @ nl) t
   }"

definition alarm_sighandler :: "user \<Rightarrow> int \<Rightarrow> 'a mach \<Rightarrow> 'a mach option" where
  "alarm_sighandler u signum t = do {
     t \<leftarrow> say u ''Alarm signal handler called, signum: '' t;
     say_signum u signum t
   }"

section \<open>pingpong\<close>

text \<open>The macros expand to 81 (\<open>BUFMAX\<close>), 2 (\<open>STARTLOOP\<close>) and 78 (\<open>LOOPMAX\<close>).  \<open>blanks\<close> stores spaces at the indices from \<open>i\<close> up to \<open>n\<close>.\<close>

function blanks :: "u32 \<Rightarrow> int \<Rightarrow> int \<Rightarrow> 'a mach \<Rightarrow> 'a mach" where
  "blanks buf n i t = (if i < n then blanks buf n (i + 1) (ustore (buf + of_int i) 32 t) else t)"
  by pat_completeness auto
termination
  by (relation "measure (\<lambda>(buf, n, i, t). nat (n - i))") auto

declare blanks.simps [simp del]

definition pingpong_init :: "user \<Rightarrow> u32 \<Rightarrow> u32 \<Rightarrow> 'a mach \<Rightarrow> (int \<times> 'a mach) option" where
  "pingpong_init u buf ret_val t = do {
     let t = blanks buf 81 0 t;
     let t = ustore (buf + 80) 0 t;
     let t = ustore (buf + 79) 10 t;
     let t = ustore (buf + 78) 124 t;
     let t = ustore (buf + 1) 124 t;
     (rtc_fd, t) \<leftarrow> ece391_open u (u_literal u ''rtc'') t;
     let t = uset (store32 (umem t) ret_val 32) t;
     (_, t) \<leftarrow> ece391_write u rtc_fd ret_val 4 t;
     Some (rtc_fd, t)
   }"

text \<open>One picture, with the character at \<open>j\<close>; then the sweeps over the list of positions.\<close>

definition pingpong_frame :: "user \<Rightarrow> u32 \<Rightarrow> u32 \<Rightarrow> int \<Rightarrow> byte \<Rightarrow> int \<Rightarrow> 'a mach \<Rightarrow> 'a mach option" where
  "pingpong_frame u buf garbage rtc_fd curchar j t = do {
     let t = blanks buf 78 2 t;
     let t = ustore (buf + of_int j) curchar t;
     t \<leftarrow> ece391_fdputs u 1 buf t;
     (_, t) \<leftarrow> ece391_read u rtc_fd garbage 4 t;
     Some t
   }"

primrec pingpong_sweep :: "user \<Rightarrow> u32 \<Rightarrow> u32 \<Rightarrow> int \<Rightarrow> byte \<Rightarrow> int list \<Rightarrow> 'a mach \<Rightarrow> 'a mach option" where
  "pingpong_sweep u buf garbage rtc_fd curchar [] t = Some t"
| "pingpong_sweep u buf garbage rtc_fd curchar (j # js) t = do {
     t \<leftarrow> pingpong_frame u buf garbage rtc_fd curchar j t;
     pingpong_sweep u buf garbage rtc_fd curchar js t
   }"

text \<open>A turn of the endless loop.\<close>

definition pingpong_round :: "user \<Rightarrow> u32 \<Rightarrow> u32 \<Rightarrow> int \<Rightarrow> byte \<Rightarrow> 'a mach \<Rightarrow> (byte \<times> 'a mach) option" where
  "pingpong_round u buf garbage rtc_fd curchar t = do {
     t \<leftarrow> pingpong_sweep u buf garbage rtc_fd curchar [2..77] t;
     t \<leftarrow> pingpong_sweep u buf garbage rtc_fd curchar (rev [2..77]) t;
     Some (if curchar = 90 then 65 else curchar + 1, t)
   }"

partial_function (option) pingpong_loop :: "user \<Rightarrow> u32 \<Rightarrow> u32 \<Rightarrow> int \<Rightarrow> byte \<Rightarrow> 'a mach \<Rightarrow> (int \<times> 'a mach) option" where
  "pingpong_loop u buf garbage rtc_fd curchar t = do {
     (curchar, t) \<leftarrow> pingpong_round u buf garbage rtc_fd curchar t;
     pingpong_loop u buf garbage rtc_fd curchar t
   }"

definition pingpong_main :: "user \<Rightarrow> u32 \<Rightarrow> u32 \<Rightarrow> u32 \<Rightarrow> 'a mach \<Rightarrow> (int \<times> 'a mach) option" where
  "pingpong_main u buf ret_val garbage t = do {
     (rtc_fd, t) \<leftarrow> pingpong_init u buf ret_val t;
     pingpong_loop u buf garbage rtc_fd 65 t
   }"

end
