(* ===== verification/UserDemo.thy ===== *)
theory UserDemo
  imports UserTerm
begin

text \<open>
  A sample process for the witnesses of the user programs: process 1 of the sample kernel, with a fresh control
  block, the arguments \<open>args\<close> and the literals \<open>strs\<close> of its program, 64 bytes each from \<open>0x08050000\<close> on.
\<close>

unbundle bit_operations_syntax

abbreviation LITS :: u32 where "LITS \<equiv> 0x08050000"

definition literal_at :: "string list \<Rightarrow> string \<Rightarrow> u32" where
  "literal_at strs str = (case first_index str strs of Some k \<Rightarrow> LITS + of_nat (64 * k) | None \<Rightarrow> 0)"

definition with_literals :: "string list \<Rightarrow> mem \<Rightarrow> mem" where
  "with_literals strs m a =
     (if within LITS (64 * length strs) a
      then (lit (strs ! (unat (a - LITS) div 64)) @ replicate 64 0) ! (unat (a - LITS) mod 64) else m a)"

definition lits_ok :: "string list \<Rightarrow> bool" where
  "lits_ok strs \<longleftrightarrow> length strs \<le> 64 \<and> (\<forall>str \<in> set strs. CHR 0x00 \<notin> set str \<and> length str < 64)"

lemma lit_nonzero: "CHR 0x00 \<notin> set str \<Longrightarrow> 0 \<notin> set (lit str)"
  by (auto simp: lit_def of_char_byte_0 dest: sym)

lemma with_literals_cstr:
  assumes "lits_ok strs" and "k < length strs"
  shows "cstr (ptr (with_literals strs m) (LITS + of_nat (64 * k))) (lit (strs ! k))"
proof -
  let ?xs = "lit (strs ! k)"
  have ok: "length strs \<le> 64" "CHR 0x00 \<notin> set (strs ! k)" "length ?xs < 64" using assms nth_mem [OF assms(2)] by (auto simp: lits_ok_def lit_def)
  have at: "with_literals strs m (LITS + of_nat (64 * k) + of_nat j) = (?xs @ replicate 64 0) ! j" if "j < 64" for j
  proof -
    have "64 * k + j < 64 * length strs" using assms(2) that mult_le_mono2 [of "Suc k" "length strs" 64] by simp
    moreover from this have "64 * k + j < 4294967296" using ok(1) by linarith
    moreover have "LITS + of_nat (64 * k) + of_nat j = LITS + of_nat (64 * k + j)" by simp
    ultimately show ?thesis using that unfolding with_literals_def by (simp only:) (simp add: unat_of_nat_u32 del: of_nat_add of_nat_mult)
  qed
  show ?thesis
  proof (rule cstrI)
    show "length ?xs < 4294967296" using ok by simp
    show "ptr (with_literals strs m) (LITS + of_nat (64 * k)) (of_nat i) = ?xs ! i" if "i < length ?xs" for i
      using at [of i] that ok(3) by (simp add: nth_append)
    show "0 \<notin> set ?xs" using lit_nonzero [OF ok(2)] .
    show "ptr (with_literals strs m) (LITS + of_nat (64 * k)) (of_nat (length ?xs)) = 0" using at [of "length ?xs"] ok(3) by (simp add: nth_append)
  qed
qed


definition proc_mem :: "string list \<Rightarrow> byte list \<Rightarrow> mem" where
  "proc_mem strs args = poke (with_literals strs (init_pcb lay_demo 1 demo_mem)) (0x7FE000 + 400) (args @ [0])"

definition proc_demo :: "string list \<Rightarrow> byte list \<Rightarrow> kernel" where
  "proc_demo strs args = sys_demo\<lparr>mem := proc_mem strs args, arg_size := int (length args)\<rparr>"

definition user_demo :: "string list \<Rightarrow> user" where
  "user_demo strs = \<lparr>u_layout = lay_demo, u_device = (\<lambda>_ _. 0), u_literal = literal_at strs\<rparr>"

lemma user_demo_sel [simp]: "u_layout (user_demo strs) = lay_demo" "u_literal (user_demo strs) = literal_at strs"
  by (simp_all add: user_demo_def)

lemma proc_demo_fields [simp]:
  "mem (proc_demo strs args) = proc_mem strs args" "counter (proc_demo strs args) = 1" "arg_size (proc_demo strs args) = int (length args)"
  "my_boot_block (proc_demo strs args) = my_boot_block demo" "file_addr (proc_demo strs args) = file_addr demo"
  "dentries (proc_demo strs args) = dentries demo" "inodes (proc_demo strs args) = inodes demo"
  by (simp_all add: proc_demo_def sys_demo_fields sys_demo_fs)

lemma pcb_1: "pcb_of 1 = 0x7FE000"
  by (simp add: pcb_of_def)

lemma proc_mem_args:
  assumes "0 \<notin> set args" and "length args < 1024"
  shows "cstr (ptr (proc_mem strs args) (0x7FE000 + 400)) args"
  unfolding proc_mem_def using assms by (intro cstr_poke) auto

text \<open>Three blocks differ from the sample image.\<close>

lemma proc_mem_other:
  assumes "length strs \<le> 64" and "length args < 1024" and "\<not> within 0x7FE000 1424 a" and "\<not> within LITS 4096 a"
  shows "proc_mem strs args a = demo_mem a"
proof -
  have "\<not> within (0x7FE000 + 400) (length (args @ [0])) a"
    using within_sub_block [of "0x7FE000" 400 "length (args @ [0])" a 1424] assms(2,3) by auto
  moreover have "\<not> within LITS (64 * length strs) a" using assms(1,4) by (auto simp: within_def)
  moreover have "\<not> within (pcb_of 1) 400 a" using assms(3) by (auto simp: within_def pcb_1)
  ultimately show ?thesis
    using init_pcb_fresh(2) [of 1 lay_demo a demo_mem] by (simp add: proc_mem_def poke_other with_literals_def)
qed

lemma proc_mem_fresh:
  assumes "length strs \<le> 64" and "length args < 1024"
  shows "pcb_fresh lay_demo 1 0 (proc_mem strs args)"
proof -
  have "pcb_fresh lay_demo 1 0 (init_pcb lay_demo 1 demo_mem)" using init_pcb_fresh(1) [of 1 lay_demo demo_mem] by simp
  moreover have "proc_mem strs args a = init_pcb lay_demo 1 demo_mem a" if "within (pcb_of 1) 400 a" for a
  proof -
    have "\<not> within LITS 4096 a" using that separate_within [of "0x7FE000" 400 LITS 4096 a] by (simp add: pcb_1 separate_def)
    then have "\<not> within LITS (64 * length strs) a" using assms by (auto simp: within_def)
    moreover have "\<not> within (0x7FE000 + 400) (length (args @ [0])) a"
      using that apartD [OF apart_offsets [of 0 400 400 "length (args @ [0])" "0x7FE000"]] assms(2) by (auto simp: pcb_1)
    ultimately show ?thesis by (simp add: proc_mem_def poke_other with_literals_def)
  qed
  ultimately show ?thesis using pcb_block.local by blast
qed


lemma sys_demo_kb: "kb_ok sys_demo" "line_of sys_demo = []" "plain sys_demo" "readable_flag sys_demo = 0" "on_screen sys_demo"
  by (simp_all add: sys_demo_def paging.defs paging_demo_def idt_state.defs idt_demo_def keyboard.defs kb_demo_def files.defs demo_def
      kb_ok_def plain_def line_of_def on_screen_def)

lemma proc_demo_ready:
  assumes "length strs \<le> 64" and "length args < 1024"
  shows "tty_ready lay_demo (proc_demo strs args)"
proof -
  have "kb_ok (proc_demo strs args)" "line_of (proc_demo strs args) = []"
    using sys_demo_kb by (simp_all add: proc_demo_def kb_ok_def on_screen_def line_of_def)
  moreover have "ops_at lay_demo (stdout_t lay_demo) = Some Stdout_ops" by (simp add: ops_at_def lay_demo_def)
  moreover have "\<not> vram a" if "within 0x7FE000 1424 a" for a
    using that separate_within [of "0x7FE000" 1424 VIDEO 4000 a] by (simp add: vram_def separate_def)
  ultimately show ?thesis using proc_mem_fresh [OF assms] by (simp add: tty_ready_def pcb_fresh_def pcb_1)
qed

lemma proc_demo_literals:
  assumes "lits_ok strs" and "length args < 1024"
  shows "has_literals (user_demo strs) (set strs) (proc_mem strs args)"
  unfolding has_literals_def
proof
  fix str assume "str \<in> set strs"
  then obtain k where k: "first_index str strs = Some k" using first_index_None [of str strs] by (cases "first_index str strs") auto
  then have i: "k < length strs" "strs ! k = str" using first_index_Some by fastforce+
  let ?p = "LITS + of_nat (64 * k)"
  have ok: "length strs \<le> 64" "length (lit str) < 64" using assms nth_mem [OF i(1)] i(2) by (auto simp: lits_ok_def lit_def)
  have b: "within LITS 4096 a" if "within ?p (Suc (length (lit str))) a" for a
    using within_sub_block [OF that, of 4096] i(1) ok by simp
  have "\<not> within (0x7FE000 + 400) (length (args @ [0])) a" if "within LITS 4096 a" for a
    using that separate_within [of LITS 4096 "0x7FE000 + 400" 1024 a] assms(2) by (auto simp: separate_def within_def)
  then have "proc_mem strs args a = with_literals strs (init_pcb lay_demo 1 demo_mem) a" if "within ?p (Suc (length (lit str))) a" for a
    using b [OF that] by (simp add: proc_mem_def poke_other)
  then have "cstr (ptr (proc_mem strs args) ?p) (lit str)"
    using with_literals_cstr [OF assms(1) i(1)] string_at.local [of ?p "lit str" "proc_mem strs args"] i(2) by simp
  moreover have "\<not> vram a" if "within LITS 4096 a" for a using that separate_within [of LITS 4096 VIDEO 4000 a] by (simp add: vram_def separate_def)
  moreover have "?p \<noteq> 0"
  proof -
    have "unat ?p = 0x08050000 + 64 * k" using i(1) ok(1) by (simp add: unat_word_ariths)
    then show ?thesis by auto
  qed
  ultimately show "printable (proc_mem strs args) (u_literal (user_demo strs) str) (lit str)"
    using k ok(2) b by (simp add: printable_def literal_at_def)
qed

lemma proc_demo_fs:
  assumes "length strs \<le> 64" and "length args < 1024"
  shows "same_fs sys_demo (proc_demo strs args)" and "fs_ready lay_demo demo_names (proc_demo strs args)"
proof -
  have o: "only [(0x7FE000, 1424), (LITS, 4096)] (mem sys_demo) (mem (proc_demo strs args))"
    using proc_mem_other [OF assms] by (simp add: only_def sys_demo_fields)
  have "off_image [(0x7FE000, 1424), (LITS, 4096)] sys_demo"
    using separate_within [of "0x7FE000" 1424 "0x100000" 12288] separate_within [of LITS 4096 "0x100000" 12288]
    by (auto simp: off_image_def in_image_def fs_size_def sys_demo_fs separate_def)
  with o show fs: "same_fs sys_demo (proc_demo strs args)" by (rule only_same_fs) (simp_all add: sys_demo_fs)
  have r: "fs_ready lay_demo demo_names sys_demo" by (rule sys_demo_ready)
  then have mt: "mounted sys_demo" by (simp add: fs_ready_def)
  note t = same_fs_transfer [OF fs mt]
  show "fs_ready lay_demo demo_names (proc_demo strs args)" using r t by (simp add: fs_ready_def sys_demo_fields)
qed

end
