(* ===== verification/UserErrors.thy ===== *)
theory UserErrors
  imports UserTests UserDemo
begin

text \<open>
  The system call test \<open>syserr\<close> run against the kernel: which of its tests pass, and which one stops the kernel.
\<close>

unbundle bit_operations_syntax

section \<open>System calls as the program sees them\<close>

lemma ece391_read_kernel:
  "ece391_read u fd buf n (irqs, s) = map_option (\<lambda>(irqs', v, s'). (v, irqs', s'\<lparr>intr := intr s\<rparr>))
     (sys_read (u_layout u) irqs (sint (of_int fd :: u32)) buf (sint (of_int n :: u32)) (s\<lparr>intr := False\<rparr>))"
  by (auto simp: ece391_read_def int_0x80_def asm_linkage_def iret_to_caller_def cli_def Let_def split: option.splits)

lemma ece391_write_kernel:
  "ece391_write u fd buf n (irqs, s) = map_option (\<lambda>(v, s'). (v, irqs, s'\<lparr>intr := intr s\<rparr>))
     (sys_write (u_layout u) (u_device u) (sint (of_int fd :: u32)) buf (sint (of_int n :: u32)) (s\<lparr>intr := False\<rparr>))"
  by (auto simp: ece391_write_def int_0x80_def asm_linkage_def iret_to_caller_def cli_def Let_def split: option.splits)

lemma ece391_open_kernel:
  "ece391_open u name (irqs, s) = map_option (\<lambda>(v, s'). (v, irqs, s'\<lparr>intr := intr s\<rparr>)) (sys_open (u_layout u) name (s\<lparr>intr := False\<rparr>))"
  by (auto simp: ece391_open_def int_0x80_def asm_linkage_def iret_to_caller_def cli_def Let_def split: option.splits)

lemma ece391_close_kernel:
  "ece391_close u fd (irqs, s) = map_option (\<lambda>(v, s'). (v, irqs, s'\<lparr>intr := intr s\<rparr>))
     (sys_close (u_layout u) (sint (of_int fd :: u32)) (s\<lparr>intr := False\<rparr>))"
  by (auto simp: ece391_close_def int_0x80_def asm_linkage_def iret_to_caller_def cli_def Let_def split: option.splits)

lemma ece391_vidmap_kernel:
  "ece391_vidmap u p (irqs, s) = (let (v, s') = vidmap (u_layout u) p (s\<lparr>intr := False\<rparr>) in Some (v, irqs, s'\<lparr>intr := intr s\<rparr>))"
  by (auto simp: ece391_vidmap_def int_0x80_def asm_linkage_def iret_to_caller_def cli_def Let_def split: option.splits prod.splits)

lemma ece391_getargs_kernel:
  "ece391_getargs u p n (irqs, s) = (let (v, s') = getargs p (sint (of_int n :: u32)) (s\<lparr>intr := False\<rparr>) in Some (v, irqs, s'\<lparr>intr := intr s\<rparr>))"
  by (auto simp: ece391_getargs_def int_0x80_def asm_linkage_def iret_to_caller_def cli_def Let_def split: option.splits prod.splits)

lemmas call_kernel = ece391_read_kernel ece391_write_kernel ece391_open_kernel ece391_close_kernel ece391_vidmap_kernel ece391_getargs_kernel

lemma sint_small: "-2147483648 \<le> i \<Longrightarrow> i < 2147483648 \<Longrightarrow> sint (of_int i :: u32) = i"
  by (subst sint_sbintrunc') (simp add: signed_take_bit_int_eq_self)

lemma intr_restored [simp]: "s\<lparr>intr := b, intr := intr s\<rparr> = (s :: 'a machine_scheme)"
  by simp

section \<open>Calls that fail\<close>

definition fails :: "('a mach \<Rightarrow> (int \<times> 'a mach) option) \<Rightarrow> 'a mach \<Rightarrow> bool" where
  "fails call t \<longleftrightarrow> call t = Some (-1, t)"

lemma bad_fd_fails:
  assumes "fd < 0 \<or> 7 < fd" and "-2147483648 \<le> fd" and "fd < 2147483648"
  shows "fails (ece391_read u fd buf n) t" "fails (ece391_write u fd buf n) t" "fails (ece391_close u fd) t"
  using assms sint_small [OF assms(2,3)] by (cases t; auto simp: fails_def call_kernel sys_read_def sys_write_def sys_close_def sti_def Let_def)+

lemma closed_fd_fails:
  assumes "fd_view (umem t) (pcb (snd t)) j = None" and "j < 8"
  shows "fails (ece391_read u (int j) buf n) t" "fails (ece391_write u (int j) buf n) t" "fails (ece391_close u (int j)) t"
  using assms sint_small [of "int j"]
  by (cases t; auto simp: fails_def call_kernel sys_read_def sys_write_def sys_close_def sti_def fd_view_def umem_def Let_def split: if_splits)+

lemma terminal_close_fails: "fails (ece391_close u 0) t" "fails (ece391_close u 1) t"
  by (cases t; simp add: fails_def call_kernel sys_close_def)+

lemma bad_vidmap_fails: "p < 0x08000000 \<Longrightarrow> fails (ece391_vidmap u p) t"
  by (cases t) (simp add: fails_def call_kernel vidmap_def)

lemma bad_number_fails:
  assumes "num < 1 \<or> 10 < num" and "-2147483648 \<le> num" and "num < 2147483648"
  shows "fails (call_sys u regs num) t"
  using assms sint_small [OF assms(2,3)]
  by (cases t; cases regs) (auto simp: fails_def call_sys_def int_0x80_def asm_linkage_def iret_to_caller_def cli_def Let_def)

lemma expect_error_fails: "fails call t \<Longrightarrow> expect_error u msg call (r, t) = Some (r, t)"
  by (simp add: fails_def expect_error_def)

lemma expect_errors_fail: "(\<And>i. i \<in> set is \<Longrightarrow> fails (call i) t) \<Longrightarrow> expect_errors u msg call is (r, t) = Some (r, t)"
  by (induction "is") (simp_all add: expect_error_fails)

text \<open>A test in which every call fails as expected prints that it passed.\<close>

definition passes :: "user \<Rightarrow> string \<Rightarrow> 'a mach \<Rightarrow> (int \<times> 'a mach) option \<Rightarrow> bool" where
  "passes u name t r \<longleftrightarrow> (\<exists>t'. r = Some (0, t') \<and> tty_shows (u_layout u) (lit (name @ '': PASS'' @ nl)) t t')"

lemma report_passes:
  assumes "talking (u_layout u) m0 t" and "has_literals u strs m0" and "name @ '': PASS'' @ nl \<in> strs"
  shows "passes u name t (report u name (0, t))"
  using says_textD [OF say_says [OF assms(2,3)] assms(1)] by (auto simp: passes_def report_def)

section \<open>The tests\<close>

definition test_names :: "string list" where
  "test_names = [''err_neg_fd'', ''err_big_fd'', ''err_open_lots'', ''err_open'', ''err_unopened'', ''err_vidmap'', ''err_stdin_out'', ''err_syscall_num'']"

definition pass_texts :: "string set" where
  "pass_texts = (\<lambda>name. name @ '': PASS'' @ nl) ` set test_names"

text \<open>The names test 4 opens are no files; the literals hold them.\<close>

definition wrong_names :: "user \<Rightarrow> byte list list \<Rightarrow> 'a mach \<Rightarrow> bool" where
  "wrong_names u names t \<longleftrightarrow> fs_ready (u_layout u) names (snd t) \<and>
     (\<forall>str \<in> {''helloo'', ''shel'', ''''}. cstr (ptr (umem t) (u_literal u str)) (lit str) \<and> (str = '''' \<or> lit str \<notin> set names))"

lemma wrong_name_fails:
  assumes "wrong_names u names t" and "str \<in> {''helloo'', ''shel'', ''''}"
  shows "fails (ece391_open u (u_literal u str)) t"
proof -
  obtain irqs s where t: "t = (irqs, s)" by (cases t)
  have "\<not> reserved_name (lit str)" "length (lit str) < 2147483648" using assms(2) by (auto simp: reserved_name_def lit_def)
  moreover have "fs_ready (u_layout u) names (s\<lparr>intr := False\<rparr>)" "cstr (ptr (mem (s\<lparr>intr := False\<rparr>)) (u_literal u str)) (lit str)"
    "lit str = [] \<or> lit str \<notin> set names"
    using assms by (auto simp: wrong_names_def t umem_def fs_ready_def lit_def)
  ultimately have "sys_open (u_layout u) (u_literal u str) (s\<lparr>intr := False\<rparr>) = Some (-1, s\<lparr>intr := False\<rparr>)"
    by (intro sys_open_missing)
  then show ?thesis by (simp add: fails_def t call_kernel)
qed

text \<open>C19: the system call test against the kernel.  With only the two terminal descriptors open, the tests with negative and with
  large descriptors, with wrong file names, with unopened descriptors, with pointers outside the program and with wrong
  call numbers report PASS, return 0 and do nothing else.  The test that writes to standard input never returns: the kernel calls
  a null function pointer.\<close>

theorem syserr_tests:
  fixes t :: "'a mach"
  assumes "talking (u_layout u) m0 t" and "has_literals u pass_texts m0" and "wrong_names u names t" and "buf \<noteq> 0"
    and "\<forall>j \<in> {2..<8}. fd_view (umem t) (pcb (snd t)) j = None"
    and "fd_view (umem t) (pcb (snd t)) 0 = Some d" and "ops_at (u_layout u) (d_table d) = Some Stdin_ops"
  shows "passes u ''err_neg_fd'' t (err_neg_fd u buf t) \<and> passes u ''err_big_fd'' t (err_big_fd u buf t) \<and>
    passes u ''err_open'' t (err_open u t) \<and> passes u ''err_unopened'' t (err_unopened u buf t) \<and>
    passes u ''err_vidmap'' t (err_vidmap u t) \<and> passes u ''err_syscall_num'' t (err_syscall_num u regs t) \<and>
    err_stdin_out u buf t = None"
proof (intro conjI)
  have rep: "passes u name t (report u name (0, t))" if "name \<in> set test_names" for name
    using report_passes [OF assms(1,2)] that by (simp add: pass_texts_def)
  show "passes u ''err_neg_fd'' t (err_neg_fd u buf t)" "passes u ''err_big_fd'' t (err_big_fd u buf t)"
    using rep [of "''err_neg_fd''"] rep [of "''err_big_fd''"]
    by (simp_all add: err_neg_fd_def err_big_fd_def expect_error_fails bad_fd_fails test_names_def)
  show "passes u ''err_open'' t (err_open u t)"
    using rep [of "''err_open''"] by (simp add: err_open_def expect_error_fails wrong_name_fails [OF assms(3)] test_names_def)
  show "passes u ''err_vidmap'' t (err_vidmap u t)" "passes u ''err_syscall_num'' t (err_syscall_num u regs t)"
    using rep [of "''err_vidmap''"] rep [of "''err_syscall_num''"]
    by (simp_all add: err_vidmap_def err_syscall_num_def expect_error_fails bad_vidmap_fails bad_number_fails test_names_def)
  have j: "fails (ece391_read u i buf 31) t \<and> fails (ece391_write u i buf 31) t \<and> fails (ece391_close u i) t" if i: "i \<in> set [2, 3, 4, 5, 6, 7]" for i :: int
  proof -
    obtain k where k: "i = int k" "k \<in> {2..<8}" using i by (auto intro: that [of "nat i"])
    then show ?thesis using closed_fd_fails [of t k u] assms(5) by auto
  qed
  moreover have "fails (ece391_close u i) t" if "i \<in> set [0, 1, 2, 3, 4, 5, 6, 7]" for i
    using that j [of i] terminal_close_fails [of u t] by auto
  ultimately show "passes u ''err_unopened'' t (err_unopened u buf t)"
    using rep [of "''err_unopened''"] expect_errors_fail [of "[0, 1, 2, 3, 4, 5, 6, 7]" "ece391_close u" t]
      expect_errors_fail [of "[2, 3, 4, 5, 6, 7]" "\<lambda>i. ece391_read u i buf 31" t] expect_errors_fail [of "[2, 3, 4, 5, 6, 7]" "\<lambda>i. ece391_write u i buf 31" t]
    by (simp add: err_unopened_def test_names_def del: expect_errors.simps)
  have "ece391_write u 0 buf 31 t = None"
    using assms(4,6,7) sint_small [of 31]
    by (cases t) (auto simp: call_kernel sys_write_def call_write_def fd_view_def umem_def Let_def split: if_splits)
  then show "err_stdin_out u buf t = None" by (simp add: err_stdin_out_def expect_error_def)
qed


definition syserr_lits :: "string list" where
  "syserr_lits = map (\<lambda>name. name @ '': PASS'' @ nl) test_names @ [''helloo'', ''shel'', '''']"

theorem syserr_tests_witness:
  "passes (user_demo syserr_lits) ''err_unopened'' ([], proc_demo syserr_lits []) (err_unopened (user_demo syserr_lits) 0x08060000 ([], proc_demo syserr_lits [])) \<and>
   err_stdin_out (user_demo syserr_lits) 0x08060000 ([], proc_demo syserr_lits []) = None"
proof -
  let ?u = "user_demo syserr_lits" and ?t = "([], proc_demo syserr_lits []) :: unit mach"
  have ok: "lits_ok syserr_lits" "length syserr_lits \<le> 64" by (simp_all add: lits_ok_def syserr_lits_def test_names_def)
  have lits: "has_literals ?u (set syserr_lits) (proc_mem syserr_lits [])" by (rule proc_demo_literals [OF ok(1)]) simp
  have "talking (u_layout ?u) (proc_mem syserr_lits []) ?t" using proc_demo_ready [OF ok(2)] by (simp add: talking_def umem_def)
  moreover have "has_literals ?u pass_texts (proc_mem syserr_lits [])"
    using lits by (simp add: has_literals_def pass_texts_def syserr_lits_def)
  moreover have "wrong_names ?u demo_names ?t"
  proof -
    have "lit str \<notin> set demo_names" if "str \<in> {''helloo'', ''shel''}" for str using that by (auto simp: demo_names_def lit_def)
    then show ?thesis using lits proc_demo_fs(2) [OF ok(2), of "[]"] by (auto simp: wrong_names_def has_literals_def printable_def syserr_lits_def umem_def)
  qed
  moreover have "\<forall>j \<in> {2..<8}. fd_view (umem ?t) (pcb (snd ?t)) j = None"
    "fd_view (umem ?t) (pcb (snd ?t)) 0 = Some \<lparr>d_table = stdin_t lay_demo, d_inode = 0, d_pos = 0, d_flags = 1\<rparr>"
    using proc_mem_fresh [OF ok(2), of "[]"] by (simp_all add: pcb_fresh_def umem_def)
  moreover have "ops_at (u_layout ?u) (stdin_t lay_demo) = Some Stdin_ops" by (simp add: ops_at_def)
  ultimately show ?thesis
    using syserr_tests [of ?u "proc_mem syserr_lits []" ?t demo_names "0x08060000"] by simp
qed

end
