(* ===== verification/UserCat.thy ===== *)
theory UserCat
  imports UserErrors
begin

text \<open>
  The program \<open>cat\<close> on the kernel: from the arguments through \<open>open\<close>, the read loop and the terminal, the screen shows the
  contents of the file.
\<close>

unbundle bit_operations_syntax

section \<open>Reading and writing do not disturb each other\<close>

text \<open>Video memory is apart from everything the file calls use.\<close>

definition screen_apart :: "layout \<Rightarrow> u32 \<Rightarrow> nat \<Rightarrow> 'a kernel_scheme \<Rightarrow> bool" where
  "screen_apart l buf n s \<longleftrightarrow>
     (\<forall>a. vram a \<longrightarrow> \<not> in_image s a \<and> \<not> within (pcb s) 1424 a \<and> \<not> within (dentry_addr l) 64 a \<and> \<not> within buf n a)"

definition same_files :: "'a kernel_scheme \<Rightarrow> 'a kernel_scheme \<Rightarrow> bool" where
  "same_files s s' \<longleftrightarrow> counter s' = counter s \<and> my_boot_block s' = my_boot_block s \<and> file_addr s' = file_addr s \<and>
     dentries s' = dentries s \<and> inodes s' = inodes s"

lemma same_files_image: "same_files s s' \<Longrightarrow> in_image s' = in_image s"
  by (simp add: same_files_def in_image_def fs_size_def fun_eq_iff)

lemma screen_apart_keep: "same_files s s' \<Longrightarrow> screen_apart l buf n s' = screen_apart l buf n s"
  using same_files_image [of s s'] by (simp add: screen_apart_def) (simp add: same_files_def)

lemma reading_cong:
  fixes s s' :: "'a kernel_scheme"
  assumes "same_files s s'" and "mem s' = mem s"
  shows "reading l names fd xs i buf n s' = reading l names fd xs i buf n s" "entry_inode s' = entry_inode s"
    "file_bytes s' = file_bytes s" "fd_pos fd s' = fd_pos fd s"
proof -
  have v: "my_boot_block s' = my_boot_block s" "file_addr s' = file_addr s" "dentries s' = dentries s" "inodes s' = inodes s" "mem s' = mem s"
    "counter s' = counter s"
    using assms by (simp_all add: same_files_def)
  note e = same_fs_view [OF v(1-5)]
  show "entry_inode s' = entry_inode s" "fd_pos fd s' = fd_pos fd s" using e v by (simp_all add: fd_pos_def)
  show "file_bytes s' = file_bytes s" using e by (simp add: file_bytes_def fun_eq_iff)
  show "reading l names fd xs i buf n s' = reading l names fd xs i buf n s"
    using e v by (simp add: reading_def fs_ready_def directory_def file_ok_def tail_ok_def dentry_room_def buf_room_def)
qed

lemma reading_write:
  fixes s s' :: "'a kernel_scheme"
  assumes "reading l names fd xs i buf n s" and "same_files s s'" and "screen_apart l buf n s" and "hide_vram (mem s') = hide_vram (mem s)"
  shows "reading l names fd xs i buf n s'" "entry_inode s' i = entry_inode s i" "file_bytes s' (entry_inode s i) = file_bytes s (entry_inode s i)"
    "fd_pos fd s' = fd_pos fd s"
proof -
  have same: "mem s' a = mem s a" if "in_image s a \<or> within (pcb s) 1424 a" for a
    using that assms(3) hide_vram_eqD [OF assms(4), of a] by (auto simp: screen_apart_def)
  let ?t = "s\<lparr>mem := mem s'\<rparr>"
  have fr: "reading l names fd xs i buf n ?t" "entry_inode ?t i = entry_inode s i" "file_bytes ?t (entry_inode s i) = file_bytes s (entry_inode s i)"
    using reading_frame [OF assms(1), of "mem s'"] same by blast+
  have "same_files ?t s'" "mem s' = mem ?t" using assms(2) by (simp_all add: same_files_def)
  note c = reading_cong [OF this]
  show "reading l names fd xs i buf n s'" "entry_inode s' i = entry_inode s i" "file_bytes s' (entry_inode s i) = file_bytes s (entry_inode s i)"
    using fr c by simp_all
  have fd: "fd < 8" using assms(1) by (simp add: reading_def)
  have "load32 (mem s') (fd_at (pcb s) (int fd) + of_nat 40) = load32 (mem s) (fd_at (pcb s) (int fd) + of_nat 40)"
    by (rule word_at.local) (use same within_field [of "fd_at (pcb s) (int fd)" 40] fd_in_pcb [OF fd] in auto)
  then show "fd_pos fd s' = fd_pos fd s" using assms(2) by (simp add: fd_pos_def same_files_def)
qed

text \<open>A change of memory that spares the screen and descriptor 1.\<close>

lemma term_of_mem:
  assumes "\<And>a. vram a \<Longrightarrow> m a = mem s a"
  shows "term_of (s\<lparr>mem := m\<rparr>) = term_of s"
proof -
  have "cell m i = cell (mem s) i" if "i < 2000" for i
    using assms vram_video_at [OF that] by (simp add: cell_def)
  then show ?thesis by (simp add: term_of_def)
qed

lemma tty_ready_mem:
  fixes s :: "'a kernel_scheme"
  assumes "tty_ready l s" and "fd_view m (pcb s) 1 = fd_view (mem s) (pcb s) 1"
  shows "tty_ready l (s\<lparr>mem := m\<rparr>)"
  using assms by (simp add: tty_ready_def kb_ok_def line_of_def on_screen_def)

lemma tty_ready_flags [simp]:
  "tty_ready l (s\<lparr>intr := b\<rparr>) = tty_ready l s" "tty_ready l (s\<lparr>length_of_file := k\<rparr>) = tty_ready l s"
  by (simp_all add: tty_ready_def kb_ok_def line_of_def on_screen_def)

lemma term_of_flags [simp]: "term_of (s\<lparr>intr := b\<rparr>) = term_of s" "term_of (s\<lparr>length_of_file := k\<rparr>) = term_of s"
  by (simp_all add: term_of_def)

section \<open>The loop\<close>

lemma cat_read:
  fixes s :: "'a kernel_scheme"
  assumes "reading (u_layout u) names fd xs i buf 1024 s" and "tty_ready (u_layout u) s" and "screen_apart (u_layout u) buf 1024 s" and "fd \<noteq> 1"
  defines "k \<equiv> entry_inode s i"
  defines "chunk \<equiv> take 1024 (drop (fd_pos fd s) (file_bytes s k))"
  shows "\<exists>s'. ece391_read u (int fd) buf 1024 (irqs, s) = Some (int (length chunk), irqs, s') \<and>
    bytes_at (ptr (mem s') buf) (length chunk) = chunk \<and> fd_pos fd s' = fd_pos fd s + length chunk \<and>
    reading (u_layout u) names fd xs i buf 1024 s' \<and> entry_inode s' i = k \<and> file_bytes s' k = file_bytes s k \<and>
    tty_ready (u_layout u) s' \<and> term_of s' = term_of s \<and> same_files s s'"
proof -
  let ?l = "u_layout u"
  have rs: "reading ?l names fd xs i buf 1024 (s\<lparr>intr := False\<rparr>)" using assms(1) by simp
  have c: "fd_pos fd (s\<lparr>intr := False\<rparr>) = fd_pos fd s" by (simp add: fd_pos_def)
  obtain s1 m L where s1: "sys_read ?l irqs (int fd) buf 1024 (s\<lparr>intr := False\<rparr>) = Some (irqs, int (length chunk), s1)"
    "bytes_at (ptr (mem s1) buf) (length chunk) = chunk" "fd_pos fd s1 = fd_pos fd s + length chunk"
    "reading ?l names fd xs i buf 1024 s1" "entry_inode s1 i = k" "file_bytes s1 k = file_bytes s k"
    "s1 = s\<lparr>intr := False, intr := True, mem := m, length_of_file := L\<rparr>"
    "\<And>a. \<not> within (dentry_addr ?l) 64 a \<Longrightarrow> \<not> within buf 1024 a \<Longrightarrow> \<not> within (fd_at (pcb s) (int fd)) 48 a \<Longrightarrow> m a = mem s a"
    using sys_read_file [OF rs, of irqs] by (auto simp: c chunk_def k_def)
  have r: "fd < 8" "apart buf 1024 (pcb s) 1424" "apart (dentry_addr ?l) 64 (pcb s) 1424" using assms(1) by (simp_all add: reading_def fs_ready_def)
  have scr: "m a = mem s a" if "vram a" for a
    using that assms(3) s1(8) fd_in_pcb [OF r(1)] by (auto simp: screen_apart_def)
  have "fd_view m (pcb s) 1 = fd_view (mem s) (pcb s) 1"
  proof (rule fd.local)
    fix a assume a: "within (fd_at (pcb s) (int 1)) 48 a"
    then have "within (pcb s) 1424 a" using fd_in_pcb [of 1] by simp
    moreover have "\<not> within (fd_at (pcb s) (int fd)) 48 a" using a fd_apart [of 1 fd] r(1) assms(4) apartD by fastforce
    ultimately show "m a = mem s a" using s1(8) r(2,3) apartD by blast
  qed
  then have "tty_ready ?l s1" using assms(2) tty_ready_mem [of ?l "s\<lparr>intr := True\<rparr>" m] unfolding s1(7) by simp
  moreover have "term_of s1 = term_of s" using term_of_mem [of m s] scr unfolding s1(7) by (simp add: term_of_def)
  moreover have "ece391_read u (int fd) buf 1024 (irqs, s) = Some (int (length chunk), irqs, s1\<lparr>intr := intr s\<rparr>)"
    using s1(1) r(1) sint_small [of "int fd"] sint_small [of 1024] by (simp add: ece391_read_kernel)
  moreover have "same_files s (s1\<lparr>intr := intr s\<rparr>)" by (simp add: s1(7) same_files_def)
  ultimately show ?thesis
    using s1(2-6) by (intro exI [of _ "s1\<lparr>intr := intr s\<rparr>"]) (simp add: fd_pos_def)
qed

lemma cat_loop_shows:
  fixes s :: "'a kernel_scheme"
  assumes "reading (u_layout u) names fd xs i buf 1024 s" and "tty_ready (u_layout u) s" and "screen_apart (u_layout u) buf 1024 s" and "fd \<noteq> 1"
  shows "\<exists>s'. cat_loop u (int fd) buf (irqs, s) = Some (0, irqs, s') \<and> tty_ready (u_layout u) s' \<and>
    term_of s' = fold t_putc (drop (fd_pos fd s) (file_bytes s (entry_inode s i))) (term_of s)"
  using assms(1-3)
proof (induction "length (file_bytes s (entry_inode s i)) - fd_pos fd s" arbitrary: s rule: less_induct)
  case less
  let ?l = "u_layout u" and ?k = "entry_inode s i" and ?p = "fd_pos fd s"
  let ?xs = "file_bytes s ?k" and ?chunk = "take 1024 (drop ?p (file_bytes s ?k))"
  obtain s1 where s1: "ece391_read u (int fd) buf 1024 (irqs, s) = Some (int (length ?chunk), irqs, s1)"
    "bytes_at (ptr (mem s1) buf) (length ?chunk) = ?chunk" "fd_pos fd s1 = ?p + length ?chunk"
    "reading ?l names fd xs i buf 1024 s1" "entry_inode s1 i = ?k" "file_bytes s1 ?k = ?xs" "tty_ready ?l s1" "term_of s1 = term_of s" "same_files s s1"
    using cat_read [OF less.prems assms(4)] by blast
  show ?case
  proof (cases "?chunk = []")
    case True
    then have "drop ?p ?xs = []" by simp
    with True show ?thesis using s1(1,7,8) by (subst cat_loop.simps) simp
  next
    case False
    have len: "length ?chunk \<le> 1024" "0 < length ?chunk" using False by auto
    have buf: "buf \<noteq> 0" using less.prems(1) by (simp add: reading_def)
    obtain t2 where "ece391_write u 1 buf (int (length ?chunk)) (irqs, s1) = Some (int (length ?chunk), t2)"
      "tty_shows ?l (bytes_at (ptr (umem (irqs, s1)) buf) (length ?chunk)) (irqs, s1) t2"
      using ece391_write_tty [of u "(irqs, s1)" "length ?chunk" buf] s1(7) len(1) buf by auto
    moreover from this obtain s2 where "t2 = (irqs, s2)" by (cases t2) (simp add: tty_shows_def)
    ultimately have s2: "ece391_write u 1 buf (int (length ?chunk)) (irqs, s1) = Some (int (length ?chunk), irqs, s2)"
      "term_of s2 = fold t_putc ?chunk (term_of s)" "off_terminal s2 = off_terminal s1" "tty_ready ?l s2"
      using s1(2,8) by (simp_all add: tty_shows_def umem_def)
    note f = off_terminal_fields [OF s2(3)]
    have sf: "same_files s1 s2" using f by (simp add: same_files_def)
    have sa: "screen_apart ?l buf 1024 s1" "screen_apart ?l buf 1024 s2"
      using less.prems(3) screen_apart_keep [OF s1(9)] screen_apart_keep [OF sf] by simp_all
    note w = reading_write [OF s1(4) sf sa(1), unfolded s1(5,6)]
    have r2: "reading ?l names fd xs i buf 1024 s2" "entry_inode s2 i = ?k" "file_bytes s2 ?k = ?xs" "fd_pos fd s2 = ?p + length ?chunk"
      using w f s1(3) by simp_all
    have "length ?xs - (?p + length ?chunk) < length ?xs - ?p" using len(2) by simp
    then obtain s' where s': "cat_loop u (int fd) buf (irqs, s2) = Some (0, irqs, s')" "tty_ready ?l s'"
      "term_of s' = fold t_putc (drop (?p + length ?chunk) ?xs) (term_of s2)"
      using less.hyps [of s2] r2 s2(4) sa(2) by auto
    have "fold t_putc (?chunk @ drop (?p + length ?chunk) ?xs) (term_of s) = fold t_putc (drop ?p ?xs) (term_of s)"
      by (subst chunk_append) simp
    moreover have "cat_loop u (int fd) buf (irqs, s) = Some (0, irqs, s')"
      using s1(1) s2(1) s'(1) len(2) by (subst cat_loop.simps) (simp del: length_take)
    ultimately show ?thesis using s'(2,3) s2(2) by simp
  qed
qed

section \<open>The program\<close>

text \<open>A process with the argument string \<open>xs\<close>: the file system is mounted, descriptor 1 is the terminal, descriptor \<open>fd\<close> is the lowest free
  one, the buffer and the message of the program lie outside everything the kernel uses.\<close>

abbreviation not_found :: string where "not_found \<equiv> ''file not found'' @ nl"

definition cat_ready :: "user \<Rightarrow> u32 \<Rightarrow> byte list list \<Rightarrow> byte list \<Rightarrow> nat \<Rightarrow> 'a kernel_scheme \<Rightarrow> bool" where
  "cat_ready u buf names xs fd s \<longleftrightarrow> fs_ready (u_layout u) names s \<and> tty_ready (u_layout u) s \<and> screen_apart (u_layout u) buf 1024 s \<and>
     cstr (ptr (mem s) (pcb s + 400)) xs \<and> length xs < 32 \<and> \<not> reserved_name xs \<and> arg_size s \<le> 1024 \<and>
     buf \<noteq> 0 \<and> buf_room s buf 1024 \<and> apart buf 1024 (pcb s) 1424 \<and> apart buf 1024 (dentry_addr (u_layout u)) 64 \<and>
     free_fd (mem s) (pcb s) = Some fd \<and> fd_at (pcb s) (int fd) + 4 \<noteq> 0 \<and> ops_at (u_layout u) (file_t (u_layout u)) = Some File_ops \<and>
     has_literals u {not_found} (mem s) \<and> apart (u_literal u not_found) 16 buf 1024"

text \<open>After \<open>getargs\<close> the buffer holds the argument, and nothing else has changed.\<close>

lemma cat_args:
  fixes s :: "'a kernel_scheme"
  assumes "cat_ready u buf names xs fd s"
  shows "\<exists>m. ece391_getargs u buf 1024 (irqs, s) = Some (0, irqs, s\<lparr>mem := m\<rparr>) \<and> cstr (ptr m buf) xs \<and> (\<forall>a. \<not> within buf 1024 a \<longrightarrow> m a = mem s a)"
proof -
  note r = assms [unfolded cat_ready_def]
  let ?m = "strncpy (mem s) buf (pcb s + 400) 1024"
  have L: "length xs < 32" and c: "cstr (ptr (mem s) (pcb s + 400)) xs" and ap: "apart buf 1024 (pcb s) 1424" using r by simp_all
  have "apart buf (Suc (length xs)) (pcb s + 400) (Suc (length xs))"
    unfolding apart_def
  proof (intro allI impI notI)
    fix a assume a: "within buf (Suc (length xs)) a" "within (pcb s + 400) (Suc (length xs)) a"
    have "within buf 1024 a" using a(1) L by (simp add: within_def)
    moreover have "within (pcb s) 1424 a" using within_sub_block [of "pcb s" 400 "Suc (length xs)" a 1424] a(2) L by simp
    ultimately show False using apartD [OF ap] by blast
  qed
  then have "forward_safe buf (pcb s + 400) (min (unat (1024 :: u32)) (Suc (length xs)))" using apart_forward_safe L by simp
  from strncpy_spec [OF _ this] have m: "?m = (\<lambda>a. if within buf 1024 a then (if unat (a - buf) < length xs then mem s (pcb s + 400 + (a - buf)) else 0) else mem s a)"
    using c by simp
  have "cstr (ptr ?m buf) xs"
  proof (rule cstrI)
    show "length xs < 4294967296" "0 \<notin> set xs" using L c by (simp_all add: cstr_def)
    show "ptr ?m buf (of_nat j) = xs ! j" if "j < length xs" for j
      using that L cstr_nth [OF c that] by (simp add: m within_def unat_of_nat_u32)
    show "ptr ?m buf (of_nat (length xs)) = 0" using L by (simp add: m within_def unat_of_nat_u32)
  qed
  moreover have "ece391_getargs u buf 1024 (irqs, s) = Some (0, irqs, s\<lparr>mem := ?m\<rparr>)"
    using r sint_small [of 1024] by (simp add: ece391_getargs_kernel getargs_def)
  moreover have "\<forall>a. \<not> within buf 1024 a \<longrightarrow> ?m a = mem s a" by (simp add: m)
  ultimately show ?thesis by blast
qed

lemma buf_room_within: "buf_room s buf n \<Longrightarrow> within buf n a \<Longrightarrow> \<not> in_image s a"
  by (auto simp: buf_room_def within_iff)

lemma entry_type_frame:
  assumes "mounted s" and "i < 63" and "same_fs s s'"
  shows "entry_type s' i = entry_type s i"
proof -
  have "load32 (mem s') (dentry_at s (of_nat i) + of_nat 32) = load32 (mem s) (dentry_at s (of_nat i) + of_nat 32)"
  proof (rule image_eq_load32)
    show "image_eq s (mem s')" using assms(3) by (simp add: same_fs_def image_eq_def)
    fix j :: nat assume "j < 4"
    then show "in_image s (dentry_at s (of_nat i) + of_nat 32 + of_nat j)"
      using dentry_in_image [OF assms(1,2), of "32 + j"] by (simp add: add.assoc)
  qed
  then show ?thesis using assms(3) by (simp add: entry_type_def dentry_at_def same_fs_def)
qed

lemma readable_frame:
  assumes "readable l i buf n s" and "mounted s" and "i < 63" and "same_fs s s'" and "counter s' = counter s"
  shows "readable l i buf n s'"
proof -
  note r = assms(1) [unfolded readable_def]
  have ok: "file_ok s (entry_inode s i)" "0 < file_length s (entry_inode s i)" using r by simp_all
  note f = same_fs_file [OF assms(4,2) ok] and t = same_fs_transfer [OF assms(4,2)]
  have "entry_inode s' i = entry_inode s i" "entry_type s' i = entry_type s i" using t(4) [OF assms(3)] entry_type_frame [OF assms(2-4)] by simp_all
  then show ?thesis using r f t(6) assms(5) by (simp add: readable_def)
qed

text \<open>The state after \<open>getargs\<close> is as ready as the one before.\<close>

lemma cat_buffer:
  fixes s :: "'a kernel_scheme"
  assumes "cat_ready u buf names xs fd s" and "\<And>a. \<not> within buf 1024 a \<Longrightarrow> m a = mem s a"
  shows "same_fs s (s\<lparr>mem := m\<rparr>)" "fs_ready (u_layout u) names (s\<lparr>mem := m\<rparr>)" "tty_ready (u_layout u) (s\<lparr>mem := m\<rparr>)"
    "term_of (s\<lparr>mem := m\<rparr>) = term_of s" "free_fd m (pcb s) = Some fd" "has_literals u {not_found} m"
proof -
  let ?s = "s\<lparr>mem := m\<rparr>"
  note r = assms(1) [unfolded cat_ready_def]
  have "\<not> within buf 1024 a" if "in_image s a" for a using that r buf_room_within by blast
  then show fs: "same_fs s ?s" using assms(2) by (simp add: same_fs_def)
  have mt: "mounted s" using r by (simp add: fs_ready_def)
  show "fs_ready (u_layout u) names ?s" using r same_fs_transfer [OF fs mt] by (simp add: fs_ready_def)
  have pcb: "m a = mem s a" if "within (pcb s) 1424 a" for a using that r assms(2) apartD by blast
  have view: "fd_view m (pcb s) j = fd_view (mem s) (pcb s) j" if "j < 8" for j
    by (rule fd.local) (use pcb fd_in_pcb [OF that] in blast)
  show "tty_ready (u_layout u) ?s" using tty_ready_mem view r by (metis one_less_numeral_iff semiring_norm(76))
  show "free_fd m (pcb s) = Some fd" using free_fd_cong [of m "pcb s" "mem s"] view r by simp
  show "term_of ?s = term_of s" by (rule term_of_mem) (use r assms(2) in \<open>auto simp: screen_apart_def\<close>)
  have "m a = mem s a" if "within (u_literal u not_found) 16 a" for a
    using that r assms(2) apartD [of "u_literal u not_found" 16 buf 1024 a] by blast
  then have "cstr (ptr m (u_literal u not_found)) (lit not_found) = cstr (ptr (mem s) (u_literal u not_found)) (lit not_found)"
    by (intro string_at.local) (simp add: lit_def eval_nat_numeral)
  then show "has_literals u {not_found} m" using r by (simp add: has_literals_def printable_def)
qed

text \<open>\<open>open\<close> of the argument gives descriptor \<open>fd\<close>, at the start of the file.\<close>

lemma cat_opened:
  fixes s :: "'a kernel_scheme"
  assumes "cat_ready u buf names xs fd s" and "\<And>a. \<not> within buf 1024 a \<Longrightarrow> m a = mem s a" and "cstr (ptr m buf) xs"
    and "xs \<noteq> []" and "first_index xs names = Some i" and "readable (u_layout u) i buf 1024 s"
  shows "\<exists>m'. ece391_open u buf (irqs, s\<lparr>mem := m\<rparr>) = Some (int fd, irqs, s\<lparr>mem := m'\<rparr>) \<and>
    reading (u_layout u) names fd xs i buf 1024 (s\<lparr>mem := m'\<rparr>) \<and> fd_pos fd (s\<lparr>mem := m'\<rparr>) = 0 \<and>
    file_bytes (s\<lparr>mem := m'\<rparr>) (entry_inode (s\<lparr>mem := m'\<rparr>) i) = file_bytes s (entry_inode s i) \<and>
    tty_ready (u_layout u) (s\<lparr>mem := m'\<rparr>) \<and> term_of (s\<lparr>mem := m'\<rparr>) = term_of s"
proof -
  let ?l = "u_layout u" and ?s = "s\<lparr>mem := m\<rparr>"
  let ?off = "?s\<lparr>intr := False\<rparr>"
  note r = assms(1) [unfolded cat_ready_def] and b = cat_buffer [OF assms(1,2)]
  have fs: "fs_ready ?l names ?off" using b(2) by (simp add: fs_ready_def)
  have name: "cstr (ptr (mem ?off) buf) xs" "length xs < 32" "\<not> reserved_name xs" using assms(3) r by simp_all
  have i63: "i < 63" "mounted s" using r first_index_Some [OF assms(5)] by (auto simp: directory_def fs_ready_def)
  have fd: "2 \<le> fd" "fd < 8" using free_fd_Some b(5) by blast+
  have n: "apart buf (Suc (length xs)) (pcb s) 1424" "apart buf (Suc (length xs)) (dentry_addr ?l) 64" using r by (auto simp: apart_def within_def)
  obtain m' where m': "sys_open ?l buf ?off = Some (int fd, ?off\<lparr>mem := m'\<rparr>)"
    "fd_view m' (pcb s) fd = Some (fresh_fd ?l ?off i fd)" "cstr (ptr m' (fd_at (pcb s) (int fd) + 4)) xs"
    "\<And>a. \<not> within (dentry_addr ?l) 64 a \<Longrightarrow> \<not> within (fd_at (pcb s) (int fd)) 48 a \<Longrightarrow> m' a = m a"
    using sys_open_found [OF fs name assms(4,5), simplified, OF n] b(5) by auto
  have rd: "readable ?l i buf 1024 ?off"
    by (rule readable_frame [OF assms(6) i63(2,1)]) (use b(1) in \<open>simp_all add: same_fs_def\<close>)
  let ?op = "s\<lparr>mem := m'\<rparr>" and ?k = "entry_inode s i"
  have o: "reading ?l names fd xs i buf 1024 (?off\<lparr>mem := m'\<rparr>)" "entry_inode (?off\<lparr>mem := m'\<rparr>) i = entry_inode ?off i"
    "file_bytes (?off\<lparr>mem := m'\<rparr>) (entry_inode ?off i) = file_bytes ?off (entry_inode ?off i)" "fd_pos fd (?off\<lparr>mem := m'\<rparr>) = 0"
    using opened_reading [OF fs assms(5,4) name(2) fd(2) rd, of m'] r m'(2-4) by simp_all
  have "same_files (?off\<lparr>mem := m'\<rparr>) ?op" "mem ?op = mem (?off\<lparr>mem := m'\<rparr>)" by (simp_all add: same_files_def)
  note c = reading_cong [OF this]
  have ok: "file_ok s ?k" "0 < file_length s ?k" using assms(6) by (simp_all add: readable_def)
  have k: "entry_inode ?off i = ?k" "file_bytes ?off ?k = file_bytes s ?k"
    using same_fs_transfer(4) [OF b(1) i63(2,1)] same_fs_file(3) [OF b(1) i63(2) ok] by simp_all
  have r1: "reading ?l names fd xs i buf 1024 ?op" "fd_pos fd ?op = 0" "file_bytes ?op (entry_inode ?op i) = file_bytes s ?k"
    using o(1,4) o(2,3) [unfolded k] unfolding c by simp_all
  have off: "apart (dentry_addr ?l) 64 (pcb s) 1424" using r by (simp add: fs_ready_def)
  have "fd_view m' (pcb s) 1 = fd_view m (pcb s) 1" by (rule other_fd_kept [OF off _ _ fd(2) m'(4)]) (use fd in auto)
  then have "tty_ready ?l ?op" using tty_ready_mem [OF b(3), of m'] by simp
  moreover have "term_of (?s\<lparr>mem := m'\<rparr>) = term_of ?s"
    by (rule term_of_mem) (use r m'(4) fd_in_pcb [OF fd(2)] in \<open>auto simp: screen_apart_def\<close>)
  moreover have "?off\<lparr>mem := m', intr := intr ?s\<rparr> = ?op" by (rule kernel.equality) simp_all
  then have "ece391_open u buf (irqs, ?s) = Some (int fd, irqs, ?op)" unfolding ece391_open_kernel m'(1) option.map prod.case by (simp only:)
  ultimately show ?thesis using r1 b(4) by (intro exI [of _ m']) simp
qed

text \<open>C4: \<open>cat\<close> shows a file.  A process whose argument names a regular file of the image, with at least one free descriptor, gets 0 from
  \<open>main\<close>, and the screen is what an abstract terminal shows after the bytes of the file, for every length of the file; the terminal is left ready for
  further output and no interrupt is consumed.  With a name that is not in the directory, \<open>main\<close> prints that the file was not found and returns 2.\<close>

theorem cat_prints_file:
  fixes s :: "'a kernel_scheme"
  assumes "cat_ready u buf names xs fd s" and "\<And>i. first_index xs names = Some i \<Longrightarrow> readable (u_layout u) i buf 1024 s"
  shows "\<exists>s'. tty_ready (u_layout u) s' \<and>
    (case (if xs = [] then None else first_index xs names) of
       None \<Rightarrow> cat_main u buf (irqs, s) = Some (2, irqs, s') \<and> term_of s' = fold t_putc (lit not_found) (term_of s)
     | Some i \<Rightarrow> cat_main u buf (irqs, s) = Some (0, irqs, s') \<and> term_of s' = fold t_putc (file_bytes s (entry_inode s i)) (term_of s))"
proof -
  let ?l = "u_layout u"
  note r = assms(1) [unfolded cat_ready_def]
  obtain m where m: "ece391_getargs u buf 1024 (irqs, s) = Some (0, irqs, s\<lparr>mem := m\<rparr>)" "cstr (ptr m buf) xs"
    "\<And>a. \<not> within buf 1024 a \<Longrightarrow> m a = mem s a"
    using cat_args [OF assms(1)] by blast
  let ?s = "s\<lparr>mem := m\<rparr>"
  note b = cat_buffer [OF assms(1) m(3)]
  have fs: "fs_ready ?l names (?s\<lparr>intr := False\<rparr>)" using b(2) by (simp add: fs_ready_def)
  have name: "cstr (ptr (mem (?s\<lparr>intr := False\<rparr>)) buf) xs" "length xs < 32" "\<not> reserved_name xs" using m(2) r by simp_all
  show ?thesis
  proof (cases "if xs = [] then None else first_index xs names")
    case None
    then have "sys_open ?l buf (?s\<lparr>intr := False\<rparr>) = Some (-1, ?s\<lparr>intr := False\<rparr>)"
      using sys_open_missing [OF fs name(1) _ name(3)] name(2) first_index_None [of xs names] by (auto split: if_splits)
    then have "ece391_open u buf (irqs, ?s) = Some (-1, irqs, ?s)" by (simp add: ece391_open_kernel)
    moreover have "talking ?l m (irqs, ?s)" using b(3) by (simp add: talking_def umem_def)
    then obtain t' where "say u not_found (irqs, ?s) = Some t'" "tty_shows ?l (lit not_found) (irqs, ?s) t'"
      using says_textD [OF say_says [OF b(6)]] by blast
    ultimately show ?thesis
      using None m(1) b(4) by (cases t') (auto simp: cat_main_def tty_shows_def)
  next
    case (Some i)
    then have i: "xs \<noteq> []" "first_index xs names = Some i" by (auto split: if_splits)
    obtain m' where m': "ece391_open u buf (irqs, ?s) = Some (int fd, irqs, s\<lparr>mem := m'\<rparr>)" "reading ?l names fd xs i buf 1024 (s\<lparr>mem := m'\<rparr>)"
      "fd_pos fd (s\<lparr>mem := m'\<rparr>) = 0" "file_bytes (s\<lparr>mem := m'\<rparr>) (entry_inode (s\<lparr>mem := m'\<rparr>) i) = file_bytes s (entry_inode s i)"
      "tty_ready ?l (s\<lparr>mem := m'\<rparr>)" "term_of (s\<lparr>mem := m'\<rparr>) = term_of s"
      using cat_opened [OF assms(1) m(3,2) i assms(2) [OF i(2)]] by blast
    have "screen_apart ?l buf 1024 (s\<lparr>mem := m'\<rparr>)" using r screen_apart_keep [of s "s\<lparr>mem := m'\<rparr>"] by (simp add: same_files_def)
    moreover have "fd \<noteq> 1" using free_fd_Some b(5) by fastforce
    ultimately obtain s' where "cat_loop u (int fd) buf (irqs, s\<lparr>mem := m'\<rparr>) = Some (0, irqs, s')" "tty_ready ?l s'"
      "term_of s' = fold t_putc (file_bytes s (entry_inode s i)) (term_of s)"
      using cat_loop_shows [OF m'(2,5), of irqs] m'(3,4,6) by auto
    then show ?thesis using Some m(1) m'(1) by (auto simp: cat_main_def)
  qed
qed

abbreviation CATBUF :: u32 where "CATBUF \<equiv> 0x08060000"

lemma proc_demo_buffer:
  assumes "length strs \<le> 64" and "length args < 1024"
  shows "screen_apart lay_demo CATBUF 1024 (proc_demo strs args)" "buf_room (proc_demo strs args) CATBUF 1024"
    "readable lay_demo 0 CATBUF 1024 (proc_demo strs args)" "free_fd (proc_mem strs args) 0x7FE000 = Some 2"
proof -
  have img: "in_image (proc_demo strs args) a \<longleftrightarrow> within 0x100000 12288 a" "in_image sys_demo a \<longleftrightarrow> within 0x100000 12288 a" for a
    by (simp_all add: in_image_def fs_size_def sys_demo_fs)
  show "screen_apart lay_demo CATBUF 1024 (proc_demo strs args)"
    unfolding screen_apart_def
  proof (intro allI impI conjI)
    fix a assume "vram a"
    then have v: "within VIDEO 4000 a" by (simp add: vram_def)
    show "\<not> in_image (proc_demo strs args) a" using v separate_within [of VIDEO 4000 "0x100000" 12288 a] by (simp add: img separate_def)
    show "\<not> within (pcb (proc_demo strs args)) 1424 a" using v separate_within [of VIDEO 4000 "0x7FE000" 1424 a] by (simp add: pcb_1 separate_def)
    show "\<not> within (dentry_addr lay_demo) 64 a" using v separate_within [of VIDEO 4000 "0x200000" 64 a] by (simp add: lay_demo_def separate_def)
    show "\<not> within CATBUF 1024 a" using v separate_within [of VIDEO 4000 CATBUF 1024 a] by (simp add: separate_def)
  qed
  have room: "buf_room t CATBUF 1024" if "\<And>a. in_image t a \<longleftrightarrow> within 0x100000 12288 a" for t :: kernel
    unfolding buf_room_def that
  proof (intro allI impI)
    fix j :: nat assume "j < 1024"
    then have "within CATBUF 1024 (CATBUF + of_nat j)" by (simp add: within_offset)
    then show "\<not> within 0x100000 12288 (CATBUF + of_nat j)"
      using separate_within [of CATBUF 1024 "0x100000" 12288 "CATBUF + of_nat j"] by (simp add: separate_def)
  qed
  show "buf_room (proc_demo strs args) CATBUF 1024" using room img(1) by blast
  have "apart CATBUF 1024 0x7FE000 1424" "apart CATBUF 1024 0x200000 64" by (rule separate_apart, simp add: separate_def)+
  then have "readable lay_demo 0 CATBUF 1024 sys_demo"
    using room [OF img(2)] by (simp add: readable_def sys_demo_entry sys_demo_fields lay_demo_def)
  then show "readable lay_demo 0 CATBUF 1024 (proc_demo strs args)"
    by (rule readable_frame) (use sys_demo_ready proc_demo_fs(1) assms in \<open>simp_all add: fs_ready_def sys_demo_fields\<close>)
  have "fd_view (proc_mem strs args) 0x7FE000 2 = None" using proc_mem_fresh [of strs args] assms by (simp add: pcb_fresh_def pcb_1)
  moreover have "[2..<8] = 2 # [3..<8]" by (simp add: upt_conv_Cons)
  ultimately show "free_fd (proc_mem strs args) 0x7FE000 = Some 2" by (simp only: free_fd_def find.simps if_True simp_thms)
qed

text \<open>The sample process with the argument \<open>a\<close> shows the file \<open>a\<close>, whose contents are \<open>hello\<close>.\<close>

theorem cat_prints_file_witness:
  "\<exists>s'. cat_main (user_demo [not_found]) CATBUF ([], proc_demo [not_found] (lit ''a'')) = Some (0, [], s') \<and>
    term_of s' = fold t_putc (lit ''hello'') (term_of (proc_demo [not_found] (lit ''a'')))"
proof -
  let ?u = "user_demo [not_found]" and ?s = "proc_demo [not_found] (lit ''a'')"
  have len: "length (lit ''a'') < 32" "length (lit ''a'') < 1024" "0 \<notin> set (lit ''a'')" "lit ''a'' \<noteq> []" by (simp_all add: lit_def)
  have k: "length [not_found] \<le> 64" by simp
  note b = proc_demo_buffer [OF k len(2)]
  have "apart CATBUF 1024 0x7FE000 1424" "apart CATBUF 1024 0x200000 64" "apart LITS 16 CATBUF 1024" by (rule separate_apart, simp add: separate_def)+
  moreover have "has_literals ?u {not_found} (proc_mem [not_found] (lit ''a''))"
    using proc_demo_literals [of "[not_found]" "lit ''a''"] len(2) by (simp add: lits_ok_def)
  moreover have "literal_at [not_found] not_found = LITS" by (simp add: literal_at_def)
  moreover have "fs_ready lay_demo demo_names ?s" "tty_ready lay_demo ?s" using proc_demo_fs(2) proc_demo_ready len(2) by simp_all
  ultimately have "cat_ready ?u CATBUF demo_names (lit ''a'') 2 ?s"
    using b proc_mem_args [OF len(3,2)] len(1) sys_demo_name(3)
    by (simp add: cat_ready_def pcb_1) (simp add: lay_demo_def fd_at_def ops_at_def lit_def)
  moreover have "readable (u_layout ?u) i CATBUF 1024 ?s" if "first_index (lit ''a'') demo_names = Some i" for i
    using that b(3) sys_demo_name(2) by simp
  moreover have "file_bytes ?s (entry_inode ?s 0) = lit ''hello''"
  proof -
    have mt: "mounted sys_demo" using sys_demo_ready by (simp add: fs_ready_def)
    have fs: "same_fs sys_demo ?s" using proc_demo_fs(1) len(2) by simp
    show ?thesis using same_fs_transfer(4) [OF fs mt, of 0] same_fs_file(3) [OF fs mt, of 0] sys_demo_entry by simp
  qed
  ultimately show ?thesis
    using cat_prints_file [of ?u CATBUF demo_names "lit ''a''" 2 ?s "[]"] sys_demo_name(2) len(4) by auto
qed

end
