(* ===== verification/UserInput.thy ===== *)
theory UserInput
  imports UserCat
begin

text \<open>
  User programs that read from the keyboard: what is typed while a program waits in \<open>read\<close> reaches its buffer, and the program \<open>hello\<close>
  greets with it.
\<close>

unbundle bit_operations_syntax

section \<open>A process whose standard input is the keyboard\<close>

text \<open>The characters of a sequence of keys.\<close>

definition typed :: "byte list \<Rightarrow> byte list" where
  "typed cs = map (\<lambda>c. norm ! unat c) cs"

text \<open>The keys of a line: characters, none of them a NUL, at most 128.\<close>

definition line_keys :: "byte list \<Rightarrow> bool" where
  "line_keys cs \<longleftrightarrow> list_all char_key cs \<and> 0 \<notin> set (typed cs) \<and> length cs \<le> 128"

lemma typed_length [simp]: "length (typed cs) = length cs"
  by (simp add: typed_def)

text \<open>No completed line waits, no modifier is held, descriptor 0 is the terminal, and the buffer of the program lies outside the control block and the
  screen.\<close>

definition keys_ready :: "layout \<Rightarrow> u32 \<Rightarrow> 'a kernel_scheme \<Rightarrow> bool" where
  "keys_ready l buf s \<longleftrightarrow> tty_ready l s \<and> plain s \<and> readable_flag s = 0 \<and>
     (\<exists>d. fd_view (mem s) (pcb s) 0 = Some d \<and> ops_at l (d_table d) = Some Stdin_ops) \<and>
     buf \<noteq> 0 \<and> apart buf 1024 (pcb s) 1424 \<and> (\<forall>a. within buf 1024 a \<longrightarrow> \<not> vram a)"

definition keyview :: "'a kernel_scheme \<Rightarrow> _" where
  "keyview s = (counter s, hide_vram (mem s), arg_size s, (my_boot_block s, file_addr s, dentries s, inodes s, entry_counter s),
     (caps_flag s, shift_left_flag s, shift_right_flag s, ctrl_left_flag s, ctrl_right_flag s))"

lemma off_input_keyview: "off_input s' = off_input s \<Longrightarrow> keyview s' = keyview s"
proof -
  have "keyview (off_input s) = keyview s" for s :: "'a kernel_scheme"
    by (simp add: keyview_def off_input_def hide_vram_def fun_eq_iff)
  then show "off_input s' = off_input s \<Longrightarrow> keyview s' = keyview s" by metis
qed

lemmas off_input_fields = off_input_keyview [unfolded keyview_def prod.inject]

text \<open>The paging state, which neither input nor output changes.\<close>

definition pageview :: "'a kernel_scheme \<Rightarrow> _" where
  "pageview s = (cr0 s, cr3 s, cr4 s, shown s, frames s)"

lemma pageview_off_terminal: "off_terminal s' = off_terminal s \<Longrightarrow> pageview s' = pageview s"
proof -
  have "pageview (off_terminal s) = pageview s" for s :: "'a kernel_scheme" by (simp add: pageview_def off_terminal_def)
  then show "off_terminal s' = off_terminal s \<Longrightarrow> pageview s' = pageview s" by metis
qed

lemma pageview_off_input: "off_input s' = off_input s \<Longrightarrow> pageview s' = pageview s"
proof -
  have "pageview (off_input s) = pageview s" for s :: "'a kernel_scheme" by (simp add: pageview_def off_input_def)
  then show "off_input s' = off_input s \<Longrightarrow> pageview s' = pageview s" by metis
qed

text \<open>What a program finds after it has read a line: the line in its buffer, its echo on the screen; outside the screen, the buffer and descriptor 0 no memory
  has changed, and the buffer not beyond the line.\<close>

definition line_read :: "layout \<Rightarrow> u32 \<Rightarrow> byte list \<Rightarrow> 'a kernel_scheme \<Rightarrow> 'a kernel_scheme \<Rightarrow> bool" where
  "line_read l buf xs s s' \<longleftrightarrow> keys_ready l buf s' \<and> bytes_at (ptr (mem s') buf) (length xs) = xs \<and>
     term_of s' = fold t_putc xs (term_of s) \<and> same_files s s' \<and> pageview s' = pageview s \<and>
     (\<forall>a. \<not> vram a \<longrightarrow> \<not> within buf 1024 a \<longrightarrow> \<not> within (fd_at (pcb s) 0) 48 a \<longrightarrow> mem s' a = mem s a) \<and>
     (\<forall>j. length xs \<le> j \<longrightarrow> j < 1024 \<longrightarrow> mem s' (buf + of_nat j) = mem s (buf + of_nat j))"

lemma fd_pos_store:
  assumes "fd_view m p j = Some d"
  shows "fd_view (store32 m (fd_at p (int j) + 40) v) p j = Some (d\<lparr>d_pos := v\<rparr>)"
  using assms by (auto simp: fd_view_def Let_def field_simps_fd split: if_splits)

lemma kb_ok_read: "kb_ok s \<Longrightarrow> kb_ok ((clear_storage_buf (s\<lparr>mem := m\<rparr>))\<lparr>readable_flag := 0\<rparr>)"
  by (simp add: kb_ok_def clear_storage_buf_def on_screen_def)

text \<open>The call itself.\<close>

lemma line_arrives:
  fixes s :: "'a kernel_scheme"
  assumes "keys_ready (u_layout u) buf s" and "list_all char_key cs" and "length cs \<le> 128"
  shows "\<exists>v k. ece391_read u 0 buf 1023 (map (key_irq env) (cs @ [0x1C]) @ rest, s) = Some (int (Suc (length cs)), rest,
      (clear_storage_buf (v\<lparr>mem := store32 (poke (mem v) buf (typed cs @ [10])) (fd_at (pcb s) 0 + 40) k\<rparr>))\<lparr>readable_flag := 0, intr := intr s\<rparr>) \<and>
    kb_ok v \<and> line_of v = [] \<and> term_of v = fold t_putc (typed cs @ [10]) (term_of s) \<and> off_input v = off_input s"
proof -
  let ?xs = "typed cs @ [10]" and ?s = "s\<lparr>intr := True\<rparr>" and ?p = "pcb s" and ?f = "fd_at (pcb s) 0" and ?keys = "map (key_irq env) (cs @ [0x1C]) @ rest"
  note r = assms(1) [unfolded keys_ready_def]
  have st: "kb_ok ?s" "plain ?s" "intr ?s" "readable_flag ?s = 0" "line_of ?s = []" using r by (simp_all add: plain_def line_of_def tty_ready_def)
  obtain v where v: "spin (\<lambda>s. readable_flag s = 0) ?keys ?s = Some (rest, v)" "kb_ok v" "readable_flag v \<noteq> 0"
    "ready_of v = Some ?xs" "line_of v = []" "term_of v = fold t_putc ?xs (term_of s)" "off_input v = off_input s"
    using spin_typed_line [OF st assms(2,3), of env rest] by (auto simp: typed_def)
  have c: "counter v = counter s" using off_input_fields [OF v(7)] by simp
  obtain d where d: "fd_view (mem s) ?p 0 = Some d" "ops_at (u_layout u) (d_table d) = Some Stdin_ops" using r by blast
  have t: "load32 (mem s) (?f + 44) \<noteq> 0" "load32 (mem s) ?f = d_table d" using d(1) by (auto simp: fd_view_def Let_def split: if_splits)
  define m where "m = poke (mem v) buf ?xs"
  define w where "w = (clear_storage_buf (v\<lparr>mem := m\<rparr>))\<lparr>readable_flag := 0\<rparr>"
  have "terminal_read ?keys buf off 1023 name ?s = Some (rest, int (Suc (length cs)), w)" for off name
    using v(1,3) copy_storage_ready [OF v(2,4), of buf 1023] assms(3) by (simp add: terminal_read_def w_def m_def)
  then have "sys_read (u_layout u) ?keys 0 buf 1023 (s\<lparr>intr := False\<rparr>) = Some (rest, int (Suc (length cs)),
      w\<lparr>mem := store32 (mem w) (?f + 40) (load32 (mem w) (?f + 40) + of_int (int (Suc (length cs))))\<rparr>)"
    using t d(2) r by (simp only: sys_read_def sti_def call_read_def Let_def) simp
  moreover have "mem w = m" "\<And>b k. w\<lparr>mem := k, intr := b\<rparr> = (clear_storage_buf (v\<lparr>mem := k\<rparr>))\<lparr>readable_flag := 0, intr := b\<rparr>"
    by (simp_all add: w_def clear_storage_buf_def)
  ultimately show ?thesis
    using v(2,5-7) sint_small [of 0] sint_small [of 1023] unfolding m_def by (auto simp: ece391_read_kernel)
qed

text \<open>The memory after it.\<close>

lemma line_stored:
  assumes "apart buf 1024 p 1424" and "\<forall>a. within p 1424 a \<longrightarrow> \<not> vram a" and "\<forall>a. within buf 1024 a \<longrightarrow> \<not> vram a"
    and "hide_vram mv = hide_vram m0" and "length xs \<le> 1024" and m: "m = store32 (poke mv buf xs) (fd_at p 0 + 40) k"
  shows "vram a \<Longrightarrow> m a = mv a" "\<not> vram a \<Longrightarrow> \<not> within buf 1024 a \<Longrightarrow> \<not> within (fd_at p 0) 48 a \<Longrightarrow> m a = m0 a"
    "bytes_at (ptr m buf) (length xs) = xs" "fd_view m p 1 = fd_view m0 p 1" "fd_view m0 p 0 = Some d \<Longrightarrow> fd_view m p 0 = Some (d\<lparr>d_pos := k\<rparr>)"
    "length xs \<le> j \<Longrightarrow> j < 1024 \<Longrightarrow> m (buf + of_nat j) = m0 (buf + of_nat j)"
proof -
  have fd: "within (fd_at p 0) 48 a" if "within (fd_at p 0 + 40) 4 a" for a using within_field [of "fd_at p 0" 40 a] that by simp
  then have pos: "within p 1424 a" if "within (fd_at p 0 + 40) 4 a" for a using fd_in_pcb [of 0 p a] that by simp
  have room: "within buf 1024 a" if "within buf (length xs) a" for a using that assms(5) by (auto simp: within_def)
  have out: "m a = mv a" if "\<not> within buf 1024 a" "\<not> within (fd_at p 0) 48 a" for a
    unfolding m using that fd room by (metis store32_other poke_other)
  have same: "mv a = m0 a" if "\<not> vram a" for a using hide_vram_eqD [OF assms(4) that] .
  show "m a = mv a" if "vram a" using out that assms(2,3) fd_in_pcb [of 0 p a] by auto
  show "m a = m0 a" if "\<not> vram a" "\<not> within buf 1024 a" "\<not> within (fd_at p 0) 48 a" using out same that by simp
  have "bytes_at (ptr m buf) (length xs) = bytes_at (ptr (poke mv buf xs) buf) (length xs)"
  proof (rule bytes_at_cong)
    fix i :: nat assume "i < length xs"
    then have "within buf 1024 (buf + of_nat i)" using assms(5) by (simp add: within_offset)
    then have "\<not> within (fd_at p 0 + 40) 4 (buf + of_nat i)" using pos apartD [OF assms(1)] by blast
    then show "ptr m buf (of_nat i) = ptr (poke mv buf xs) buf (of_nat i)" by (simp add: m store32_other)
  qed
  then show "bytes_at (ptr m buf) (length xs) = xs" using assms(5) by simp
  have view: "fd_view (poke mv buf xs) p j = fd_view m0 p j" if "j < 8" for j
  proof (rule fd.local)
    fix a assume "within (fd_at p (int j)) 48 a"
    then have "within p 1424 a" by (rule fd_in_pcb [OF that])
    then show "poke mv buf xs a = m0 a" using room [of a] apartD [OF assms(1), of a] same [of a] assms(2) poke_other by metis
  qed
  have "fd_view m p 1 = fd_view (poke mv buf xs) p 1" unfolding m
    by (rule fd.frame_store32) (use fd_apart [of 1 0 p] within_field [of "fd_at p 0" 40] in \<open>auto simp: apart_def\<close>)
  then show "fd_view m p 1 = fd_view m0 p 1" using view [of 1] by simp
  show "fd_view m p 0 = Some (d\<lparr>d_pos := k\<rparr>)" if "fd_view m0 p 0 = Some d"
    using fd_pos_store [of "poke mv buf xs" p 0 d k] view [of 0] that by (simp add: m)
  show "m (buf + of_nat j) = m0 (buf + of_nat j)" if j: "length xs \<le> j" "j < 1024"
  proof -
    have b: "within buf 1024 (buf + of_nat j)" "\<not> within buf (length xs) (buf + of_nat j)" using j by (simp_all add: within_offset)
    then have "\<not> within (fd_at p 0 + 40) 4 (buf + of_nat j)" using pos apartD [OF assms(1)] by blast
    then have "m (buf + of_nat j) = mv (buf + of_nat j)" using b(2) by (simp add: m store32_other poke_other)
    then show ?thesis using same b(1) assms(3) by simp
  qed
qed

lemma read_line:
  fixes s :: "'a kernel_scheme"
  assumes "keys_ready (u_layout u) buf s" and "list_all char_key cs" and "length cs \<le> 128"
  shows "\<exists>s'. ece391_read u 0 buf 1023 (map (key_irq env) (cs @ [0x1C]) @ rest, s) = Some (int (Suc (length cs)), rest, s') \<and>
    line_read (u_layout u) buf (typed cs @ [10]) s s'"
proof -
  let ?l = "u_layout u" and ?xs = "typed cs @ [10]"
  note r = assms(1) [unfolded keys_ready_def tty_ready_def]
  obtain v k where v: "ece391_read u 0 buf 1023 (map (key_irq env) (cs @ [0x1C]) @ rest, s) = Some (int (Suc (length cs)), rest,
      (clear_storage_buf (v\<lparr>mem := store32 (poke (mem v) buf ?xs) (fd_at (pcb s) 0 + 40) k\<rparr>))\<lparr>readable_flag := 0, intr := intr s\<rparr>)"
    "kb_ok v" "line_of v = []" "term_of v = fold t_putc ?xs (term_of s)" and off: "off_input v = off_input s"
    using line_arrives [OF assms] by blast
  note f = off_input_fields [OF off]
  define m where "m = store32 (poke (mem v) buf ?xs) (fd_at (pcb s) 0 + 40) k"
  let ?e = "(clear_storage_buf (v\<lparr>mem := m\<rparr>))\<lparr>readable_flag := 0, intr := intr s\<rparr>"
  have hv: "hide_vram (mem v) = hide_vram (mem s)" and len: "length ?xs \<le> 1024" using f assms(3) by simp_all
  have "apart buf 1024 (pcb s) 1424" "\<forall>a. within (pcb s) 1424 a \<longrightarrow> \<not> vram a" "\<forall>a. within buf 1024 a \<longrightarrow> \<not> vram a" using r by simp_all
  note w = line_stored [OF this hv len m_def]
  have me: "mem ?e = m" "pcb ?e = pcb s" "same_files s ?e" "pageview ?e = pageview s"
    using f pageview_off_input [OF off] by (simp_all add: clear_storage_buf_def same_files_def pageview_def)
  have "term_of ?e = term_of (v\<lparr>mem := m\<rparr>)" by (simp add: term_of_def clear_storage_buf_def)
  then have "term_of ?e = fold t_putc ?xs (term_of s)" using term_of_mem [of m v] w(1) v(4) by simp
  moreover have "kb_ok ?e" "line_of ?e = []" "plain ?e" "readable_flag ?e = 0"
    using v(2,3) r f by (simp_all add: kb_ok_def clear_storage_buf_def on_screen_def line_of_def plain_def)
  moreover obtain d where "fd_view (mem s) (pcb s) 0 = Some d" "ops_at ?l (d_table d) = Some Stdin_ops" using r by blast
  then have "\<exists>d. fd_view m (pcb s) 0 = Some d \<and> ops_at ?l (d_table d) = Some Stdin_ops" using w(5) by simp
  ultimately have "line_read ?l buf ?xs s ?e"
    using r w(2-4,6) me(3,4) unfolding line_read_def keys_ready_def tty_ready_def me by simp
  then show ?thesis using v(1) unfolding m_def by blast
qed

text \<open>The program ends the line with a zero, in place of the newline or after it.\<close>

lemma keys_ready_mem:
  fixes s :: "'a kernel_scheme"
  assumes "keys_ready l buf s" and "\<And>a. vram a \<or> within (pcb s) 1424 a \<Longrightarrow> m a = mem s a"
  shows "keys_ready l buf (s\<lparr>mem := m\<rparr>)" "term_of (s\<lparr>mem := m\<rparr>) = term_of s"
proof -
  note r = assms(1) [unfolded keys_ready_def]
  have view: "fd_view m (pcb s) j = fd_view (mem s) (pcb s) j" if "j < 8" for j
    by (rule fd.local) (use assms(2) fd_in_pcb [OF that] in blast)
  have "tty_ready l (s\<lparr>mem := m\<rparr>)" by (rule tty_ready_mem) (use r view [of 1] in simp_all)
  then show "keys_ready l buf (s\<lparr>mem := m\<rparr>)" using r view [of 0] by (simp add: keys_ready_def plain_def)
  show "term_of (s\<lparr>mem := m\<rparr>) = term_of s" by (rule term_of_mem) (use assms(2) in blast)
qed

lemma keys_ready_buffer:
  fixes s :: "'a kernel_scheme"
  assumes "keys_ready l buf s" and "\<And>a. \<not> within buf 1024 a \<Longrightarrow> m a = mem s a"
  shows "keys_ready l buf (s\<lparr>mem := m\<rparr>)" "term_of (s\<lparr>mem := m\<rparr>) = term_of s"
proof -
  note r = assms(1) [unfolded keys_ready_def]
  have "m a = mem s a" if "vram a \<or> within (pcb s) 1424 a" for a using that r assms(2) apartD by blast
  from keys_ready_mem [OF assms(1) this]
  show "keys_ready l buf (s\<lparr>mem := m\<rparr>)" "term_of (s\<lparr>mem := m\<rparr>) = term_of s" by blast+
qed

lemma line_terminated:
  fixes s' :: "'a kernel_scheme"
  assumes "line_read l buf xs s s'" and "k \<le> length xs" and "k < 1024" and "0 \<notin> set (take k xs)"
  defines "e \<equiv> s'\<lparr>mem := (mem s')(buf + of_nat k := 0)\<rparr>"
  shows "keys_ready l buf e" "cstr (ptr (mem e) buf) (take k xs)" "term_of e = fold t_putc xs (term_of s)" "same_files s e"
    "\<not> vram a \<Longrightarrow> \<not> within buf 1024 a \<Longrightarrow> \<not> within (fd_at (pcb s) 0) 48 a \<Longrightarrow> mem e a = mem s a" "pageview e = pageview s"
    "length xs \<le> j \<Longrightarrow> j < 1024 \<Longrightarrow> j \<noteq> k \<Longrightarrow> mem e (buf + of_nat j) = mem s (buf + of_nat j)"
proof -
  note r = assms(1) [unfolded line_read_def]
  have "within buf 1024 (buf + of_nat k)" using assms(3) by (simp add: within_offset)
  then have out: "((mem s')(buf + of_nat k := 0)) a = mem s' a" if "\<not> within buf 1024 a" for a using that by auto
  have "keys_ready l buf s'" using r by simp
  note b = keys_ready_buffer [OF this, of "(mem s')(buf + of_nat k := 0)", OF out]
  show "keys_ready l buf e" "term_of e = fold t_putc xs (term_of s)" "same_files s e" "pageview e = pageview s" using b r by (simp_all add: e_def same_files_def pageview_def)
  show "mem e a = mem s a" if "\<not> vram a" "\<not> within buf 1024 a" "\<not> within (fd_at (pcb s) 0) 48 a"
    using that r out by (simp add: e_def)
  show "mem e (buf + of_nat j) = mem s (buf + of_nat j)" if "length xs \<le> j" "j < 1024" "j \<noteq> k"
    using that r assms(3) of_nat_u32_inj [of j k] by (auto simp: e_def)
  show "cstr (ptr (mem e) buf) (take k xs)"
  proof (rule cstrI)
    show "length (take k xs) < 4294967296" using assms(3) by simp
    show "ptr (mem e) buf (of_nat j) = take k xs ! j" if "j < length (take k xs)" for j
    proof -
      have j: "j < k" "j < length xs" using that by simp_all
      then have "(of_nat j :: u32) \<noteq> of_nat k" using assms(3) of_nat_u32_inj [of j k] by auto
      moreover have "mem s' (buf + of_nat j) = bytes_at (ptr (mem s') buf) (length xs) ! j" using j(2) by (simp add: bytes_at_def)
      ultimately show ?thesis using r j by (simp add: e_def)
    qed
  qed (use assms(2,4) in \<open>simp_all add: e_def\<close>)
qed

section \<open>Output keeps the process ready\<close>

lemma tty_shows_keys:
  fixes s s' :: "'a kernel_scheme"
  assumes "keys_ready l buf s" and "tty_shows l xs (irqs, s) (irqs', s')"
  shows "keys_ready l buf s'"
proof -
  note r = assms(1) [unfolded keys_ready_def tty_ready_def]
  have o: "off_terminal s' = off_terminal s" "tty_ready l s'" using assms(2) by (simp_all add: tty_shows_def)
  note f = off_terminal_fields [OF o(1)]
  have "fd_view (mem s') (pcb s) 0 = fd_view (mem s) (pcb s) 0" by (rule fd_view_hide) (use f r in simp_all)
  then show ?thesis using o(2) r f by (simp add: keys_ready_def plain_def)
qed

text \<open>The literals of a program, apart from its buffer and descriptor 0.\<close>

definition own_literals :: "user \<Rightarrow> string set \<Rightarrow> u32 \<Rightarrow> 'a kernel_scheme \<Rightarrow> bool" where
  "own_literals u strs buf s \<longleftrightarrow> has_literals u strs (mem s) \<and>
     (\<forall>str \<in> strs. apart (u_literal u str) (Suc (length str)) buf 1024 \<and> apart (u_literal u str) (Suc (length str)) (fd_at (pcb s) 0) 48)"

lemma own_literals_keep:
  assumes "own_literals u strs buf s" and "counter s' = counter s"
    and "\<And>a. \<not> vram a \<Longrightarrow> \<not> within buf 1024 a \<Longrightarrow> \<not> within (fd_at (pcb s) 0) 48 a \<Longrightarrow> mem s' a = mem s a"
  shows "own_literals u strs buf s'"
proof -
  have "printable (mem s') (u_literal u str) (lit str)" if "str \<in> strs" for str
  proof -
    have p: "printable (mem s) (u_literal u str) (lit str)" "apart (u_literal u str) (Suc (length str)) buf 1024"
      "apart (u_literal u str) (Suc (length str)) (fd_at (pcb s) 0) 48"
      using assms(1) that by (simp_all add: own_literals_def has_literals_def)
    have "mem s' a = mem s a" if "within (u_literal u str) (Suc (length (lit str))) a" for a
      using that p assms(3) [of a] apartD [OF p(2), of a] apartD [OF p(3), of a] by (simp add: printable_def lit_def)
    then show ?thesis using p(1) string_at.local [of "u_literal u str" "lit str" "mem s'" "mem s"] by (simp add: printable_def)
  qed
  then show ?thesis using assms(1,2) by (simp add: own_literals_def has_literals_def)
qed

lemma say_shows:
  fixes s :: "'a kernel_scheme"
  assumes "keys_ready (u_layout u) buf s" and "own_literals u strs buf s" and "str \<in> strs"
  shows "\<exists>s'. say u str (irqs, s) = Some (irqs, s') \<and> keys_ready (u_layout u) buf s' \<and> own_literals u strs buf s' \<and>
    term_of s' = fold t_putc (lit str) (term_of s) \<and> off_terminal s' = off_terminal s"
proof -
  have "talking (u_layout u) (mem s) (irqs, s)" using assms(1) by (simp add: talking_def keys_ready_def umem_def)
  moreover have "has_literals u strs (mem s)" using assms(2) by (simp add: own_literals_def)
  ultimately obtain t where t: "say u str (irqs, s) = Some t" "tty_shows (u_layout u) (lit str) (irqs, s) t"
    using says_textD [OF say_says [OF _ assms(3)]] by blast
  moreover obtain s' where s': "t = (irqs, s')" using t(2) by (cases t) (simp add: tty_shows_def)
  ultimately have sh: "say u str (irqs, s) = Some (irqs, s')" "tty_shows (u_layout u) (lit str) (irqs, s) (irqs, s')" by simp_all
  have o: "off_terminal s' = off_terminal s" "term_of s' = fold t_putc (lit str) (term_of s)" using sh(2) by (simp_all add: tty_shows_def)
  note f = off_terminal_fields [OF o(1)]
  have "own_literals u strs buf s'"
    by (rule own_literals_keep [OF assms(2)]) (use f hide_vram_eqD [of "mem s'" "mem s"] in simp_all)
  then show ?thesis using sh o tty_shows_keys [OF assms(1) sh(2)] by blast
qed

section \<open>hello\<close>

abbreviation ask_name :: string where "ask_name \<equiv> ''Hi, what'' @ [CHR 0x27] @ ''s your name? ''"
abbreviation greeting :: string where "greeting \<equiv> ''Hello, ''"

lemma say_read_line:
  fixes s :: "'a kernel_scheme"
  assumes "keys_ready (u_layout u) buf s" and "own_literals u strs buf s" and "str \<in> strs" and "line_keys cs"
  shows "\<exists>s1 s2. say u str (map (key_irq env) (cs @ [0x1C]) @ rest, s) = Some (map (key_irq env) (cs @ [0x1C]) @ rest, s1) \<and>
    ece391_read u 0 buf 1023 (map (key_irq env) (cs @ [0x1C]) @ rest, s1) = Some (int (Suc (length cs)), rest, s2) \<and>
    line_read (u_layout u) buf (typed cs @ [10]) s1 s2 \<and> own_literals u strs buf s1 \<and>
    term_of s1 = fold t_putc (lit str) (term_of s) \<and> off_terminal s1 = off_terminal s"
proof -
  have k: "list_all char_key cs" "length cs \<le> 128" using assms(4) by (simp_all add: line_keys_def)
  let ?keys = "map (key_irq env) (cs @ [0x1C]) @ rest"
  obtain s1 where s1: "say u str (?keys, s) = Some (?keys, s1)" "keys_ready (u_layout u) buf s1" "own_literals u strs buf s1"
    "term_of s1 = fold t_putc (lit str) (term_of s)" "off_terminal s1 = off_terminal s"
    using say_shows [OF assms(1-3), of ?keys] by blast
  obtain s2 where "ece391_read u 0 buf 1023 (?keys, s1) = Some (int (Suc (length cs)), rest, s2)" "line_read (u_layout u) buf (typed cs @ [10]) s1 s2"
    using read_line [OF s1(2) k, of env rest] by blast
  then show ?thesis using s1 by blast
qed

lemma buffer_printable:
  assumes "keys_ready l buf s" and "cstr (ptr (mem s) buf) xs" and "length xs < 1024"
  shows "printable (mem s) buf xs"
proof -
  have "within buf 1024 a" if "within buf (Suc (length xs)) a" for a using that assms(3) by (auto simp: within_def)
  then show ?thesis using assms by (auto simp: printable_def keys_ready_def)
qed

lemma put_buffer:
  fixes s :: "'a kernel_scheme"
  assumes "keys_ready (u_layout u) buf s" and "printable (mem s) buf xs"
  shows "\<exists>s'. ece391_fdputs u 1 buf (irqs, s) = Some (irqs, s') \<and> keys_ready (u_layout u) buf s' \<and> term_of s' = fold t_putc xs (term_of s)"
proof -
  have "talking (u_layout u) (mem s) (irqs, s)" using assms(1) by (simp add: talking_def keys_ready_def umem_def)
  then obtain t where t: "ece391_fdputs u 1 buf (irqs, s) = Some t" "tty_shows (u_layout u) xs (irqs, s) t"
    using says_textD [OF fdputs_says [OF assms(2)]] by blast
  obtain s' where s': "t = (irqs, s')" using t(2) by (cases t) (simp add: tty_shows_def)
  then have "term_of s' = fold t_putc xs (term_of s)" using t(2) by (simp add: tty_shows_def)
  then show ?thesis using t tty_shows_keys [OF assms(1)] unfolding s' by blast
qed

text \<open>C5: \<open>hello\<close> greets with the name typed.  A process whose descriptors 0 and 1 are the terminal asks for a name, waits while any sequence of at most 128
  character keys and then Enter is pressed, and returns 0; the screen is what an abstract terminal shows after the question, the echo of the line,
  the greeting and the line once more.  The interrupts after the Enter are still to come, and the process is ready to read another line.\<close>

theorem hello_greets:
  fixes s :: "'a kernel_scheme"
  assumes "keys_ready (u_layout u) buf s" and "own_literals u {ask_name, greeting} buf s" and "line_keys cs"
  shows "\<exists>s'. hello_main u buf (map (key_irq env) (cs @ [0x1C]) @ rest, s) = Some (0, rest, s') \<and> keys_ready (u_layout u) buf s' \<and>
    term_of s' = fold t_putc (lit ask_name @ typed cs @ [10] @ lit greeting @ typed cs @ [10]) (term_of s)"
proof -
  let ?xs = "typed cs @ [10]" and ?l = "u_layout u" and ?keys = "map (key_irq env) (cs @ [0x1C]) @ rest"
  have k: "length cs \<le> 128" "0 \<notin> set ?xs" using assms(3) by (simp_all add: line_keys_def)
  obtain s1 s2 where s1: "say u ask_name (?keys, s) = Some (?keys, s1)" "ece391_read u 0 buf 1023 (?keys, s1) = Some (int (Suc (length cs)), rest, s2)"
    "line_read ?l buf ?xs s1 s2" "own_literals u {ask_name, greeting} buf s1" "term_of s1 = fold t_putc (lit ask_name) (term_of s)"
    using say_read_line [OF assms(1,2) _ assms(3), of ask_name env rest] by blast
  define s3 where "s3 = s2\<lparr>mem := (mem s2)(buf + of_nat (Suc (length cs)) := 0)\<rparr>"
  have "Suc (length cs) \<le> length ?xs" "Suc (length cs) < 1024" "0 \<notin> set (take (Suc (length cs)) ?xs)" using k by simp_all
  note e = line_terminated [OF s1(3) this, folded s3_def]
  have lits: "own_literals u {ask_name, greeting} buf s3"
    by (rule own_literals_keep [OF s1(4) _ e(5)]) (use e(4) in \<open>simp_all add: same_files_def\<close>)
  obtain s4 where s4: "say u greeting (rest, s3) = Some (rest, s4)" "keys_ready ?l buf s4" "own_literals u {ask_name, greeting} buf s4"
    "term_of s4 = fold t_putc (lit greeting) (term_of s3)" "off_terminal s4 = off_terminal s3"
    using say_shows [OF e(1) lits, of greeting rest] by blast
  have "hide_vram (mem s4) = hide_vram (mem s3)" using off_terminal_fields [OF s4(5)] by simp
  moreover have "printable (mem s3) buf ?xs" using buffer_printable [OF e(1), of ?xs] e(2) k(1) by simp
  ultimately have "printable (mem s4) buf ?xs" using printable_hide by blast
  then obtain s5 where s5: "ece391_fdputs u 1 buf (rest, s4) = Some (rest, s5)" "keys_ready ?l buf s5" "term_of s5 = fold t_putc ?xs (term_of s4)"
    using put_buffer [OF s4(2), of ?xs rest] by blast
  have "hello_main u buf (?keys, s) = Some (0, rest, s5)"
    using s1(1,2) s4(1) s5(1) by (simp add: hello_main_def ustore_def s3_def)
  then show ?thesis using s5(2,3) s4(4) e(3) s1(5) by auto
qed

lemma proc_demo_keys:
  assumes "length strs \<le> 64" and "length args < 1024"
  shows "keys_ready lay_demo CATBUF (proc_demo strs args)"
proof -
  let ?s = "proc_demo strs args"
  have "plain ?s" "readable_flag ?s = 0" using sys_demo_kb by (simp_all add: proc_demo_def plain_def)
  moreover have "ops_at lay_demo (stdin_t lay_demo) = Some Stdin_ops" by (simp add: ops_at_def lay_demo_def)
  moreover have "apart CATBUF 1024 0x7FE000 1424" by (rule separate_apart) (simp add: separate_def)
  moreover have "\<not> vram a" if "within CATBUF 1024 a" for a
    using that separate_within [of CATBUF 1024 VIDEO 4000 a] by (simp add: vram_def separate_def)
  ultimately show ?thesis
    using proc_demo_ready [OF assms] proc_mem_fresh [OF assms] by (simp add: keys_ready_def pcb_fresh_def pcb_1)
qed

text \<open>The blocks of the sample process are apart from its literals.\<close>

lemma literal_block:
  assumes "lits_ok strs" and "str \<in> set strs" and "within (literal_at strs str) (Suc (length str)) a"
  shows "within LITS 4096 a"
proof -
  obtain k where k: "first_index str strs = Some k" using first_index_None [of str strs] assms(2) by (cases "first_index str strs") auto
  then have "k < length strs" "length strs \<le> 64" "length str < 64" using first_index_Some [OF k] assms(1,2) by (auto simp: lits_ok_def)
  then show ?thesis using assms(3) k within_sub_block [of LITS "64 * k" "Suc (length str)" a 4096] by (simp add: literal_at_def)
qed

theorem hello_greets_witness:
  "\<exists>s'. hello_main (user_demo [ask_name, greeting]) CATBUF (map (key_irq env_demo) [0x1E, 0x26, 0x1C], proc_demo [ask_name, greeting] []) = Some (0, [], s') \<and>
    term_of s' = fold t_putc (lit ask_name @ lit ''al'' @ [10] @ lit greeting @ lit ''al'' @ [10]) (term_of (proc_demo [ask_name, greeting] []))"
proof -
  let ?strs = "[ask_name, greeting]" and ?cs = "[0x1E, 0x26] :: byte list"
  have ok: "lits_ok ?strs" by (simp add: lits_ok_def)
  have "apart LITS 4096 CATBUF 1024" "apart LITS 4096 0x7FE000 1424" by (rule separate_apart, simp add: separate_def)+
  then have "apart (literal_at ?strs str) (Suc (length str)) CATBUF 1024 \<and> apart (literal_at ?strs str) (Suc (length str)) (fd_at 0x7FE000 0) 48" if "str \<in> set ?strs" for str
    using literal_block [OF ok that] fd_in_pcb [of 0 "0x7FE000"] unfolding apart_def by auto
  then have "own_literals (user_demo ?strs) (set ?strs) CATBUF (proc_demo ?strs [])"
    using proc_demo_literals [OF ok, of "[]"] unfolding own_literals_def by (simp add: pcb_1)
  then have lits: "own_literals (user_demo ?strs) {ask_name, greeting} CATBUF (proc_demo ?strs [])" by simp
  have ty: "typed ?cs = lit ''al''" by (simp add: typed_def norm_def lit_def)
  have "line_keys ?cs" unfolding line_keys_def ty by (simp add: char_key_def lit_def)
  then show ?thesis
    using hello_greets [OF _ lits, of ?cs env_demo "[]"] proc_demo_keys [of ?strs "[]"] ty by auto
qed

end
