(* ===== verification/UserShell.thy ===== *)
theory UserShell
  imports UserInput
begin

text \<open>
  The program \<open>shell\<close> on the kernel: one round of its loop, from the keys through the terminal to the screen, for a line that is empty, names no program or is
  \<open>exit\<close>.
\<close>

unbundle bit_operations_syntax

section \<open>The process of the shell\<close>

abbreviation prompt :: string where "prompt \<equiv> ''391OS> ''"
abbreviation no_such :: string where "no_such \<equiv> ''no such command'' @ nl"
abbreviation abnormal :: string where "abnormal \<equiv> ''program terminated abnormally'' @ nl"
abbreviation banner :: string where "banner \<equiv> ''Starting 391 Shell'' @ nl"

definition shell_strs :: "string set" where
  "shell_strs = {banner, prompt, ''exit'', no_such, abnormal}"

text \<open>Memory the shell and the kernel write while it runs: the screen, the buffer, descriptor 0 and the two local arrays of \<open>execute\<close>.\<close>

definition scratch_mem :: "layout \<Rightarrow> u32 \<Rightarrow> u32 \<Rightarrow> u32 \<Rightarrow> bool" where
  "scratch_mem l buf p a \<longleftrightarrow> vram a \<or> within buf 1024 a \<or> within (fd_at p 0) 48 a \<or> within (command_name_local l) 33 a \<or> within (arg_buf_local l) 1024 a"

text \<open>From \<open>s\<close> to \<open>s'\<close> only that memory, the drivers and the arguments of the last command have changed; in the buffer, not the byte behind the longest line
  (128 characters and a newline).\<close>

definition shell_step :: "layout \<Rightarrow> u32 \<Rightarrow> 'a kernel_scheme \<Rightarrow> 'a kernel_scheme \<Rightarrow> bool" where
  "shell_step l buf s s' \<longleftrightarrow> same_files s s' \<and> pageview s' = pageview s \<and> (\<forall>a. \<not> scratch_mem l buf (pcb s) a \<longrightarrow> mem s' a = mem s a) \<and>
     mem s' (buf + 129) = mem s (buf + 129)"

lemma shell_step_trans: "shell_step l buf s t \<Longrightarrow> shell_step l buf t v \<Longrightarrow> shell_step l buf s v"
  by (simp add: shell_step_def same_files_def)

lemma shell_step_output: "off_terminal s' = off_terminal s \<Longrightarrow> \<not> vram (buf + 129) \<Longrightarrow> shell_step l buf s s'"
  using off_terminal_fields [of s' s] pageview_off_terminal [of s' s] hide_vram_eqD [of "mem s'" "mem s"]
  by (auto simp: shell_step_def same_files_def scratch_mem_def)

definition shell_ready :: "user \<Rightarrow> u32 \<Rightarrow> byte list list \<Rightarrow> 'a kernel_scheme \<Rightarrow> bool" where
  "shell_ready u buf names s \<longleftrightarrow> keys_ready (u_layout u) buf s \<and> has_literals u shell_strs (mem s) \<and>
     (\<forall>str \<in> shell_strs. \<forall>a. within (u_literal u str) (Suc (length str)) a \<longrightarrow> \<not> scratch_mem (u_layout u) buf (pcb s) a) \<and>
     counter s < 6 \<and> mounted s \<and> directory s names \<and> (\<forall>a. in_image s a \<longrightarrow> \<not> scratch_mem (u_layout u) buf (pcb s) a) \<and>
     apart buf 1024 (command_name_local (u_layout u)) 33 \<and> apart buf 1024 (arg_buf_local (u_layout u)) 1024 \<and>
     apart (command_name_local (u_layout u)) 33 (arg_buf_local (u_layout u)) 1024 \<and>
     (\<forall>a. within (command_name_local (u_layout u)) 33 a \<or> within (arg_buf_local (u_layout u)) 1024 a \<longrightarrow> \<not> vram a \<and> \<not> within (pcb s) 1424 a)"

lemma keys_ready_tail: "keys_ready l buf s \<Longrightarrow> \<not> vram (buf + 129)"
proof -
  assume "keys_ready l buf s"
  moreover have "within buf 1024 (buf + of_nat 129)" by (subst within_offset) simp_all
  ultimately show ?thesis by (simp add: keys_ready_def)
qed

lemma shell_ready_literals: "shell_ready u buf names s \<Longrightarrow> own_literals u shell_strs buf s"
  unfolding shell_ready_def own_literals_def apart_def scratch_mem_def by blast

text \<open>The readiness of the shell rests on its literals and on the image of the file system.\<close>

definition in_literals :: "user \<Rightarrow> u32 \<Rightarrow> bool" where
  "in_literals u a \<longleftrightarrow> (\<exists>str \<in> shell_strs. within (u_literal u str) (Suc (length str)) a)"

lemma shell_ready_same:
  fixes s s' :: "'a kernel_scheme"
  assumes "shell_ready u buf names s" and "keys_ready (u_layout u) buf s'" and "same_files s s'"
    and "\<And>a. in_literals u a \<or> in_image s a \<Longrightarrow> mem s' a = mem s a"
  shows "shell_ready u buf names s'"
proof -
  note r = assms(1) [unfolded shell_ready_def]
  have c: "counter s' = counter s" and mt: "mounted s" using assms(3) r by (simp_all add: same_files_def)
  have fs: "same_fs s s'" using assms(3,4) by (simp add: same_fs_def same_files_def)
  note t = same_fs_transfer [OF fs mt]
  have "has_literals u shell_strs (mem s')"
    unfolding has_literals_def
  proof
    fix str assume str: "str \<in> shell_strs"
    have "mem s' a = mem s a" if "within (u_literal u str) (Suc (length (lit str))) a" for a
      using that str assms(4) by (auto simp: in_literals_def lit_def)
    then have "cstr (ptr (mem s') (u_literal u str)) (lit str) = cstr (ptr (mem s) (u_literal u str)) (lit str)" by (rule string_at.local)
    then show "printable (mem s') (u_literal u str) (lit str)" using r str by (simp add: has_literals_def printable_def)
  qed
  then show ?thesis using r assms(2) t(1,2) t(3) [of names] c unfolding shell_ready_def by simp
qed

lemma shell_ready_keep:
  fixes s s' :: "'a kernel_scheme"
  assumes "shell_ready u buf names s" and "keys_ready (u_layout u) buf s'" and "shell_step (u_layout u) buf s s'"
  shows "shell_ready u buf names s'"
  by (rule shell_ready_same [OF assms(1,2)]) (use assms(1,3) in \<open>auto simp: shell_step_def shell_ready_def in_literals_def\<close>)

lemma shell_say:
  fixes s :: "'a kernel_scheme"
  assumes "shell_ready u buf names s" and "str \<in> shell_strs"
  shows "\<exists>s'. say u str (irqs, s) = Some (irqs, s') \<and> shell_ready u buf names s' \<and> term_of s' = fold t_putc (lit str) (term_of s) \<and>
    shell_step (u_layout u) buf s s'"
proof -
  have keys: "keys_ready (u_layout u) buf s" using assms(1) by (simp add: shell_ready_def)
  obtain s' where s': "say u str (irqs, s) = Some (irqs, s')" "keys_ready (u_layout u) buf s'"
    "term_of s' = fold t_putc (lit str) (term_of s)" "off_terminal s' = off_terminal s"
    using say_shows [OF keys shell_ready_literals [OF assms(1)] assms(2), of irqs] by blast
  note st = shell_step_output [OF s'(4) keys_ready_tail [OF keys], of "u_layout u"]
  show ?thesis using s' shell_ready_keep [OF assms(1) s'(2) st] st by blast
qed

section \<open>One round\<close>

text \<open>What the shell does with a line it has read.\<close>

definition shell_obey :: "user \<Rightarrow> (u32 \<Rightarrow> 'a mach \<Rightarrow> (u32 \<times> 'a mach) option) \<Rightarrow> u32 \<Rightarrow> 'a mach \<Rightarrow> ((int + unit) \<times> 'a mach) option" where
  "shell_obey u child buf t = do {
     r \<leftarrow> ece391_strcmp (umem t) buf (u_literal u ''exit'');
     if 0 = r then Some (Inl 0, t)
     else if 0 = umem t buf then Some (Inr (), t)
     else do {
       (rval, t) \<leftarrow> ece391_execute u child buf t;
       t \<leftarrow> (if rval = -1 then say u (''no such command'' @ nl) t
             else if rval = 256 then say u (''program terminated by exception'' @ nl) t
             else if rval \<noteq> 0 then say u (''program terminated abnormally'' @ nl) t
             else Some t);
       Some (Inr (), t)
     }
   }"

lemma shell_round_obey:
  "shell_round u child buf t = do {
     t \<leftarrow> say u prompt t;
     (cnt, t) \<leftarrow> ece391_read u 0 buf 1023 t;
     if cnt = -1 then do { t \<leftarrow> say u (''read from keyboard failed'' @ nl) t; Some (Inl 3, t) }
     else shell_obey u child buf (ustore (buf + of_int (if cnt > 0 \<and> 10 = umem t (buf + of_int (cnt - 1)) then cnt - 1 else cnt)) 0 t)
   }"
  unfolding shell_round_def shell_obey_def Let_def ..

lemma shell_line:
  fixes s :: "'a kernel_scheme"
  assumes "shell_ready u buf names s" and "line_keys cs"
  shows "\<exists>e. shell_round u child buf (map (key_irq env) (cs @ [0x1C]) @ rest, s) = shell_obey u child buf (rest, e) \<and>
    shell_ready u buf names e \<and> cstr (ptr (mem e) buf) (typed cs) \<and> term_of e = fold t_putc (lit prompt @ typed cs @ [10]) (term_of s) \<and>
    shell_step (u_layout u) buf s e"
proof -
  let ?xs = "typed cs @ [10]" and ?l = "u_layout u" and ?keys = "map (key_irq env) (cs @ [0x1C]) @ rest"
  have k: "length cs \<le> 128" "0 \<notin> set (take (length cs) ?xs)" using assms(2) by (simp_all add: line_keys_def)
  have keys: "keys_ready ?l buf s" using assms(1) by (simp add: shell_ready_def)
  obtain s1 s2 where s1: "say u prompt (?keys, s) = Some (?keys, s1)" "ece391_read u 0 buf 1023 (?keys, s1) = Some (int (Suc (length cs)), rest, s2)"
    "line_read ?l buf ?xs s1 s2" "term_of s1 = fold t_putc (lit prompt) (term_of s)" "off_terminal s1 = off_terminal s"
    using say_read_line [OF keys shell_ready_literals [OF assms(1)] _ assms(2), of prompt env rest] by (auto simp: shell_strs_def)
  note f = off_terminal_fields [OF s1(5)]
  define e where "e = s2\<lparr>mem := (mem s2)(buf + of_nat (length cs) := 0)\<rparr>"
  have "length cs \<le> length ?xs" "length cs < 1024" using k by simp_all
  note e = line_terminated [OF s1(3) this k(2), folded e_def]
  have "mem e (buf + 129) = mem s1 (buf + 129)" using e(7) [of 129] k(1) by simp
  then have "shell_step ?l buf s1 e" using e(4-6) by (simp add: shell_step_def scratch_mem_def)
  then have st: "shell_step ?l buf s e" using shell_step_trans shell_step_output [OF s1(5) keys_ready_tail [OF keys]] by blast
  have "shell_ready u buf names e" by (rule shell_ready_keep [OF assms(1) e(1) st])
  moreover have "bytes_at (ptr (mem s2) buf) (length ?xs) ! length cs = ?xs ! length cs" using s1(3) by (simp only: line_read_def)
  then have "mem s2 (buf + of_nat (length cs)) = 10" by (simp add: bytes_at_def nth_append)
  then have "shell_round u child buf (?keys, s) = shell_obey u child buf (rest, e)"
    using s1(1,2) by (simp add: shell_round_obey ustore_def umem_def e_def)
  ultimately show ?thesis using e(2,3) s1(4) st by auto
qed

section \<open>Command lines\<close>

text \<open>The name \<open>execute\<close> takes from a command line: what precedes the first space, of the first 32 characters.  The arguments begin one character further on.
  When the line ends with its name or before, \<open>execute\<close> goes on behind the terminating zero, in what an earlier line left in the buffer, and the line
  itself does not determine them.\<close>

definition command_word :: "byte list \<Rightarrow> byte list" where
  "command_word xs = takeWhile (\<lambda>b. b \<noteq> 32) (take 32 xs)"

definition given_args :: "byte list \<Rightarrow> byte list option" where
  "given_args xs = (if length (command_word xs) < length xs then Some (drop (Suc (length (command_word xs))) xs) else None)"

text \<open>The lines that name no program: the empty one, and those but \<open>exit\<close> whose name is not in the directory.\<close>

definition unknown_line :: "byte list list \<Rightarrow> byte list \<Rightarrow> bool" where
  "unknown_line names cs \<longleftrightarrow> line_keys cs \<and>
     (cs = [] \<or> typed cs \<noteq> lit ''exit'' \<and> (command_word (typed cs) = [] \<or> command_word (typed cs) \<notin> set names))"

text \<open>What \<open>parse_command\<close> finds at \<open>buf\<close>: the name \<open>ws\<close> ends at \<open>p\<close>, \<open>args\<close> follows.\<close>

definition parsed :: "mem \<Rightarrow> u32 \<Rightarrow> nat \<Rightarrow> byte list \<Rightarrow> byte list \<Rightarrow> bool" where
  "parsed m buf p ws args \<longleftrightarrow> first_space m buf p \<and> takeWhile (\<lambda>b. b \<noteq> 0) (bytes_at (ptr m buf) p) = ws \<and>
     cstr (ptr m (buf + of_nat (Suc p))) args \<and> length args < 128"

lemma first_space_ex: "\<exists>p. first_space m buf p"
proof (cases "\<exists>j < 32. m (buf + of_nat j) = 32")
  case True
  define p where "p = (LEAST j. m (buf + of_nat j) = 32)"
  obtain j where j: "j < 32" "m (buf + of_nat j) = 32" using True by blast
  have "m (buf + of_nat p) = 32" "p \<le> j" unfolding p_def by (rule LeastI [of _ j], fact j(2), rule Least_le, fact j(2))
  moreover have "m (buf + of_nat i) \<noteq> 32" if "i < p" for i using not_less_Least that unfolding p_def by blast
  ultimately show ?thesis using j(1) by (intro exI [of _ p]) (simp add: first_space_def)
next
  case False
  then show ?thesis by (intro exI [of _ 32]) (simp add: first_space_def)
qed

lemma cstr_drop:
  assumes "cstr (ptr m buf) xs" and "k \<le> length xs"
  shows "cstr (ptr m (buf + of_nat k)) (drop k xs)"
proof (rule cstrI)
  show "ptr m (buf + of_nat k) (of_nat j) = drop k xs ! j" if "j < length (drop k xs)" for j
    using cstr_nth [OF assms(1), of "k + j"] that assms(2) by (simp add: add.assoc)
  show "ptr m (buf + of_nat k) (of_nat (length (drop k xs))) = 0" using cstr_end [OF assms(1)] assms(2) by (simp add: add.assoc flip: of_nat_add)
qed (use assms(1) in_set_dropD in \<open>fastforce simp: cstr_def\<close>)+

lemma cstr_upto:
  assumes "m (q + of_nat n) = 0" and "n < 4294967296"
  shows "\<exists>args. cstr (ptr m q) args \<and> length args \<le> n"
proof -
  define k where "k = (LEAST j. m (q + of_nat j) = 0)"
  have k: "m (q + of_nat k) = 0" "k \<le> n" unfolding k_def by (rule LeastI [of _ n], fact assms(1), rule Least_le, fact assms(1))
  have nz: "m (q + of_nat i) \<noteq> 0" if "i < k" for i using not_less_Least that unfolding k_def by blast
  have "cstr (ptr m q) (bytes_at (ptr m q) k)"
    by (rule cstrI) (use k nz assms(2) in \<open>auto simp: bytes_at_def\<close>)
  then show ?thesis using k(2) by (intro exI [of _ "bytes_at (ptr m q) k"]) simp
qed

lemma parsed_within:
  assumes "cstr (ptr m buf) xs" and "first_space m buf p" and "p < length xs" and "length xs \<le> 128"
  shows "parsed m buf p (command_word xs) (drop (Suc p) xs)" "command_word xs = take p xs"
proof -
  have at: "m (buf + of_nat j) = xs ! j" if "j < length xs" for j using cstr_nth [OF assms(1) that] by simp
  have b: "bytes_at (ptr m buf) p = take p xs" using at assms(3) by (intro nth_equalityI) (simp_all add: bytes_at_def)
  have no: "32 \<notin> set (take p xs)" using assms(2,3) at by (auto simp: first_space_def in_set_conv_nth)
  show cw: "command_word xs = take p xs"
  proof (cases "p < 32")
    case True
    then have "xs ! p = 32" using assms(2,3) at by (simp add: first_space_def)
    then have "take 32 xs = take p xs @ 32 # drop (Suc p) (take 32 xs)" using id_take_nth_drop [of p "take 32 xs"] True assms(3) by simp
    then have "command_word xs = takeWhile (\<lambda>b. b \<noteq> 32) (take p xs @ 32 # drop (Suc p) (take 32 xs))" unfolding command_word_def by presburger
    also have "\<dots> = take p xs" using no by (subst takeWhile_append2) auto
    finally show ?thesis .
  next
    case False
    then have "p = 32" using assms(2) by (simp add: first_space_def)
    then show ?thesis using no by (auto simp: command_word_def takeWhile_eq_all_conv)
  qed
  have "0 \<notin> set (take p xs)" using assms(1) in_set_takeD by (fastforce simp: cstr_def)
  then have "takeWhile (\<lambda>b. b \<noteq> 0) (take p xs) = take p xs" by (subst takeWhile_eq_all_conv) auto
  then show "parsed m buf p (command_word xs) (drop (Suc p) xs)"
    using assms(2-4) b cw cstr_drop [OF assms(1), of "Suc p"] by (simp add: parsed_def)
qed

lemma parsed_beyond:
  assumes "cstr (ptr m buf) xs" and "first_space m buf p" and "length xs \<le> p" and "xs \<noteq> []" and "m (buf + 129) = 0"
  shows "\<exists>args. parsed m buf p xs args" "command_word xs = xs"
proof -
  have p: "p \<le> 32" using assms(2) by (simp add: first_space_def)
  have at: "m (buf + of_nat j) = xs ! j" if "j < length xs" for j using cstr_nth [OF assms(1) that] by simp
  have "32 \<notin> set xs" using assms(2,3) at by (fastforce simp: first_space_def in_set_conv_nth)
  then show "command_word xs = xs" using assms(3) p by (auto simp: command_word_def takeWhile_eq_all_conv)
  let ?bs = "bytes_at (ptr m buf) p"
  have "take (length xs) ?bs = xs" using at assms(3) by (intro nth_equalityI) (simp_all add: bytes_at_def)
  then have split: "?bs = xs @ drop (length xs) ?bs" by (metis append_take_drop_id)
  have "takeWhile (\<lambda>b. b \<noteq> 0) (drop (length xs) ?bs) = []"
  proof (cases "drop (length xs) ?bs")
    case (Cons b bs)
    then have "b = ?bs ! length xs" using nth_via_drop [OF Cons] by simp
    moreover have "length xs < p" using arg_cong [OF Cons, of length] by (simp add: bytes_at_def)
    ultimately show ?thesis using Cons cstr_end [OF assms(1)] by (simp add: bytes_at_def)
  qed simp
  moreover have "b \<noteq> 0" if "b \<in> set xs" for b using assms(1) that by (auto simp: cstr_def)
  ultimately have tw: "takeWhile (\<lambda>b. b \<noteq> 0) ?bs = xs" by (subst split) (simp add: takeWhile_append2)
  have "1 \<le> p" using assms(3,4) by (cases xs) auto
  have "Suc p + (128 - p) = 129" using p by simp
  then have "(of_nat (Suc p) + of_nat (128 - p) :: u32) = 129" by (metis of_nat_add of_nat_numeral)
  then have "buf + of_nat (Suc p) + of_nat (128 - p) = buf + 129" by (simp only: add.assoc)
  then have "m (buf + of_nat (Suc p) + of_nat (128 - p)) = 0" by (simp only: assms(5))
  moreover have "128 - p < 4294967296" by simp
  ultimately obtain args where "cstr (ptr m (buf + of_nat (Suc p))) args" "length args \<le> 128 - p"
    using cstr_upto [of m "buf + of_nat (Suc p)" "128 - p"] by blast
  then show "\<exists>args. parsed m buf p xs args" using assms(2) tw \<open>1 \<le> p\<close> p by (intro exI [of _ args]) (simp add: parsed_def)
qed

text \<open>So every line is parsed into its name and, if it has any, its arguments, provided that the buffer has a zero behind the longest line.\<close>

lemma parsed_line:
  assumes "cstr (ptr m buf) xs" and "xs \<noteq> []" and "length xs \<le> 128" and "m (buf + 129) = 0"
  shows "\<exists>p args. parsed m buf p (command_word xs) args \<and> given_args xs \<in> {None, Some args}"
proof -
  obtain p where p: "first_space m buf p" using first_space_ex by blast
  show ?thesis
  proof (cases "p < length xs")
    case True
    note w = parsed_within [OF assms(1) p True assms(3)]
    have "given_args xs = Some (drop (Suc p) xs)" using w(2) True by (simp add: given_args_def)
    then show ?thesis using w(1) by blast
  next
    case False
    then have "length xs \<le> p" by simp
    note w = parsed_beyond [OF assms(1) p this assms(2,4)]
    have "given_args xs = None" using w(2) by (simp add: given_args_def)
    then show ?thesis using w by auto
  qed
qed

lemma parsed_space:
  assumes "cstr (ptr m buf) (ws @ 32 # args)" and "32 \<notin> set ws" and "length ws < 32" and "length args < 128"
  shows "parsed m buf (length ws) ws args"
proof -
  let ?xs = "ws @ 32 # args"
  have at: "m (buf + of_nat j) = ?xs ! j" if "j < length ?xs" for j using cstr_nth [OF assms(1) that] by simp
  have below: "m (buf + of_nat j) = ws ! j" if "j < length ws" for j using at [of j] that by (simp add: nth_append)
  have "m (buf + of_nat j) \<noteq> 32" if "j < length ws" for j using below [OF that] nth_mem [OF that] assms(2) by metis
  then have "first_space m buf (length ws)" using assms(3) at [of "length ws"] by (simp add: first_space_def)
  moreover have b: "bytes_at (ptr m buf) (length ws) = ws" using below by (intro nth_equalityI) (simp_all add: bytes_at_def)
  moreover have "0 \<notin> set ws" using assms(1) by (simp add: cstr_def)
  then have "takeWhile (\<lambda>b. b \<noteq> 0) ws = ws" by (subst takeWhile_eq_all_conv) auto
  ultimately show ?thesis using cstr_drop [OF assms(1), of "Suc (length ws)"] assms(4) by (simp add: parsed_def)
qed

section \<open>The answers of the shell\<close>

text \<open>Such a line gets the answer of the shell, and the shell is ready for the next one.\<close>

lemma shell_unknown:
  fixes e :: "'a kernel_scheme"
  assumes "shell_ready u buf names e" and "parsed (mem e) buf p ws args" and "ws = [] \<or> ws \<notin> set names"
  shows "\<exists>s'. ece391_execute u child buf (irqs, e) = Some (-1, irqs, s') \<and> shell_ready u buf names s' \<and> term_of s' = term_of e \<and>
    shell_step (u_layout u) buf e s'"
proof -
  let ?l = "u_layout u" and ?e = "e\<lparr>intr := False\<rparr>"
  let ?N = "command_name_local ?l" and ?A = "arg_buf_local ?l"
  note r = assms(1) [unfolded shell_ready_def] and pa = assms(2) [unfolded parsed_def]
  have "within buf 1024 a" if "within buf (34 + length args) a" for a using that pa by (auto simp: within_def)
  then have ap: "apart buf (34 + length args) ?N 33" "apart buf (34 + length args) ?A 1024" using r by (auto simp: apart_def)
  have img: "off_image [(?N, 33), (?A, 1024)] ?e" using r by (auto simp: off_image_def scratch_mem_def in_image_def fs_size_def)
  have "command_ok ?l buf p ws args ?e" using r pa ap img by (simp add: command_ok_def keys_ready_def)
  moreover have "mounted ?e" "directory ?e names" using r same_fs_transfer [of e ?e] by (simp_all add: same_fs_def)
  ultimately obtain m where m: "execute ?l buf ?e = Some (Returned (-1), ?e\<lparr>mem := m, arg_size := int (length args)\<rparr>)" "only [(?N, 33), (?A, 1024)] (mem e) m"
    using execute_unknown [of ?l buf p ws args ?e names] assms(3) r by auto
  have out: "m a = mem e a" if "\<not> within ?N 33 a" "\<not> within ?A 1024 a" for a using onlyD [OF m(2)] that by auto
  have keep: "m a = mem e a" if "vram a \<or> within (pcb e) 1424 a" for a using that out r by blast
  let ?s = "e\<lparr>mem := m\<rparr>" and ?t = "e\<lparr>mem := m, arg_size := int (length args)\<rparr>"
  note k = keys_ready_mem [OF _ keep, of ?l buf]
  have "keys_ready ?l buf ?t" "term_of ?t = term_of e"
    using k r by (simp_all add: keys_ready_def tty_ready_def kb_ok_def on_screen_def line_of_def plain_def term_of_def)
  moreover have "within buf 1024 (buf + of_nat 129)" by (subst within_offset) simp_all
  then have "m (buf + 129) = mem e (buf + 129)" using out r apartD by (metis of_nat_numeral)
  then have "shell_step ?l buf e ?t" using out by (simp add: shell_step_def same_files_def pageview_def scratch_mem_def)
  moreover from calculation have "shell_ready u buf names ?t" by (intro shell_ready_keep [OF assms(1)])
  moreover have "ece391_execute u child buf (irqs, e) = Some (-1, irqs, ?t)"
    using m(1) by (simp add: ece391_execute_def asm_linkage_def cli_def iret_to_caller_def Let_def)
  ultimately show ?thesis by blast
qed

lemma shell_round_unknown:
  fixes s :: "'a kernel_scheme"
  assumes "shell_ready u buf names s" and "unknown_line names cs" and "mem s (buf + 129) = 0"
  shows "\<exists>s'. shell_round u child buf (map (key_irq env) (cs @ [0x1C]) @ rest, s) = Some (Inr (), rest, s') \<and> shell_ready u buf names s' \<and>
    term_of s' = fold t_putc (lit prompt @ typed cs @ [10] @ (if cs = [] then [] else lit no_such)) (term_of s) \<and> shell_step (u_layout u) buf s s'"
proof -
  let ?xs = "typed cs"
  have k: "line_keys cs" "length ?xs \<le> 128" using assms(2) by (simp_all add: unknown_line_def line_keys_def)
  obtain e where e: "shell_round u child buf (map (key_irq env) (cs @ [0x1C]) @ rest, s) = shell_obey u child buf (rest, e)"
    "shell_ready u buf names e" "cstr (ptr (mem e) buf) ?xs" "term_of e = fold t_putc (lit prompt @ ?xs @ [10]) (term_of s)"
    "shell_step (u_layout u) buf s e"
    using shell_line [OF assms(1) k(1)] by blast
  have "cstr (ptr (mem e) (u_literal u ''exit'')) (lit ''exit'')" using e(2) by (simp add: shell_ready_def has_literals_def shell_strs_def printable_def)
  from ece391_strcmp_cstr [OF e(3) this] obtain r where r: "ece391_strcmp (mem e) buf (u_literal u ''exit'') = Some r" "r = 0 \<longleftrightarrow> ?xs = lit ''exit''" by blast
  have ne: "r \<noteq> 0" using r(2) assms(2) by (auto simp: unknown_line_def lit_def typed_def)
  show ?thesis
  proof (cases "cs = []")
    case True
    then have "mem e buf = 0" using cstr_end [OF e(3)] by simp
    then show ?thesis using True e r(1) ne by (auto simp: shell_obey_def umem_def)
  next
    case False
    then have u: "?xs \<noteq> []" "command_word ?xs = [] \<or> command_word ?xs \<notin> set names"
      using assms(2) by (simp_all add: unknown_line_def typed_def)
    have "mem e (buf + 129) = 0" using e(5) assms(3) by (simp add: shell_step_def)
    then obtain p args where pa: "parsed (mem e) buf p (command_word ?xs) args" using parsed_line [OF e(3) u(1) k(2)] by blast
    obtain s1 where s1: "ece391_execute u child buf (rest, e) = Some (-1, rest, s1)" "shell_ready u buf names s1" "term_of s1 = term_of e"
      "shell_step (u_layout u) buf e s1"
      using shell_unknown [OF e(2) pa u(2)] by blast
    obtain s2 where s2: "say u no_such (rest, s1) = Some (rest, s2)" "shell_ready u buf names s2" "term_of s2 = fold t_putc (lit no_such) (term_of s1)"
      "shell_step (u_layout u) buf s1 s2"
      using shell_say [OF s1(2), of no_such rest] by (auto simp: shell_strs_def)
    have "mem e buf \<noteq> 0" using cstr_nonzero [OF e(3), of 0] False by simp
    then have "shell_obey u child buf (rest, e) = Some (Inr (), rest, s2)" using r(1) ne s1(1) s2(1) by (simp add: shell_obey_def umem_def)
    moreover have "shell_step (u_layout u) buf s s2" using shell_step_trans e(5) s1(4) s2(4) by blast
    ultimately show ?thesis using e(1,4) s1(3) s2(2,3) False by auto
  qed
qed

text \<open>The keys of the line \<open>exit\<close>, and the interrupts of a sequence of lines.\<close>

definition exit_keys :: "byte list" where
  "exit_keys = [0x12, 0x2D, 0x17, 0x14]"

definition type_lines :: "addrs \<Rightarrow> byte list list \<Rightarrow> 'a keyboard_scheme handler list" where
  "type_lines env lines = concat (map (\<lambda>cs. map (key_irq env) (cs @ [0x1C])) lines)"

lemma exit_keys_typed: "typed exit_keys = lit ''exit''"
  by (simp add: exit_keys_def typed_def norm_def lit_def)

lemma exit_keys_ok: "line_keys exit_keys"
  unfolding line_keys_def exit_keys_typed by (simp add: exit_keys_def char_key_def lit_def)

lemma shell_round_exit:
  fixes s :: "'a kernel_scheme"
  assumes "shell_ready u buf names s"
  shows "\<exists>s'. shell_round u child buf (map (key_irq env) (exit_keys @ [0x1C]) @ rest, s) = Some (Inl 0, rest, s') \<and> shell_ready u buf names s' \<and>
    term_of s' = fold t_putc (lit prompt @ lit ''exit'' @ [10]) (term_of s) \<and> shell_step (u_layout u) buf s s'"
proof -
  obtain e where e: "shell_round u child buf (map (key_irq env) (exit_keys @ [0x1C]) @ rest, s) = shell_obey u child buf (rest, e)"
    "shell_ready u buf names e" "cstr (ptr (mem e) buf) (lit ''exit'')" "term_of e = fold t_putc (lit prompt @ lit ''exit'' @ [10]) (term_of s)"
    "shell_step (u_layout u) buf s e"
    using shell_line [OF assms exit_keys_ok, unfolded exit_keys_typed] by blast
  have "cstr (ptr (mem e) (u_literal u ''exit'')) (lit ''exit'')" using e(2) by (simp add: shell_ready_def has_literals_def shell_strs_def printable_def)
  from ece391_strcmp_cstr [OF e(3) this] have "ece391_strcmp (mem e) buf (u_literal u ''exit'') = Some 0" by auto
  then show ?thesis using e by (auto simp: shell_obey_def umem_def)
qed

section \<open>A sample shell\<close>

definition shell_lits :: "string list" where
  "shell_lits = [banner, prompt, ''exit'', no_such, abnormal]"

lemma shell_lits_ok: "lits_ok shell_lits" "length shell_lits \<le> 64" "set shell_lits = shell_strs"
  by (simp_all add: shell_lits_def lits_ok_def shell_strs_def)

lemma proc_demo_shell: "shell_ready (user_demo shell_lits) CATBUF demo_names (proc_demo shell_lits [])"
proof -
  let ?s = "proc_demo shell_lits []" and ?u = "user_demo shell_lits"
  have ok: "length ([] :: byte list) < 1024" by simp
  have lay: "command_name_local lay_demo = 0x7FF800" "arg_buf_local lay_demo = 0x7FF200" by (simp_all add: lay_demo_def)
  have img: "in_image ?s a \<longleftrightarrow> within 0x100000 12288 a" for a by (simp add: in_image_def fs_size_def)
  have sep: "apart CATBUF 1024 0x7FF800 33" "apart CATBUF 1024 0x7FF200 1024" "apart 0x7FF800 33 0x7FF200 1024"
    "apart LITS 4096 VIDEO 4000" "apart LITS 4096 CATBUF 1024" "apart LITS 4096 0x7FE000 1424" "apart LITS 4096 0x7FF800 33" "apart LITS 4096 0x7FF200 1024"
    "apart 0x100000 12288 VIDEO 4000" "apart 0x100000 12288 CATBUF 1024" "apart 0x100000 12288 0x7FE000 1424" "apart 0x100000 12288 0x7FF800 33" "apart 0x100000 12288 0x7FF200 1024"
    "apart 0x7FF800 33 VIDEO 4000" "apart 0x7FF200 1024 VIDEO 4000" "apart 0x7FF800 33 0x7FE000 1424" "apart 0x7FF200 1024 0x7FE000 1424"
    by (rule separate_apart, simp add: separate_def)+
  have off: "\<not> scratch_mem lay_demo CATBUF 0x7FE000 a" if "within LITS 4096 a \<or> within 0x100000 12288 a" for a
    using that sep(4-13) fd_in_pcb [of 0 "0x7FE000" a] unfolding scratch_mem_def vram_def lay apart_def by auto
  have loc: "\<not> vram a \<and> \<not> within 0x7FE000 1424 a" if "within 0x7FF800 33 a \<or> within 0x7FF200 1024 a" for a
    using that sep(14-17) unfolding vram_def apart_def by blast
  have "mounted ?s" "directory ?s demo_names" using proc_demo_fs(2) [OF shell_lits_ok(2) ok] by (simp_all add: fs_ready_def)
  moreover have "has_literals ?u shell_strs (proc_mem shell_lits [])" using proc_demo_literals [OF shell_lits_ok(1) ok] by (simp only: shell_lits_ok(3))
  moreover have "\<not> scratch_mem lay_demo CATBUF 0x7FE000 a" if "str \<in> shell_strs" "within (literal_at shell_lits str) (Suc (length str)) a" for str a
    using literal_block [OF shell_lits_ok(1)] off that unfolding shell_lits_ok(3) by blast
  ultimately show ?thesis
    using proc_demo_keys [OF shell_lits_ok(2) ok] sep(1-3) off loc by (simp add: shell_ready_def lay img pcb_1)
qed

end
