(* ===== verification/UserRun.thy ===== *)
theory UserRun
  imports UserShell
begin

text \<open>
  The shell runs a program: from the typed command line through \<open>execute\<close>, the address space of the new process, the program itself and \<open>halt\<close> back to
  the shell, which finds its own memory as it was and prompts again; and a session of several such lines.  The theorems are in the theory of the sessions.
\<close>

unbundle bit_operations_syntax

section \<open>The shell as a process that starts programs\<close>

text \<open>Beside the readiness of the shell: it is a running process with its own address space, its control block is where \<open>execute\<close> looks for the parent, and
  the blocks \<open>execute\<close> writes are apart from each other, from the image, from the screen and from what the kernel keeps for the shell; its literals
  lie in program memory or outside these blocks.\<close>

abbreviation parent_at :: "layout \<Rightarrow> u32" where "parent_at l \<equiv> curr_esp l AND 0xffffe000"

definition in_blocks :: "layout \<Rightarrow> int \<Rightarrow> u32 \<Rightarrow> bool" where
  "in_blocks l n a \<longleftrightarrow> (\<exists>(q, k) \<in> set (launch_blocks l n). within q k a)"

definition shell_home :: "user \<Rightarrow> u32 \<Rightarrow> byte list list \<Rightarrow> 'a kernel_scheme \<Rightarrow> bool" where
  "shell_home u buf names s \<longleftrightarrow> shell_ready u buf names s \<and>
     (let l = u_layout u; n = counter s + 1 in
      1 \<le> counter s \<and> runs l (counter s) s \<and> mem s (parent_at l) = of_int (counter s) \<and>
      tables_ok (page_table_shell l) (page_directories l) \<and> reserved_clear (page_directories l) (mem s) \<and>
      all_apart (launch_blocks l n) \<and> command_name_local l \<noteq> 0 \<and> temp_local l \<noteq> 0 \<and> buf_local l \<noteq> 0 \<and>
      ops_at l (stdin_t l) = Some Stdin_ops \<and> ops_at l (stdout_t l) = Some Stdout_ops \<and>
      (\<forall>a. in_blocks l n a \<longrightarrow> \<not> in_image s a \<and> \<not> within (pcb s) 1424 a \<and> \<not> vram a \<and> a \<noteq> parent_at l) \<and>
      (\<forall>a. within (page_table_shell l) 4096 a \<or> within (page_directories l) 24576 a \<or> a = parent_at l \<longrightarrow> \<not> scratch_mem l buf (pcb s) a) \<and>
      (\<forall>a. in_literals u a \<longrightarrow> within WINDOW WINDOW_SIZE a \<or> \<not> in_blocks l n a))"

text \<open>A line without arguments is followed, for \<open>execute\<close>, by whatever the buffer holds behind it.  The byte behind the longest line is never written; when it is
  zero, every such rest ends there.  Like the literals it lies in program memory or outside the blocks of \<open>execute\<close>.\<close>

definition buffer_end :: "user \<Rightarrow> u32 \<Rightarrow> 'a kernel_scheme \<Rightarrow> bool" where
  "buffer_end u buf s \<longleftrightarrow> mem s (buf + 129) = 0 \<and>
     (within WINDOW WINDOW_SIZE (buf + 129) \<or> \<not> in_blocks (u_layout u) (counter s + 1) (buf + 129))"

lemma buffer_end_step:
  fixes s s' :: "'a kernel_scheme"
  shows "shell_step (u_layout u) buf s s' \<Longrightarrow> buffer_end u buf s \<Longrightarrow> buffer_end u buf s'"
  by (simp add: buffer_end_def shell_step_def same_files_def)

lemma home_keep:
  fixes s s' :: "'a kernel_scheme"
  assumes "shell_home u buf names s" and "keys_ready (u_layout u) buf s'" and "same_files s s'" and "runs (u_layout u) (counter s) s'"
    and "reserved_clear (page_directories (u_layout u)) (mem s')"
    and "\<And>a. in_literals u a \<or> in_image s a \<or> a = parent_at (u_layout u) \<Longrightarrow> mem s' a = mem s a"
  shows "shell_home u buf names s'"
proof -
  note h = assms(1) [unfolded shell_home_def Let_def]
  have "shell_ready u buf names s'" using h assms(6) by (intro shell_ready_same [OF _ assms(2,3)]) auto
  moreover have "counter s' = counter s" "in_image s' = in_image s" using assms(3) same_files_image [OF assms(3)] by (simp_all add: same_files_def)
  ultimately show ?thesis using h assms(4,5) assms(6) [of "parent_at (u_layout u)"] unfolding shell_home_def Let_def by simp
qed

text \<open>Reading a line and printing a message keep it.\<close>

lemma home_step:
  fixes s s' :: "'a kernel_scheme"
  assumes "shell_home u buf names s" and "shell_ready u buf names s'" and "shell_step (u_layout u) buf s s'"
  shows "shell_home u buf names s'"
proof -
  let ?l = "u_layout u"
  note h = assms(1) [unfolded shell_home_def Let_def]
  have pr: "is_process (counter s)" using h by (auto simp: is_process_def shell_ready_def)
  have st: "same_files s s'" "pageview s' = pageview s" "\<And>a. \<not> scratch_mem ?l buf (pcb s) a \<Longrightarrow> mem s' a = mem s a"
    using assms(3) by (simp_all add: shell_step_def)
  have tab: "mem s' a = mem s a" if "within (page_table_shell ?l) 4096 a \<or> within (page_directories ?l) 24576 a \<or> a = parent_at ?l" for a
    using that st(3) h by blast
  have "directory_ok (page_table_shell ?l) f (dir_of (page_directories ?l) (counter s)) (mem s') =
      directory_ok (page_table_shell ?l) f (dir_of (page_directories ?l) (counter s)) (mem s)" for f
    by (rule directory_ok_cong) (use tab dir_in_array [OF pr] in blast)
  moreover have "page_table_ok (page_table_shell ?l) (mem s') = page_table_ok (page_table_shell ?l) (mem s)"
    by (rule page_table_ok_cong) (use tab in blast)
  ultimately have "runs ?l (counter s) s'" using h st(2) by (simp add: runs_def pageview_def)
  moreover have "reserved_clear (page_directories ?l) (mem s') = reserved_clear (page_directories ?l) (mem s)"
  proof (rule reserved_clear_cong)
    fix d a assume "d < 6" and "within (page_dir (page_directories ?l) d) 4096 a"
    then have "within (page_directories ?l) 24576 a" using within_sub_block [of "page_directories ?l" "4096 * d" 4096 a 24576] by (simp add: page_dir_def)
    then show "mem s' a = mem s a" using tab by blast
  qed
  moreover have "mem s' a = mem s a" if "in_literals u a \<or> in_image s a \<or> a = parent_at ?l" for a
    using that st(3) h by (auto simp: shell_ready_def in_literals_def)
  ultimately show ?thesis using home_keep [OF assms(1) _ st(1)] assms(2) h by (simp add: shell_ready_def)
qed

section \<open>Entering the program\<close>

text \<open>What a program finds when the kernel enters it: its file in memory, its arguments, the terminal on descriptors 0 and 1, no line pending.\<close>

definition started :: "layout \<Rightarrow> int \<Rightarrow> byte list \<Rightarrow> byte list \<Rightarrow> 'a kernel_scheme \<Rightarrow> bool" where
  "started l n c args s \<longleftrightarrow> counter s = n \<and> \<not> intr s \<and> tty_ready l s \<and> plain s \<and> readable_flag s = 0 \<and>
     (\<exists>d. fd_view (mem s) (pcb_of n) 0 = Some d \<and> ops_at l (d_table d) = Some Stdin_ops) \<and> runs l n s \<and>
     bytes_at (ptr (mem s) PROGRAM_STARTING_ADDR) (length c) = c \<and> cstr (ptr (mem s) (pcb_of n + 400)) args"

text \<open>What the shell relies on when the program has halted.\<close>

definition launched :: "layout \<Rightarrow> 'a kernel_scheme \<Rightarrow> 'a kernel_scheme \<Rightarrow> bool" where
  "launched l s s1 \<longleftrightarrow> (let p = counter s; n = counter s + 1 in
     drivers s1 = drivers s \<and> pcb_fresh l n (of_int p) (mem s1) \<and> reserved_clear (page_directories l) (mem s1) \<and>
     directory_ok (page_table_shell l) (Some (take_bit 10 (of_int (p + 1)))) (dir_of (page_directories l) p) (mem s1) \<and>
     (\<forall>off. unat off < WINDOW_SIZE \<longrightarrow> frames s1 (frame_of p + off) = mem s (WINDOW + off)) \<and>
     only (launch_blocks l n) (mem s) (mem s1))"

lemma drivers_fields:
  assumes "drivers s' = drivers s"
  shows "screen_x s' = screen_x s" "screen_y s' = screen_y s" "kb_fields s' = kb_fields s" "my_boot_block s' = my_boot_block s"
    "file_addr s' = file_addr s" "dentries s' = dentries s" "inodes s' = inodes s"
  using assms by (simp_all add: drivers_def)

lemma keyboard_cong:
  assumes "kb_fields s' = kb_fields s" and "screen_x s' = screen_x s" and "screen_y s' = screen_y s"
  shows "kb_ok s' = kb_ok s" "line_of s' = line_of s" "plain s' = plain s" "readable_flag s' = readable_flag s"
  using kb_fieldsD [OF assms(1)] assms(2,3) by (simp_all add: kb_ok_def line_of_def plain_def on_screen_def)

lemma term_of_cong:
  assumes "screen_x s' = screen_x s" and "screen_y s' = screen_y s" and "\<And>a. vram a \<Longrightarrow> mem s' a = mem s a"
  shows "term_of s' = term_of s"
  using term_of_mem [OF assms(3)] assms(1,2) by (simp add: term_of_def)

lemma shell_launches:
  fixes e :: "'a kernel_scheme"
  assumes "shell_home u buf names e" and "parsed (mem e) buf p ws args"
    and "stored (dentry_addr (u_layout u)) names ws i e" and "elf_magic (contents i e)" and "0x48000 + length (contents i e) \<le> WINDOW_SIZE"
  shows "\<exists>s1. execute (u_layout u) buf (e\<lparr>intr := False\<rparr>) = Some (Entered_user (entry_address (contents i e)) PROGRAM_ENDING_ADDR, s1) \<and>
    started (u_layout u) (counter e + 1) (contents i e) args s1 \<and> launched (u_layout u) e s1 \<and> term_of s1 = term_of e"
proof -
  let ?l = "u_layout u" and ?e = "e\<lparr>intr := False\<rparr>" and ?p = "counter e" and ?n = "counter e + 1"
  note h = assms(1) [unfolded shell_home_def Let_def]
  note r = h [THEN conjunct1, unfolded shell_ready_def]
  have pr: "is_process ?p" "is_process ?n" using h r by (auto simp: is_process_def)
  note pa = assms(2) [unfolded parsed_def]
  have "within buf 1024 a" if "within buf (34 + length args) a" for a using that pa by (auto simp: within_def)
  then have ap: "apart buf (34 + length args) (command_name_local ?l) 33" "apart buf (34 + length args) (arg_buf_local ?l) 1024" using r by (auto simp: apart_def)
  have same: "same_fs e ?e" by (simp add: same_fs_def)
  have st: "stored (dentry_addr ?l) names ws i ?e" "contents i ?e = contents i e" using stored_keep [OF assms(3) same] by simp_all
  have blk: "\<forall>(q, k) \<in> set (launch_blocks ?l ?n). \<not> within q k (parent_at ?l)" "off_image (launch_blocks ?l ?n) ?e"
    using h by (auto simp: in_blocks_def off_image_def in_image_def fs_size_def)
  have "launch_ok ?l names buf p ws args i ?e"
    using h r pa ap blk st assms(5) pr by (simp add: launch_ok_def keys_ready_def is_process_def)
  from execute_ok [OF this] obtain s1 where s1: "execute ?l buf ?e = Some (Entered_user (entry_address (contents i e)) PROGRAM_ENDING_ADDR, s1)"
    "counter s1 = ?n" "\<not> intr s1" "drivers s1 = drivers e" "runs ?l ?n s1" "reserved_clear (page_directories ?l) (mem s1)"
    "\<forall>q frame. is_process q \<and> q \<noteq> ?n \<and> directory_ok (page_table_shell ?l) frame (dir_of (page_directories ?l) q) (mem e) \<longrightarrow>
      directory_ok (page_table_shell ?l) frame (dir_of (page_directories ?l) q) (mem s1)"
    "bytes_at (ptr (mem s1) PROGRAM_STARTING_ADDR) (length (contents i e)) = contents i e"
    "pcb_fresh ?l ?n (of_int ?p) (mem s1)" "cstr (ptr (mem s1) (pcb_of ?n + 400)) args"
    "\<forall>f off. shown e = Some f \<and> unat off < WINDOW_SIZE \<longrightarrow> frames s1 (f + off) = mem e (WINDOW + off)"
    "only (launch_blocks ?l ?n) (mem e) (mem s1)"
    using assms(4) st(2) h by auto
  have "launched ?l e s1"
    using s1 h pr(1) unfolding launched_def Let_def runs_def by auto
  moreover note d = drivers_fields [OF s1(4)] and k = keyboard_cong [OF drivers_fields(3,1,2) [OF s1(4)]]
  have "mem s1 a = mem e a" if "vram a" for a using onlyD [OF s1(12)] h that by (fastforce simp: in_blocks_def)
  then have "term_of s1 = term_of e" by (intro term_of_cong d)
  moreover have "\<not> vram a" if "within (pcb_of ?n) 1424 a" for a using that h by (auto simp: in_blocks_def launch_blocks_def)
  then have "started ?l ?n (contents i e) args s1"
    using s1 k r h unfolding started_def tty_ready_def keys_ready_def pcb_fresh_def by auto
  ultimately show ?thesis using s1(1) by blast
qed

section \<open>Returning to the shell\<close>

text \<open>What a program may do between its start in \<open>s1\<close> and its call of \<open>halt\<close> in \<open>t\<close>: use its own 4 MB, the terminal, and through system calls the
  descriptors and arguments in its control block.  It leaves no half-typed line behind.\<close>

definition program_ran :: "'a kernel_scheme \<Rightarrow> 'a kernel_scheme \<Rightarrow> bool" where
  "program_ran s1 t \<longleftrightarrow> same_files s1 t \<and> pageview t = pageview s1 \<and> kb_ok t \<and> line_of t = [] \<and> plain t \<and> readable_flag t = 0 \<and>
     (\<forall>a. \<not> vram a \<longrightarrow> \<not> within WINDOW WINDOW_SIZE a \<longrightarrow> \<not> within (pcb s1 + 16) 1408 a \<longrightarrow> mem t a = mem s1 a)"

lemma pcb_parts:
  fixes p :: u32
  shows "within p 16 a \<Longrightarrow> \<not> within (p + 16) 1408 a" "within p 16 a \<Longrightarrow> within p 1424 a" "within (p + 16) 1408 a \<Longrightarrow> within p 1424 a"
  using apartD [OF apart_offsets [of 0 16 16 1408 p], of a] within_sub_block [of p 0 16 a 1424] within_sub_block [of p 16 1408 a 1424] by auto

text \<open>What the tables and the head of the control block hold when the program halts is what they held when it started.\<close>

lemma program_ran_kernel:
  assumes "shell_home u buf names s" and "program_ran s1 t" and "counter s1 = counter s + 1"
    and "within (page_table_shell (u_layout u)) 4096 a \<or> within (page_directories (u_layout u)) 24576 a \<or> within (pcb_of (counter s + 1)) 16 a"
  shows "mem t a = mem s1 a"
proof -
  let ?l = "u_layout u" and ?n = "counter s + 1"
  note h = assms(1) [unfolded shell_home_def Let_def]
  have "in_blocks ?l ?n a" using assms(4) pcb_parts(2) [of "pcb_of ?n" a] by (auto simp: in_blocks_def launch_blocks_def)
  then have v: "\<not> vram a" using h by blast
  have "all_apart (launch_blocks ?l ?n)" using h by blast
  then have "apart (page_table_shell ?l) 4096 WINDOW WINDOW_SIZE" "apart (page_directories ?l) 24576 WINDOW WINDOW_SIZE" "apart (pcb_of ?n) 1424 WINDOW WINDOW_SIZE"
    "apart (page_table_shell ?l) 4096 (pcb_of ?n) 1424" "apart (page_directories ?l) 24576 (pcb_of ?n) 1424"
    using apart_sym by (auto simp: all_apart_def launch_blocks_def)
  then have "\<not> within WINDOW WINDOW_SIZE a" "\<not> within (pcb_of ?n + 16) 1408 a"
    using assms(4) pcb_parts [of "pcb_of ?n" a] apartD by blast+
  then show ?thesis using assms(2,3) v by (simp add: program_ran_def)
qed

lemma program_halts:
  fixes s s1 t :: "'a kernel_scheme"
  assumes "shell_home u buf names s" and "launched (u_layout u) s s1" and "runs (u_layout u) (counter s + 1) s1" and "counter s1 = counter s + 1"
    and "program_ran s1 t"
  shows "\<exists>s2. halt (u_layout u) st (t\<lparr>intr := False\<rparr>) = (Resumed (curr_esp (u_layout u)) (curr_ebp (u_layout u)) st, s2) \<and>
    counter s2 = counter s \<and> runs (u_layout u) (counter s) s2 \<and> drivers s2 = drivers t \<and> only [(WINDOW, WINDOW_SIZE)] (mem t) (mem s2) \<and>
    (\<forall>off. unat off < WINDOW_SIZE \<longrightarrow> mem s2 (WINDOW + off) = mem s (WINDOW + off))"
proof -
  let ?l = "u_layout u" and ?p = "counter s" and ?n = "counter s + 1" and ?pt = "page_table_shell (u_layout u)" and ?pd = "page_directories (u_layout u)"
  let ?t = "t\<lparr>intr := False\<rparr>" and ?P = "pcb_of (counter s + 1)"
  note h = assms(1) [unfolded shell_home_def Let_def] and la = assms(2) [unfolded launched_def Let_def] and ran = assms(5) [unfolded program_ran_def]
  have pr: "is_process ?p" "is_process ?n" "?p \<noteq> ?n" using h by (auto simp: is_process_def shell_ready_def)
  have tabs: "tables_ok ?pt ?pd" and ct: "counter t = ?n" using h ran assms(4) by (simp_all add: same_files_def)
  note kern = program_ran_kernel [OF assms(1,5,4)]
  have hd: "mem t (?P + of_nat k) = mem s1 (?P + of_nat k)" if "k < 16" for k using kern that by simp
  have head: "mem t ?P = of_int ?n" "mem t (?P + 1) = of_int ?p" using hd [of 0] hd [of 1] la by (simp_all add: pcb_fresh_def)
  have regs: "load32 (mem t) (?P + 4) = curr_esp ?l" "load32 (mem t) (?P + 8) = curr_ebp ?l"
    using word_at.local [of "?P + 4" "mem t" "mem s1"] word_at.local [of "?P + 8" "mem t" "mem s1"] kern la
      within_sub_block [of ?P 4 4 _ 16] within_sub_block [of ?P 8 4 _ 16] by (auto simp: pcb_fresh_def)
  have dir: "directory_ok ?pt (Some (take_bit 10 (of_int (?p + 1)))) (dir_of ?pd ?p) (mem t)"
    using directory_ok_cong [of "dir_of ?pd ?p" "mem t" "mem s1"] dir_in_array [OF pr(1)] kern la by blast
  have tab: "page_table_ok ?pt (mem t)" using page_table_ok_cong [of ?pt "mem t" "mem s1"] kern assms(3) by (auto simp: runs_def)
  have ap: "apart ?P 16 WINDOW WINDOW_SIZE" using h by (auto simp: all_apart_def launch_blocks_def intro: apart_mono)
  obtain s2 where s2: "halt ?l st ?t = (Resumed (curr_esp ?l) (curr_ebp ?l) st, s2)" "counter s2 = ?p" "runs ?l ?p s2"
    "\<forall>off. unat off < WINDOW_SIZE \<longrightarrow> mem s2 (WINDOW + off) = frames (save_window ?t) (frame_of ?p + off)"
    "only [(WINDOW, WINDOW_SIZE)] (mem t) (mem s2)" "drivers s2 = drivers t"
    using halt_ok [OF tabs pr(1), of ?t st] ct dir tab head regs ap small_byte [OF pr(2)] h ran assms(3) by (auto simp: runs_def pageview_def)
  have "mem s2 (WINDOW + off) = mem s (WINDOW + off)" if "unat off < WINDOW_SIZE" for off
    using s2(4) that assms(3) la ran frames_disjoint [OF pr that] by (simp add: runs_def pageview_def save_window_def copy_frame_other)
  then show ?thesis using s2 by blast
qed

text \<open>So the shell has all the memory it had, but for the blocks \<open>execute\<close> wrote outside program memory and for the screen.\<close>

lemma shell_resumes:
  fixes s s1 t :: "'a kernel_scheme"
  assumes "shell_home u buf names s" and "launched (u_layout u) s s1" and "runs (u_layout u) (counter s + 1) s1" and "counter s1 = counter s + 1"
    and "program_ran s1 t"
  shows "\<exists>s2. halt (u_layout u) st (t\<lparr>intr := False\<rparr>) = (Resumed (curr_esp (u_layout u)) (curr_ebp (u_layout u)) st, s2) \<and>
    shell_home u buf names s2 \<and> term_of s2 = term_of t \<and> same_fs s s2 \<and> (buffer_end u buf s \<longrightarrow> buffer_end u buf s2)"
proof -
  let ?l = "u_layout u" and ?n = "counter s + 1" and ?pd = "page_directories (u_layout u)"
  note h = assms(1) [unfolded shell_home_def Let_def] and la = assms(2) [unfolded launched_def Let_def] and ran = assms(5) [unfolded program_ran_def]
  note r = h [THEN conjunct1, unfolded shell_ready_def keys_ready_def tty_ready_def]
  obtain s2 where s2: "halt ?l st (t\<lparr>intr := False\<rparr>) = (Resumed (curr_esp ?l) (curr_ebp ?l) st, s2)" "counter s2 = counter s" "runs ?l (counter s) s2"
    "drivers s2 = drivers t" "only [(WINDOW, WINDOW_SIZE)] (mem t) (mem s2)" "\<forall>off. unat off < WINDOW_SIZE \<longrightarrow> mem s2 (WINDOW + off) = mem s (WINDOW + off)"
    using program_halts [OF assms] by blast
  have on: "only (launch_blocks ?l ?n) (mem s) (mem s1)" and dr: "drivers s1 = drivers s" using la by blast+
  have rn: "mem t a = mem s1 a" if "\<not> vram a" "\<not> within WINDOW WINDOW_SIZE a" "\<not> within (pcb_of ?n + 16) 1408 a" for a
    using ran that assms(4) by simp
  have blk: "\<not> in_image s a \<and> \<not> within (pcb s) 1424 a \<and> \<not> vram a \<and> a \<noteq> parent_at ?l" if "in_blocks ?l ?n a" for a using h that by blast
  have off: "\<not> vram a" if "in_literals u a \<or> in_image s a \<or> a = parent_at ?l \<or> within (pcb s) 1424 a" for a
    using h r that unfolding in_literals_def scratch_mem_def by blast
  have lits: "within WINDOW WINDOW_SIZE a \<or> \<not> in_blocks ?l ?n a" if "in_literals u a" for a using h that by blast
  have wb: "in_blocks ?l ?n a" if "within WINDOW WINDOW_SIZE a \<or> within (pcb_of ?n + 16) 1408 a" for a
    using that pcb_parts(3) [of "pcb_of ?n" a] by (auto simp: in_blocks_def launch_blocks_def)
  have out: "mem s2 a = mem t a" if "\<not> within WINDOW WINDOW_SIZE a" for a using onlyD [OF s2(5)] that by auto
  have keep: "mem s2 a = mem s a" if "\<not> vram a" "\<not> in_blocks ?l ?n a" for a
  proof -
    have "mem s1 a = mem s a" using on that(2) by (auto simp: only_def in_blocks_def)
    moreover have "\<not> within WINDOW WINDOW_SIZE a" "\<not> within (pcb_of ?n + 16) 1408 a" using wb [of a] that(2) by blast+
    ultimately show ?thesis using out rn that(1) by simp
  qed
  have win: "mem s2 a = mem s a" if "within WINDOW WINDOW_SIZE a" for a
    using s2(6) [rule_format, of "a - WINDOW"] that by (simp add: within_def)
  note d = drivers_fields [OF s2(4)] and k = keyboard_cong [OF drivers_fields(3,1,2) [OF s2(4)]]
  have "term_of s2 = term_of t" by (rule term_of_cong [OF d(1,2) out]) (use blk wb in blast)
  moreover have sf: "same_files s s2" using s2(2) d ran drivers_fields [OF dr] by (simp add: same_files_def)
  have "fd_view (mem s2) (pcb s) j = fd_view (mem s) (pcb s) j" if "j < 8" for j
    by (rule fd.local) (use fd_in_pcb [OF that] keep blk off in blast)
  then have keys: "keys_ready ?l buf s2" using r k ran s2(2) unfolding keys_ready_def tty_ready_def by simp
  have "reserved_clear ?pd (mem s2) = reserved_clear ?pd (mem t)"
    by (rule reserved_clear_only [OF s2(5)]) (use h apart_sym in \<open>auto simp: all_apart_def launch_blocks_def\<close>)
  moreover have "reserved_clear ?pd (mem t) = reserved_clear ?pd (mem s1)"
  proof (rule reserved_clear_cong)
    fix i a assume "i < 6" and "within (page_dir ?pd i) 4096 a"
    then have "within ?pd 24576 a" using within_sub_block [of ?pd "4096 * i" 4096 a 24576] by (simp add: page_dir_def)
    then show "mem t a = mem s1 a" using program_ran_kernel [OF assms(1,5,4)] by blast
  qed
  ultimately have rc: "reserved_clear ?pd (mem s2)" using la by simp
  have mem: "mem s2 a = mem s a" if "in_literals u a \<or> in_image s a \<or> a = parent_at ?l" for a
    using that keep [of a] win [of a] blk [of a] off [of a] lits [of a] by blast
  then have "same_fs s s2" using sf by (simp add: same_fs_def same_files_def)
  moreover have "\<not> vram (buf + 129)" using h [THEN conjunct1] keys_ready_tail unfolding shell_ready_def by blast
  then have "buffer_end u buf s \<longrightarrow> buffer_end u buf s2" using keep [of "buf + 129"] win [of "buf + 129"] s2(2) by (auto simp: buffer_end_def)
  ultimately show ?thesis using home_keep [OF assms(1) keys sf s2(3) rc mem] s2(1) \<open>term_of s2 = term_of t\<close> by blast
qed

lemma home_intr:
  fixes s :: "'a kernel_scheme"
  assumes "shell_home u buf names s"
  shows "shell_home u buf names (s\<lparr>intr := b\<rparr>)"
proof (rule home_step [OF assms])
  have ready: "shell_ready u buf names s" using assms by (simp add: shell_home_def Let_def)
  show st: "shell_step (u_layout u) buf s (s\<lparr>intr := b\<rparr>)" by (simp add: shell_step_def same_files_def pageview_def)
  have "keys_ready (u_layout u) buf (s\<lparr>intr := b\<rparr>)" using ready by (simp add: shell_ready_def keys_ready_def plain_def)
  then show "shell_ready u buf names (s\<lparr>intr := b\<rparr>)" by (rule shell_ready_keep [OF ready _ st])
qed

section \<open>A command that runs\<close>

text \<open>The contract of a program with the file \<open>c\<close> for the arguments \<open>args\<close>: entered by the kernel it prints \<open>out\<close> and halts with the low byte \<open>st\<close>, while the
  interrupts \<open>irqs\<close> shrink to \<open>irqs'\<close>.\<close>

definition program_shows :: "layout \<Rightarrow> (u32 \<Rightarrow> 'a mach \<Rightarrow> (u32 \<times> 'a mach) option) \<Rightarrow> byte list \<Rightarrow> byte list \<Rightarrow> byte \<Rightarrow> byte list
    \<Rightarrow> 'a kernel_scheme handler list \<Rightarrow> 'a kernel_scheme handler list \<Rightarrow> bool" where
  "program_shows l child c args st out irqs irqs' \<longleftrightarrow> (\<forall>n s1. started l n c args s1 \<longrightarrow>
     (\<exists>v t. child (entry_address c) (irqs, s1) = Some (v, irqs', t) \<and> ucast v = st \<and> program_ran s1 t \<and> term_of t = fold t_putc out (term_of s1)))"

definition exit_message :: "byte \<Rightarrow> byte list" where
  "exit_message st = (if st = 0 then [] else lit abnormal)"

lemma shell_executes:
  fixes e :: "'a kernel_scheme"
  assumes "shell_home u buf names e" and "parsed (mem e) buf p ws args"
    and "stored (dentry_addr (u_layout u)) names ws i e" and "elf_magic (contents i e)" and "0x48000 + length (contents i e) \<le> WINDOW_SIZE"
    and "program_shows (u_layout u) child (contents i e) args st out irqs irqs'"
  shows "\<exists>s'. ece391_execute u child buf (irqs, e) = Some (uint st, irqs', s') \<and> shell_home u buf names s' \<and> term_of s' = fold t_putc out (term_of e) \<and>
    same_fs e s' \<and> (buffer_end u buf e \<longrightarrow> buffer_end u buf s')"
proof -
  let ?l = "u_layout u"
  obtain s1 where s1: "execute ?l buf (e\<lparr>intr := False\<rparr>) = Some (Entered_user (entry_address (contents i e)) PROGRAM_ENDING_ADDR, s1)"
    "started ?l (counter e + 1) (contents i e) args s1" "launched ?l e s1" "term_of s1 = term_of e"
    using shell_launches [OF assms(1-5)] by blast
  obtain v t where t: "child (entry_address (contents i e)) (irqs, s1) = Some (v, irqs', t)" "ucast v = st" "program_ran s1 t"
    "term_of t = fold t_putc out (term_of s1)"
    using assms(6) s1(2) unfolding program_shows_def by blast
  have c: "counter s1 = counter e + 1" "runs ?l (counter e + 1) s1" using s1(2) by (simp_all add: started_def)
  obtain s2 where s2: "halt ?l st (t\<lparr>intr := False\<rparr>) = (Resumed (curr_esp ?l) (curr_ebp ?l) st, s2)" "shell_home u buf names s2" "term_of s2 = term_of t"
    "same_fs e s2" "buffer_end u buf e \<longrightarrow> buffer_end u buf s2"
    using shell_resumes [OF assms(1) s1(3) c(2,1) t(3)] by blast
  have "ece391_execute u child buf (irqs, e) = Some (uint st, irqs', s2\<lparr>intr := intr e\<rparr>)"
    using s1(1) t(1,2) s2(1) by (simp add: ece391_execute_def asm_linkage_def cli_def iret_to_caller_def Let_def)
  moreover have "same_fs e (s2\<lparr>intr := intr e\<rparr>)" using s2(4) by (simp add: same_fs_def)
  moreover have "buffer_end u buf e \<longrightarrow> buffer_end u buf (s2\<lparr>intr := intr e\<rparr>)" using s2(5) by (simp add: buffer_end_def)
  ultimately show ?thesis using home_intr [OF s2(2)] s2(3) t(4) s1(4) by auto
qed

lemma shell_step_fs:
  fixes s s' :: "'a kernel_scheme"
  shows "shell_ready u buf names s \<Longrightarrow> shell_step (u_layout u) buf s s' \<Longrightarrow> same_fs s s'"
  by (auto simp: same_fs_def same_files_def shell_step_def shell_ready_def)

lemma shell_round_runs:
  fixes s :: "'a kernel_scheme"
  assumes "shell_home u buf names s" and "line_keys cs" and "typed cs \<noteq> []" and "typed cs \<noteq> lit ''exit''"
    and "stored (dentry_addr (u_layout u)) names ws i s" and "elf_magic (contents i s)" and "0x48000 + length (contents i s) \<le> WINDOW_SIZE"
    and "\<And>m. cstr (ptr m buf) (typed cs) \<Longrightarrow> m (buf + 129) = mem s (buf + 129) \<Longrightarrow>
      \<exists>p args. parsed m buf p ws args \<and> program_shows (u_layout u) child (contents i s) args st out irqs irqs'"
  shows "\<exists>s'. shell_round u child buf (map (key_irq env) (cs @ [0x1C]) @ irqs, s) = Some (Inr (), irqs', s') \<and> shell_home u buf names s' \<and>
    term_of s' = fold t_putc (lit prompt @ typed cs @ [10] @ out @ exit_message st) (term_of s) \<and> same_fs s s' \<and> (buffer_end u buf s \<longrightarrow> buffer_end u buf s')"
proof -
  have ready: "shell_ready u buf names s" using assms(1) by (simp add: shell_home_def Let_def)
  obtain e where e: "shell_round u child buf (map (key_irq env) (cs @ [0x1C]) @ irqs, s) = shell_obey u child buf (irqs, e)"
    "shell_ready u buf names e" "cstr (ptr (mem e) buf) (typed cs)" "term_of e = fold t_putc (lit prompt @ typed cs @ [10]) (term_of s)"
    "shell_step (u_layout u) buf s e"
    using shell_line [OF ready assms(2), of child env irqs] by blast
  have home: "shell_home u buf names e" by (rule home_step [OF assms(1) e(2,5)])
  note fs = shell_step_fs [OF ready e(5)]
  have st: "stored (dentry_addr (u_layout u)) names ws i e" "contents i e = contents i s" using stored_keep [OF assms(5) fs] by simp_all
  have "mem e (buf + 129) = mem s (buf + 129)" using e(5) by (simp add: shell_step_def)
  then obtain p args where pa: "parsed (mem e) buf p ws args" "program_shows (u_layout u) child (contents i s) args st out irqs irqs'"
    using assms(8) [OF e(3)] by blast
  obtain s1 where s1: "ece391_execute u child buf (irqs, e) = Some (uint st, irqs', s1)" "shell_home u buf names s1" "term_of s1 = fold t_putc out (term_of e)"
    "same_fs e s1" "buffer_end u buf e \<longrightarrow> buffer_end u buf s1"
    using shell_executes [OF home pa(1) st(1), unfolded st(2), OF assms(6,7) pa(2)] by blast
  have "cstr (ptr (mem e) (u_literal u ''exit'')) (lit ''exit'')" using e(2) by (simp add: shell_ready_def has_literals_def shell_strs_def printable_def)
  from ece391_strcmp_cstr [OF e(3) this] obtain r where r: "ece391_strcmp (mem e) buf (u_literal u ''exit'') = Some r" "r = 0 \<longleftrightarrow> typed cs = lit ''exit''" by blast
  have "r \<noteq> 0" using r(2) assms(4) by simp
  moreover have "mem e buf \<noteq> 0" using cstr_nonzero [OF e(3), of 0] assms(3) by (cases cs) (simp_all add: typed_def)
  moreover have "uint st \<noteq> 256" "uint st \<noteq> -1" "(uint st = 0) = (st = 0)"
    using unsigned_less [of st, where 'a = int] uint_nonnegative [of st] by (simp, linarith, simp add: word_uint_eq_iff)
  ultimately have obey: "shell_obey u child buf (irqs, e) = (if st = 0 then Some (Inr (), irqs', s1) else do { t \<leftarrow> say u abnormal (irqs', s1); Some (Inr (), t) })"
    using r(1) s1(1) by (auto simp: shell_obey_def umem_def)
  have ready1: "shell_ready u buf names s1" using s1(2) by (simp add: shell_home_def Let_def)
  obtain s2 where s2: "say u abnormal (irqs', s1) = Some (irqs', s2)" "shell_ready u buf names s2" "term_of s2 = fold t_putc (lit abnormal) (term_of s1)"
    "shell_step (u_layout u) buf s1 s2"
    using shell_say [OF ready1, of abnormal irqs'] by (auto simp: shell_strs_def)
  have "shell_home u buf names s2" by (rule home_step [OF s1(2) s2(2,4)])
  moreover have "same_fs s s1" "same_fs s s2" using same_fs_trans fs s1(4) shell_step_fs [OF ready1 s2(4)] by blast+
  moreover have "buffer_end u buf s \<longrightarrow> buffer_end u buf s1" "buffer_end u buf s \<longrightarrow> buffer_end u buf s2"
    using buffer_end_step [OF e(5)] buffer_end_step [OF s2(4)] s1(5) by blast+
  ultimately show ?thesis using e(1,4) obey s1(2,3) s2(1,3) by (cases "st = 0") (auto simp: exit_message_def)
qed

section \<open>A session\<close>

text \<open>What a typed line makes the shell print, beside prompt and echo: nothing for the empty line, its complaint for an unknown name, and for a stored executable
  the output of its program and, unless its status is 0, the shell's remark.  The program waits for no further key; when the line gives no arguments, its output does
  not depend on the arguments it gets.\<close>

definition command_shows :: "user \<Rightarrow> byte list list \<Rightarrow> (u32 \<Rightarrow> 'a mach \<Rightarrow> (u32 \<times> 'a mach) option) \<Rightarrow> 'a kernel_scheme \<Rightarrow> byte list \<times> byte list \<Rightarrow> bool" where
  "command_shows u names child s = (\<lambda>(cs, out). unknown_line names cs \<and> out = (if cs = [] then [] else lit no_such) \<or>
     (\<exists>i st os. line_keys cs \<and> typed cs \<noteq> [] \<and> typed cs \<noteq> lit ''exit'' \<and>
       stored (dentry_addr (u_layout u)) names (command_word (typed cs)) i s \<and> elf_magic (contents i s) \<and> 0x48000 + length (contents i s) \<le> WINDOW_SIZE \<and>
       (\<forall>args irqs. given_args (typed cs) \<in> {None, Some args} \<longrightarrow> length args < 128 \<longrightarrow> program_shows (u_layout u) child (contents i s) args st os irqs irqs) \<and>
       out = os @ exit_message st))"

definition transcript :: "(byte list \<times> byte list) list \<Rightarrow> byte list" where
  "transcript cmds = concat (map (\<lambda>(cs, out). lit prompt @ typed cs @ [10] @ out) cmds) @ lit prompt @ lit ''exit'' @ [10]"

lemma command_shows_keep:
  fixes s s' :: "'a kernel_scheme"
  assumes "command_shows u names child s c" and "same_fs s s'"
  shows "command_shows u names child s' c"
proof (cases c)
  case (Pair cs out)
  from assms(1) consider "unknown_line names cs" "out = (if cs = [] then [] else lit no_such)"
    | i st os where "line_keys cs" "typed cs \<noteq> []" "typed cs \<noteq> lit ''exit''"
        "stored (dentry_addr (u_layout u)) names (command_word (typed cs)) i s" "elf_magic (contents i s)" "0x48000 + length (contents i s) \<le> WINDOW_SIZE"
        "\<forall>args irqs. given_args (typed cs) \<in> {None, Some args} \<longrightarrow> length args < 128 \<longrightarrow> program_shows (u_layout u) child (contents i s) args st os irqs irqs"
        "out = os @ exit_message st"
    unfolding command_shows_def Pair prod.case by blast
  then show ?thesis
  proof cases
    case 1
    then show ?thesis unfolding command_shows_def Pair prod.case by blast
  next
    case 2
    have "stored (dentry_addr (u_layout u)) names (command_word (typed cs)) i s'" "contents i s' = contents i s" using stored_keep [OF 2(4) assms(2)] by simp_all
    then show ?thesis using 2 unfolding command_shows_def Pair prod.case by metis
  qed
qed

lemma shell_round_command:
  fixes s :: "'a kernel_scheme"
  assumes "shell_home u buf names s" and "buffer_end u buf s" and "command_shows u names child s (cs, out)"
  shows "\<exists>s'. shell_round u child buf (map (key_irq env) (cs @ [0x1C]) @ rest, s) = Some (Inr (), rest, s') \<and> shell_home u buf names s' \<and>
    term_of s' = fold t_putc (lit prompt @ typed cs @ [10] @ out) (term_of s) \<and> same_fs s s' \<and> buffer_end u buf s'"
  using assms(3) unfolding command_shows_def prod.case
proof (elim disjE exE conjE)
  assume c: "unknown_line names cs" "out = (if cs = [] then [] else lit no_such)"
  have ready: "shell_ready u buf names s" and z: "mem s (buf + 129) = 0" using assms(1,2) by (simp_all add: shell_home_def Let_def buffer_end_def)
  from shell_round_unknown [OF ready c(1) z, of child env rest] show ?thesis
    using home_step [OF assms(1)] shell_step_fs [OF ready] buffer_end_step assms(2) unfolding c(2) by blast
next
  fix i st os
  assume c: "line_keys cs" "typed cs \<noteq> []" "typed cs \<noteq> lit ''exit''" "stored (dentry_addr (u_layout u)) names (command_word (typed cs)) i s"
    "elf_magic (contents i s)" "0x48000 + length (contents i s) \<le> WINDOW_SIZE"
    and p: "\<forall>args irqs. given_args (typed cs) \<in> {None, Some args} \<longrightarrow> length args < 128 \<longrightarrow> program_shows (u_layout u) child (contents i s) args st os irqs irqs"
    and out: "out = os @ exit_message st"
  have "\<exists>p args. parsed m buf p (command_word (typed cs)) args \<and> program_shows (u_layout u) child (contents i s) args st os rest rest"
    if m: "cstr (ptr m buf) (typed cs)" "m (buf + 129) = mem s (buf + 129)" for m
  proof -
    have "length (typed cs) \<le> 128" "m (buf + 129) = 0" using c(1) m(2) assms(2) by (simp_all add: line_keys_def buffer_end_def)
    from parsed_line [OF m(1) c(2) this] show ?thesis using p by (auto simp: parsed_def)
  qed
  from shell_round_runs [OF assms(1) c this, of env] show ?thesis using assms(2) unfolding out by blast
qed

lemma shell_loop_session:
  fixes s :: "'a kernel_scheme"
  assumes "shell_home u buf names s" and "buffer_end u buf s" and "list_all (command_shows u names child s) cmds"
  shows "\<exists>s'. shell_loop u child buf (type_lines env (map fst cmds @ [exit_keys]) @ rest, s) = Some (0, rest, s') \<and> shell_home u buf names s' \<and>
    term_of s' = fold t_putc (transcript cmds) (term_of s) \<and> buffer_end u buf s'"
  using assms
proof (induction cmds arbitrary: s)
  case Nil
  have ready: "shell_ready u buf names s" using Nil(1) by (simp add: shell_home_def Let_def)
  obtain s' where s': "shell_round u child buf (map (key_irq env) (exit_keys @ [0x1C]) @ rest, s) = Some (Inl 0, rest, s')" "shell_ready u buf names s'"
    "term_of s' = fold t_putc (lit prompt @ lit ''exit'' @ [10]) (term_of s)" "shell_step (u_layout u) buf s s'"
    using shell_round_exit [OF ready] by blast
  have "shell_home u buf names s'" by (rule home_step [OF Nil(1) s'(2,4)])
  moreover have "buffer_end u buf s'" by (rule buffer_end_step [OF s'(4) Nil(2)])
  ultimately show ?case using s'(1,3) by (subst shell_loop.simps) (auto simp: type_lines_def transcript_def)
next
  case (Cons c cmds)
  obtain cs out where c: "c = (cs, out)" by (cases c)
  let ?rest = "type_lines env (map fst cmds @ [exit_keys]) @ rest"
  have "command_shows u names child s (cs, out)" using Cons.prems(3) by (simp add: c)
  from shell_round_command [OF Cons.prems(1,2) this, of env ?rest] obtain s1
    where s1: "shell_round u child buf (map (key_irq env) (cs @ [0x1C]) @ ?rest, s) = Some (Inr (), ?rest, s1)" "shell_home u buf names s1"
      "term_of s1 = fold t_putc (lit prompt @ typed cs @ [10] @ out) (term_of s)" "same_fs s s1" "buffer_end u buf s1" by blast
  have "list_all (command_shows u names child s1) cmds"
    using Cons.prems(3) command_shows_keep [OF _ s1(4)] by (simp add: list_all_iff)
  from Cons.IH [OF s1(2,5) this] obtain s' where "shell_loop u child buf (?rest, s1) = Some (0, rest, s')" "shell_home u buf names s'"
    "term_of s' = fold t_putc (transcript cmds) (term_of s1)" "buffer_end u buf s'" by blast
  moreover have "type_lines env (map fst (c # cmds) @ [exit_keys]) @ rest = map (key_irq env) (cs @ [0x1C]) @ ?rest" by (simp add: type_lines_def c)
  ultimately show ?case using s1(1,3) by (subst shell_loop.simps) (auto simp: transcript_def c)
qed

section \<open>Programs that keep the contract\<close>

text \<open>Output is within the contract.\<close>

lemma output_ran:
  fixes s1 t :: "'a kernel_scheme"
  assumes "started l n c args s1" and "tty_shows l xs (irqs, s1) (irqs', t)"
  shows "program_ran s1 t"
proof -
  have o: "off_terminal t = off_terminal s1" "tty_ready l t" using assms(2) by (simp_all add: tty_shows_def)
  note f = off_terminal_fields [OF o(1)]
  have "mem t a = mem s1 a" if "\<not> vram a" for a using hide_vram_eqD [of "mem t" "mem s1" a] f that by simp
  then show ?thesis
    using f o(2) pageview_off_terminal [OF o(1)] assms(1) by (simp add: program_ran_def same_files_def tty_ready_def plain_def started_def)
qed

text \<open>\<open>testprint\<close>: its file contains its message, \<open>k\<close> bytes from the start.\<close>

abbreviation testprint_msg :: string where "testprint_msg \<equiv> ''Hello, if this ran, the program was correct. Yay!'' @ nl"

definition program_of :: "('a mach \<Rightarrow> (int \<times> 'a mach) option) \<Rightarrow> u32 \<Rightarrow> 'a mach \<Rightarrow> (u32 \<times> 'a mach) option" where
  "program_of main addr t = map_option (\<lambda>(v, t). (of_int v, t)) (main t)"

lemma image_literal:
  assumes "bytes_at (ptr m PROGRAM_STARTING_ADDR) (length c) = c" and "take (Suc (length xs)) (drop k c) = xs @ [0]" and "0 \<notin> set xs"
    and "length xs \<le> 1024" and "0x48000 + length c \<le> WINDOW_SIZE"
  shows "printable m (PROGRAM_STARTING_ADDR + of_nat k) xs"
proof -
  let ?p = "PROGRAM_STARTING_ADDR + of_nat k"
  have len: "k + length xs < length c" using arg_cong [OF assms(2), of length] by simp
  have at: "m (?p + of_nat j) = (xs @ [0]) ! j" if "j \<le> length xs" for j
  proof -
    have kj: "k + j < length c" using that len by simp
    have "(xs @ [0]) ! j = take (Suc (length xs)) (drop k c) ! j" by (simp only: assms(2))
    also have "\<dots> = c ! (k + j)" using that kj by simp
    also have "\<dots> = bytes_at (ptr m PROGRAM_STARTING_ADDR) (length c) ! (k + j)" by (simp only: assms(1))
    also have "\<dots> = m (?p + of_nat j)" using kj by (simp add: bytes_at_def add.assoc)
    finally show ?thesis by simp
  qed
  have "cstr (ptr m ?p) xs"
  proof (rule cstrI)
    show "ptr m ?p (of_nat j) = xs ! j" if "j < length xs" for j using at [of j] that by (simp add: nth_append)
    show "ptr m ?p (of_nat (length xs)) = 0" using at [of "length xs"] by simp
  qed (use assms(3,4) in simp_all)
  moreover have win: "within WINDOW WINDOW_SIZE a" if "within ?p (Suc (length xs)) a" for a
    using image_in_window [OF assms(5)] within_sub_block [OF that, of "length c"] len assms(5) by simp
  moreover have "\<not> vram a" if "within WINDOW WINDOW_SIZE a" for a
    using that separate_within [of WINDOW WINDOW_SIZE VIDEO 4000 a] by (simp add: vram_def separate_def)
  moreover have "unat ?p = 0x08048000 + k" using len assms(5) by (simp add: unat_word_ariths)
  then have "?p \<noteq> 0" by auto
  ultimately show ?thesis using assms(4) by (simp add: printable_def)
qed

lemma testprint_shows:
  assumes "u_layout v = l" and "u_literal v testprint_msg = PROGRAM_STARTING_ADDR + of_nat k"
    and "take (Suc (length testprint_msg)) (drop k c) = lit testprint_msg @ [0]" and "0x48000 + length c \<le> WINDOW_SIZE"
  shows "program_shows l (program_of (testprint_main v)) c args 0 (lit testprint_msg) irqs irqs"
  unfolding program_shows_def
proof (intro allI impI)
  fix n and s1 :: "'a kernel_scheme" assume s: "started l n c args s1"
  have "bytes_at (ptr (mem s1) PROGRAM_STARTING_ADDR) (length c) = c" using s by (simp add: started_def)
  moreover have "0 \<notin> set (lit testprint_msg)" by (rule lit_nonzero) simp
  moreover have "length (lit testprint_msg) = length testprint_msg" "length testprint_msg \<le> 1024" by (simp_all add: lit_def)
  ultimately have "has_literals v {testprint_msg} (mem s1)"
    using image_literal [of "mem s1" c "lit testprint_msg" k] assms(2-4) by (simp only: has_literals_def) simp
  moreover have "talking l (mem s1) (irqs, s1)" using s by (simp add: talking_def umem_def started_def)
  ultimately obtain t where t: "say v testprint_msg (irqs, s1) = Some t" "tty_shows l (lit testprint_msg) (irqs, s1) t"
    using says_textD [OF say_says [of v "{testprint_msg}" "mem s1" testprint_msg]] assms(1) by blast
  obtain s' where s': "t = (irqs, s')" using t(2) by (cases t) (simp add: tty_shows_def)
  have "testprint_main v (irqs, s1) = Some (0, irqs, s')" using t(1) by (simp add: testprint_main_def s')
  then have "program_of (testprint_main v) (entry_address c) (irqs, s1) = Some (0, irqs, s')" by (simp add: program_of_def)
  moreover have "term_of s' = fold t_putc (lit testprint_msg) (term_of s1)" using t(2) by (simp add: tty_shows_def s')
  ultimately show "\<exists>w t. program_of (testprint_main v) (entry_address c) (irqs, s1) = Some (w, irqs, t) \<and> ucast w = (0 :: byte) \<and> program_ran s1 t \<and>
      term_of t = fold t_putc (lit testprint_msg) (term_of s1)"
    using output_ran [OF s t(2) [unfolded s']] by (intro exI [of _ 0] exI [of _ s']) simp
qed

end
