(* ===== verification/UserSession.thy ===== *)
theory UserSession
  imports UserRun
begin

text \<open>
  Sessions with the shell that run programs: the two theorems over the lemmas of the previous theory, and a sample: the shell is process 1, the file \<open>a\<close> of the
  image is an executable with the message of \<open>testprint\<close> behind its header.
\<close>

unbundle bit_operations_syntax

section \<open>The theorems\<close>

text \<open>C3: the shell runs a program.  The user types the name of a stored executable, a space and its arguments.  The shell prompts, echoes the line and calls
  \<open>execute\<close>; the program, for which only the contract \<open>program_shows\<close> is known, runs in its own address space with its arguments and halts; the shell then has its
  own memory, descriptors and address space back, says so when the program did not return 0, and is ready for the next line.  The screen shows prompt, line and
  the output of the program, in this order.\<close>

theorem shell_runs_program:
  fixes s :: "'a kernel_scheme"
  assumes "shell_home u buf names s" and "line_keys cs" and "typed cs = ws @ 32 # args" and "32 \<notin> set ws" and "length ws < 32"
    and "stored (dentry_addr (u_layout u)) names ws i s" and "elf_magic (contents i s)" and "0x48000 + length (contents i s) \<le> WINDOW_SIZE"
    and "program_shows (u_layout u) child (contents i s) args st out irqs irqs'"
  shows "\<exists>s'. shell_round u child buf (map (key_irq env) (cs @ [0x1C]) @ irqs, s) = Some (Inr (), irqs', s') \<and> shell_home u buf names s' \<and>
    term_of s' = fold t_putc (lit prompt @ typed cs @ [10] @ out @ exit_message st) (term_of s)"
proof -
  have "length args < 128" using arg_cong [OF assms(3), of length] assms(2) by (simp add: line_keys_def)
  then have "\<exists>p args. parsed m buf p ws args \<and> program_shows (u_layout u) child (contents i s) args st out irqs irqs'"
    if "cstr (ptr m buf) (typed cs)" for m
    using parsed_space [OF that [unfolded assms(3)] assms(4,5)] assms(9) by blast
  moreover have "typed cs \<noteq> []" "typed cs \<noteq> lit ''exit''" using assms(3) by (auto simp: lit_def append_eq_Cons_conv)
  ultimately show ?thesis using shell_round_runs [OF assms(1,2) _ _ assms(6-8)] by blast
qed

text \<open>C2: a session with the shell ends.  From a process with its own address space whose descriptors 0 and 1 are the terminal, with a mounted file system and a
  zero in the byte of its buffer behind the longest possible line, the shell prints its banner and then, for every sequence of typed lines (character keys without
  modifiers, at most 128), prompts, echoes the line and answers it.  Each line is empty, or its name (what precedes the first space, of the first 32
  characters) is not in the directory, or it is the name of a stored executable whose program keeps its contract, with or without arguments.  A line
  without arguments makes \<open>execute\<close> take what an earlier line left in the buffer for them, so there the contract is asked for any arguments.  The programs
  run one after the other, each in its own address space, and print what they print; at the line \<open>exit\<close> the shell returns 0.  The screen shows exactly that
  transcript, the interrupts after the last Enter are still to come, and the shell is left with its address space, descriptors and literals as at the start.\<close>

theorem shell_session:
  fixes s :: "'a kernel_scheme"
  assumes "shell_home u buf names s" and "buffer_end u buf s" and "list_all (command_shows u names child s) cmds"
  shows "\<exists>s'. shell_main u child buf (type_lines env (map fst cmds @ [exit_keys]) @ rest, s) = Some (0, rest, s') \<and> shell_home u buf names s' \<and>
    buffer_end u buf s' \<and> term_of s' = fold t_putc (lit banner @ transcript cmds) (term_of s)"
proof -
  let ?keys = "type_lines env (map fst cmds @ [exit_keys]) @ rest"
  have ready: "shell_ready u buf names s" using assms(1) by (simp add: shell_home_def Let_def)
  obtain s1 where s1: "say u banner (?keys, s) = Some (?keys, s1)" "shell_ready u buf names s1" "term_of s1 = fold t_putc (lit banner) (term_of s)"
    "shell_step (u_layout u) buf s s1"
    using shell_say [OF ready, of banner ?keys] by (auto simp: shell_strs_def)
  have home: "shell_home u buf names s1" by (rule home_step [OF assms(1) s1(2,4)])
  have "list_all (command_shows u names child s1) cmds"
    using assms(3) command_shows_keep [OF _ shell_step_fs [OF ready s1(4)]] by (simp add: list_all_iff)
  from shell_loop_session [OF home buffer_end_step [OF s1(4) assms(2)] this] show ?thesis using s1(1,3) by (auto simp: shell_main_def)
qed

section \<open>A sample\<close>

definition msg_bytes :: "byte list" where
  "msg_bytes = lit testprint_msg @ [0]"

lemma msg_bytes_length: "length msg_bytes = 51"
  by (simp add: msg_bytes_def lit_def)

lemma msg_bytes_take: "take (Suc (length testprint_msg)) msg_bytes = msg_bytes"
  by (rule take_all) (simp add: msg_bytes_length)

definition print_mem :: "mem \<Rightarrow> mem" where
  "print_mem m = (poke m 0x10201C msg_bytes)(0x101000 := 79, 0x08060081 := 0)"

definition home_mem :: mem where
  "home_mem = with_literals shell_lits (init_pcb lay_demo 1 (print_mem (mem run_demo)))"

definition home_demo :: kernel where
  "home_demo = run_demo\<lparr>mem := home_mem\<rparr>"

abbreviation home_changes :: "(u32 \<times> nat) list" where
  "home_changes \<equiv> [(LITS, 4096), (0x7FE000, 400), (0x10201C, 51), (0x101000, 1), (0x08060081, 1)]"

lemma print_mem_other: "\<not> within 0x10201C 51 a \<Longrightarrow> a \<noteq> 0x101000 \<Longrightarrow> a \<noteq> 0x08060081 \<Longrightarrow> print_mem m a = m a"
  using poke_other [of "0x10201C" msg_bytes a m] by (simp add: print_mem_def msg_bytes_length)

lemma home_mem_only: "only home_changes (mem run_demo) home_mem"
  unfolding only_def
proof (intro allI impI)
  fix a assume "\<forall>(p, n) \<in> set home_changes. \<not> within p n a"
  then have a: "\<not> within LITS 4096 a" "\<not> within 0x7FE000 400 a" "\<not> within 0x10201C 51 a" "a \<noteq> 0x101000" "a \<noteq> 0x08060081" by (auto simp: within_def)
  have "\<not> within LITS (64 * length shell_lits) a" using a(1) by (auto simp: within_def shell_lits_def)
  then have "home_mem a = init_pcb lay_demo 1 (print_mem (mem run_demo)) a" by (simp add: home_mem_def with_literals_def)
  also have "\<dots> = print_mem (mem run_demo) a" using init_pcb_fresh(2) [of 1 lay_demo a] a(2) by (simp add: pcb_1)
  finally show "home_mem a = mem run_demo a" using print_mem_other [OF a(3-5)] by simp
qed

text \<open>The image.\<close>

lemma home_mem_image:
  assumes "unat a < 0x200000"
  shows "home_mem a = print_mem exec_mem a"
proof -
  have "\<not> within LITS 4096 a" "\<not> within 0x7FE000 400 a" using assms by (auto simp: within_def unat_sub_if_size word_size)
  then have "\<not> within LITS (64 * length shell_lits) a" "\<not> within (pcb_of 1) 400 a" by (auto simp: within_def shell_lits_def pcb_1)
  then have "home_mem a = print_mem (mem run_demo) a"
    using init_pcb_fresh(2) [of 1 lay_demo a] by (simp add: home_mem_def with_literals_def)
  also have "\<dots> = print_mem exec_mem a" using assms by (simp add: print_mem_def poke_def run_demo_low)
  finally show ?thesis .
qed

lemma home_demo_fields:
  "mem home_demo = home_mem" "counter home_demo = 1" "my_boot_block home_demo = my_boot_block demo" "file_addr home_demo = file_addr demo"
  "dentries home_demo = dentries demo" "inodes home_demo = inodes demo" "drivers home_demo = drivers exec_demo" "pageview home_demo = pageview run_demo"
  by (simp_all add: home_demo_def run_demo_fields pageview_def) (simp add: run_demo_def)

lemma home_demo_inode: "inode_length home_demo 0 = 79" "data_block home_demo 0 0 = 0" "entry_inode home_demo 0 = 0"
proof -
  have "print_mem exec_mem 0x101000 = 79" by (simp add: print_mem_def)
  moreover have "print_mem exec_mem a = exec_mem a" if "a \<in> {0x101001, 0x101002, 0x101003, 0x101004, 0x101005, 0x101006, 0x101007, 0x100064, 0x100065, 0x100066, 0x100067}" for a
    by (rule print_mem_other) (use that in \<open>auto simp: within_def\<close>)
  ultimately show "inode_length home_demo 0 = 79" "data_block home_demo 0 0 = 0" "entry_inode home_demo 0 = 0"
    by (simp_all add: inode_length_def data_block_def entry_inode_def dentry_at_def home_demo_fields home_mem_image load32_def join32_def exec_mem_def demo_mem_def)
qed

text \<open>The file: the header of the executable of \<open>exec_demo\<close>, then the message.\<close>

lemma home_demo_contents: "contents 0 home_demo = contents 0 exec_demo @ msg_bytes"
proof (rule nth_equalityI)
  show len: "length (contents 0 home_demo) = length (contents 0 exec_demo @ msg_bytes)"
    by (simp add: contents_def file_bytes_def home_demo_inode exec_demo_inode msg_bytes_length)
  fix j assume "j < length (contents 0 home_demo)"
  then have j: "j < 79" by (simp add: contents_def file_bytes_def home_demo_inode)
  then have "contents 0 home_demo ! j = home_mem (0x102000 + of_nat j)"
    by (simp add: contents_def file_bytes_def home_demo_inode file_byte_def home_demo_fields)
  also have "\<dots> = print_mem exec_mem (0x102000 + of_nat j)" using j by (intro home_mem_image) (simp add: unat_word_ariths)
  finally have at: "contents 0 home_demo ! j = print_mem exec_mem (0x102000 + of_nat j)" .
  have u: "unat (0x102000 + of_nat j :: u32) = 0x102000 + j" using j by (simp add: unat_word_ariths)
  have ne: "(0x102000 + of_nat j :: u32) \<noteq> 0x101000" "(0x102000 + of_nat j :: u32) \<noteq> 0x08060081"
  proof -
    have "unat (0x102000 + of_nat j :: u32) \<noteq> unat (0x101000 :: u32)" "unat (0x102000 + of_nat j :: u32) \<noteq> unat (0x08060081 :: u32)"
      unfolding u using j by simp_all
    then show "(0x102000 + of_nat j :: u32) \<noteq> 0x101000" "(0x102000 + of_nat j :: u32) \<noteq> 0x08060081" by metis+
  qed
  have "print_mem exec_mem (0x102000 + of_nat j) = (contents 0 exec_demo @ msg_bytes) ! j"
  proof (cases "j < 28")
    case True
    then have "print_mem exec_mem (0x102000 + of_nat j) = exec_mem (0x102000 + of_nat j)"
      using u by (intro print_mem_other ne) (auto simp: within_def unat_sub_if_size word_size)
    then show ?thesis using True by (simp add: nth_append contents_def file_bytes_def exec_demo_inode file_byte_def)
  next
    case False
    then have e: "(0x102000 + of_nat j :: u32) = 0x10201C + of_nat (j - 28)" by (simp add: of_nat_diff)
    have "j - 28 < length msg_bytes" "j - 28 < 4294967296" using j False by (simp_all add: msg_bytes_length)
    then have "poke exec_mem 0x10201C msg_bytes (0x10201C + of_nat (j - 28)) = msg_bytes ! (j - 28)" by (subst poke_at) (simp_all only: if_True)
    then have "print_mem exec_mem (0x102000 + of_nat j) = msg_bytes ! (j - 28)" using ne unfolding e print_mem_def fun_upd_def by (simp only: if_False)
    then show ?thesis using False by (simp add: nth_append contents_def file_bytes_def exec_demo_inode)
  qed
  then show "contents 0 home_demo ! j = (contents 0 exec_demo @ msg_bytes) ! j" using at by simp
qed

lemma home_demo_stored: "stored 0x200000 demo_names (lit ''a'') 0 home_demo"
proof -
  have st: "directory exec_demo demo_names" "mounted exec_demo" "dentry_room exec_demo 0x200000" using exec_demo_stored by (simp_all add: stored_def)
  have "mounted home_demo" "dentry_room home_demo 0x200000"
    using st(2,3) by (simp_all add: mounted_def dentry_room_def in_image_def fs_size_def home_demo_fields)
  moreover have "entry_name home_demo i (demo_names ! i)" if i: "i < 63" for i
  proof -
    have n: "length (demo_names ! i) \<le> 1" using i by (cases i) (simp_all add: demo_names_def lit_def)
    have "home_mem a = exec_mem a" if a: "within (0x100040 + of_nat i * 64) (Suc (length (demo_names ! i))) a" for a
    proof -
      obtain k where k: "k < Suc (length (demo_names ! i))" "a = 0x100040 + of_nat i * 64 + of_nat k" using a by (auto simp: within_iff)
      then have "a = 0x100040 + of_nat (64 * i + k)" by (simp add: mult.commute)
      then have u: "unat a = 0x100040 + (64 * i + k)" using i k(1) n by (simp only:) (simp add: unat_word_ariths)
      then have "print_mem exec_mem a = exec_mem a"
        using i k(1) n by (intro print_mem_other) (auto simp: within_def unat_sub_if_size word_size)
      then show ?thesis using home_mem_image [of a] u i k(1) n by simp
    qed
    then have "cstr (ptr home_mem (0x100040 + of_nat i * 64)) (demo_names ! i) = cstr (ptr exec_mem (0x100040 + of_nat i * 64)) (demo_names ! i)"
      by (rule string_at.local)
    then show ?thesis using st(1) i by (simp add: directory_def entry_name_def dentry_at_def home_demo_fields)
  qed
  then have "directory home_demo demo_names" using st(1) by (simp add: directory_def)
  moreover have "data_block home_demo 0 (of_nat j) = 0" if "4096 * j < (79 :: nat)" for j
  proof -
    have "j = 0" using that by simp
    then show ?thesis by (simp add: home_demo_inode)
  qed
  then have "file_ok home_demo 0" "tail_ok home_demo 0 n" for n by (simp_all add: file_ok_def tail_ok_def home_demo_inode home_demo_fields)
  ultimately show ?thesis by (simp add: stored_def home_demo_inode demo_names_def lit_def)
qed

section \<open>The shell\<close>

lemma home_mem_fresh: "pcb_fresh lay_demo 1 0 home_mem"
proof -
  have "pcb_fresh lay_demo 1 0 (init_pcb lay_demo 1 (print_mem (mem run_demo)))" using init_pcb_fresh(1) [of 1 lay_demo] by simp
  moreover have "home_mem a = init_pcb lay_demo 1 (print_mem (mem run_demo)) a" if "within (pcb_of 1) 400 a" for a
  proof -
    have "\<not> within LITS 4096 a" using that separate_within [of "0x7FE000" 400 LITS 4096 a] by (simp add: pcb_1 separate_def)
    then have "\<not> within LITS (64 * length shell_lits) a" by (auto simp: within_def shell_lits_def)
    then show ?thesis by (simp add: home_mem_def with_literals_def)
  qed
  ultimately show ?thesis using pcb_block.local by blast
qed

lemma home_mem_literals: "has_literals (user_demo shell_lits) shell_strs home_mem"
  unfolding has_literals_def
proof
  fix str assume str: "str \<in> shell_strs"
  then have p: "printable (proc_mem shell_lits []) (literal_at shell_lits str) (lit str)"
    using proc_demo_literals [OF shell_lits_ok(1), of "[]"] by (simp add: has_literals_def shell_lits_ok(3))
  obtain k where k: "first_index str shell_lits = Some k"
    using first_index_None [of str shell_lits] str shell_lits_ok(3) by (cases "first_index str shell_lits") auto
  then have "k < length shell_lits" "shell_lits ! k = str" using first_index_Some by fastforce+
  then have "cstr (ptr home_mem (literal_at shell_lits str)) (lit str)"
    using with_literals_cstr [OF shell_lits_ok(1), of k] k by (simp add: home_mem_def literal_at_def)
  then show "printable home_mem (u_literal (user_demo shell_lits) str) (lit str)" using p by (simp add: printable_def)
qed

lemma home_demo_runs: "runs lay_demo 1 home_demo" "reserved_clear pd_demo home_mem"
proof -
  have ap: "apart pd_demo 24576 q k" "apart pt_demo 4096 q k" if "(q, k) \<in> set home_changes" for q k
    using that by (auto intro!: separate_apart simp: separate_def)
  have "directory_ok pt_demo f (dir_of pd_demo 1) home_mem = directory_ok pt_demo f (dir_of pd_demo 1) (mem run_demo)" for f
    by (rule directory_only [OF home_mem_only ap(1)]) (simp_all add: is_process_def)
  moreover have "page_table_ok pt_demo home_mem = page_table_ok pt_demo (mem run_demo)"
    by (rule page_table_ok_cong) (use only_keeps [OF home_mem_only ap(2)] in blast)
  ultimately show "runs lay_demo 1 home_demo"
    using run_demo_runs home_demo_fields(8) by (simp add: runs_def home_demo_fields(1) pageview_def lay_demo_def)
  have "reserved_clear pd_demo home_mem = reserved_clear pd_demo (mem run_demo)" by (rule reserved_clear_only [OF home_mem_only ap(1)])
  then show "reserved_clear pd_demo home_mem" using run_demo_launch by (simp add: launch_ok_def lay_demo_def)
qed

lemma home_demo_keys: "keys_ready lay_demo CATBUF home_demo"
proof -
  have "drivers home_demo = drivers sys_demo" by (simp add: home_demo_fields(7) exec_demo_def)
  note d = drivers_fields [OF this]
  have kb: "kb_ok home_demo" "line_of home_demo = []" "plain home_demo" "readable_flag home_demo = 0"
    using keyboard_cong [OF d(3,1,2)] sys_demo_kb by simp_all
  have "apart CATBUF 1024 0x7FE000 1424" "apart CATBUF 1024 VIDEO 4000" "apart 0x7FE000 1424 VIDEO 4000" by (rule separate_apart, simp add: separate_def)+
  then have "apart CATBUF 1024 (pcb_of 1) 1424" "\<forall>a. within CATBUF 1024 a \<longrightarrow> \<not> vram a" "\<forall>a. within (pcb_of 1) 1424 a \<longrightarrow> \<not> vram a"
    by (simp_all add: pcb_1 vram_def apart_def)
  moreover have "ops_at lay_demo (stdin_t lay_demo) = Some Stdin_ops" "ops_at lay_demo (stdout_t lay_demo) = Some Stdout_ops" by (simp_all add: ops_at_def lay_demo_def)
  ultimately show ?thesis using kb home_mem_fresh by (simp add: keys_ready_def tty_ready_def home_demo_fields(1,2) pcb_fresh_def)
qed

lemma home_demo_ready: "shell_ready (user_demo shell_lits) CATBUF demo_names home_demo"
proof -
  have "in_image home_demo = in_image (proc_demo shell_lits [])" by (simp add: in_image_def fs_size_def home_demo_fields fun_eq_iff)
  moreover have "mounted home_demo" "directory home_demo demo_names" using home_demo_stored by (simp_all add: stored_def)
  ultimately show ?thesis
    using proc_demo_shell home_demo_keys home_mem_literals by (simp add: shell_ready_def home_demo_fields(1,2))
qed

lemma home_demo_blocks:
  "in_blocks lay_demo 2 a \<Longrightarrow> \<not> within 0x100000 12288 a \<and> \<not> within 0x7FE000 1424 a \<and> \<not> vram a"
proof -
  have sep: "\<forall>(q, k) \<in> set (launch_blocks lay_demo 2). separate q k 0x100000 12288 \<and> separate q k 0x7FE000 1424 \<and> separate q k VIDEO 4000"
    by (simp add: launch_blocks_def lay_demo_def pcb_of_def separate_def)
  assume "in_blocks lay_demo 2 a"
  then obtain q k where "(q, k) \<in> set (launch_blocks lay_demo 2)" "within q k a" by (auto simp: in_blocks_def)
  then show ?thesis using sep separate_within [of q k _ _ a] unfolding vram_def by blast
qed

lemma home_demo_tables:
  assumes "within pt_demo 4096 a \<or> within pd_demo 24576 a \<or> a = 0x7FE000"
  shows "\<not> scratch_mem lay_demo CATBUF 0x7FE000 a"
proof (cases "a = 0x7FE000")
  case True
  then show ?thesis by (simp add: scratch_mem_def vram_def fd_at_def lay_demo_def within_def)
next
  case False
  have blk: "(q, k) \<in> {(VIDEO, 4000), (CATBUF, 1024), (0x7FE000, 1424), (0x7FF800, 33), (0x7FF200, 1024)} \<Longrightarrow>
      separate pt_demo 4096 q k \<and> separate pd_demo 24576 q k" for q k by (auto simp: separate_def)
  have "\<not> within q k a" if "(q, k) \<in> {(VIDEO, 4000), (CATBUF, 1024), (0x7FE000, 1424), (0x7FF800, 33), (0x7FF200, 1024)}" for q k
    using blk [OF that] assms False separate_within [of pt_demo 4096 q k a] separate_within [of pd_demo 24576 q k a] by blast
  from this [of VIDEO 4000] this [of CATBUF 1024] this [of "0x7FE000" 1424] this [of "0x7FF800" 33] this [of "0x7FF200" 1024] show ?thesis
    using fd_in_pcb [of 0 "0x7FE000" a] by (auto simp: scratch_mem_def vram_def lay_demo_def)
qed

lemma home_demo_home: "shell_home (user_demo shell_lits) CATBUF demo_names home_demo"
proof -
  have lay: "page_table_shell lay_demo = pt_demo" "page_directories lay_demo = pd_demo" "parent_at lay_demo = 0x7FE000" by (simp_all add: lay_demo_def)
  have img: "in_image home_demo a \<longleftrightarrow> within 0x100000 12288 a" for a by (simp add: in_image_def fs_size_def home_demo_fields)
  have "home_mem 0x7FE000 = 1" using home_mem_fresh by (simp add: pcb_fresh_def pcb_1)
  moreover have "0x7FE000 \<noteq> a" if "in_blocks lay_demo 2 a" for a using home_demo_blocks [OF that] by (auto simp: within_def)
  moreover have "\<not> scratch_mem lay_demo CATBUF 0x7FE000 a" if "within pt_demo 4096 a \<or> within pd_demo 24576 a \<or> a = 0x7FE000" for a
    using that by (rule home_demo_tables)
  moreover have "within WINDOW WINDOW_SIZE a" if "in_literals (user_demo shell_lits) a" for a
  proof -
    have "within LITS 4096 a" using that literal_block [OF shell_lits_ok(1)] shell_lits_ok(3) by (auto simp: in_literals_def)
    then show ?thesis using within_sub_block [of WINDOW "0x50000" 4096 a WINDOW_SIZE] by simp
  qed
  moreover have "ops_at lay_demo (stdin_t lay_demo) = Some Stdin_ops" "ops_at lay_demo (stdout_t lay_demo) = Some Stdout_ops"
    "command_name_local lay_demo \<noteq> 0" "temp_local lay_demo \<noteq> 0" "buf_local lay_demo \<noteq> 0" by (simp_all add: ops_at_def lay_demo_def)
  ultimately show ?thesis
    using home_demo_ready home_demo_runs tables_demo exec_demo_blocks(1) home_demo_blocks
    by (auto simp: shell_home_def Let_def home_demo_fields(1,2) lay img pcb_1)
qed

text \<open>The user types \<open>a b\<close>; \<open>a\<close> is \<open>testprint\<close>.\<close>

definition testprint_user :: user where
  "testprint_user = \<lparr>u_layout = lay_demo, u_device = (\<lambda>_ _. 0), u_literal = (\<lambda>_. PROGRAM_STARTING_ADDR + of_nat 28)\<rparr>"

lemma testprint_demo:
  fixes c :: "byte list" and l :: layout
  defines "c \<equiv> contents 0 home_demo" and "l \<equiv> u_layout (user_demo shell_lits)"
  shows "line_keys [0x1E, 0x39, 0x30]" "typed [0x1E, 0x39, 0x30] = lit ''a'' @ 32 # lit ''b''" "32 \<notin> set (lit ''a'')" "length (lit ''a'') < 32"
    "stored (dentry_addr l) demo_names (lit ''a'') 0 home_demo" "elf_magic c" "0x48000 + length c \<le> WINDOW_SIZE"
    "program_shows l (program_of (testprint_main testprint_user)) c args 0 (lit testprint_msg) irqs irqs"
proof -
  let ?cs = "[0x1E, 0x39, 0x30] :: byte list"
  show ty: "typed ?cs = lit ''a'' @ 32 # lit ''b''" by (simp add: typed_def norm_def lit_def)
  show "line_keys ?cs" unfolding line_keys_def ty by (simp add: char_key_def lit_def)
  have hd: "length (contents 0 exec_demo) = 28" by (simp add: exec_demo_contents)
  show "elf_magic c" by (simp add: c_def home_demo_contents exec_demo_contents elf_magic_def)
  have len: "length c = 79" using hd by (simp add: c_def home_demo_contents msg_bytes_length)
  then show room: "0x48000 + length c \<le> WINDOW_SIZE" by simp
  have dr: "drop 28 c = msg_bytes" using hd by (simp add: c_def home_demo_contents)
  have tk: "take (Suc (length testprint_msg)) (drop 28 c) = lit testprint_msg @ [0]" unfolding dr msg_bytes_take by (rule msg_bytes_def)
  show "program_shows l (program_of (testprint_main testprint_user)) c args 0 (lit testprint_msg) irqs irqs"
    by (rule testprint_shows [OF _ _ tk room]) (simp_all add: testprint_user_def l_def)
  show "32 \<notin> set (lit ''a'')" "length (lit ''a'') < 32" by (simp_all add: lit_def)
  show "stored (dentry_addr l) demo_names (lit ''a'') 0 home_demo" using home_demo_stored by (simp add: l_def lay_demo_def)
qed

text \<open>The same program, started with and without arguments.\<close>

lemma testprint_command:
  assumes "typed cs = lit ''a'' \<or> typed cs = lit ''a b''" and "line_keys cs"
  shows "command_shows (user_demo shell_lits) demo_names (program_of (testprint_main testprint_user)) home_demo (cs, lit testprint_msg)"
proof -
  have "lit testprint_msg = lit testprint_msg @ exit_message 0" by (simp only: exit_message_def if_True simp_thms append_Nil2)
  moreover have "command_word (typed cs) = lit ''a''" "typed cs \<noteq> []" "typed cs \<noteq> lit ''exit''" using assms(1) by (auto simp: command_word_def lit_def)
  ultimately show ?thesis unfolding command_shows_def prod.case using testprint_demo(5-8) assms(2) by metis
qed

lemma home_demo_end: "buffer_end (user_demo shell_lits) CATBUF home_demo"
proof -
  have "\<not> within LITS (64 * length shell_lits) 0x08060081" "\<not> within 0x7FE000 400 0x08060081" by (simp_all add: within_def shell_lits_def)
  then have "home_mem 0x08060081 = 0" using init_pcb_fresh(2) [of 1 lay_demo "0x08060081"] by (simp add: home_mem_def with_literals_def pcb_1 print_mem_def)
  then show ?thesis by (simp add: buffer_end_def home_demo_fields within_def)
qed

theorem shell_runs_program_witness:
  "\<exists>s'. shell_round (user_demo shell_lits) (program_of (testprint_main testprint_user)) CATBUF (map (key_irq env_demo) [0x1E, 0x39, 0x30, 0x1C], home_demo) =
      Some (Inr (), [], s') \<and>
    term_of s' = fold t_putc (lit prompt @ lit ''a b'' @ [10] @ lit testprint_msg) (term_of home_demo)"
proof -
  have ab: "lit ''a'' @ 32 # lit ''b'' = lit ''a b''" by (simp add: lit_def)
  from shell_runs_program [OF home_demo_home testprint_demo, of env_demo "[]"]
  show ?thesis unfolding testprint_demo(2) ab exit_message_def by auto
qed

text \<open>A session: \<open>a b\<close> and then \<open>a\<close> run the program, \<open>b\<close> is unknown, then an empty line and \<open>exit\<close>.\<close>

theorem shell_session_witness:
  "\<exists>s'. shell_main (user_demo shell_lits) (program_of (testprint_main testprint_user)) CATBUF
      (type_lines env_demo [[0x1E, 0x39, 0x30], [0x1E], [0x30], [], exit_keys], home_demo) = Some (0, [], s') \<and>
    term_of s' = fold t_putc (lit banner @ (lit prompt @ lit ''a b'' @ [10] @ lit testprint_msg) @ (lit prompt @ lit ''a'' @ [10] @ lit testprint_msg) @
      (lit prompt @ lit ''b'' @ [10] @ lit no_such) @ (lit prompt @ [10]) @ lit prompt @ lit ''exit'' @ [10]) (term_of home_demo)"
proof -
  let ?ab = "[0x1E, 0x39, 0x30] :: byte list" and ?a = "[0x1E] :: byte list" and ?b = "[0x30] :: byte list"
  let ?u = "user_demo shell_lits" and ?child = "program_of (testprint_main testprint_user)"
  have ty: "typed ?b = lit ''b''" "typed [] = []" "typed ?a = lit ''a''" "typed ?ab = lit ''a b''" by (simp_all add: typed_def norm_def lit_def)
  have keys: "line_keys ?b" "line_keys []" "line_keys ?a" "line_keys ?ab" unfolding line_keys_def ty by (simp_all add: char_key_def lit_def)
  have "command_word (lit ''b'') = lit ''b''" by (simp add: command_word_def lit_def)
  moreover have "lit ''b'' \<notin> set demo_names" "lit ''b'' \<noteq> lit ''exit''" by (simp_all add: demo_names_def lit_def)
  ultimately have "unknown_line demo_names ?b" "unknown_line demo_names []" using keys by (simp_all add: unknown_line_def ty)
  then have sb: "command_shows ?u demo_names ?child home_demo (?b, lit no_such)" "command_shows ?u demo_names ?child home_demo ([], [])"
    unfolding command_shows_def prod.case by simp_all
  have sa: "command_shows ?u demo_names ?child home_demo (?ab, lit testprint_msg)" "command_shows ?u demo_names ?child home_demo (?a, lit testprint_msg)"
    by (rule testprint_command, use ty keys in blast, fact keys(4), rule testprint_command, use ty keys in blast, fact keys(3))
  have "list_all (command_shows ?u demo_names ?child home_demo) [(?ab, lit testprint_msg), (?a, lit testprint_msg), (?b, lit no_such), ([], [])]"
    using sa sb by (simp only: list.pred_inject simp_thms)
  from shell_session [OF home_demo_home home_demo_end this, of env_demo "[]"]
  show ?thesis unfolding transcript_def list.map fst_conv prod.case concat.simps ty append_Nil append_Nil2 append_Cons append_assoc by blast
qed

end
