(* ===== verification/Blink.thy ===== *)
theory Blink
  imports Frame
begin

text \<open>
  The blinking characters of \<^verbatim>\<open>src/fish\<close>: the assembly in \<^verbatim>\<open>blink.S\<close> keeps a linked list of structures, one per
  blinking character, in an array of \<^verbatim>\<open>fish.c\<close> from which \<open>mp1_malloc\<close> allocates.  The list is in memory as the code has it; the record
  \<open>blink_vars\<close> holds the addresses of the static variables and of the two structures on the stack, and \<open>screen_of\<close>, where the memory behind
  an address of the mapped video page lies.  The loops follow pointers, so they are partial functions.
\<close>

unbundle bit_operations_syntax

section \<open>Sixteen-bit fields\<close>

definition load16 :: "mem \<Rightarrow> u32 \<Rightarrow> u16" where
  "load16 m a = ucast (m a) OR push_bit 8 (ucast (m (a + 1)))"

definition movw :: "mem \<Rightarrow> u32 \<Rightarrow> u16 \<Rightarrow> mem" where
  "movw m a v = m(a := ucast v, a + 1 := ucast (drop_bit 8 v))"

section \<open>Helpers of fish.c\<close>

record blink_vars =
  list_head :: u32
  vmem_base :: u32
  blink_array :: u32
  add_tmp :: u32
  find_tmp :: u32
  screen_of :: "u32 \<Rightarrow> u32"

function fish_memset_loop :: "u32 \<Rightarrow> byte \<Rightarrow> int \<Rightarrow> int \<Rightarrow> mem \<Rightarrow> mem" where
  "fish_memset_loop memory c n i m =
     (if i < n then fish_memset_loop memory c n (i + 1) (m(memory + of_int i := c)) else m)"
  by pat_completeness auto
termination
  by (relation "measure (\<lambda>(memory, c, n, i, m). nat (n - i))") auto

definition ece391_memset :: "u32 \<Rightarrow> byte \<Rightarrow> int \<Rightarrow> mem \<Rightarrow> mem" where
  "ece391_memset memory c n m = fish_memset_loop memory c n 0 m"

function fish_memcpy_loop :: "u32 \<Rightarrow> u32 \<Rightarrow> int \<Rightarrow> int \<Rightarrow> mem \<Rightarrow> mem" where
  "fish_memcpy_loop dest src n i m =
     (if i < n then fish_memcpy_loop dest src n (i + 1) (m(dest + of_int i := m (src + of_int i))) else m)"
  by pat_completeness auto
termination
  by (relation "measure (\<lambda>(dest, src, n, i, m). nat (n - i))") auto

definition ece391_memcpy :: "u32 \<Rightarrow> u32 \<Rightarrow> int \<Rightarrow> mem \<Rightarrow> int \<times> mem" where
  "ece391_memcpy dest src n m = (0, fish_memcpy_loop dest src n 0 m)"

text \<open>The first structure whose location is 0, or a null pointer.\<close>

function malloc_loop :: "blink_vars \<Rightarrow> mem \<Rightarrow> int \<Rightarrow> u32" where
  "malloc_loop L m i =
     (if i < 2000 then
        (if load16 m (blink_array L + 16 * of_int i) = 0 then blink_array L + 16 * of_int i else malloc_loop L m (i + 1))
      else 0)"
  by pat_completeness auto
termination
  by (relation "measure (\<lambda>(L, m, i). nat (2000 - i))") auto

definition mp1_malloc :: "blink_vars \<Rightarrow> mem \<Rightarrow> u32" where
  "mp1_malloc L m = malloc_loop L m 0"

definition mp1_free :: "u32 \<Rightarrow> mem \<Rightarrow> mem" where
  "mp1_free memory m = ece391_memset memory 0 16 m"

declare fish_memset_loop.simps [simp del] fish_memcpy_loop.simps [simp del] malloc_loop.simps [simp del]

section \<open>The list\<close>

definition mp1_poke :: "blink_vars \<Rightarrow> byte \<Rightarrow> u32 \<Rightarrow> mem \<Rightarrow> mem" where
  "mp1_poke L cl eax m = m(screen_of L (load32 m (vmem_base L) + eax) := cl)"

text \<open>The field offsets are 0 location, 2 on_char, 3 off_char, 4 on_length, 6 off_length, 8 countdown, 10 status, 12 next.  The
  comparison of the countdown is signed.\<close>

partial_function (option) tasklet_loop :: "blink_vars \<Rightarrow> u32 \<Rightarrow> mem \<Rightarrow> mem option" where
  "tasklet_loop L ebx m =
     (if ebx = 0 then Some m
      else
        let m = movw m (ebx + 8) (load16 m (ebx + 8) - 1) in
        if 0 < sint (load16 m (ebx + 8)) then tasklet_loop L (load32 m (ebx + 12)) m
        else
          let eax = push_bit 1 (ucast (load16 m ebx));
              on = load16 m (ebx + 10) AND 1 \<noteq> 0;
              m = (if on then mp1_poke L (m (ebx + 3)) eax m else mp1_poke L (m (ebx + 2)) eax m);
              dx = (if on then load16 m (ebx + 6) else load16 m (ebx + 4));
              m = movw m (ebx + 8) dx;
              m = movw m (ebx + 10) (load16 m (ebx + 10) XOR 1)
          in tasklet_loop L (load32 m (ebx + 12)) m)"

definition mp1_rtc_tasklet :: "blink_vars \<Rightarrow> mem \<Rightarrow> mem option" where
  "mp1_rtc_tasklet L m = tasklet_loop L (load32 m (list_head L)) m"

partial_function (option) find_loop :: "u16 \<Rightarrow> u32 \<Rightarrow> mem \<Rightarrow> u32 option" where
  "find_loop ax ebx m =
     (if ebx = 0 then Some 0 else if load16 m ebx = ax then Some ebx else find_loop ax (load32 m (ebx + 12)) m)"

definition mp1_find_helper :: "blink_vars \<Rightarrow> u32 \<Rightarrow> mem \<Rightarrow> u32 option" where
  "mp1_find_helper L arg m = find_loop (ucast arg) (load32 m (list_head L)) m"

definition mp1_ioctl_add :: "blink_vars \<Rightarrow> u32 \<Rightarrow> mem \<Rightarrow> (int \<times> mem) option" where
  "mp1_ioctl_add L arg m =
     (let ebx = add_tmp L; (eax, m) = ece391_memcpy ebx arg 16 m in
      if eax \<noteq> 0 then Some (-1, m)
      else if 2000 \<le> load16 m ebx then Some (-1, m)
      else
        let m = movw m (ebx + 10) 1;
            m = movw m (ebx + 8) (load16 m (ebx + 4));
            edx = mp1_malloc L m
        in
        if edx = 0 then Some (-1, m)
        else
          let (_, m) = ece391_memcpy edx ebx 16 m;
              m = store32 m (edx + 12) (load32 m (list_head L));
              m = store32 m (list_head L) edx
          in Some (0, mp1_poke L (m (edx + 2)) (push_bit 1 (ucast (load16 m edx))) m))"

text \<open>The address of the pointer that holds \<open>eax\<close>.\<close>

partial_function (option) remove_find_prev :: "u32 \<Rightarrow> u32 \<Rightarrow> mem \<Rightarrow> u32 option" where
  "remove_find_prev eax edx m =
     (if load32 m edx = eax then Some edx else remove_find_prev eax (load32 m edx + 12) m)"

definition mp1_ioctl_remove :: "blink_vars \<Rightarrow> u32 \<Rightarrow> mem \<Rightarrow> (int \<times> mem) option" where
  "mp1_ioctl_remove L arg m = do {
     eax \<leftarrow> mp1_find_helper L arg m;
     if eax = 0 then Some (-1, m)
     else do {
       edx \<leftarrow> remove_find_prev eax (list_head L) m;
       let m = store32 m edx (load32 m (eax + 12));
       Some (0, mp1_free eax m)
     }
   }"

text \<open>\<^verbatim>\<open>testb\<close> clears the sign and the overflow flag (its result is 0 or 1), so the \<^verbatim>\<open>cmovl\<close> after it never moves: \<open>ecx\<close> stays the
  off character.\<close>

definition mp1_ioctl_sync :: "blink_vars \<Rightarrow> u32 \<Rightarrow> mem \<Rightarrow> (int \<times> mem) option" where
  "mp1_ioctl_sync L arg m = do {
     esi \<leftarrow> mp1_find_helper L (drop_bit 16 arg) m;
     if esi = 0 then Some (-1, m)
     else do {
       edi \<leftarrow> mp1_find_helper L (arg AND 0xFFFF) m;
       if edi = 0 then Some (-1, m)
       else do {
         let m = movw m (edi + 4) (load16 m (esi + 4));
         let m = movw m (edi + 6) (load16 m (esi + 6));
         let m = movw m (edi + 8) (load16 m (esi + 8));
         let m = movw m (edi + 10) (load16 m (esi + 10));
         let eax = push_bit 1 (ucast (load16 m edi));
         let sf = bit (m (edi + 10) AND 1) 7;
         let ecx = (if sf then m (edi + 2) else m (edi + 3));
         Some (0, mp1_poke L ecx eax m)
       }
     }
   }"

definition mp1_ioctl_find :: "blink_vars \<Rightarrow> u32 \<Rightarrow> mem \<Rightarrow> (int \<times> mem) option" where
  "mp1_ioctl_find L arg m = do {
     let (eax, m) = ece391_memcpy (find_tmp L) arg 2 m;
     if eax \<noteq> 0 then Some (-1, m)
     else do {
       p \<leftarrow> mp1_find_helper L (ucast (load16 m (find_tmp L))) m;
       if p = 0 then Some (-1, m)
       else do {
         let (r, m) = ece391_memcpy arg p 16 m;
         if r = 0 then Some (0, m) else Some (-1, m)
       }
     }
   }"

text \<open>The jump through \<open>call_table\<close> has no bound; outside the table there is no function.\<close>

definition mp1_ioctl :: "blink_vars \<Rightarrow> u32 \<Rightarrow> u32 \<Rightarrow> mem \<Rightarrow> (int \<times> mem) option" where
  "mp1_ioctl L arg cmd m =
     (if cmd = 0 then mp1_ioctl_add L arg m
      else if cmd = 1 then mp1_ioctl_remove L arg m
      else if cmd = 2 then mp1_ioctl_find L arg m
      else if cmd = 3 then mp1_ioctl_sync L arg m
      else None)"

end
