(* ===== verification/BlinkProps.thy ===== *)
theory BlinkProps
  imports Blink
begin

text \<open>
  The linked list of blinking characters refines an abstract list.  \<open>chain\<close> says that a pointer leads through given nodes to the
  null pointer, \<open>blink_ok\<close> is the invariant of the list and of the array it is allocated from, and the abstract machine works on a list of
  blinks and the characters of the screen.
\<close>

unbundle bit_operations_syntax

section \<open>Memory\<close>

lemma load16_movw [simp]: "load16 (movw m a v) a = v"
  by (rule bit_eqI) (auto simp: load16_def movw_def bit_simps)

lemma movw_other: "b \<noteq> a \<Longrightarrow> b \<noteq> a + 1 \<Longrightarrow> movw m a v b = m b"
  by (simp add: movw_def)

lemma fish_memset_fill:
  assumes "j \<le> k" and "k < 4294967296"
  shows "fish_memset_loop p c (int k) (int j) m = fill m (p + of_nat j) (k - j) c"
  using assms(1)
proof (induction "k - j" arbitrary: j m)
  case 0
  then show ?case by (subst fish_memset_loop.simps) simp
next
  case (Suc d)
  then have "fish_memset_loop p c (int k) (int (Suc j)) (m(p + of_nat j := c)) = fill (m(p + of_nat j := c)) (p + of_nat (Suc j)) (k - Suc j) c"
    by (intro Suc.hyps(1)) auto
  also have "\<dots> = fill m (p + of_nat j) (Suc (k - Suc j)) c"
    using fill_Suc [of "k - Suc j" m "p + of_nat j" c] assms(2) by (simp add: add.assoc add.commute [of 1])
  finally show ?case using Suc.hyps(2) by (subst fish_memset_loop.simps) (simp add: Suc_diff_Suc add.commute [of 1])
qed

lemma memset_eq: "k < 4294967296 \<Longrightarrow> ece391_memset p c (int k) m = fill m p k c"
  using fish_memset_fill [of 0 k p c m] by (simp add: ece391_memset_def)

lemma blit_last:
  assumes "forward_safe d s (Suc j)" and "j < 4294967296"
  shows "blit m d s (Suc j) = (blit m d s j)(d + of_nat j := blit m d s j (s + of_nat j))"
  using blit_add [of d s j 1 m] assms by (simp add: blit_1)

lemma fish_memcpy_blit:
  assumes "forward_safe d s k" and "k < 4294967296" and "j \<le> k"
  shows "fish_memcpy_loop d s (int k) (int j) (blit m d s j) = blit m d s k"
  using assms(3)
proof (induction "k - j" arbitrary: j)
  case 0
  then show ?case by (subst fish_memcpy_loop.simps) simp
next
  case (Suc n)
  then have "fish_memcpy_loop d s (int k) (int (Suc j)) (blit m d s (Suc j)) = blit m d s k" by (intro Suc.hyps(1)) auto
  moreover have "blit m d s (Suc j) = (blit m d s j)(d + of_nat j := blit m d s j (s + of_nat j))"
    by (rule blit_last) (use forward_safe_mono [OF assms(1), of "Suc j"] Suc assms(2) in auto)
  moreover have "j < k" using Suc.hyps(2) by simp
  ultimately show ?case by (subst fish_memcpy_loop.simps) (simp add: add.commute [of 1])
qed

lemma memcpy_eq:
  assumes "apart d k s k" and "k < 4294967296"
  shows "ece391_memcpy d s (int k) m = (0, blit m d s k)"
  using fish_memcpy_blit [OF apart_forward_safe [OF assms(1)] assms(2), of 0] by (simp add: ece391_memcpy_def)

lemma malloc_find:
  assumes "i \<le> 2000"
  shows "malloc_loop L m (int i) =
    (case find (\<lambda>i. load16 m (blink_array L + of_nat (16 * i)) = 0) [i..<2000] of Some k \<Rightarrow> blink_array L + of_nat (16 * k) | None \<Rightarrow> 0)"
  using assms
proof (induction "2000 - i" arbitrary: i)
  case 0
  then show ?case by (subst malloc_loop.simps) simp
next
  case (Suc d)
  then have "malloc_loop L m (int (Suc i)) =
    (case find (\<lambda>i. load16 m (blink_array L + of_nat (16 * i)) = 0) [Suc i..<2000] of Some k \<Rightarrow> blink_array L + of_nat (16 * k) | None \<Rightarrow> 0)"
    by (intro Suc.hyps(1)) auto
  moreover have "i < 2000" using Suc.hyps(2) by simp
  ultimately show ?case by (subst malloc_loop.simps) (simp add: upt_conv_Cons add.commute [of 1])
qed

section \<open>Nodes\<close>

record blink =
  b_location :: u16
  b_on_char :: byte
  b_off_char :: byte
  b_on_length :: u16
  b_off_length :: u16
  b_countdown :: u16
  b_status :: u16

definition blink_at :: "mem \<Rightarrow> u32 \<Rightarrow> blink" where
  "blink_at m a = \<lparr>b_location = load16 m a, b_on_char = m (a + 2), b_off_char = m (a + 3), b_on_length = load16 m (a + 4),
     b_off_length = load16 m (a + 6), b_countdown = load16 m (a + 8), b_status = load16 m (a + 10)\<rparr>"

definition next_of :: "mem \<Rightarrow> u32 \<Rightarrow> u32" where
  "next_of m a = load32 m (a + 12)"

text \<open>What a node holds depends on its 16 bytes.\<close>

interpretation node: local_view a 16 "\<lambda>m. (blink_at m a, next_of m a)" for a
proof unfold_locales
  fix m m' :: mem
  assume eq: "\<And>b. within a 16 b \<Longrightarrow> m b = m' b"
  have at: "m (a + of_nat k) = m' (a + of_nat k)" if "k < 16" for k using eq that by simp
  have "blink_at m a = blink_at m' a"
    using at [of 0] at [of 1] at [of 2] at [of 3] at [of 4] at [of 5] at [of 6] at [of 7] at [of 8] at [of 9] at [of 10] at [of 11]
    by (simp add: blink_at_def load16_def add.commute [of _ a])
  moreover have "next_of m a = next_of m' a"
    unfolding next_of_def by (rule word_at.local) (use eq within_sub_block [of a 12 4 _ 16] in simp)
  ultimately show "(blink_at m a, next_of m a) = (blink_at m' a, next_of m' a)" by simp
qed

lemma blink_at_movw [simp]:
  "blink_at (movw m (a + 4) v) a = (blink_at m a)\<lparr>b_on_length := v\<rparr>" "blink_at (movw m (a + 6) v) a = (blink_at m a)\<lparr>b_off_length := v\<rparr>"
  "blink_at (movw m (a + 8) v) a = (blink_at m a)\<lparr>b_countdown := v\<rparr>" "blink_at (movw m (a + 10) v) a = (blink_at m a)\<lparr>b_status := v\<rparr>"
  by (simp_all add: blink_at_def) (simp_all add: load16_def movw_def)

lemma next_of_movw [simp]: "k \<in> {4, 6, 8, 10} \<Longrightarrow> next_of (movw m (a + k) v) a = next_of m a"
  by (auto simp: next_of_def load32_def movw_def)

section \<open>The abstract machine\<close>

text \<open>A step of one blink, with the character it shows when its countdown ends.\<close>

definition tick :: "blink \<Rightarrow> blink \<times> byte option" where
  "tick b =
     (if 0 < sint (b_countdown b - 1) then (b\<lparr>b_countdown := b_countdown b - 1\<rparr>, None)
      else if b_status b AND 1 \<noteq> 0 then (b\<lparr>b_countdown := b_off_length b, b_status := b_status b XOR 1\<rparr>, Some (b_off_char b))
      else (b\<lparr>b_countdown := b_on_length b, b_status := b_status b XOR 1\<rparr>, Some (b_on_char b)))"

definition show_char :: "blink \<Rightarrow> byte option \<Rightarrow> byte list \<Rightarrow> byte list" where
  "show_char b r cs = (case r of None \<Rightarrow> cs | Some c \<Rightarrow> cs[unat (b_location b) := c])"

primrec ticks :: "blink list \<Rightarrow> byte list \<Rightarrow> blink list \<times> byte list" where
  "ticks [] cs = ([], cs)"
| "ticks (b # bs) cs = (let (bs', cs') = ticks bs (show_char b (snd (tick b)) cs) in (fst (tick b) # bs', cs'))"

section \<open>Layout\<close>

definition slot :: "blink_vars \<Rightarrow> nat \<Rightarrow> u32" where
  "slot L i = blink_array L + of_nat (16 * i)"

definition slots :: "blink_vars \<Rightarrow> u32 set" where
  "slots L = slot L ` {..<2000}"

definition own :: "blink_vars \<Rightarrow> u32 \<Rightarrow> bool" where
  "own L a \<longleftrightarrow> within (blink_array L) 32000 a \<or> within (list_head L) 4 a \<or> within (vmem_base L) 4 a"

definition scr :: "blink_vars \<Rightarrow> u32 \<Rightarrow> nat \<Rightarrow> u32" where
  "scr L base k = screen_of L (base + of_nat (2 * k))"

definition shown_chars :: "blink_vars \<Rightarrow> u32 \<Rightarrow> mem \<Rightarrow> byte list" where
  "shown_chars L base m = map (\<lambda>k. m (scr L base k)) [0..<2000]"

text \<open>The variables and the character cells of the screen do not overlap.\<close>

definition blink_room :: "blink_vars \<Rightarrow> u32 \<Rightarrow> bool" where
  "blink_room L base \<longleftrightarrow> apart (blink_array L) 32000 (list_head L) 4 \<and> apart (blink_array L) 32000 (vmem_base L) 4 \<and>
     apart (list_head L) 4 (vmem_base L) 4 \<and> blink_array L \<noteq> 0 \<and> unat (blink_array L) + 32000 \<le> 4294967296 \<and>
     (\<forall>k < 2000. \<not> own L (scr L base k)) \<and> inj_on (scr L base) {..<2000}"

lemma slot_within: "a \<in> slots L \<Longrightarrow> within a 16 x \<Longrightarrow> within (blink_array L) 32000 x"
  using within_sub_block [of "blink_array L" _ 16 x 32000] by (auto simp: slots_def slot_def simp del: of_nat_mult)

lemma slot_apart: "a \<in> slots L \<Longrightarrow> b \<in> slots L \<Longrightarrow> a \<noteq> b \<Longrightarrow> apart a 16 b 16"
proof -
  have "apart (slot L i) 16 (slot L j) 16" if "i < 2000" "j < 2000" "i \<noteq> j" for i j
    unfolding slot_def by (rule apart_offsets) (use that in linarith)+
  then show "a \<in> slots L \<Longrightarrow> b \<in> slots L \<Longrightarrow> a \<noteq> b \<Longrightarrow> apart a 16 b 16" by (auto simp: slots_def)
qed

lemma slot_off_vars:
  assumes "blink_room L base" and "a \<in> slots L" and "within (vmem_base L) 4 b \<or> within (list_head L) 4 b"
  shows "\<not> within a 16 b"
  using assms(3) slot_within [OF assms(2), of b] assms(1)
    apartD [of "blink_array L" 32000 "vmem_base L" 4 b] apartD [of "blink_array L" 32000 "list_head L" 4 b] unfolding blink_room_def by blast

lemma slot_nonzero: "blink_room L base \<Longrightarrow> a \<in> slots L \<Longrightarrow> a \<noteq> 0"
proof
  assume r: "blink_room L base" and a: "a \<in> slots L" "a = 0"
  obtain i where i: "i < 2000" "slot L i = 0" using a by (auto simp: slots_def)
  have "unat (slot L i) = unat (blink_array L) + 16 * i"
    unfolding slot_def using r i(1) by (subst unat_add_lem [THEN iffD1]) (simp_all add: blink_room_def del: of_nat_mult)
  then show False using i(2) r by (simp add: blink_room_def unat_eq_zero)
qed

lemma poke_scr:
  assumes "load32 m (vmem_base L) = base"
  shows "mp1_poke L c (push_bit 1 (ucast (w :: u16))) m = m(scr L base (unat w) := c)"
proof -
  have "push_bit 1 (ucast w :: u32) = of_nat (2 * unat w)" by (simp add: push_bit_eq_mult of_nat_unat mult.commute)
  then show ?thesis using assms by (simp add: mp1_poke_def scr_def mult.commute)
qed

lemma shown_scr:
  assumes "blink_room L base" and "k < 2000"
  shows "shown_chars L base (m(scr L base k := c)) = (shown_chars L base m)[k := c]"
proof (rule nth_equalityI)
  fix j assume "j < length (shown_chars L base (m(scr L base k := c)))"
  then have j: "j < 2000" by (simp add: shown_chars_def)
  have "scr L base j = scr L base k \<longleftrightarrow> j = k" using assms j inj_onD [of "scr L base" "{..<2000}" j k] by (auto simp: blink_room_def)
  then show "shown_chars L base (m(scr L base k := c)) ! j = (shown_chars L base m)[k := c] ! j"
    using j by (simp add: shown_chars_def nth_list_update)
qed (simp add: shown_chars_def)

lemma shown_own:
  assumes "blink_room L base" and "\<And>a. \<not> own L a \<Longrightarrow> m' a = m a"
  shows "shown_chars L base m' = shown_chars L base m"
  using assms by (simp add: shown_chars_def blink_room_def)

section \<open>One node of the tasklet\<close>

text \<open>The body of the loop for the node at \<open>a\<close>.\<close>

definition tick_node :: "blink_vars \<Rightarrow> u32 \<Rightarrow> mem \<Rightarrow> mem" where
  "tick_node L a m =
     (let m = movw m (a + 8) (load16 m (a + 8) - 1) in
      if 0 < sint (load16 m (a + 8)) then m
      else
        let eax = push_bit 1 (ucast (load16 m a));
            on = load16 m (a + 10) AND 1 \<noteq> 0;
            m = (if on then mp1_poke L (m (a + 3)) eax m else mp1_poke L (m (a + 2)) eax m);
            dx = (if on then load16 m (a + 6) else load16 m (a + 4));
            m = movw m (a + 8) dx
        in movw m (a + 10) (load16 m (a + 10) XOR 1))"

lemma tasklet_loop_node: "a \<noteq> 0 \<Longrightarrow> tasklet_loop L a m = tasklet_loop L (next_of (tick_node L a m) a) (tick_node L a m)"
  by (subst tasklet_loop.simps) (simp add: tick_node_def next_of_def Let_def)

lemma blink_sel:
  "b_location (blink_at m a) = load16 m a" "b_on_char (blink_at m a) = m (a + 2)" "b_off_char (blink_at m a) = m (a + 3)"
  "b_on_length (blink_at m a) = load16 m (a + 4)" "b_off_length (blink_at m a) = load16 m (a + 6)"
  "b_countdown (blink_at m a) = load16 m (a + 8)" "b_status (blink_at m a) = load16 m (a + 10)"
  by (simp_all add: blink_at_def)

lemma blink_eqD:
  assumes "blink_at m a = b"
  shows "load16 m a = b_location b" "m (a + 2) = b_on_char b" "m (a + 3) = b_off_char b" "load16 m (a + 4) = b_on_length b"
    "load16 m (a + 6) = b_off_length b" "load16 m (a + 8) = b_countdown b" "load16 m (a + 10) = b_status b"
  using assms by (auto simp: blink_sel)

lemma within_node: "k \<in> {4, 6, 8, 10} \<Longrightarrow> \<not> within a 16 b \<Longrightarrow> movw m (a + k) v b = m b"
proof (rule movw_other)
  assume k: "k \<in> {4, 6, 8, 10}" and b: "\<not> within a 16 b"
  have "within a 16 (a + of_nat j)" if "j < 16" for j using that by simp
  from this [of 4] this [of 5] this [of 6] this [of 7] this [of 8] this [of 9] this [of 10] this [of 11]
  show "b \<noteq> a + k" "b \<noteq> a + k + 1" using k b by (auto simp: add.assoc)
qed

lemma tick_node_spec:
  assumes "blink_room L base" and "load32 m (vmem_base L) = base" and "a \<in> slots L" and "load16 m a < 2000"
  shows "blink_at (tick_node L a m) a = fst (tick (blink_at m a))" "next_of (tick_node L a m) a = next_of m a"
    "shown_chars L base (tick_node L a m) = show_char (blink_at m a) (snd (tick (blink_at m a))) (shown_chars L base m)"
    "\<And>b. \<not> within a 16 b \<Longrightarrow> b \<noteq> scr L base (unat (load16 m a)) \<Longrightarrow> tick_node L a m b = m b"
proof -
  let ?b = "blink_at m a" and ?s = "scr L base (unat (load16 m a))" and ?m = "movw m (a + 8) (load16 m (a + 8) - 1)"
  let ?on = "b_status (blink_at m a) AND 1 \<noteq> 0"
  let ?ch = "if ?on then b_off_char ?b else b_on_char ?b" and ?dx = "if ?on then b_off_length ?b else b_on_length ?b"
  let ?n = "?m(?s := ?ch)"
  have k: "unat (load16 m a) < 2000" using assms(4) by (simp add: word_less_nat_alt)
  have s: "\<not> own L ?s" "\<not> within a 16 ?s" using k assms(1) slot_within [OF assms(3), of ?s] by (auto simp: blink_room_def own_def)
  have base: "load32 ?m (vmem_base L) = base"
  proof -
    have "load32 ?m (vmem_base L) = load32 m (vmem_base L)"
      by (rule word_at.local) (use slot_off_vars [OF assms(1,3)] within_node [of 8 a] in simp)
    then show ?thesis using assms(2) by simp
  qed
  have n: "blink_at ?n a = blink_at ?m a" "next_of ?n a = next_of ?m a" using node.frame_update [OF s(2)] by simp_all
  have tn: "tick_node L a m = (if 0 < sint (b_countdown ?b - 1) then ?m else movw (movw ?n (a + 8) ?dx) (a + 10) (b_status ?b XOR 1))"
  proof -
    note mf = blink_eqD [OF blink_at_movw(3), of m a "load16 m (a + 8) - 1", simplified, unfolded blink_sel]
    have n': "load16 ?n (a + 4) = load16 m (a + 4)" "load16 ?n (a + 6) = load16 m (a + 6)" "load16 ?n (a + 10) = load16 m (a + 10)"
      using blink_eqD [OF n(1)] by (simp_all add: blink_sel)
    have st: "load16 (movw ?n (a + 8) v) (a + 10) = load16 m (a + 10)" for v
      using blink_eqD(7) [OF blink_at_movw(3), of ?n a v] n'(3) by (simp add: blink_sel)
    show ?thesis using n' st poke_scr [OF base] by (auto simp: tick_node_def Let_def blink_sel mf cong: if_cong)
  qed
  show "blink_at (tick_node L a m) a = fst (tick ?b)" "next_of (tick_node L a m) a = next_of m a"
    unfolding tn using n by (simp_all add: tick_def blink_sel)
  have out: "movw x (a + k) v b = x b" if "k \<in> {8, 10}" "\<not> own L b" for x k v b
    using that within_node [of k a b x v] slot_within [OF assms(3), of b] by (auto simp: own_def)
  have "shown_chars L base ?n = (shown_chars L base m)[unat (load16 m a) := ?ch]"
    using shown_scr [OF assms(1) k] shown_own [OF assms(1), of ?m m] out [of 8] by simp
  then show "shown_chars L base (tick_node L a m) = show_char ?b (snd (tick ?b)) (shown_chars L base m)"
    unfolding tn using shown_own [OF assms(1), of "movw (movw ?n (a + 8) ?dx) (a + 10) (b_status ?b XOR 1)" ?n] shown_own [OF assms(1), of ?m m] out
    by (simp add: tick_def show_char_def blink_sel)
  show "tick_node L a m b = m b" if "\<not> within a 16 b" "b \<noteq> ?s" for b
    unfolding tn using that within_node [of 8 a b] within_node [of 10 a b] by simp
qed

section \<open>The whole list\<close>

primrec chain :: "mem \<Rightarrow> u32 \<Rightarrow> u32 list \<Rightarrow> bool" where
  "chain m p [] \<longleftrightarrow> p = 0"
| "chain m p (a # as) \<longleftrightarrow> p = a \<and> a \<noteq> 0 \<and> chain m (next_of m a) as"

lemma chain_cong: "(\<And>a. a \<in> set as \<Longrightarrow> next_of m' a = next_of m a) \<Longrightarrow> chain m' p as = chain m p as"
  by (induction as arbitrary: p) auto

text \<open>Nodes are distinct structures of the array.\<close>

definition nodes :: "blink_vars \<Rightarrow> mem \<Rightarrow> u32 list \<Rightarrow> bool" where
  "nodes L m as \<longleftrightarrow> distinct as \<and> set as \<subseteq> slots L \<and> (\<forall>a \<in> set as. load16 m a < 2000)"

lemma node_other:
  assumes "a \<in> slots L" and "c \<in> slots L" and "a \<noteq> c" and "blink_room L base" and "k < 2000"
    and "\<And>b. \<not> within a 16 b \<Longrightarrow> b \<noteq> scr L base k \<Longrightarrow> m' b = m b"
  shows "blink_at m' c = blink_at m c" "next_of m' c = next_of m c" 
proof -
  have "(blink_at m' c, next_of m' c) = (blink_at m c, next_of m c)"
  proof (rule node.local)
    fix b assume b: "within c 16 b"
    have "\<not> within a 16 b" using apartD [OF slot_apart [OF assms(2,1)]] assms(3) b by blast
    moreover have "b \<noteq> scr L base k" using slot_within [OF assms(2) b] assms(4,5) by (auto simp: blink_room_def own_def)
    ultimately show "m' b = m b" by (rule assms(6))
  qed
  then show "blink_at m' c = blink_at m c" "next_of m' c = next_of m c" by simp_all
qed

lemma tasklet_ticks:
  assumes "blink_room L base" and "load32 m (vmem_base L) = base" and "chain m p as" and "nodes L m as"
  shows "\<exists>m'. tasklet_loop L p m = Some m' \<and>
    (map (blink_at m') as, shown_chars L base m') = ticks (map (blink_at m) as) (shown_chars L base m) \<and>
    (\<forall>a \<in> set as. next_of m' a = next_of m a) \<and>
    (\<forall>b. (\<forall>a \<in> set as. \<not> within a 16 b) \<longrightarrow> (\<forall>k < 2000. b \<noteq> scr L base k) \<longrightarrow> m' b = m b)"
  using assms(2-4)
proof (induction as arbitrary: p m)
  case Nil
  then show ?case by (subst tasklet_loop.simps) simp
next
  case (Cons a as)
  let ?m = "tick_node L a m" and ?k = "unat (load16 m a)"
  have a: "a \<in> slots L" "load16 m a < 2000" "?k < 2000" "a \<noteq> 0" "p = a" "a \<notin> set as"
    using Cons.prems by (auto simp: nodes_def word_less_nat_alt)
  note t = tick_node_spec [OF assms(1) Cons.prems(1) a(1,2)]
  have others: "blink_at ?m c = blink_at m c" "next_of ?m c = next_of m c" if "c \<in> set as" for c
  proof -
    have "c \<in> slots L" "a \<noteq> c" using that a(6) Cons.prems(3) by (auto simp: nodes_def)
    then show "blink_at ?m c = blink_at m c" "next_of ?m c = next_of m c"
      using node_other [of a L c base ?k ?m m] a(1,3) assms(1) t(4) by blast+
  qed
  have "load32 ?m (vmem_base L) = base"
  proof -
    have "load32 ?m (vmem_base L) = load32 m (vmem_base L)"
    proof (rule word_at.local)
      fix b assume b: "within (vmem_base L) 4 b"
      have "\<not> within a 16 b" using slot_off_vars [OF assms(1) a(1)] b by blast
      moreover have "b \<noteq> scr L base ?k" using b a(3) assms(1) by (auto simp: blink_room_def own_def)
      ultimately show "?m b = m b" by (rule t(4))
    qed
    then show ?thesis using Cons.prems(1) by simp
  qed
  moreover have "chain ?m (next_of m a) as" using Cons.prems(2) chain_cong [of as ?m m "next_of m a"] others(2) by simp
  moreover have "nodes L ?m as" using Cons.prems(3) blink_eqD(1) [OF others(1)] by (auto simp: nodes_def blink_sel)
  ultimately obtain m' where m': "tasklet_loop L (next_of m a) ?m = Some m'"
    "(map (blink_at m') as, shown_chars L base m') = ticks (map (blink_at ?m) as) (shown_chars L base ?m)"
    "\<And>c. c \<in> set as \<Longrightarrow> next_of m' c = next_of ?m c"
    "\<And>b. (\<And>c. c \<in> set as \<Longrightarrow> \<not> within c 16 b) \<Longrightarrow> (\<And>k. k < 2000 \<Longrightarrow> b \<noteq> scr L base k) \<Longrightarrow> m' b = ?m b"
    using Cons.IH [of ?m "next_of m a"] by blast
  have here: "(blink_at m' a, next_of m' a) = (blink_at ?m a, next_of ?m a)"
  proof (rule node.local)
    fix b assume b: "within a 16 b"
    have "\<not> within c 16 b" if "c \<in> set as" for c
      using apartD [OF slot_apart [OF a(1), of c] b] that a(6) Cons.prems(3) by (auto simp: nodes_def)
    moreover have "b \<noteq> scr L base k" if "k < 2000" for k using slot_within [OF a(1) b] assms(1) that by (auto simp: blink_room_def own_def)
    ultimately show "m' b = ?m b" using m'(4) by blast
  qed
  have e: "map (blink_at ?m) as = map (blink_at m) as" using others(1) by simp
  have "(map (blink_at m') (a # as), shown_chars L base m') = ticks (map (blink_at m) (a # as)) (shown_chars L base m)"
    using here t(1) by (simp add: m'(2) [unfolded e t(3), symmetric])
  moreover have "tasklet_loop L p m = Some m'" using tasklet_loop_node [OF a(4)] t(2) m'(1) a(5) by simp
  moreover have "\<forall>c \<in> set (a # as). next_of m' c = next_of m c" using here m'(3) others(2) t(2) by auto
  moreover have "m' b = m b" if "\<forall>c \<in> set (a # as). \<not> within c 16 b" "\<forall>k < 2000. b \<noteq> scr L base k" for b
    using m'(4) [of b] t(4) [of b] that a(3) by simp
  ultimately show ?case by blast
qed

end
