(* ===== verification/BlinkOps.thy ===== *)
theory BlinkOps
  imports BlinkProps
begin

text \<open>
  The operations on the list of blinking characters: each keeps the invariant \<open>blink_ok\<close> and acts on the abstract list as its name
  says.
\<close>

unbundle bit_operations_syntax

section \<open>The invariant\<close>

text \<open>The list leads through the nodes \<open>as\<close>, which are exactly the structures of the array with a location other than 0.\<close>

definition blink_ok :: "blink_vars \<Rightarrow> u32 \<Rightarrow> u32 list \<Rightarrow> mem \<Rightarrow> bool" where
  "blink_ok L base as m \<longleftrightarrow> blink_room L base \<and> load32 m (vmem_base L) = base \<and> chain m (load32 m (list_head L)) as \<and> nodes L m as \<and>
     (\<forall>a \<in> slots L. load16 m a \<noteq> 0 \<longleftrightarrow> a \<in> set as)"

definition off_blink :: "blink_vars \<Rightarrow> u32 \<Rightarrow> u32 \<Rightarrow> bool" where
  "off_blink L base a \<longleftrightarrow> \<not> own L a \<and> (\<forall>k < 2000. a \<noteq> scr L base k)"

lemma view_same:
  assumes "\<And>x. within a 16 x \<Longrightarrow> m' x = m x"
  shows "blink_at m' a = blink_at m a" "next_of m' a = next_of m a" "load16 m' a = load16 m a"
  using node.local [of a m' m] assms blink_eqD(1) [of m' a "blink_at m a"] by (auto simp: blink_sel)

lemma array_same:
  assumes "\<And>x. within (blink_array L) 32000 x \<Longrightarrow> m' x = m x" and "a \<in> slots L"
  shows "blink_at m' a = blink_at m a" "next_of m' a = next_of m a" "load16 m' a = load16 m a"
  using view_same [of a m' m] assms slot_within by blast+

text \<open>A change outside the variables of the list keeps it.\<close>

lemma blink_ok_own:
  assumes "blink_ok L base as m" and "\<And>x. own L x \<Longrightarrow> m' x = m x"
  shows "blink_ok L base as m'" "map (blink_at m') as = map (blink_at m) as"
proof -
  note ok = assms(1) [unfolded blink_ok_def nodes_def]
  have w: "load32 m' (vmem_base L) = load32 m (vmem_base L)" "load32 m' (list_head L) = load32 m (list_head L)"
    by (rule word_at.local; use assms(2) in \<open>auto simp: own_def\<close>)+
  have n: "blink_at m' a = blink_at m a" "next_of m' a = next_of m a" "load16 m' a = load16 m a" if "a \<in> slots L" for a
    using array_same [OF _ that, of m' m] assms(2) by (auto simp: own_def)
  have "chain m' (load32 m (list_head L)) as = chain m (load32 m (list_head L)) as" by (rule chain_cong) (use n ok in auto)
  then show "blink_ok L base as m'" using ok w n by (auto simp: blink_ok_def nodes_def subset_iff)
  show "map (blink_at m') as = map (blink_at m) as" using ok n by auto
qed

section \<open>The tasklet\<close>

lemma tick_location [simp]: "b_location (fst (tick b)) = b_location b"
  by (simp add: tick_def)

lemma ticks_location: "map b_location (fst (ticks bs cs)) = map b_location bs"
  by (induction bs arbitrary: cs) (auto split: prod.split dest: fst_eqD simp: Let_def case_prod_beta)

lemma tasklet_ok:
  assumes "blink_ok L base as m"
  shows "\<exists>m'. mp1_rtc_tasklet L m = Some m' \<and> blink_ok L base as m' \<and>
    (map (blink_at m') as, shown_chars L base m') = ticks (map (blink_at m) as) (shown_chars L base m) \<and>
    (\<forall>a. off_blink L base a \<longrightarrow> m' a = m a)"
proof -
  note ok = assms [unfolded blink_ok_def]
  have r: "blink_room L base" and nd: "nodes L m as" using ok by simp_all
  obtain m' where m': "tasklet_loop L (load32 m (list_head L)) m = Some m'"
    "(map (blink_at m') as, shown_chars L base m') = ticks (map (blink_at m) as) (shown_chars L base m)"
    "\<And>a. a \<in> set as \<Longrightarrow> next_of m' a = next_of m a"
    "\<And>b. (\<And>a. a \<in> set as \<Longrightarrow> \<not> within a 16 b) \<Longrightarrow> (\<And>k. k < 2000 \<Longrightarrow> b \<noteq> scr L base k) \<Longrightarrow> m' b = m b"
    using tasklet_ticks [of L base m "load32 m (list_head L)" as] ok by blast
  have "map b_location (map (blink_at m') as) = map b_location (map (blink_at m) as)"
    using ticks_location [of "map (blink_at m) as" "shown_chars L base m"] unfolding m'(2) [symmetric] by simp
  then have loc: "load16 m' a = load16 m a" if "a \<in> set as" for a using that by (simp add: blink_sel)
  have out: "m' b = m b" if "\<And>a. a \<in> set as \<Longrightarrow> \<not> within a 16 b" "own L b" for b
    using m'(4) that r by (auto simp: blink_room_def)
  have w: "load32 m' q = load32 m q" if "q \<in> {list_head L, vmem_base L}" for q
  proof (rule word_at.local)
    fix b assume b: "within q 4 b"
    have "\<not> within a 16 b" if "a \<in> set as" for a using slot_off_vars [OF r, of a b] that nd b \<open>q \<in> _\<close> by (auto simp: nodes_def)
    then show "m' b = m b" using out [of b] b that by (auto simp: own_def)
  qed
  have free: "load16 m' a = load16 m a" if "a \<in> slots L" "a \<notin> set as" for a
  proof (rule view_same(3))
    fix x assume x: "within a 16 x"
    have "\<not> within c 16 x" if "c \<in> set as" for c
      using apartD [OF slot_apart [OF \<open>a \<in> slots L\<close>, of c] x] that \<open>a \<notin> set as\<close> nd by (auto simp: nodes_def)
    then show "m' x = m x" using out slot_within [OF that(1) x] by (auto simp: own_def)
  qed
  have "blink_ok L base as m'"
    unfolding blink_ok_def
  proof (intro conjI)
    show "blink_room L base" "load32 m' (vmem_base L) = base" using r w ok by simp_all
    show "chain m' (load32 m' (list_head L)) as" using ok w m'(3) chain_cong [of as m' m] by simp
    show "nodes L m' as" using nd loc by (simp add: nodes_def)
    show "\<forall>a \<in> slots L. load16 m' a \<noteq> 0 \<longleftrightarrow> a \<in> set as" using ok loc free by (metis (no_types))
  qed
  moreover have "m' a = m a" if "off_blink L base a" for a
    using m'(4) [of a] that slot_within nd by (auto simp: off_blink_def own_def nodes_def)
  ultimately show ?thesis using m'(1,2) by (auto simp: mp1_rtc_tasklet_def)
qed

section \<open>Search\<close>

lemma find_loop_chain:
  "chain m p as \<Longrightarrow> find_loop ax p m = Some (case find (\<lambda>a. load16 m a = ax) as of Some a \<Rightarrow> a | None \<Rightarrow> 0)"
proof (induction as arbitrary: p)
  case Nil
  then show ?case by (subst find_loop.simps) simp
next
  case (Cons a as)
  then show ?case by (subst find_loop.simps) (simp add: next_of_def)
qed

lemma find_split: "find P xs = Some a \<Longrightarrow> \<exists>pre post. xs = pre @ a # post \<and> (\<forall>x \<in> set pre. \<not> P x) \<and> P a"
proof (induction xs)
  case (Cons x xs)
  show ?case
  proof (cases "P x")
    case True
    then show ?thesis using Cons.prems by (intro exI [of _ "[]"] exI [of _ xs]) simp
  next
    case False
    then obtain pre post where "xs = pre @ a # post" "\<forall>x \<in> set pre. \<not> P x" "P a" using Cons by auto
    then show ?thesis using False by (intro exI [of _ "x # pre"] exI [of _ post]) simp
  qed
qed simp

definition first_at :: "u16 \<Rightarrow> mem \<Rightarrow> u32 list \<Rightarrow> u32 option" where
  "first_at w m as = find (\<lambda>a. load16 m a = w) as"

lemma first_atD: "first_at w m as = Some a \<Longrightarrow> a \<in> set as \<and> load16 m a = w"
  using find_split [of "\<lambda>a. load16 m a = w" as a] by (auto simp: first_at_def)

lemma first_at_None: "first_at w m as = None \<longleftrightarrow> w \<notin> b_location ` set (map (blink_at m) as)"
  by (auto simp: first_at_def find_None_iff blink_sel image_iff)

lemma find_helper_ok:
  assumes "blink_ok L base as m"
  shows "mp1_find_helper L arg m = Some (case first_at (ucast arg) m as of Some a \<Rightarrow> a | None \<Rightarrow> 0)"
  using assms find_loop_chain [of m _ as] by (simp add: mp1_find_helper_def first_at_def blink_ok_def)

lemma blink_node: "blink_ok L base as m \<Longrightarrow> a \<in> set as \<Longrightarrow> a \<in> slots L \<and> a \<noteq> 0 \<and> load16 m a < 2000 \<and> load16 m a \<noteq> 0"
  using slot_nonzero [of L base a] by (auto simp: blink_ok_def nodes_def)

section \<open>Removal\<close>

lemma remove_prev:
  "chain m (load32 m q) (pre @ a # post) \<Longrightarrow> a \<notin> set pre \<Longrightarrow> remove_find_prev a q m = Some (if pre = [] then q else last pre + 12)"
proof (induction pre arbitrary: q)
  case Nil
  then show ?case by (subst remove_find_prev.simps) simp
next
  case (Cons b pre)
  then have "remove_find_prev a (b + 12) m = Some (if pre = [] then b + 12 else last pre + 12)" by (intro Cons.IH) (simp_all add: next_of_def)
  then show ?case using Cons.prems by (subst remove_find_prev.simps) auto
qed

lemma chain_tail: "chain m p (ps @ a # post) \<Longrightarrow> chain m (next_of m a) post"
  by (induction ps arbitrary: p) auto

lemma chain_relink:
  "chain m p (ps @ b # xs) \<Longrightarrow> (\<And>c. c \<in> set ps \<Longrightarrow> next_of m' c = next_of m c) \<Longrightarrow> chain m' (next_of m' b) ys \<Longrightarrow> chain m' p (ps @ b # ys)"
  by (induction ps arbitrary: p) auto

lemma store_next:
  "blink_at (store32 m (b + 12) v) b = blink_at m b" "next_of (store32 m (b + 12) v) b = v"
  by (simp_all add: next_of_def blink_at_def) (simp_all add: load16_def store32_def)

lemma store_next_other: "\<not> within b 16 x \<Longrightarrow> store32 m (b + 12) v x = m x"
  using within_sub_block [of b 12 4 x 16] by (intro store32_other) auto

text \<open>A change of one structure of the array.\<close>

definition changed :: "u32 \<Rightarrow> mem \<Rightarrow> mem \<Rightarrow> bool" where
  "changed a m m' \<longleftrightarrow> (\<forall>x. \<not> within a 16 x \<longrightarrow> m' x = m x)"

lemma slot_change:
  assumes "blink_room L base" and "a \<in> slots L" and "changed a m m'"
  shows "\<And>c. c \<in> slots L \<Longrightarrow> c \<noteq> a \<Longrightarrow> blink_at m' c = blink_at m c \<and> next_of m' c = next_of m c \<and> load16 m' c = load16 m c"
    "load32 m' (vmem_base L) = load32 m (vmem_base L)" "load32 m' (list_head L) = load32 m (list_head L)" "\<And>x. \<not> own L x \<Longrightarrow> m' x = m x"
proof -
  show "blink_at m' c = blink_at m c \<and> next_of m' c = next_of m c \<and> load16 m' c = load16 m c" if c: "c \<in> slots L" "c \<noteq> a" for c
    using view_same [of c m' m] assms(3) apartD [OF slot_apart [OF c(1) assms(2) c(2)]] unfolding changed_def by blast
  show "load32 m' (vmem_base L) = load32 m (vmem_base L)" "load32 m' (list_head L) = load32 m (list_head L)"
    using assms(3) slot_off_vars [OF assms(1,2)] by (auto intro!: word_at.local simp: changed_def)
  show "m' x = m x" if "\<not> own L x" for x using that assms(3) slot_within [OF assms(2), of x] by (auto simp: own_def changed_def)
qed

text \<open>A store to the head pointer, and to the next pointer of a node.\<close>

lemma store_head:
  assumes "blink_room L base"
  shows "\<And>c. c \<in> slots L \<Longrightarrow> blink_at (store32 m (list_head L) v) c = blink_at m c \<and> next_of (store32 m (list_head L) v) c = next_of m c"
    "load32 (store32 m (list_head L) v) (vmem_base L) = load32 m (vmem_base L)" "\<And>x. \<not> own L x \<Longrightarrow> store32 m (list_head L) v x = m x"
proof -
  have out: "store32 m (list_head L) v x = m x" if "\<not> within (list_head L) 4 x" for x using that by (rule store32_other)
  show "blink_at (store32 m (list_head L) v) c = blink_at m c \<and> next_of (store32 m (list_head L) v) c = next_of m c" if c: "c \<in> slots L" for c
    using view_same [of c "store32 m (list_head L) v" m] out slot_off_vars [OF assms c] by blast
  have "apart (vmem_base L) 4 (list_head L) 4" using assms apart_sym by (auto simp: blink_room_def)
  then show "load32 (store32 m (list_head L) v) (vmem_base L) = load32 m (vmem_base L)" by (rule word_at.frame_store32)
  show "store32 m (list_head L) v x = m x" if "\<not> own L x" for x using that out by (simp add: own_def)
qed

lemma store_after:
  fixes m :: mem
  assumes "blink_room L base" and "b \<in> slots L"
  defines "m' \<equiv> \<lambda>v. store32 m (b + 12) v"
  shows "\<And>c. c \<in> slots L \<Longrightarrow> blink_at (m' v) c = blink_at m c \<and> next_of (m' v) c = (if c = b then v else next_of m c)"
    "load32 (m' v) (vmem_base L) = load32 m (vmem_base L)" "load32 (m' v) (list_head L) = load32 m (list_head L)" "\<And>x. \<not> own L x \<Longrightarrow> m' v x = m x"
proof -
  have "changed b m (m' v)" by (simp add: changed_def m'_def store_next_other)
  note ch = slot_change [OF assms(1,2) this]
  show "blink_at (m' v) c = blink_at m c \<and> next_of (m' v) c = (if c = b then v else next_of m c)" if c: "c \<in> slots L" for c
    using ch(1) [OF c] store_next [of m b v] by (auto simp: m'_def)
  show "load32 (m' v) (vmem_base L) = load32 m (vmem_base L)" "load32 (m' v) (list_head L) = load32 m (list_head L)"
    "\<And>x. \<not> own L x \<Longrightarrow> m' v x = m x" using ch(2-4) by blast+
qed

lemma unlink:
  fixes m :: mem
  assumes "blink_ok L base (pre @ a # post) m"
  defines "m' \<equiv> store32 m (if pre = [] then list_head L else last pre + 12) (next_of m a)"
  shows "chain m' (load32 m' (list_head L)) (pre @ post) \<and> (\<forall>c \<in> slots L. blink_at m' c = blink_at m c) \<and>
    load32 m' (vmem_base L) = base \<and> (\<forall>x. \<not> own L x \<longrightarrow> m' x = m x)"
proof -
  have r: "blink_room L base" and whole: "chain m (load32 m (list_head L)) (pre @ a # post)" and base: "load32 m (vmem_base L) = base"
    and sub: "set (pre @ a # post) \<subseteq> slots L" and dist: "distinct (pre @ a # post)"
    using assms(1) by (simp_all add: blink_ok_def nodes_def)
  have tail: "chain m (next_of m a) post" using chain_tail whole by blast
  show ?thesis
  proof (cases pre rule: rev_cases)
    case Nil
    then have m': "m' = store32 m (list_head L) (next_of m a)" by (simp add: m'_def)
    have n: "blink_at m' c = blink_at m c" "next_of m' c = next_of m c" if "c \<in> slots L" for c using store_head(1) [OF r that] by (simp_all add: m')
    have "chain m' (next_of m a) post" using tail chain_cong [of post m' m] n(2) sub by auto
    moreover have "load32 m' (list_head L) = next_of m a" by (simp add: m')
    ultimately show ?thesis using Nil n(1) store_head(2,3) [OF r] base by (simp add: m')
  next
    case (snoc ps b)
    then have m': "m' = store32 m (b + 12) (next_of m a)" and b: "b \<in> slots L" using sub by (simp_all add: m'_def)
    note st = store_after [OF r b, where m = m and v = "next_of m a", folded m']
    have n: "next_of m' c = (if c = b then next_of m a else next_of m c)" if "c \<in> set (ps @ post)" for c using st(1) [of c] that sub snoc by auto
    have "next_of m' c = next_of m c" if "c \<in> set post" for c using n [of c] that dist snoc by auto
    then have "chain m' (next_of m a) post" using tail chain_cong [of post m' m] by simp
    moreover have "next_of m' c = next_of m c" if "c \<in> set ps" for c using n [of c] that dist snoc by auto
    moreover have "next_of m' b = next_of m a" using st(1) [OF b] by simp
    ultimately have "chain m' (load32 m (list_head L)) (ps @ b # post)"
      using whole chain_relink [of m _ ps b "a # post" m' post] snoc by simp
    then show ?thesis using st base snoc by simp
  qed
qed

primrec remove_at :: "u16 \<Rightarrow> blink list \<Rightarrow> blink list" where
  "remove_at w [] = []"
| "remove_at w (b # bs) = (if b_location b = w then bs else b # remove_at w bs)"

lemma remove_at_append: "(\<forall>b \<in> set bs. b_location b \<noteq> w) \<Longrightarrow> b_location b = w \<Longrightarrow> remove_at w (bs @ b # cs) = bs @ cs"
  by (induction bs) auto

lemma remove_ok:
  assumes "blink_ok L base as m"
  shows "case first_at (ucast arg) m as of
      None \<Rightarrow> mp1_ioctl_remove L arg m = Some (-1, m)
    | Some a \<Rightarrow> \<exists>m' as'. mp1_ioctl_remove L arg m = Some (0, m') \<and> blink_ok L base as' m' \<and>
        map (blink_at m') as' = remove_at (ucast arg) (map (blink_at m) as) \<and> (\<forall>x. \<not> own L x \<longrightarrow> m' x = m x)"
proof (cases "first_at (ucast arg) m as")
  case None
  then show ?thesis using find_helper_ok [OF assms, of arg] by (simp add: mp1_ioctl_remove_def)
next
  case (Some a)
  then obtain pre post where as: "as = pre @ a # post" "\<forall>x \<in> set pre. load16 m x \<noteq> ucast arg" "load16 m a = ucast arg"
    using find_split unfolding first_at_def by fastforce
  note ok = assms [unfolded blink_ok_def nodes_def]
  have a: "a \<in> slots L" "a \<noteq> 0" "a \<notin> set pre" using blink_node [OF assms, of a] ok as by auto
  let ?m = "store32 m (if pre = [] then list_head L else last pre + 12) (next_of m a)"
  note un = unlink [OF assms [unfolded as(1)]]
  let ?m' = "fill ?m a 16 0"
  have "mp1_ioctl_remove L arg m = Some (0, ?m')"
    using find_helper_ok [OF assms, of arg] Some a(2) remove_prev [of m "list_head L" pre a post] ok as a(3) memset_eq [of 16 a 0 ?m]
    by (simp add: mp1_ioctl_remove_def mp1_free_def next_of_def)
  moreover have "changed a ?m ?m'" by (simp add: changed_def fill_def)
  then have ch: "\<And>c. c \<in> slots L \<Longrightarrow> c \<noteq> a \<Longrightarrow> blink_at ?m' c = blink_at ?m c \<and> next_of ?m' c = next_of ?m c \<and> load16 ?m' c = load16 ?m c"
    "load32 ?m' (vmem_base L) = load32 ?m (vmem_base L)" "load32 ?m' (list_head L) = load32 ?m (list_head L)" "\<And>x. \<not> own L x \<Longrightarrow> ?m' x = ?m x"
    using slot_change [of L base a ?m ?m'] ok a(1) by blast+
  have dist: "a \<notin> set (pre @ post)" "set (pre @ post) \<subseteq> slots L" using ok as(1) by auto
  have at: "blink_at ?m' c = blink_at m c" "next_of ?m' c = next_of ?m c" "load16 ?m' c = load16 m c" if "c \<in> slots L" "c \<noteq> a" for c
    using ch(1) [OF that] un that(1) ok blink_eqD(1) [of ?m c "blink_at m c"] by (auto simp: blink_sel)
  have zero: "load16 ?m' a = 0" by (simp add: load16_def fill_def within_def)
  have "blink_ok L base (pre @ post) ?m'"
    unfolding blink_ok_def
  proof (intro conjI)
    show "blink_room L base" "load32 ?m' (vmem_base L) = base" using ch(2) un ok by auto
    have "chain ?m' (load32 ?m (list_head L)) (pre @ post) = chain ?m (load32 ?m (list_head L)) (pre @ post)"
      by (rule chain_cong) (use at(2) dist in blast)
    then show "chain ?m' (load32 ?m' (list_head L)) (pre @ post)" using ch(3) un ok by simp
    have "load16 ?m' c < 2000" if "c \<in> set (pre @ post)" for c
    proof -
      have "c \<in> slots L" "c \<noteq> a" "load16 m c < 2000" using that dist ok as(1) by auto
      then show ?thesis using at(3) by simp
    qed
    then show "nodes L ?m' (pre @ post)" using ok as(1) dist(2) by (auto simp: nodes_def)
    show "\<forall>c \<in> slots L. load16 ?m' c \<noteq> 0 \<longleftrightarrow> c \<in> set (pre @ post)"
    proof
      fix c assume "c \<in> slots L"
      then show "load16 ?m' c \<noteq> 0 \<longleftrightarrow> c \<in> set (pre @ post)" using ok as(1) at(3) zero dist(1) by (cases "c = a") auto
    qed
  qed
  moreover have "map (blink_at ?m') (pre @ post) = remove_at (ucast arg) (map (blink_at m) as)"
  proof -
    have "map (blink_at ?m') (pre @ post) = map (blink_at m) (pre @ post)" by (rule map_cong [OF refl]) (use at(1) dist in blast)
    then show ?thesis using remove_at_append [of "map (blink_at m) pre" "ucast arg" "blink_at m a"] as by (simp add: blink_sel)
  qed
  moreover have "?m' x = m x" if "\<not> own L x" for x using ch(4) un ok that by simp
  ultimately show ?thesis using Some by (simp only: option.case) blast
qed

end
