(* ===== verification/BlinkAdd.thy ===== *)
theory BlinkAdd
  imports BlinkOps
begin

text \<open>
  Adding a blinking character: allocation from the array, and linking the new structure at the head of the list.
\<close>

unbundle bit_operations_syntax

section \<open>Allocation\<close>

lemma slot_inj: "i < 2000 \<Longrightarrow> j < 2000 \<Longrightarrow> slot L i = slot L j \<longleftrightarrow> i = j"
  unfolding slot_def using of_nat_u32_inj [of "16 * i" "16 * j"] by simp

lemma card_slots: "card (slots L) = 2000"
  unfolding slots_def by (subst card_image) (auto simp: inj_on_def slot_inj)

lemma full_list:
  assumes "distinct as" and "set as \<subseteq> slots L"
  shows "length as = 2000 \<longleftrightarrow> slots L \<subseteq> set as"
proof
  assume "length as = 2000"
  then have "card (set as) = card (slots L)" using distinct_card [OF assms(1)] card_slots by simp
  then show "slots L \<subseteq> set as" using card_subset_eq [OF _ assms(2)] by (simp add: slots_def)
next
  assume "slots L \<subseteq> set as"
  then have "set as = slots L" using assms(2) by blast
  then show "length as = 2000" using distinct_card [OF assms(1)] card_slots [of L] by simp
qed

lemma malloc_ok:
  assumes "blink_ok L base as m"
  shows "if length as = 2000 then mp1_malloc L m = 0 else mp1_malloc L m \<in> slots L - set as \<and> mp1_malloc L m \<noteq> 0"
proof -
  note ok = assms [unfolded blink_ok_def nodes_def]
  have mal: "mp1_malloc L m = (case find (\<lambda>i. load16 m (slot L i) = 0) [0..<2000] of Some k \<Rightarrow> slot L k | None \<Rightarrow> 0)"
    unfolding mp1_malloc_def slot_def using malloc_find [of 0 L m] by simp
  show ?thesis
  proof (cases "find (\<lambda>i. load16 m (slot L i) = 0) [0..<2000]")
    case None
    then have "slots L \<subseteq> set as" using ok by (auto simp: find_None_iff slots_def)
    then show ?thesis using mal None full_list ok by auto
  next
    case (Some k)
    then have k: "k < 2000" "load16 m (slot L k) = 0" by (auto simp: find_Some_iff)
    then have "slot L k \<in> slots L - set as" using ok by (auto simp: slots_def)
    moreover have "length as \<noteq> 2000" using full_list ok calculation by blast
    ultimately show ?thesis using mal Some slot_nonzero [of L base "slot L k"] ok by simp
  qed
qed

section \<open>Linking\<close>

lemma blink_at_blit: "blink_at (blit m d s 16) d = blink_at m s"
proof -
  have at: "blit m d s 16 (d + of_nat k) = m (s + of_nat k)" if "k < 16" for k using blit_offset [of k 16 m d s] that by simp
  show ?thesis
    using at [of 0] at [of 1] at [of 2] at [of 3] at [of 4] at [of 5] at [of 6] at [of 7] at [of 8] at [of 9] at [of 10] at [of 11]
    by (simp add: blink_at_def load16_def add.commute [of _ d] add.commute [of _ s])
qed

definition link_front :: "blink_vars \<Rightarrow> u32 \<Rightarrow> mem \<Rightarrow> mem" where
  "link_front L a m = store32 (store32 m (a + 12) (load32 m (list_head L))) (list_head L) a"

lemma link_front_ok:
  assumes "blink_ok L base as m" and "a \<in> slots L - set as" and "changed a m n"
  defines "m' \<equiv> link_front L a n"
  shows "chain m' (load32 m' (list_head L)) (a # as)" "blink_at m' a = blink_at n a" "\<And>c. c \<in> slots L \<Longrightarrow> c \<noteq> a \<Longrightarrow> blink_at m' c = blink_at m c"
    "load32 m' (vmem_base L) = base" "\<And>x. \<not> own L x \<Longrightarrow> m' x = m x"
proof -
  have r: "blink_room L base" and whole: "chain m (load32 m (list_head L)) as" and base: "load32 m (vmem_base L) = base" and sub: "set as \<subseteq> slots L"
    using assms(1) by (simp_all add: blink_ok_def nodes_def)
  have a: "a \<in> slots L" "a \<notin> set as" "a \<noteq> 0" using assms(2) slot_nonzero [OF r] by blast+
  let ?n = "store32 n (a + 12) (load32 n (list_head L))"
  have m': "m' = store32 ?n (list_head L) a" by (simp add: m'_def link_front_def)
  note ch = slot_change [OF r a(1) assms(3)] and st = store_after [OF r a(1), where m = n and v = "load32 n (list_head L)"]
    and hd = store_head [OF r, where m = ?n and v = a, folded m']
  have n: "blink_at m' c = blink_at m c" "next_of m' c = next_of m c" if "c \<in> slots L" "c \<noteq> a" for c
    using hd(1) [OF that(1)] st(1) [OF that(1)] ch(1) [OF that] that(2) by simp_all
  have nexta: "next_of m' a = load32 m (list_head L)" using hd(1) [OF a(1)] st(1) [OF a(1)] ch(3) by simp
  have "chain m' (load32 m (list_head L)) as = chain m (load32 m (list_head L)) as"
    by (rule chain_cong) (use n(2) sub a(2) in blast)
  then show "chain m' (load32 m' (list_head L)) (a # as)" using whole nexta a(3) by (simp add: m')
  show "blink_at m' a = blink_at n a" using hd(1) [OF a(1)] st(1) [OF a(1)] by simp
  show "blink_at m' c = blink_at m c" if "c \<in> slots L" "c \<noteq> a" for c using n(1) that by blast
  show "load32 m' (vmem_base L) = base" using hd(2) st(2) ch(2) base by simp
  show "m' x = m x" if "\<not> own L x" for x using hd(3) st(4) ch(4) that by simp
qed

section \<open>The operation\<close>

definition started :: "blink \<Rightarrow> blink" where
  "started b = b\<lparr>b_status := 1, b_countdown := b_on_length b\<rparr>"

text \<open>The structure on the stack: outside everything the list and the screen use, and apart from the argument.\<close>

definition tmp_ok :: "blink_vars \<Rightarrow> u32 \<Rightarrow> u32 \<Rightarrow> bool" where
  "tmp_ok L base arg \<longleftrightarrow> apart (add_tmp L) 16 arg 16 \<and> (\<forall>x. within (add_tmp L) 16 x \<longrightarrow> off_blink L base x)"

definition prepared :: "blink_vars \<Rightarrow> u32 \<Rightarrow> mem \<Rightarrow> mem" where
  "prepared L arg m =
     (let m = movw (blit m (add_tmp L) arg 16) (add_tmp L + 10) 1 in movw m (add_tmp L + 8) (load16 m (add_tmp L + 4)))"

lemma prepared:
  "blink_at (prepared L arg m) (add_tmp L) = started (blink_at m arg)" "\<not> within (add_tmp L) 16 x \<Longrightarrow> prepared L arg m x = m x"
proof -
  let ?m = "movw (blit m (add_tmp L) arg 16) (add_tmp L + 10) 1"
  have "blink_at ?m (add_tmp L) = (blink_at m arg)\<lparr>b_status := 1\<rparr>" by (simp add: blink_at_blit)
  from this blink_eqD(4) [OF this] show "blink_at (prepared L arg m) (add_tmp L) = started (blink_at m arg)"
    by (simp add: prepared_def started_def)
  show "prepared L arg m x = m x" if "\<not> within (add_tmp L) 16 x"
    using that within_node [of 8 "add_tmp L" x] within_node [of 10 "add_tmp L" x] by (simp add: prepared_def Let_def) (simp add: blit_def)
qed

definition insert_node :: "blink_vars \<Rightarrow> u32 \<Rightarrow> mem \<Rightarrow> mem" where
  "insert_node L a n =
     (let l = link_front L a (snd (ece391_memcpy a (add_tmp L) 16 n)) in mp1_poke L (l (a + 2)) (push_bit 1 (ucast (load16 l a))) l)"

lemma add_steps:
  assumes "tmp_ok L base arg"
  shows "mp1_ioctl_add L arg m =
    (if 2000 \<le> load16 m arg then Some (-1, blit m (add_tmp L) arg 16)
     else
       let n = prepared L arg m; a = mp1_malloc L n in
       if a = 0 then Some (-1, n) else Some (0, insert_node L a n))"
proof -
  have c: "ece391_memcpy (add_tmp L) arg 16 m = (0, blit m (add_tmp L) arg 16)"
    using memcpy_eq [of "add_tmp L" 16 arg] assms by (simp add: tmp_ok_def)
  have "load16 (blit m (add_tmp L) arg 16) (add_tmp L) = load16 m arg" using blink_eqD(1) [OF blink_at_blit] by (simp add: blink_sel)
  then show ?thesis by (simp add: mp1_ioctl_add_def c prepared_def insert_node_def link_front_def Let_def split: prod.split)
qed

lemma link_new:
  assumes "blink_ok L base as n" and "a \<in> slots L - set as" and "\<And>x. within (add_tmp L) 16 x \<Longrightarrow> \<not> own L x"
    and "load16 n (add_tmp L) < 2000"
  defines "m' \<equiv> insert_node L a n"
  shows "chain m' (load32 m' (list_head L)) (a # as)" "map (blink_at m') (a # as) = blink_at n (add_tmp L) # map (blink_at n) as"
    "shown_chars L base m' = (shown_chars L base n)[unat (load16 n (add_tmp L)) := n (add_tmp L + 2)]"
    "load16 n (add_tmp L) \<noteq> 0 \<longrightarrow> blink_ok L base (a # as) m'" "\<And>x. off_blink L base x \<Longrightarrow> m' x = n x"
proof -
  have r: "blink_room L base" and sub: "set as \<subseteq> slots L" and dist: "distinct as" and low: "\<forall>c \<in> set as. load16 n c < 2000"
    and used: "\<forall>c \<in> slots L. load16 n c \<noteq> 0 \<longleftrightarrow> c \<in> set as"
    using assms(1) by (simp_all add: blink_ok_def nodes_def)
  have a: "a \<in> slots L" "a \<notin> set as" using assms(2) by blast+
  let ?c = "blit n a (add_tmp L) 16" and ?w = "load16 n (add_tmp L)"
  have "apart a 16 (add_tmp L) 16" using assms(3) slot_within [OF a(1)] by (auto simp: apart_def own_def)
  then have cp: "ece391_memcpy a (add_tmp L) 16 n = (0, ?c)" using memcpy_eq [of a 16 "add_tmp L" n] by simp
  define l where "l = link_front L a ?c"
  have "changed a n ?c" by (simp add: changed_def blit_def)
  note k = link_front_ok [OF assms(1,2) this, folded l_def]
  have la: "blink_at l a = blink_at n (add_tmp L)" using k(2) blink_at_blit by simp
  then have f: "load16 l a = ?w" "l (a + 2) = n (add_tmp L + 2)" using blink_eqD [OF la] by (simp_all add: blink_sel)
  have w: "unat ?w < 2000" using assms(4) by (simp add: word_less_nat_alt)
  have m': "m' = l(scr L base (unat ?w) := n (add_tmp L + 2))" using poke_scr [OF k(4)] by (simp add: m'_def insert_node_def cp l_def [symmetric] f)
  have s: "\<not> own L (scr L base (unat ?w))" using r w by (simp add: blink_room_def)
  have same: "m' x = l x" if "own L x" for x using that s by (auto simp: m')
  have at: "blink_at m' c = blink_at l c" "next_of m' c = next_of l c" "load16 m' c = load16 l c" if "c \<in> slots L" for c
    using array_same [OF _ that, of m' l] same by (auto simp: own_def)
  have v: "load32 m' (list_head L) = load32 l (list_head L)" "load32 m' (vmem_base L) = base"
    using k(4) same word_at.local [of "list_head L" m' l] word_at.local [of "vmem_base L" m' l] by (auto simp: own_def)
  have old: "blink_at m' c = blink_at n c" "load16 m' c = load16 n c" if "c \<in> slots L" "c \<noteq> a" for c
    using at [OF that(1)] k(3) [OF that] blink_eqD(1) [of m' c "blink_at n c"] by (simp_all add: blink_sel)
  show chain: "chain m' (load32 m' (list_head L)) (a # as)"
    unfolding v(1) using k(1) chain_cong [of "a # as" m' l] at(2) a(1) sub by auto
  have "map (blink_at m') as = map (blink_at n) as" by (rule map_cong [OF refl]) (use old(1) a(2) sub in blast)
  then show "map (blink_at m') (a # as) = blink_at n (add_tmp L) # map (blink_at n) as" using at(1) [OF a(1)] la by simp
  show "shown_chars L base m' = (shown_chars L base n)[unat ?w := n (add_tmp L + 2)]"
    unfolding m' using shown_scr [OF r w] shown_own [OF r, of l n] k(5) by simp
  show "m' x = n x" if "off_blink L base x" for x using that k(5) w by (auto simp: m' off_blink_def)
  have wa: "load16 m' a = ?w" using at(3) [OF a(1)] f(1) by simp
  show "?w \<noteq> 0 \<longrightarrow> blink_ok L base (a # as) m'"
    unfolding blink_ok_def nodes_def
  proof (intro impI conjI ballI)
    show "load16 m' c < 2000" if "c \<in> set (a # as)" for c using that wa assms(4) old(2) [of c] low sub by (cases "c = a") auto
    show "load16 m' c \<noteq> 0 \<longleftrightarrow> c \<in> set (a # as)" if "?w \<noteq> 0" "c \<in> slots L" for c
      using that wa old(2) [of c] used by (cases "c = a") auto
  qed (use r v(2) chain dist a sub in auto)
qed

lemma add_ok:
  assumes "blink_ok L base as m" and "tmp_ok L base arg"
  shows "if 2000 \<le> load16 m arg \<or> length as = 2000
    then \<exists>m'. mp1_ioctl_add L arg m = Some (-1, m') \<and> (\<forall>x. \<not> within (add_tmp L) 16 x \<longrightarrow> m' x = m x)
    else \<exists>a m'. mp1_ioctl_add L arg m = Some (0, m') \<and> (load16 m arg \<noteq> 0 \<longrightarrow> blink_ok L base (a # as) m') \<and>
      chain m' (load32 m' (list_head L)) (a # as) \<and> map (blink_at m') (a # as) = started (blink_at m arg) # map (blink_at m) as \<and>
      shown_chars L base m' = (shown_chars L base m)[unat (load16 m arg) := m (arg + 2)] \<and>
      (\<forall>x. \<not> within (add_tmp L) 16 x \<longrightarrow> off_blink L base x \<longrightarrow> m' x = m x)"
proof -
  have r: "blink_room L base" using assms(1) by (simp add: blink_ok_def)
  let ?n = "prepared L arg m"
  have own: "\<not> within (add_tmp L) 16 x" if "own L x" for x using assms(2) that by (auto simp: tmp_ok_def off_blink_def)
  have n: "blink_ok L base as ?n" "map (blink_at ?n) as = map (blink_at m) as"
    using blink_ok_own [OF assms(1), of ?n] prepared(2) own by blast+
  have scr: "\<not> within (add_tmp L) 16 (scr L base k)" if "k < 2000" for k using assms(2) that by (auto simp: tmp_ok_def off_blink_def)
  have f: "blink_at ?n (add_tmp L) = started (blink_at m arg)" by (rule prepared)
  have g: "load16 ?n (add_tmp L) = load16 m arg" "?n (add_tmp L + 2) = m (arg + 2)"
    using blink_eqD [OF f] by (simp_all add: started_def blink_sel)
  consider (bad) "2000 \<le> load16 m arg" | (full) "\<not> 2000 \<le> load16 m arg" "length as = 2000"
    | (fine) "\<not> 2000 \<le> load16 m arg" "length as \<noteq> 2000" by blast
  then show ?thesis
  proof cases
    case bad
    then have "mp1_ioctl_add L arg m = Some (-1, blit m (add_tmp L) arg 16)" using add_steps [OF assms(2)] by simp
    then show ?thesis using bad by (simp add: blit_def)
  next
    case full
    then have "mp1_ioctl_add L arg m = Some (-1, ?n)" using add_steps [OF assms(2), of m] malloc_ok [OF n(1)] by (simp add: Let_def)
    then show ?thesis using full prepared(2) by simp
  next
    case fine
    let ?a = "mp1_malloc L ?n"
    have a: "?a \<in> slots L - set as" "?a \<noteq> 0" using malloc_ok [OF n(1)] fine by simp_all
    have "load16 ?n (add_tmp L) < 2000" using fine g by simp
    moreover have "\<not> own L x" if "within (add_tmp L) 16 x" for x using own that by blast
    ultimately have k: "chain (insert_node L ?a ?n) (load32 (insert_node L ?a ?n) (list_head L)) (?a # as)"
      "map (blink_at (insert_node L ?a ?n)) (?a # as) = started (blink_at m arg) # map (blink_at m) as"
      "shown_chars L base (insert_node L ?a ?n) = (shown_chars L base ?n)[unat (load16 m arg) := m (arg + 2)]"
      "load16 m arg \<noteq> 0 \<longrightarrow> blink_ok L base (?a # as) (insert_node L ?a ?n)" "\<And>x. off_blink L base x \<Longrightarrow> insert_node L ?a ?n x = ?n x"
      using link_new [OF n(1) a(1)] unfolding g f n(2) by blast+
    have "mp1_ioctl_add L arg m = Some (0, insert_node L ?a ?n)" using add_steps [OF assms(2), of m] fine a(2) by (simp add: Let_def)
    moreover have "shown_chars L base ?n = shown_chars L base m" using prepared(2) scr by (simp add: shown_chars_def)
    moreover have "insert_node L ?a ?n x = m x" if "\<not> within (add_tmp L) 16 x" "off_blink L base x" for x
      using k(5) [OF that(2)] prepared(2) [OF that(1)] by simp
    ultimately have "\<exists>a m'. mp1_ioctl_add L arg m = Some (0, m') \<and> (load16 m arg \<noteq> 0 \<longrightarrow> blink_ok L base (a # as) m') \<and>
      chain m' (load32 m' (list_head L)) (a # as) \<and> map (blink_at m') (a # as) = started (blink_at m arg) # map (blink_at m) as \<and>
      shown_chars L base m' = (shown_chars L base m)[unat (load16 m arg) := m (arg + 2)] \<and>
      (\<forall>x. \<not> within (add_tmp L) 16 x \<longrightarrow> off_blink L base x \<longrightarrow> m' x = m x)"
      using k(1-4) by (intro exI [of _ ?a] exI [of _ "insert_node L ?a ?n"] conjI) (assumption | simp)+
    then show ?thesis using fine by simp
  qed
qed

end
