(* ===== verification/BlinkSync.thy ===== *)
theory BlinkSync
  imports BlinkAdd
begin

text \<open>
  Synchronising and looking up blinking characters; then the list under every sequence of operations.
\<close>

unbundle bit_operations_syntax

section \<open>Synchronising\<close>

text \<open>The first blink at \<open>w\<close> gets the lengths, the countdown and the status of \<open>c\<close>.\<close>

definition synced :: "blink \<Rightarrow> blink \<Rightarrow> blink" where
  "synced c b = b\<lparr>b_on_length := b_on_length c, b_off_length := b_off_length c, b_countdown := b_countdown c, b_status := b_status c\<rparr>"

primrec update_at :: "u16 \<Rightarrow> (blink \<Rightarrow> blink) \<Rightarrow> blink list \<Rightarrow> blink list" where
  "update_at w f [] = []"
| "update_at w f (b # bs) = (if b_location b = w then f b # bs else b # update_at w f bs)"

lemma update_at_append: "(\<forall>b \<in> set bs. b_location b \<noteq> w) \<Longrightarrow> b_location b = w \<Longrightarrow> update_at w f (bs @ b # cs) = bs @ f b # cs"
  by (induction bs) auto

definition sync_node :: "u32 \<Rightarrow> u32 \<Rightarrow> mem \<Rightarrow> mem" where
  "sync_node s d m =
     (let m = movw m (d + 4) (load16 m (s + 4)); m = movw m (d + 6) (load16 m (s + 6)); m = movw m (d + 8) (load16 m (s + 8))
      in movw m (d + 10) (load16 m (s + 10)))"

lemma load16_movw_field:
  fixes s d k j :: u32
  assumes "s = d \<or> apart s 16 d 16" and "(k, j) \<in> {(4, 6), (4, 8), (6, 8), (4, 10), (6, 10), (8, 10)}"
  shows "load16 (movw n (d + k) v) (s + j) = load16 n (s + j)"
proof (cases "s = d")
  case True
  then show ?thesis using assms(2) by (auto simp: load16_def movw_def)
next
  case False
  have k: "k \<in> {4, 6, 8, 10}" using assms(2) by auto
  have "movw n (d + k) v x = n x" if "within s 16 x" for x
  proof (rule within_node [OF k])
    show "\<not> within d 16 x" using apartD [of s 16 d 16 x] assms(1) False that by blast
  qed
  then have e: "blink_at (movw n (d + k) v) s = blink_at n s" by (rule view_same(1))
  consider "j = 6" | "j = 8" | "j = 10" using assms(2) by auto
  then show ?thesis by cases (use blink_eqD(5-7) [OF e] in \<open>simp_all add: blink_sel\<close>)
qed

lemma sync_node:
  assumes "s = d \<or> apart s 16 d 16"
  shows "blink_at (sync_node s d m) d = synced (blink_at m s) (blink_at m d)" "changed d m (sync_node s d m)" "next_of (sync_node s d m) d = next_of m d"
proof -
  note f = load16_movw_field [OF assms]
  have sn: "sync_node s d m =
      movw (movw (movw (movw m (d + 4) (load16 m (s + 4))) (d + 6) (load16 m (s + 6))) (d + 8) (load16 m (s + 8))) (d + 10) (load16 m (s + 10))"
    unfolding sync_node_def Let_def by (simp only: f [of 4 6, simplified] f [of 4 8, simplified] f [of 6 8, simplified] f [of 4 10, simplified]
      f [of 6 10, simplified] f [of 8 10, simplified])
  show "blink_at (sync_node s d m) d = synced (blink_at m s) (blink_at m d)" unfolding sn blink_at_movw synced_def blink_sel by simp
  show "next_of (sync_node s d m) d = next_of m d" unfolding sn by simp
  show "changed d m (sync_node s d m)" unfolding sn changed_def by (simp add: within_node)
qed

text \<open>A change of one node that keeps its location and its next pointer.\<close>

lemma node_update_ok:
  assumes "blink_ok L base as m" and "d \<in> set as" and "changed d m m'" and "next_of m' d = next_of m d" and "load16 m' d = load16 m d"
  shows "blink_ok L base as m'" "\<And>c. c \<in> set as \<Longrightarrow> c \<noteq> d \<Longrightarrow> blink_at m' c = blink_at m c" "\<And>x. \<not> own L x \<Longrightarrow> m' x = m x"
proof -
  have r: "blink_room L base" and whole: "chain m (load32 m (list_head L)) as" and base: "load32 m (vmem_base L) = base"
    and nd: "nodes L m as" and used: "\<forall>c \<in> slots L. load16 m c \<noteq> 0 \<longleftrightarrow> c \<in> set as"
    using assms(1) by (simp_all add: blink_ok_def)
  have d: "d \<in> slots L" using blink_node [OF assms(1,2)] by blast
  note ch = slot_change [OF r d assms(3)]
  have sub: "set as \<subseteq> slots L" using nd by (simp add: nodes_def)
  have loc: "load16 m' c = load16 m c" if "c \<in> slots L" for c using ch(1) [OF that] assms(5) by (cases "c = d") auto
  have nx: "next_of m' c = next_of m c" if "c \<in> set as" for c using ch(1) [of c] assms(4) sub that by (cases "c = d") auto
  have "chain m' (load32 m' (list_head L)) as" using whole chain_cong [of as m' m] nx ch(3) by simp
  moreover have "nodes L m' as" using nd loc sub by (auto simp: nodes_def)
  ultimately show "blink_ok L base as m'" using r base ch(2) used loc by (simp add: blink_ok_def)
  show "blink_at m' c = blink_at m c" if "c \<in> set as" "c \<noteq> d" for c using ch(1) [of c] that sub by blast
  show "m' x = m x" if "\<not> own L x" for x using ch(4) that by blast
qed

lemma map_first_at:
  assumes "first_at w m as = Some d" and "distinct as" and "\<And>c. c \<in> set as \<Longrightarrow> c \<noteq> d \<Longrightarrow> blink_at m' c = blink_at m c"
    and "blink_at m' d = f (blink_at m d)"
  shows "map (blink_at m') as = update_at w f (map (blink_at m) as)"
proof -
  obtain pre post where as: "as = pre @ d # post" "\<forall>x \<in> set pre. load16 m x \<noteq> w" "load16 m d = w"
    using assms(1) find_split unfolding first_at_def by fastforce
  have "map (blink_at m') pre = map (blink_at m) pre" "map (blink_at m') post = map (blink_at m) post"
    using assms(2,3) by (auto simp: as(1))
  then show ?thesis using assms(4) as update_at_append [of "map (blink_at m) pre" w "blink_at m d" f "map (blink_at m) post"] by (simp add: blink_sel)
qed

lemma sync_ok:
  assumes "blink_ok L base as m"
  shows "case (first_at (ucast (drop_bit 16 arg)) m as, first_at (ucast (arg AND 0xFFFF)) m as) of
      (Some s, Some d) \<Rightarrow> \<exists>m'. mp1_ioctl_sync L arg m = Some (0, m') \<and> blink_ok L base as m' \<and>
        map (blink_at m') as = update_at (ucast (arg AND 0xFFFF)) (synced (blink_at m s)) (map (blink_at m) as) \<and>
        shown_chars L base m' = (shown_chars L base m)[unat (load16 m d) := b_off_char (blink_at m d)] \<and> (\<forall>x. off_blink L base x \<longrightarrow> m' x = m x)
    | _ \<Rightarrow> mp1_ioctl_sync L arg m = Some (-1, m)"
proof -
  let ?from = "first_at (ucast (drop_bit 16 arg)) m as" and ?to = "first_at (ucast (arg AND 0xFFFF)) m as"
  have nz: "a \<noteq> 0" if "first_at w m as = Some a" for w a using blink_node [OF assms] first_atD [OF that] by blast
  show ?thesis
  proof (cases "?from = None \<or> ?to = None")
    case True
    then show ?thesis
      using find_helper_ok [OF assms, of "drop_bit 16 arg"] find_helper_ok [OF assms, of "arg AND 0xFFFF"]
      by (auto simp: mp1_ioctl_sync_def dest: nz split: option.splits)
  next
    case False
    then obtain s d where sd: "?from = Some s" "?to = Some d" by auto
    have dd: "d \<in> set as" "s \<in> set as" "load16 m d < 2000" "d \<noteq> 0" "s \<noteq> 0" "d \<in> slots L" "s \<in> slots L"
      using first_atD [OF sd(1)] first_atD [OF sd(2)] blink_node [OF assms, of d] blink_node [OF assms, of s] by blast+
    let ?n = "sync_node s d m"
    have ap: "s = d \<or> apart s 16 d 16" using slot_apart [OF dd(7,6)] by blast
    note sn = sync_node [OF ap, of m]
    have l: "load16 ?n d = load16 m d" "?n (d + 3) = b_off_char (blink_at m d)" using blink_eqD [OF sn(1)] by (simp_all add: synced_def blink_sel)
    note up = node_update_ok [OF assms dd(1) sn(2,3) l(1)]
    have r: "blink_room L base" and base: "load32 ?n (vmem_base L) = base" and dist: "distinct as" using up(1) by (simp_all add: blink_ok_def nodes_def)
    let ?k = "unat (load16 m d)" and ?c = "b_off_char (blink_at m d)"
    let ?m = "?n(scr L base ?k := ?c)"
    have k: "?k < 2000" using dd(3) by (simp add: word_less_nat_alt)
    have "\<not> bit (?n (d + 10) AND 1) 7" by (simp add: bit_simps)
    then have "mp1_ioctl_sync L arg m = Some (0, ?m)"
      using find_helper_ok [OF assms, of "drop_bit 16 arg"] find_helper_ok [OF assms, of "arg AND 0xFFFF"] sd dd(4,5) poke_scr [OF base] l
      unfolding mp1_ioctl_sync_def by (simp add: Let_def sync_node_def)
    moreover have same: "?m x = ?n x" if "own L x" for x using that k r by (auto simp: blink_room_def)
    have "map (blink_at ?n) as = update_at (ucast (arg AND 0xFFFF)) (synced (blink_at m s)) (map (blink_at m) as)"
      by (rule map_first_at [OF sd(2) dist]) (simp_all add: up(2) sn(1))
    then have "map (blink_at ?m) as = update_at (ucast (arg AND 0xFFFF)) (synced (blink_at m s)) (map (blink_at m) as)"
      using blink_ok_own(2) [OF up(1), of ?m] same by simp
    moreover have "shown_chars L base ?m = (shown_chars L base m)[?k := ?c]" using shown_scr [OF r k] shown_own [OF r, of ?n m] up(3) by simp
    moreover have "?m x = m x" if "off_blink L base x" for x using that up(3) k by (auto simp: off_blink_def)
    ultimately have "\<exists>m'. mp1_ioctl_sync L arg m = Some (0, m') \<and> blink_ok L base as m' \<and>
        map (blink_at m') as = update_at (ucast (arg AND 0xFFFF)) (synced (blink_at m s)) (map (blink_at m) as) \<and>
        shown_chars L base m' = (shown_chars L base m)[?k := ?c] \<and> (\<forall>x. off_blink L base x \<longrightarrow> m' x = m x)"
      using blink_ok_own(1) [OF up(1), of ?m] same by (intro exI [of _ ?m] conjI) (assumption | simp)+
    then show ?thesis using sd by simp
  qed
qed

section \<open>Lookup\<close>

text \<open>The caller's structure and the two bytes on the stack lie outside everything the list and the screen use.\<close>

definition find_room :: "blink_vars \<Rightarrow> u32 \<Rightarrow> u32 \<Rightarrow> bool" where
  "find_room L base arg \<longleftrightarrow> apart (find_tmp L) 2 arg 2 \<and> (\<forall>x. within (find_tmp L) 2 x \<or> within arg 16 x \<longrightarrow> off_blink L base x)"

lemma find_ok:
  assumes "blink_ok L base as m" and "find_room L base arg"
  shows "\<exists>r m'. mp1_ioctl_find L arg m = Some (r, m') \<and> blink_ok L base as m' \<and> map (blink_at m') as = map (blink_at m) as \<and>
    (case first_at (load16 m arg) m as of None \<Rightarrow> r = -1 | Some a \<Rightarrow> r = 0 \<and> blink_at m' arg = blink_at m a) \<and>
    (\<forall>x. \<not> within (find_tmp L) 2 x \<longrightarrow> \<not> within arg 16 x \<longrightarrow> m' x = m x)"
proof -
  let ?t = "find_tmp L"
  let ?n = "blit m ?t arg 2"
  have off: "\<not> within ?t 2 x" "\<not> within arg 16 x" if "own L x" for x using assms(2) that by (auto simp: find_room_def off_blink_def)
  have c: "ece391_memcpy ?t arg 2 m = (0, ?n)" using memcpy_eq [of ?t 2 arg m] assms(2) by (simp add: find_room_def)
  have w: "load16 ?n ?t = load16 m arg" using blit_offset [of 0 2 m ?t arg] blit_offset [of 1 2 m ?t arg] by (simp add: load16_def)
  have out: "?n x = m x" if "\<not> within ?t 2 x" for x using that by (simp add: blit_def)
  note n = blink_ok_own [OF assms(1), of ?n]
  have ok: "blink_ok L base as ?n" "map (blink_at ?n) as = map (blink_at m) as" using n out off(1) by blast+
  have f: "first_at v ?n as = first_at v m as" for v
  proof -
    have "load16 ?n a = load16 m a" if "a \<in> set as" for a using ok(2) that blink_eqD(1) [of ?n a "blink_at m a"] by (auto simp: blink_sel)
    then show ?thesis unfolding first_at_def by (intro find_cong) auto
  qed
  have h: "mp1_find_helper L (ucast (load16 m arg)) ?n = Some (case first_at (load16 m arg) m as of Some a \<Rightarrow> a | None \<Rightarrow> 0)"
    using find_helper_ok [OF ok(1), of "ucast (load16 m arg)"] f by (simp add: unsigned_ucast_eq take_bit_word_eq_self)
  show ?thesis
  proof (cases "first_at (load16 m arg) m as")
    case None
    then show ?thesis using h ok out by (simp add: mp1_ioctl_find_def c w)
  next
    case (Some a)
    have a: "a \<in> set as" "a \<in> slots L" "a \<noteq> 0" using first_atD [OF Some] blink_node [OF assms(1)] by blast+
    let ?m = "blit ?n arg a 16"
    have "apart arg 16 a 16" using off(2) slot_within [OF a(2)] by (auto simp: apart_def own_def)
    then have "ece391_memcpy arg a 16 ?n = (0, ?m)" using memcpy_eq [of arg 16 a ?n] by simp
    then have "mp1_ioctl_find L arg m = Some (0, ?m)" using h Some a(3) by (simp add: mp1_ioctl_find_def c w)
    moreover have o: "?m x = ?n x" if "\<not> within arg 16 x" for x using that by (simp add: blit_def)
    have "blink_ok L base as ?m" "map (blink_at ?m) as = map (blink_at m) as" using blink_ok_own [OF ok(1), of ?m] o off(2) ok(2) by auto
    moreover have "blink_at ?m arg = blink_at m a" using ok(2) a(1) blink_at_blit [of ?n arg a] by auto
    ultimately show ?thesis using Some o out by auto
  qed
qed

end
