(* ===== verification/BlinkRun.thy ===== *)
theory BlinkRun
  imports BlinkSync
begin

text \<open>
  The blinking characters as a machine: every operation refines the corresponding step of an abstract machine on a list of blinks
  and the characters of the screen, and every sequence of operations keeps the list well-formed.
\<close>

unbundle bit_operations_syntax

section \<open>Operations\<close>

datatype blink_op = Add u32 | Remove u32 | Find u32 | Sync u32 | Tick

definition run_op :: "blink_vars \<Rightarrow> blink_op \<Rightarrow> mem \<Rightarrow> (int \<times> mem) option" where
  "run_op L op m =
     (case op of Add arg \<Rightarrow> mp1_ioctl L arg 0 m | Remove arg \<Rightarrow> mp1_ioctl L arg 1 m | Find arg \<Rightarrow> mp1_ioctl L arg 2 m | Sync arg \<Rightarrow> mp1_ioctl L arg 3 m
      | Tick \<Rightarrow> map_option (Pair 0) (mp1_rtc_tasklet L m))"

text \<open>Arguments the program may pass: a structure apart from the stack of the operation, and no blink at location 0.\<close>

definition allowed :: "blink_vars \<Rightarrow> u32 \<Rightarrow> mem \<Rightarrow> blink_op \<Rightarrow> bool" where
  "allowed L base m op =
     (case op of Add arg \<Rightarrow> tmp_ok L base arg \<and> load16 m arg \<noteq> 0 | Find arg \<Rightarrow> find_room L base arg | _ \<Rightarrow> True)"

text \<open>The abstract machine: the result, the list and the screen.\<close>

definition spec_op :: "mem \<Rightarrow> blink_op \<Rightarrow> blink list \<times> byte list \<Rightarrow> int \<times> blink list \<times> byte list" where
  "spec_op m op = (\<lambda>(bs, cs).
     let at = (\<lambda>w. find (\<lambda>b. b_location b = w) bs) in
     case op of
       Add arg \<Rightarrow>
         let b = blink_at m arg in
         if 2000 \<le> b_location b \<or> length bs = 2000 then (-1, bs, cs) else (0, started b # bs, cs[unat (b_location b) := b_on_char b])
     | Remove arg \<Rightarrow> if at (ucast arg) = None then (-1, bs, cs) else (0, remove_at (ucast arg) bs, cs)
     | Find arg \<Rightarrow> (if at (load16 m arg) = None then -1 else 0, bs, cs)
     | Sync arg \<Rightarrow>
         (case (at (ucast (drop_bit 16 arg)), at (ucast (arg AND 0xFFFF))) of
            (Some c, Some d) \<Rightarrow> (0, update_at (ucast (arg AND 0xFFFF)) (synced c) bs, cs[unat (b_location d) := b_off_char d])
          | _ \<Rightarrow> (-1, bs, cs))
     | Tick \<Rightarrow> (0, ticks bs cs))"

lemma find_first_at: "find (\<lambda>b. b_location b = w) (map (blink_at m) as) = map_option (blink_at m) (first_at w m as)"
  unfolding first_at_def by (induction as) (simp_all add: blink_sel)

lemma shown_off:
  assumes "\<And>x. \<not> P x \<Longrightarrow> m' x = m x" and "\<And>x. P x \<Longrightarrow> off_blink L base x"
  shows "shown_chars L base m' = shown_chars L base m"
proof -
  have "m' (scr L base k) = m (scr L base k)" if "k < 2000" for k using assms that by (auto simp: off_blink_def)
  then show ?thesis by (simp add: shown_chars_def)
qed

definition refines :: "blink_vars \<Rightarrow> u32 \<Rightarrow> u32 list \<Rightarrow> mem \<Rightarrow> blink_op \<Rightarrow> bool" where
  "refines L base as m op \<longleftrightarrow> (\<exists>r m' as'. run_op L op m = Some (r, m') \<and> blink_ok L base as' m' \<and>
     (r, map (blink_at m') as', shown_chars L base m') = spec_op m op (map (blink_at m) as, shown_chars L base m))"

lemma refinesI:
  assumes "run_op L op m = Some (r, m')" and "blink_ok L base as' m'"
    and "spec_op m op (map (blink_at m) as, shown_chars L base m) = (r, map (blink_at m') as', shown_chars L base m')"
  shows "refines L base as m op"
  using assms unfolding refines_def by metis

lemma refines_add:
  assumes "blink_ok L base as m" and "tmp_ok L base arg" and "load16 m arg \<noteq> 0"
  shows "refines L base as m (Add arg)"
proof (cases "2000 \<le> load16 m arg \<or> length as = 2000")
  case True
  then obtain m' where m': "mp1_ioctl_add L arg m = Some (-1, m')" "\<And>x. \<not> within (add_tmp L) 16 x \<Longrightarrow> m' x = m x"
    using add_ok [OF assms(1,2)] by auto
  have off: "off_blink L base x" if "within (add_tmp L) 16 x" for x using assms(2) that by (simp add: tmp_ok_def)
  have "blink_ok L base as m'" "map (blink_at m') as = map (blink_at m) as"
    using blink_ok_own [OF assms(1), of m'] m'(2) off by (auto simp: off_blink_def)
  moreover have "shown_chars L base m' = shown_chars L base m" by (rule shown_off [of "within (add_tmp L) 16"]) (use m'(2) off in auto)
  moreover have "run_op L (Add arg) m = Some (-1, m')" using m'(1) by (simp add: run_op_def mp1_ioctl_def)
  ultimately show ?thesis by (intro refinesI [of L "Add arg" m "-1" m' base as]) (use True in \<open>simp_all add: spec_op_def blink_sel\<close>)
next
  case False
  obtain a m' where "mp1_ioctl_add L arg m = Some (0, m')" "load16 m arg \<noteq> 0 \<longrightarrow> blink_ok L base (a # as) m'"
    "map (blink_at m') (a # as) = started (blink_at m arg) # map (blink_at m) as"
    "shown_chars L base m' = (shown_chars L base m)[unat (load16 m arg) := m (arg + 2)]"
    using add_ok [OF assms(1,2), unfolded if_not_P [OF False]] by (elim exE conjE) (rule that)
  then show ?thesis using False assms(3)
    by (intro refinesI [of L "Add arg" m 0 m' base "a # as"]) (simp_all add: spec_op_def blink_sel run_op_def mp1_ioctl_def del: list.map)
qed

lemma refines_other:
  assumes "blink_ok L base as m"
  shows "refines L base as m (Remove arg)" "refines L base as m (Sync arg)" "refines L base as m Tick"
proof -
  have r: "blink_room L base" using assms by (simp add: blink_ok_def)
  show "refines L base as m (Remove arg)"
  proof (cases "first_at (ucast arg) m as")
    case None
    then have "run_op L (Remove arg) m = Some (-1, m)" using remove_ok [OF assms, of arg] by (simp add: run_op_def mp1_ioctl_def)
    then show ?thesis using assms by (rule refinesI) (simp add: spec_op_def find_first_at None)
  next
    case (Some a)
    obtain m' as' where m': "mp1_ioctl_remove L arg m = Some (0, m')" "blink_ok L base as' m'"
      "map (blink_at m') as' = remove_at (ucast arg) (map (blink_at m) as)" "\<forall>x. \<not> own L x \<longrightarrow> m' x = m x"
      using remove_ok [OF assms, of arg] Some by auto
    have "shown_chars L base m' = shown_chars L base m" using shown_own [OF r, of m' m] m'(4) by blast
    moreover have "run_op L (Remove arg) m = Some (0, m')" using m'(1) by (simp add: run_op_def mp1_ioctl_def)
    ultimately show ?thesis using m'(2,3) by (intro refinesI [of L _ m 0 m' base as']) (simp_all add: spec_op_def find_first_at Some)
  qed
  show "refines L base as m (Sync arg)"
  proof (cases "first_at (ucast (drop_bit 16 arg)) m as = None \<or> first_at (ucast (arg AND 0xFFFF)) m as = None")
    case True
    then have "run_op L (Sync arg) m = Some (-1, m)" using sync_ok [OF assms, of arg] by (auto simp: run_op_def mp1_ioctl_def split: option.splits)
    then show ?thesis using assms by (rule refinesI) (use True in \<open>auto simp: spec_op_def find_first_at split: option.splits\<close>)
  next
    case False
    then obtain s d where sd: "first_at (ucast (drop_bit 16 arg)) m as = Some s" "first_at (ucast (arg AND 0xFFFF)) m as = Some d" by auto
    obtain m' where m': "mp1_ioctl_sync L arg m = Some (0, m')" "blink_ok L base as m'"
      "map (blink_at m') as = update_at (ucast (arg AND 0xFFFF)) (synced (blink_at m s)) (map (blink_at m) as)"
      "shown_chars L base m' = (shown_chars L base m)[unat (load16 m d) := b_off_char (blink_at m d)]"
      using sync_ok [OF assms, of arg] sd by auto
    moreover have "run_op L (Sync arg) m = Some (0, m')" using m'(1) by (simp add: run_op_def mp1_ioctl_def)
    ultimately show ?thesis by (intro refinesI [of L _ m 0 m' base as]) (simp_all add: spec_op_def find_first_at sd blink_sel(1))
  qed
  obtain m' where m': "mp1_rtc_tasklet L m = Some m'" "blink_ok L base as m'"
    "(map (blink_at m') as, shown_chars L base m') = ticks (map (blink_at m) as) (shown_chars L base m)"
    using tasklet_ok [OF assms] by blast
  then show "refines L base as m Tick" by (intro refinesI [of L _ m 0 m' base as]) (simp_all add: run_op_def spec_op_def)
qed

lemma refines_find:
  assumes "blink_ok L base as m" and "find_room L base arg"
  shows "refines L base as m (Find arg)"
proof -
  obtain r m' where m': "mp1_ioctl_find L arg m = Some (r, m')" "blink_ok L base as m'" "map (blink_at m') as = map (blink_at m) as"
    "case first_at (load16 m arg) m as of None \<Rightarrow> r = -1 | Some a \<Rightarrow> r = 0 \<and> blink_at m' arg = blink_at m a"
    "\<forall>x. \<not> within (find_tmp L) 2 x \<longrightarrow> \<not> within arg 16 x \<longrightarrow> m' x = m x"
    using find_ok [OF assms] by blast
  have "shown_chars L base m' = shown_chars L base m"
    by (rule shown_off [of "\<lambda>x. within (find_tmp L) 2 x \<or> within arg 16 x"]) (use m'(5) assms(2) in \<open>auto simp: find_room_def\<close>)
  moreover have "run_op L (Find arg) m = Some (r, m')" using m'(1) by (simp add: run_op_def mp1_ioctl_def)
  moreover have "r = (if first_at (load16 m arg) m as = None then -1 else 0)" using m'(4) by (simp split: option.splits)
  ultimately show ?thesis using m'(2,3) by (intro refinesI [of L _ m r m' base as]) (simp_all add: spec_op_def find_first_at)
qed

lemma refines_all: "blink_ok L base as m \<Longrightarrow> allowed L base m op \<Longrightarrow> refines L base as m op"
  using refines_add refines_other refines_find by (cases op) (auto simp: allowed_def)

section \<open>Every sequence of operations\<close>

text \<open>The memories the program can reach: an operation, or a store of the program itself outside the variables of the list.\<close>

inductive blink_reach :: "blink_vars \<Rightarrow> u32 \<Rightarrow> mem \<Rightarrow> mem \<Rightarrow> bool" for L base m0 where
  start: "blink_reach L base m0 m0"
| operate: "blink_reach L base m0 m \<Longrightarrow> allowed L base m op \<Longrightarrow> run_op L op m = Some (r, m') \<Longrightarrow> blink_reach L base m0 m'"
| store: "blink_reach L base m0 m \<Longrightarrow> (\<And>x. own L x \<Longrightarrow> m' x = m x) \<Longrightarrow> blink_reach L base m0 m'"

lemma blink_reach_ok:
  assumes "blink_reach L base m0 m" and "\<exists>as. blink_ok L base as m0"
  shows "\<exists>as. blink_ok L base as m"
  using assms
proof (induction rule: blink_reach.induct)
  case start
  then show ?case by simp
next
  case (operate m op r m')
  then obtain as where "blink_ok L base as m" by blast
  then have "refines L base as m op" using refines_all operate.hyps(2) by blast
  then show ?case using operate.hyps(3) by (auto simp: refines_def)
next
  case (store m m')
  then obtain as where "blink_ok L base as m" by blast
  then show ?case using blink_ok_own(1) store.hyps(2) by blast
qed

text \<open>With the array cleared and the head pointer null, the list is empty.\<close>

lemma blink_ok_empty:
  assumes "blink_room L base" and "load32 m (vmem_base L) = base" and "load32 m (list_head L) = 0" and "\<And>a. within (blink_array L) 32000 a \<Longrightarrow> m a = 0"
  shows "blink_ok L base [] m"
proof -
  have "load16 m a = 0" if a: "a \<in> slots L" for a
  proof -
    have "within a 16 (a + of_nat 0)" "within a 16 (a + of_nat 1)" by (subst within_offset; simp)+
    then have "m a = 0" "m (a + 1) = 0" using slot_within [OF a] assms(4) by simp_all
    then show ?thesis by (simp add: load16_def)
  qed
  then show ?thesis using assms by (simp add: blink_ok_def nodes_def)
qed

section \<open>Location 0\<close>

text \<open>Why blinks at location 0 are left out: \<open>mp1_malloc\<close> takes their structure for a free one.  The next addition at location 0 reuses it and links it to
  itself, and the tasklet follows this link for ever.\<close>

definition self_linked :: "blink_vars \<Rightarrow> u32 \<Rightarrow> u32 \<Rightarrow> mem \<Rightarrow> bool" where
  "self_linked L base a m \<longleftrightarrow> blink_room L base \<and> a \<in> slots L \<and> load32 m (vmem_base L) = base \<and> load16 m a < 2000 \<and> next_of m a = a"

lemma self_linked_tick:
  assumes "self_linked L base a m"
  shows "self_linked L base a (tick_node L a m)"
proof -
  note c = assms [unfolded self_linked_def]
  have r: "blink_room L base" "load32 m (vmem_base L) = base" "a \<in> slots L" "load16 m a < 2000" using c by blast+
  note t = tick_node_spec [OF r]
  have k: "unat (load16 m a) < 2000" using r(4) by (simp add: word_less_nat_alt)
  have "load32 (tick_node L a m) (vmem_base L) = load32 m (vmem_base L)"
  proof (rule word_at.local)
    fix x assume x: "within (vmem_base L) 4 x"
    then have "x \<noteq> scr L base (unat (load16 m a))" using r(1) k by (auto simp: blink_room_def own_def)
    then show "tick_node L a m x = m x" using t(4) slot_off_vars [OF r(1,3)] x by blast
  qed
  moreover have "load16 (tick_node L a m) a = load16 m a" using blink_eqD(1) [OF t(1)] by (simp add: blink_sel)
  ultimately show ?thesis using c t(2) by (simp add: self_linked_def)
qed

lemma tasklet_not_cycle:
  assumes "tasklet_loop L a m = Some y"
  shows "\<not> self_linked L base a m"
proof (rule tasklet_loop.raw_induct [where P = "\<lambda>L a m _. \<not> self_linked L base a m", OF _ assms])
  fix L a m y and f :: "blink_vars \<Rightarrow> u32 \<Rightarrow> mem \<Rightarrow> mem option"
  assume IH: "\<And>L a m y. f L a m = Some y \<Longrightarrow> \<not> self_linked L base a m"
    and body: "(if a = 0 then Some m
      else
        let m = movw m (a + 8) (load16 m (a + 8) - 1) in
        if 0 < sint (load16 m (a + 8)) then f L (load32 m (a + 12)) m
        else
          let eax = push_bit 1 (ucast (load16 m a));
              on = load16 m (a + 10) AND 1 \<noteq> 0;
              m = (if on then mp1_poke L (m (a + 3)) eax m else mp1_poke L (m (a + 2)) eax m);
              dx = (if on then load16 m (a + 6) else load16 m (a + 4));
              m = movw m (a + 8) dx;
              m = movw m (a + 10) (load16 m (a + 10) XOR 1)
          in f L (load32 m (a + 12)) m) = Some y"
  show "\<not> self_linked L base a m"
  proof
    assume c: "self_linked L base a m"
    then have a: "a \<noteq> 0" using slot_nonzero by (auto simp: self_linked_def)
    have "f L (next_of (tick_node L a m) a) (tick_node L a m) = Some y"
      using body a by (simp add: tick_node_def next_of_def Let_def split: if_splits)
    moreover have t: "self_linked L base a (tick_node L a m)" by (rule self_linked_tick [OF c])
    then have "next_of (tick_node L a m) a = a" by (simp add: self_linked_def)
    ultimately show False using IH [of L a "tick_node L a m" y] t by simp
  qed
qed

text \<open>An addition at location 0 takes the first structure when that looks free, and leaves it looking free.\<close>

lemma add_at_zero:
  assumes "blink_room L base" and "load32 m (vmem_base L) = base" and "load16 m (slot L 0) = 0" and "tmp_ok L base arg" and "load16 m arg = 0"
  shows "\<exists>m'. run_op L (Add arg) m = Some (0, m') \<and> load32 m' (vmem_base L) = base \<and> load16 m' (slot L 0) = 0 \<and> load32 m' (list_head L) = slot L 0 \<and>
    next_of m' (slot L 0) = load32 m (list_head L)"
proof -
  let ?a = "slot L 0" and ?n = "prepared L arg m"
  have a: "?a \<in> slots L" "?a \<noteq> 0" using slot_nonzero [OF assms(1)] by (auto simp: slots_def)
  have own: "\<not> within (add_tmp L) 16 x" if "own L x" for x using assms(4) that by (auto simp: tmp_ok_def off_blink_def)
  have n: "?n x = m x" if "own L x" for x using prepared(2) own [OF that] by blast
  have ln: "load32 ?n (vmem_base L) = base" "load32 ?n (list_head L) = load32 m (list_head L)" "load16 ?n ?a = 0"
    using word_at.local [of "vmem_base L" ?n m] word_at.local [of "list_head L" ?n m] array_same(3) [OF _ a(1), of ?n m] n assms(2,3) by (auto simp: own_def)
  have "mp1_malloc L ?n = ?a" using ln(3) by (simp add: mp1_malloc_def malloc_loop.simps slot_def)
  then have add: "run_op L (Add arg) m = Some (0, insert_node L ?a ?n)"
    using add_steps [OF assms(4), of m] assms(5) a(2) by (simp add: run_op_def mp1_ioctl_def Let_def)
  have "apart ?a 16 (add_tmp L) 16" using own slot_within [OF a(1)] by (auto simp: apart_def own_def)
  then have cp: "ece391_memcpy ?a (add_tmp L) 16 ?n = (0, blit ?n ?a (add_tmp L) 16)" using memcpy_eq [of ?a 16 "add_tmp L" ?n] by simp
  let ?c = "blit ?n ?a (add_tmp L) 16"
  define l where "l = link_front L ?a ?c"
  have "changed ?a ?n ?c" by (simp add: changed_def blit_def)
  note ch = slot_change [OF assms(1) a(1) this]
  let ?k = "store32 ?c (?a + 12) (load32 ?c (list_head L))"
  note st = store_after [OF assms(1) a(1), where m = ?c and v = "load32 ?c (list_head L)"] and hd = store_head [OF assms(1), where m = ?k and v = ?a]
  have l: "l = store32 ?k (list_head L) ?a" by (simp add: l_def link_front_def)
  have "blink_at l ?a = started (blink_at m arg)" using hd(1) [OF a(1)] st(1) [OF a(1)] blink_at_blit [of ?n ?a "add_tmp L"] prepared(1) by (simp add: l)
  from blink_eqD(1) [OF this] have w: "load16 l ?a = 0" using assms(5) by (simp add: started_def blink_sel)
  have v: "load32 l (vmem_base L) = base" "load32 l (list_head L) = ?a" "next_of l ?a = load32 m (list_head L)"
    using hd(1) [OF a(1)] hd(2) st(1) [OF a(1)] st(2) ch(2,3) ln by (simp_all add: l)
  let ?m = "l(scr L base 0 := l (?a + 2))"
  have ins: "insert_node L ?a ?n = ?m" using poke_scr [OF v(1), of "l (?a + 2)" 0] by (simp add: insert_node_def cp l_def [symmetric] w)
  have same: "?m x = l x" if "own L x" for x using that assms(1) by (auto simp: blink_room_def)
  have "load32 ?m (vmem_base L) = base" "load32 ?m (list_head L) = ?a" "load16 ?m ?a = 0" "next_of ?m ?a = load32 m (list_head L)"
    using word_at.local [of "vmem_base L" ?m l] word_at.local [of "list_head L" ?m l] array_same(2,3) [OF _ a(1), of ?m l] same v w by (auto simp: own_def)
  then show ?thesis using add unfolding ins by blast
qed

lemma location_zero_loops:
  assumes "blink_room L base" and "load32 m (vmem_base L) = base" and "load16 m (slot L 0) = 0"
    and "tmp_ok L base arg" and "load16 m arg = 0" and "run_op L (Add arg) m = Some (r, m1)"
    and "tmp_ok L base arg'" and "load16 m1 arg' = 0" and "run_op L (Add arg') m1 = Some (r', m2)"
  shows "r = 0 \<and> r' = 0 \<and> mp1_rtc_tasklet L m2 = None"
proof -
  note one = add_at_zero [OF assms(1-5)]
  have m1: "load32 m1 (vmem_base L) = base" "load16 m1 (slot L 0) = 0" "load32 m1 (list_head L) = slot L 0" "r = 0" using one assms(6) by auto
  from add_at_zero [OF assms(1) m1(1,2) assms(7,8)] assms(9) m1(3)
  have m2: "load32 m2 (vmem_base L) = base" "load16 m2 (slot L 0) = 0" "load32 m2 (list_head L) = slot L 0" "next_of m2 (slot L 0) = slot L 0" "r' = 0" by auto
  have "slot L 0 \<in> slots L" by (simp add: slots_def)
  then have "self_linked L base (slot L 0) m2" using assms(1) m2 by (simp add: self_linked_def)
  then have "tasklet_loop L (slot L 0) m2 = None" using tasklet_not_cycle [of L "slot L 0" m2 _ base] by fastforce
  then show ?thesis using m1(4) m2(3,5) by (simp add: mp1_rtc_tasklet_def)
qed

section \<open>A sample layout\<close>

definition blink_demo :: blink_vars where
  "blink_demo = \<lparr>list_head = 0x08050000, vmem_base = 0x08050010, blink_array = 0x08051000, add_tmp = 0x083FFF00, find_tmp = 0x083FFE00,
     screen_of = (\<lambda>a. a - 0x08400000 + 0xB8000)\<rparr>"

text \<open>Empty list, and at \<open>0x083FFC00\<close> a structure for location 40 with the characters \<open>A\<close> and \<open>B\<close>.\<close>

definition blink_demo_mem :: mem where
  "blink_demo_mem = poke (store32 (\<lambda>_. 0) 0x08050010 0x08400000) 0x083FFC00 [40, 0, 65, 66, 3, 0, 2, 0]"

lemma scr_demo: "scr blink_demo 0x08400000 k = 0xB8000 + of_nat (2 * k)"
  by (simp add: scr_def blink_demo_def)

lemma scr_demo_vram: "k < 2000 \<Longrightarrow> within 0xB8000 4000 (scr blink_demo 0x08400000 k)"
  unfolding scr_demo by (subst within_offset) simp_all

lemma blink_demo_off:
  assumes "separate p n 0xB8000 4000" and "separate p n 0x08051000 32000" and "separate p n 0x08050000 4" and "separate p n 0x08050010 4" and "within p n x"
  shows "off_blink blink_demo 0x08400000 x"
proof -
  have "x \<noteq> scr blink_demo 0x08400000 k" if "k < 2000" for k using scr_demo_vram [OF that] separate_within [OF assms(1,5)] by auto
  then show ?thesis using separate_within [OF assms(2,5)] separate_within [OF assms(3,5)] separate_within [OF assms(4,5)]
    by (simp add: off_blink_def own_def blink_demo_def)
qed

lemma blink_demo_room: "blink_room blink_demo 0x08400000"
  unfolding blink_room_def
proof (intro conjI allI impI)
  show "apart (blink_array blink_demo) 32000 (list_head blink_demo) 4" "apart (blink_array blink_demo) 32000 (vmem_base blink_demo) 4"
    "apart (list_head blink_demo) 4 (vmem_base blink_demo) 4"
    by (rule separate_apart, simp add: blink_demo_def separate_def)+
  show "blink_array blink_demo \<noteq> 0" "unat (blink_array blink_demo) + 32000 \<le> 4294967296" by (simp_all add: blink_demo_def)
  fix k :: nat assume "k < 2000"
  then have "within 0xB8000 4000 (scr blink_demo 0x08400000 k)" by (rule scr_demo_vram)
  then show "\<not> own blink_demo (scr blink_demo 0x08400000 k)"
    using separate_within [of "0xB8000" 4000 "0x08051000" 32000 "scr blink_demo 0x08400000 k"] separate_within [of "0xB8000" 4000 "0x08050000" 4 "scr blink_demo 0x08400000 k"]
      separate_within [of "0xB8000" 4000 "0x08050010" 4 "scr blink_demo 0x08400000 k"]
    by (simp add: own_def blink_demo_def separate_def)
next
  show "inj_on (scr blink_demo 0x08400000) {..<2000}"
  proof (rule inj_onI)
    fix i j :: nat assume "i \<in> {..<2000}" "j \<in> {..<2000}" "scr blink_demo 0x08400000 i = scr blink_demo 0x08400000 j"
    then show "i = j" using of_nat_u32_inj [of "2 * i" "2 * j"] by (simp add: scr_demo del: of_nat_mult)
  qed
qed

lemma blink_demo_zero: "\<not> within 0x08050010 4 a \<Longrightarrow> \<not> within 0x083FFC00 8 a \<Longrightarrow> blink_demo_mem a = 0"
  by (simp add: blink_demo_mem_def poke_def store32_other eval_nat_numeral)

lemma blink_demo_start:
  "load32 blink_demo_mem (vmem_base blink_demo) = 0x08400000" "load32 blink_demo_mem (list_head blink_demo) = 0"
  "within (blink_array blink_demo) 32000 a \<Longrightarrow> blink_demo_mem a = 0"
proof -
  have "load32 blink_demo_mem 0x08050010 = load32 (store32 (\<lambda>_. 0) 0x08050010 0x08400000) 0x08050010"
    unfolding blink_demo_mem_def by (rule word_at.frame_poke) (rule separate_apart, simp add: separate_def)
  then show "load32 blink_demo_mem (vmem_base blink_demo) = 0x08400000" by (simp add: blink_demo_def)
  have "load32 blink_demo_mem 0x08050000 = load32 (\<lambda>_. 0) 0x08050000"
  proof (rule word_at.local)
    fix a :: u32 assume "within 0x08050000 4 a"
    then show "blink_demo_mem a = 0"
      using separate_within [of "0x08050000" 4 "0x08050010" 4 a] separate_within [of "0x08050000" 4 "0x083FFC00" 8 a]
      by (intro blink_demo_zero) (simp_all add: separate_def)
  qed
  then show "load32 blink_demo_mem (list_head blink_demo) = 0" by (simp add: blink_demo_def load32_def join32_def)
  show "blink_demo_mem a = 0" if "within (blink_array blink_demo) 32000 a"
    using that separate_within [of "0x08051000" 32000 "0x08050010" 4 a] separate_within [of "0x08051000" 32000 "0x083FFC00" 8 a]
    by (intro blink_demo_zero) (simp_all add: blink_demo_def separate_def)
qed

lemma blink_demo_ok: "blink_ok blink_demo 0x08400000 [] blink_demo_mem"
  by (rule blink_ok_empty [OF blink_demo_room blink_demo_start])

lemma blink_demo_add:
  "blink_at blink_demo_mem 0x083FFC00 = \<lparr>b_location = 40, b_on_char = 65, b_off_char = 66, b_on_length = 3, b_off_length = 2, b_countdown = 0, b_status = 0\<rparr>"
  "allowed blink_demo 0x08400000 blink_demo_mem (Add 0x083FFC00)"
proof -
  show b: "blink_at blink_demo_mem 0x083FFC00 = \<lparr>b_location = 40, b_on_char = 65, b_off_char = 66, b_on_length = 3, b_off_length = 2, b_countdown = 0, b_status = 0\<rparr>"
    by (simp add: blink_at_def blink_demo_mem_def load16_def poke_def within_def store32_def byte_of_def)
  show "allowed blink_demo 0x08400000 blink_demo_mem (Add 0x083FFC00)"
    using blink_eqD(1) [OF b] blink_demo_off [of "0x083FFF00" 16] separate_apart [of "0x083FFF00" 16 "0x083FFC00" 16]
    by (simp add: allowed_def tmp_ok_def) (simp add: blink_demo_def separate_def)
qed

section \<open>Properties\<close>

text \<open>C10: without a blink at location 0 the list of blinking characters stays well-formed.  From the cleared array that \<open>main\<close> starts with, whatever
  sequence of additions at locations other than 0, removals, lookups, synchronisations, tasklet runs and stores of the program outside the list's variables led to
  the present memory: the pointers lead from the head through distinct structures of the array to the null pointer, these are exactly the structures in use,
  every location is on the screen, and the tasklet and every further operation but an addition at location 0 return.  The code accepts location 0, and
  there the claim does not hold: \<open>location_zero_loops\<close>.\<close>

theorem blink_list_safe:
  assumes "blink_room L base" and "load32 m0 (vmem_base L) = base" and "load32 m0 (list_head L) = 0"
    and "\<And>a. within (blink_array L) 32000 a \<Longrightarrow> m0 a = 0" and "blink_reach L base m0 m"
  shows "\<exists>as. chain m (load32 m (list_head L)) as \<and> distinct as \<and> set as \<subseteq> slots L \<and> (\<forall>a \<in> slots L. load16 m a \<noteq> 0 \<longleftrightarrow> a \<in> set as) \<and>
    (\<forall>a \<in> set as. load16 m a < 2000) \<and> mp1_rtc_tasklet L m \<noteq> None \<and> (\<forall>op. allowed L base m op \<longrightarrow> run_op L op m \<noteq> None)"
proof -
  obtain as where ok: "blink_ok L base as m" using blink_reach_ok [OF assms(5)] blink_ok_empty [OF assms(1-4)] by blast
  have "mp1_rtc_tasklet L m \<noteq> None" using tasklet_ok [OF ok] by auto
  moreover have "run_op L op m \<noteq> None" if "allowed L base m op" for op using refines_all [OF ok that] by (auto simp: refines_def)
  ultimately show ?thesis using ok by (auto simp: blink_ok_def nodes_def)
qed

theorem blink_list_safe_witness:
  "\<exists>m1 m2 as. run_op blink_demo (Add 0x083FFC00) blink_demo_mem = Some (0, m1) \<and> run_op blink_demo Tick m1 = Some (0, m2) \<and>
    as \<noteq> [] \<and> distinct as \<and> chain m2 (load32 m2 (list_head blink_demo)) as \<and> mp1_rtc_tasklet blink_demo m2 \<noteq> None \<and>
    run_op blink_demo (Remove 40) m2 \<noteq> None"
proof -
  obtain r m1 as where m1: "run_op blink_demo (Add 0x083FFC00) blink_demo_mem = Some (r, m1)" "blink_ok blink_demo 0x08400000 as m1"
    "(r, map (blink_at m1) as, shown_chars blink_demo 0x08400000 m1) = spec_op blink_demo_mem (Add 0x083FFC00) ([], shown_chars blink_demo 0x08400000 blink_demo_mem)"
    using refines_all [OF blink_demo_ok blink_demo_add(2)] by (auto simp: refines_def)
  have r: "r = 0" "map (blink_at m1) as \<noteq> []" using m1(3) by (simp_all add: spec_op_def blink_demo_add(1))
  obtain m2 where m2: "mp1_rtc_tasklet blink_demo m1 = Some m2" "blink_ok blink_demo 0x08400000 as m2" using tasklet_ok [OF m1(2)] by blast
  then have tick: "run_op blink_demo Tick m1 = Some (0, m2)" by (simp add: run_op_def)
  have al: "allowed blink_demo 0x08400000 m Tick" "allowed blink_demo 0x08400000 m (Remove 40)" for m by (simp_all add: allowed_def)
  have "blink_reach blink_demo 0x08400000 blink_demo_mem m2"
    using blink_reach.operate [OF blink_reach.operate [OF blink_reach.start blink_demo_add(2) m1(1)] al(1) tick] .
  from blink_list_safe [OF blink_demo_room blink_demo_start this] obtain bs where bs: "chain m2 (load32 m2 (list_head blink_demo)) bs" "distinct bs"
    "\<forall>a \<in> slots blink_demo. load16 m2 a \<noteq> 0 \<longleftrightarrow> a \<in> set bs" "mp1_rtc_tasklet blink_demo m2 \<noteq> None" "run_op blink_demo (Remove 40) m2 \<noteq> None"
    using al(2) by blast
  obtain a where "a \<in> set as" using r(2) by (cases as) auto
  then have "a \<in> set bs" using bs(3) blink_node [OF m2(2), of a] by blast
  then have "bs \<noteq> []" by auto
  then show ?thesis using m1(1) r(1) tick bs by blast
qed

text \<open>C11: the operations on the list, additions at location 0 apart, refine an abstract machine that works on a list of blinks and the characters of the screen.
  Adding puts the blink, switched on, in front of the list and shows its first character, or returns -1 when the location is not on the screen or all 2000
  structures are in use; removing takes out the first blink at a location; the tasklet counts every blink down and changes the character of those
  whose time is over; synchronising copies the timing and shows the off character (whatever the status is).\<close>

theorem blink_refines:
  assumes "blink_ok L base as m" and "allowed L base m op"
  shows "\<exists>r m' as'. run_op L op m = Some (r, m') \<and> blink_ok L base as' m' \<and>
    (r, map (blink_at m') as', shown_chars L base m') = spec_op m op (map (blink_at m) as, shown_chars L base m)"
  using refines_all [OF assms] by (simp add: refines_def)

theorem blink_refines_witness:
  "\<exists>m' a. run_op blink_demo (Add 0x083FFC00) blink_demo_mem = Some (0, m') \<and> blink_ok blink_demo 0x08400000 [a] m' \<and>
    b_on_char (blink_at m' a) = 65 \<and> b_countdown (blink_at m' a) = 3 \<and> shown_chars blink_demo 0x08400000 m' ! 40 = 65"
proof -
  note b = blink_demo_add(1)
  obtain r m' as' where m': "run_op blink_demo (Add 0x083FFC00) blink_demo_mem = Some (r, m')" "blink_ok blink_demo 0x08400000 as' m'"
    "(r, map (blink_at m') as', shown_chars blink_demo 0x08400000 m') = spec_op blink_demo_mem (Add 0x083FFC00) ([], shown_chars blink_demo 0x08400000 blink_demo_mem)"
    using blink_refines [OF blink_demo_ok blink_demo_add(2)] by auto
  then have "r = 0" "map (blink_at m') as' = [started (blink_at blink_demo_mem 0x083FFC00)]"
    "shown_chars blink_demo 0x08400000 m' = (shown_chars blink_demo 0x08400000 blink_demo_mem)[40 := 65]"
    by (simp_all add: spec_op_def b)
  moreover from this(2) obtain a where "as' = [a]" by (cases as') auto
  ultimately show ?thesis using m'(1,2) by (intro exI [of _ m'] exI [of _ a]) (simp add: started_def b shown_chars_def)
qed

end
