(* ===== verification/Fish.thy ===== *)
theory Fish
  imports BlinkRun UserTests
begin

text \<open>
  The program \<open>fish\<close> of \<^verbatim>\<open>src/fish/fish.c\<close>: it maps the video page, builds the list of blinking characters from two picture files and
  runs the tasklet on every clock interrupt.  The record \<open>fish\<close> holds the addresses of its variables.
\<close>

unbundle bit_operations_syntax

record fish =
  f_user :: user
  f_vars :: blink_vars
  f_file0 :: u32
  f_file1 :: u32
  f_c0 :: u32
  f_c1 :: u32
  f_frame_struct :: u32
  f_main_struct :: u32
  f_ret_val :: u32
  f_garbage :: u32

text \<open>The memory behind an address of the mapped page, as the walk of the page tables gives it.\<close>

definition visible :: "'a kernel_scheme \<Rightarrow> u32 \<Rightarrow> u32" where
  "visible s a = (case translate s a of Some (p, _, _) \<Rightarrow> p | None \<Rightarrow> a)"

definition fish_vars :: "fish \<Rightarrow> 'a mach \<Rightarrow> blink_vars" where
  "fish_vars F t = (f_vars F)\<lparr>screen_of := visible (snd t)\<rparr>"

definition fish_ioctl :: "fish \<Rightarrow> u32 \<Rightarrow> u32 \<Rightarrow> 'a mach \<Rightarrow> (int \<times> 'a mach) option" where
  "fish_ioctl F arg cmd t = map_option (\<lambda>(r, m). (r, uset m t)) (mp1_ioctl (fish_vars F t) arg cmd (umem t))"

definition fish_tasklet :: "fish \<Rightarrow> 'a mach \<Rightarrow> 'a mach option" where
  "fish_tasklet F t = map_option (\<lambda>m. uset m t) (mp1_rtc_tasklet (fish_vars F t) (umem t))"

section \<open>Building the list\<close>

text \<open>The next character of one picture, unless its line has ended.\<close>

definition next_char :: "fish \<Rightarrow> int \<Rightarrow> u32 \<Rightarrow> int \<Rightarrow> 'a mach \<Rightarrow> (int \<times> 'a mach) option" where
  "next_char F fd c eof t =
     (if umem t c \<noteq> 10 then do {
        (num_bytes, t) \<leftarrow> ece391_read (f_user F) fd c 1 t;
        if num_bytes = 0 then Some (1, ustore c 10 t) else Some (eof, t)
      } else Some (eof, t))"

text \<open>The character pair \<open>a\<close>, \<open>b\<close> of one column.\<close>

definition add_column :: "fish \<Rightarrow> int \<Rightarrow> int \<Rightarrow> byte \<Rightarrow> byte \<Rightarrow> 'a mach \<Rightarrow> 'a mach option" where
  "add_column F frow fcol a b t =
     (if a \<noteq> 32 \<and> a \<noteq> 10 \<or> b \<noteq> 32 \<and> b \<noteq> 10 then do {
        let t = ustore (f_frame_struct F + 2) (if a = 10 then 32 else a) t;
        let t = ustore (f_frame_struct F + 3) (if b = 10 then 32 else b) t;
        let t = uset (movw (umem t) (f_frame_struct F) (of_int (frow * 80 + fcol + 40))) t;
        (_, t) \<leftarrow> fish_ioctl F (f_frame_struct F) 0 t;
        Some t
      } else Some t)"

partial_function (option) frame_cols :: "fish \<Rightarrow> int \<Rightarrow> int \<Rightarrow> int \<Rightarrow> int \<Rightarrow> int \<Rightarrow> int \<Rightarrow> 'a mach \<Rightarrow> (int \<times> int \<times> 'a mach) option" where
  "frame_cols F fd0 fd1 frow fcol eof0 eof1 t = do {
     (eof0, t) \<leftarrow> next_char F fd0 (f_c0 F) eof0 t;
     (eof1, t) \<leftarrow> next_char F fd1 (f_c1 F) eof1 t;
     if umem t (f_c0 F) = 10 \<and> umem t (f_c1 F) = 10 then Some (eof0, eof1, t)
     else do {
       t \<leftarrow> add_column F frow fcol (umem t (f_c0 F)) (umem t (f_c1 F)) t;
       frame_cols F fd0 fd1 frow (fcol + 1) eof0 eof1 t
     }
   }"

text \<open>The end of a row: \<open>if (eof) { c = '\n'; ece391_close (fd); } else { c = '0'; }\<close>\<close>

definition end_row :: "fish \<Rightarrow> int \<Rightarrow> u32 \<Rightarrow> int \<Rightarrow> 'a mach \<Rightarrow> 'a mach option" where
  "end_row F fd c eof t =
     (if eof \<noteq> 0 then do { let t = ustore c 10 t; (_, t) \<leftarrow> ece391_close (f_user F) fd t; Some t } else Some (ustore c 48 t))"

partial_function (option) frame_rows :: "fish \<Rightarrow> int \<Rightarrow> int \<Rightarrow> int \<Rightarrow> int \<Rightarrow> int \<Rightarrow> 'a mach \<Rightarrow> 'a mach option" where
  "frame_rows F fd0 fd1 frow eof0 eof1 t =
     (if eof0 = 0 \<or> eof1 = 0 then do {
        (eof0, eof1, t) \<leftarrow> frame_cols F fd0 fd1 frow 0 eof0 eof1 t;
        t \<leftarrow> end_row F fd0 (f_c0 F) eof0 t;
        t \<leftarrow> end_row F fd1 (f_c1 F) eof1 t;
        frame_rows F fd0 fd1 (frow + 1) eof0 eof1 t
      } else Some t)"

text \<open>\<open>Inl v\<close>: the program halts with \<open>v\<close>.\<close>

definition add_frames :: "fish \<Rightarrow> 'a mach \<Rightarrow> ((int + unit) \<times> 'a mach) option" where
  "add_frames F t = do {
     let t = ustore (f_c0 F) 48 t;
     let t = ustore (f_c1 F) 48 t;
     let t = uset (movw (umem t) (f_frame_struct F + 4) 15) t;
     let t = uset (movw (umem t) (f_frame_struct F + 6) 15) t;
     (fd0, t) \<leftarrow> ece391_open (f_user F) (f_file0 F) t;
     if fd0 < 0 then Some (Inl (-1), t)
     else do {
       (fd1, t) \<leftarrow> ece391_open (f_user F) (f_file1 F) t;
       if fd1 < 0 then Some (Inl (-1), t)
       else do {
         t \<leftarrow> frame_rows F fd0 fd1 0 0 0 t;
         Some (Inr (), t)
       }
     }
   }"

section \<open>The program\<close>

text \<open>The mapped address, or a null pointer.\<close>

definition mp1_set_video_mode :: "fish \<Rightarrow> 'a mach \<Rightarrow> (u32 \<times> 'a mach) option" where
  "mp1_set_video_mode F t = do {
     (r, t) \<leftarrow> ece391_vidmap (f_user F) (vmem_base (f_vars F)) t;
     Some (if r = -1 then 0 else load32 (umem t) (vmem_base (f_vars F)), t)
   }"

text \<open>\<open>n\<close> turns of the loop that waits for the clock and runs the tasklet.\<close>

primrec wait_ticks :: "fish \<Rightarrow> int \<Rightarrow> nat \<Rightarrow> 'a mach \<Rightarrow> 'a mach option" where
  "wait_ticks F rtc_fd 0 t = Some t"
| "wait_ticks F rtc_fd (Suc n) t = do {
     (_, t) \<leftarrow> ece391_read (f_user F) rtc_fd (f_garbage F) 4 t;
     t \<leftarrow> fish_tasklet F t;
     wait_ticks F rtc_fd n t
   }"

definition fish_main :: "fish \<Rightarrow> 'a mach \<Rightarrow> (int \<times> 'a mach) option" where
  "fish_main F t = do {
     let t = uset (ece391_memset (blink_array (f_vars F)) 0 32000 (umem t)) t;
     (p, t) \<leftarrow> mp1_set_video_mode F t;
     if p = 0 then Some (-1, t)
     else do {
       (rtc_fd, t) \<leftarrow> ece391_open (f_user F) (u_literal (f_user F) ''rtc'') t;
       (h, t) \<leftarrow> add_frames F t;
       case h of Inl v \<Rightarrow> Some (v, t)
       | Inr _ \<Rightarrow> do {
           let t = uset (store32 (umem t) (f_ret_val F) 32) t;
           (_, t) \<leftarrow> ece391_write (f_user F) rtc_fd (f_ret_val F) 4 t;
           t \<leftarrow> wait_ticks F rtc_fd 200 t;
           let b = f_main_struct F;
           let t = ustore (b + 2) 73 t;
           let t = ustore (b + 3) 77 t;
           let t = uset (movw (umem t) (b + 4) 7) t;
           let t = uset (movw (umem t) (b + 6) 6) t;
           let t = uset (movw (umem t) b 540) t;
           (_, t) \<leftarrow> fish_ioctl F b 0 t;
           t \<leftarrow> wait_ticks F rtc_fd 200 t;
           (_, t) \<leftarrow> fish_ioctl F (push_bit 16 40 OR 540) 3 t;
           t \<leftarrow> wait_ticks F rtc_fd 200 t;
           let t = uset (movw (umem t) b 60) t;
           (_, t) \<leftarrow> fish_ioctl F 200 1 t;
           t \<leftarrow> wait_ticks F rtc_fd 2000 t;
           (_, t) \<leftarrow> ece391_close (f_user F) rtc_fd t;
           Some (0, t)
         }
     }
   }"

end
