(* ===== verification/PortIO.thy ===== *)
theory PortIO
  imports Machine
begin

text \<open>
  The rest of \<^verbatim>\<open>student-distrib/lib.h\<close>: the port operations of two and four bytes, which access that many consecutive ports in little-endian
  order, and the two macros that save and restore the flags register.  \<open>eflags\<close> is the value of the other flags, which the model does not keep.
\<close>

unbundle bit_operations_syntax

definition inw :: "device \<Rightarrow> u16 \<Rightarrow> 'a machine_scheme \<Rightarrow> u32 \<times> 'a machine_scheme" where
  "inw dev port s =
     (let (b0, s) = inb dev port s;
          (b1, s) = inb dev (port + 1) s
      in (join32 b0 b1 0 0, s))"

definition inl :: "device \<Rightarrow> u16 \<Rightarrow> 'a machine_scheme \<Rightarrow> u32 \<times> 'a machine_scheme" where
  "inl dev port s =
     (let (b0, s) = inb dev port s;
          (b1, s) = inb dev (port + 1) s;
          (b2, s) = inb dev (port + 2) s;
          (b3, s) = inb dev (port + 3) s
      in (join32 b0 b1 b2 b3, s))"

definition outw :: "u32 \<Rightarrow> u16 \<Rightarrow> 'a machine_scheme \<Rightarrow> 'a machine_scheme" where
  "outw data port s = outb (ucast (drop_bit 8 data)) (port + 1) (outb (ucast data) port s)"

definition outl :: "u32 \<Rightarrow> u16 \<Rightarrow> 'a machine_scheme \<Rightarrow> 'a machine_scheme" where
  "outl data port s =
     outb (ucast (drop_bit 24 data)) (port + 3) (outb (ucast (drop_bit 16 data)) (port + 2)
       (outb (ucast (drop_bit 8 data)) (port + 1) (outb (ucast data) port s)))"

definition cli_and_save :: "u32 \<Rightarrow> 'a machine_scheme \<Rightarrow> u32 \<times> 'a machine_scheme" where
  "cli_and_save eflags s = (if intr s then set_bit 9 eflags else unset_bit 9 eflags, cli s)"

definition restore_flags :: "u32 \<Rightarrow> 'a machine_scheme \<Rightarrow> 'a machine_scheme" where
  "restore_flags flags s = s\<lparr>intr := bit flags 9\<rparr>"

text \<open>A section between \<open>cli_and_save\<close> and \<open>restore_flags\<close> runs with interrupts disabled and leaves the interrupt flag as it was, whatever it does to the flag,
  so such sections may be nested.\<close>

lemma saved_section:
  "\<not> intr (snd (cli_and_save eflags s))" "intr (restore_flags (fst (cli_and_save eflags s)) (f (snd (cli_and_save eflags s)))) = intr s"
  by (simp_all add: cli_and_save_def restore_flags_def bit_set_bit_iff bit_unset_bit_iff)

lemma nested_sections:
  "intr (restore_flags (fst (cli_and_save e (snd (cli_and_save eflags s)))) (f (snd (cli_and_save e (snd (cli_and_save eflags s)))))) = False"
  by (subst saved_section(2)) (simp add: cli_and_save_def)

text \<open>A four-byte write is two two-byte writes, and reading ports that keep what was written gives the value back.\<close>

lemma outl_outw: "outl data port s = outw (drop_bit 16 data) (port + 2) (outw data port s)"
  by (simp add: outl_def outw_def drop_bit_drop_bit add.assoc)

definition latch :: device where
  "latch h p = foldl (\<lambda>b e. case e of Out q c \<Rightarrow> if q = p then c else b | In _ \<Rightarrow> b) 0 h"

lemma join32_ucast: "join32 (ucast v) (ucast (drop_bit 8 v)) (ucast (drop_bit 16 v)) (ucast (drop_bit 24 v)) = v"
  using join32_bytes [of v] by (simp add: byte_of_def)

lemma join32_low: "join32 (ucast v) (ucast (drop_bit 8 v)) 0 0 = take_bit 16 v"
proof (rule bit_word_eqI)
  fix n assume "n < LENGTH(32)"
  show "bit (join32 (ucast v) (ucast (drop_bit 8 v)) 0 0) n = bit (take_bit 16 v) n" by (auto simp: join32_def bit_simps)
qed

lemma inl_outl: "fst (inl latch port (outl data port s)) = data"
  by (simp add: inl_def outl_def latch_def Let_def split_beta join32_ucast)

lemma inw_outw: "fst (inw latch port (outw data port s)) = take_bit 16 data"
  by (simp add: inw_def outw_def latch_def Let_def split_beta join32_low)

end
