(* ===== verification/Spec2Isabelle.thy ===== *)
theory Spec2Isabelle
  imports Boot UserSession Fish PortIO
begin

text \<open>
  A verification development for the operating system in \<^verbatim>\<open>src/student-distrib\<close> and the programs that run on it
  (\<^verbatim>\<open>src/syscalls\<close>, \<^verbatim>\<open>src/fish\<close>): a small x86 kernel with a text console, an interrupt controller, a real-time clock, a
  keyboard with line editing, a read-only file system in a boot module, paging and up to six processes with ten
  system calls; a library of string routines and system call stubs, a dozen user programs, and the program \<open>fish\<close>, an
  animation on a linked list in assembly.

  \<^bold>\<open>The parts of the program and where they are modelled.\<close>

  \<^item> \<open>Prelude\<close>: 32-bit words, memory as a function from addresses to bytes (\<open>mem\<close>), blocks of memory (\<open>within\<close>,
    \<open>separate\<close>), little-endian words (\<open>load32\<close>, \<open>store32\<close>), byte strings.  \<open>Frame\<close> adds blocks that are apart and the
    locale \<open>local_view\<close>: something that depends on one block only is unchanged by a store outside it; it is
    interpreted for words, strings, file descriptors and process control blocks.
  \<^item> \<open>LibMem\<close>, \<open>LibString\<close>: \<^verbatim>\<open>lib.c\<close>, the memory routines (inline assembly, one definition per instruction
    sequence) and the string routines.
  \<^item> \<open>Machine\<close>: the interrupt flag, port input and output (\<^verbatim>\<open>lib.h\<close>), and waiting loops.  Output is a history
    of writes, input is a parameter \<open>device\<close>.  \<open>PortIO\<close>: the wider port operations and the macros that save the flags.
  \<^item> \<open>Console\<close>: the VGA text page of \<^verbatim>\<open>lib.c\<close> with \<open>putc\<close>, \<open>puts\<close> and \<open>printf\<close>, against an abstract terminal.
  \<^item> \<open>Pic\<close>: \<^verbatim>\<open>i8259.c\<close>.  \<open>Rtc\<close>: \<^verbatim>\<open>rtc.c\<close>.  \<open>Idt\<close>: \<^verbatim>\<open>idt.c\<close> and the gates of \<^verbatim>\<open>x86_desc.h\<close>.
  \<^item> \<open>Files\<close>, \<open>FilesDir\<close>, \<open>FilesProps\<close>, \<open>FilesTest\<close>: \<^verbatim>\<open>files.c\<close>.  The image stays in memory as it is on disk; the
    predicates \<open>mounted\<close>, \<open>directory\<close> and \<open>file_ok\<close> say when it is well-formed, \<open>file_bytes\<close> is the contents of a file.
  \<^item> \<open>Keyboard\<close>, \<open>KeyboardProps\<close>: \<^verbatim>\<open>keyboard.c\<close>, the scan-code handler and the terminal operations, against an abstract
    line editor.
  \<^item> \<open>Paging\<close>, \<open>PagingProps\<close>: \<^verbatim>\<open>mypaging.c\<close>, with the page walk of the processor (\<open>walk\<close>, \<open>translate\<close>).
  \<^item> \<open>Syscalls\<close>: \<^verbatim>\<open>systemcall.c\<close> and \<open>asm_linkage\<close> of \<^verbatim>\<open>handler.S\<close>.  \<open>Descriptors\<close> and \<open>DescriptorsProps\<close> prove the file
    calls, \<open>Processes\<close>, \<open>Execute\<close> and \<open>ExecuteProps\<close> program loading, \<open>execute\<close> and \<open>halt\<close>, \<open>Vidmap\<close> the mapping of
    video memory.
  \<^item> \<open>Kernel\<close>, \<open>KernelProps\<close>, \<open>Boot\<close>: \<open>entry\<close> of \<^verbatim>\<open>kernel.c\<close> and \<open>start\<close> of \<^verbatim>\<open>boot.S\<close>, from the magic number of the boot
    loader to the shell, with the multiboot structures as they lie in memory.
  \<^item> \<open>Talker\<close>: the locale \<open>talker\<close>, total correctness of programs that only produce output (\<open>says\<close>), with rules for sequences,
    branches and loops.  It is interpreted as \<open>printer\<close> for kernel code on the console and as \<open>tty\<close> for user programs
    that write to descriptor 1.
  \<^item> \<open>UserLib\<close>, \<open>UserTerm\<close>: \<^verbatim>\<open>ece391support.c\<close> and the stubs of \<^verbatim>\<open>ece391syscall.S\<close>.  A program is a function on
    \<open>mach\<close>, the kernel state with the interrupts still to come; a stub enters \<open>asm_linkage\<close> with the interrupt flag off and gives the
    flag back as \<^verbatim>\<open>iret\<close> does.
  \<^item> \<open>UserProgs\<close>: \<open>cat\<close>, \<open>ls\<close>, \<open>hello\<close>, \<open>testprint\<close>, \<open>counter\<close>, \<open>grep\<close> and \<open>shell\<close>.  \<open>UserTests\<close>: \<open>syserr\<close>, \<open>sigtest\<close> and
    \<open>pingpong\<close>.  \<open>UserErrors\<close>, \<open>UserCat\<close> and \<open>UserInput\<close> run \<open>syserr\<close>, \<open>cat\<close> and \<open>hello\<close> on the kernel;
    \<open>UserDemo\<close> holds the process their witnesses use.  \<open>UserShell\<close>: the shell on lines that start no program.  \<open>UserRun\<close>: the shell starts a program
    through \<open>execute\<close> and gets its process back through \<open>halt\<close>; a program is known by the contract \<open>program_shows\<close> (it returns a status,
    prints, and leaves alone what belongs to the kernel), which \<open>testprint\<close> is shown to keep.  \<open>UserSession\<close>: the theorems on sessions and their sample.
  \<^item> \<open>Blink\<close>: \<^verbatim>\<open>blink.S\<close> and the helpers of \<^verbatim>\<open>fish.c\<close> it calls, on the bytes of memory.  \<open>BlinkProps\<close>, \<open>BlinkOps\<close>, \<open>BlinkAdd\<close> and
    \<open>BlinkSync\<close> relate each operation to an abstract list of blinks, \<open>BlinkRun\<close> treats sequences of operations as an
    inductive relation.  \<open>Fish\<close>: the rest of \<^verbatim>\<open>fish.c\<close>, on the system calls.

  \<^bold>\<open>State.\<close>  Each component extends the record of the one below it: \<open>machine\<close>, \<open>console\<close>, \<open>pic\<close>, \<open>rtc\<close>, \<open>files\<close>, \<open>keyboard\<close>,
  \<open>idt_state\<close>, \<open>paging\<close>, \<open>kernel\<close>; the fields are the global variables of the C files and the registers they
  set.  Every operation is polymorphic in the rest of the record, so a driver works unchanged in the whole
  kernel.  Arrays the C code indexes are lists or blocks of memory; addresses the compiler and the linker choose (local
  buffers, tables, stack registers) are arguments, collected in the record \<open>layout\<close> for the system calls.

  \<^bold>\<open>Errors, loops and undefined behaviour.\<close>  A returned error is the value -1, as in the code.  A loop that may not
  end is a \<open>partial_function\<close> in the option type, \<open>None\<close> when it does not return; loops with a bound are
  total functions with a termination proof.  An index outside an array of the keyboard driver and a call through a null
  function pointer are \<open>None\<close> as well.  Waiting for an interrupt (\<open>rtc_read\<close>, \<open>terminal_read\<close>) consumes a list of handlers, the
  interrupts that arrive; with an empty list the wait does not return.  The only fuel is in \<open>read_all\<close>, the
  user loop of one property: one more than the length of the file is enough, and the property says so.

  \<^bold>\<open>Paging.\<close>  The kernel page and the tables are identity mapped, so \<open>mem\<close> is the memory as the kernel sees it at
  any time.  Only the 4 MB window at 128 MB differs between processes: \<open>frames\<close> is the physical memory behind it and \<open>load_cr3\<close>
  writes the window back to the frame it showed and shows the frame of the new directory, as the walk of that directory
  gives it.  Reloading \<^verbatim>\<open>cr3\<close> flushes the translations the processor has cached; \<open>vidmap\<close> adds a translation where there was
  none, which the processor does not cache.

  \<^bold>\<open>What is proved.\<close>  The properties are numbered C1 to C40 in the order of their importance; each stands after
  a text that states it.
  \<^item> The whole system: the machine boots into the shell, or refuses a boot loader that is not one; \<open>cat\<close> shows the file its
    argument names; \<open>hello\<close> greets with the name typed at the keyboard; the shell runs a stored executable from the
    typed line to the next prompt, and the transcript of a session of any number of such lines, with and without arguments, unknown and empty ones among them; which tests of \<open>syserr\<close> the kernel passes.
  \<^item> Processes: \<open>execute\<close> starts the program a command line names in its own address space, every failure of it
    returns -1, \<open>halt\<close> gives the parent back its registers, address space and memory; program memory is private.
  \<^item> Paging: the translation of every address after \<open>init_paging\<close>, \<open>create_paging\<close> and \<open>vidmap\<close>.
  \<^item> Files: lookup, reading, loading and listing deliver exactly what the image holds; \<open>open\<close>, \<open>read\<close> and
    \<open>close\<close> keep the descriptor table, and a read loop collects the whole file.
  \<^item> Keyboard and console: the driver refines a line editor, a waiting reader gets the line typed, \<open>putc\<close> refines an
    abstract terminal, \<open>printf\<close> prints the rendering of its format.
  \<^item> Blinking characters: from an initialised list every sequence of operations that adds no blink at location 0 keeps the list well-formed and
    its nodes equal to the structures in use; two additions at location 0, which the code accepts, make the tasklet run for ever; each other operation refines a step on an abstract list and the characters of the screen.
  \<^item> Devices: masks of the interrupt controller, rates and waiting of the clock, the 256 gates of the interrupt table, and that every
    exception handler, executed statement by statement among interrupts, stays in its endless loop after its message.
  \<^item> Libraries: each memory and string routine against its mathematical description, for every length, alignment
    and overlap; the user library agrees with the routines of the kernel.

  \<^bold>\<open>What is not modelled.\<close>  The loading of the global descriptor table, of the segment registers and of the stack
  pointer before \<open>entry\<close>: processor state with no counterpart in the memory the model keeps.  The kernel tests, which are commented out.
  \<^verbatim>\<open>ece391emulate.c\<close>, which replaces the stubs when a program runs on a Linux host and calls only the C library of the
  host.  Interrupts arrive only at the points where the code waits for them, and programs run with interrupts disabled as the kernel starts them.  What a child does
  between \<open>execute\<close> and \<open>halt\<close> is an argument of \<open>ece391_execute\<close>, since the model does not interpret machine code; the sample of \<open>UserSession\<close> supplies \<open>testprint\<close>.  A store to a page that is not mapped is not turned into an
  exception: each property assumes or proves where the buffers lie.  The programs \<open>ls\<close>, \<open>grep\<close>, \<open>counter\<close>, \<open>sigtest\<close>, \<open>pingpong\<close>
  and \<open>fish\<close> are modelled without a property of their own.
\<close>

end
